(* ===== verification/Kive_Prelude.thy ===== *)
theory Kive_Prelude
  imports Main "HOL-Library.Char_ord" "HOL-Library.List_Lexorder"
begin

text \<open>
  Shared vocabulary of the development: the error sentinels of
  \<^verbatim>\<open>bucket/errors.go\<close>, results of fallible Go functions, the loops that stop at the
  first error, a generic invariant principle for step relations, and the list lemmas that the
  component theories use.

  A Go function that returns \<open>(T, error)\<close> is modelled by a value of type
  \<open>'t result\<close>: \<open>Inl e\<close> is the error return, \<open>Inr x\<close> the value returned with a nil
  error. Go wraps a sentinel in a formatted message; the model keeps the sentinel (what
  \<^verbatim>\<open>errors.Is\<close> can observe) and drops the message text.
\<close>

section \<open>Errors and results\<close>

datatype kive_error =
    ErrInvalidWorkerJSON
  | ErrInvalidManifest
  | ErrInvalidJobVars
  | ErrInvalidKiveConf
  | ErrInvalidBucketConf
  | ErrUnexpectedError
  | ErrKeyNotFound
  | ErrNotInitialized
  | ErrSchemaUpgradeRequired
  | ErrSchemaTooNew
  | ErrDatabase
  | ErrNotFound
  | ErrPortCollision
  | ErrPortKeyFormat
  | ErrInvalidPortRange
  | ErrPortRangeExhausted
  | ErrInvalidManifestPort
  | ErrInvalidHookConfiguration
  | ErrInvalidHookDemand
  | ErrHookDemandVersionMismatch
  | ErrInvalidJobVersion
  | ErrInvalidVersionSpecifier
  | ErrBackwardCompatibility
  | ErrVersionRollbackNotAllowed
  | ErrCircularHookDependency
  | ErrHookFileNotFound
  | ErrInvalidJob
  | ErrInvalidJobName
  | ErrInsufficientResource
  | ErrInsufficientAllocations
  | ErrHealthCheckFailed
  | ErrUnsupportedResourceConfiguration
  | ErrRunCommand
  | ErrHookFailed
  | ErrWorkerPrerequisites
  | ErrHostPrerequisites
  | ErrBucketBusy
  | KvErrNotFound
  | KvErrNamespaceNotFound
  | KvErrStoreNotInitialized
  | ErrCancelled
  | ErrPlain

text \<open>
  After the sentinels of \<^verbatim>\<open>bucket/errors.go\<close>: the sentinels of
  \<^verbatim>\<open>kv/errors.go\<close>, a cancelled context, and an error built by
  \<^verbatim>\<open>fmt.Errorf\<close> without a sentinel.
\<close>

type_synonym 'a result = "kive_error + 'a"

named_theorems result_simps \<open>inversion rules for fallible results\<close>

definition rbind :: "'e + 'a \<Rightarrow> ('a \<Rightarrow> 'e + 'b) \<Rightarrow> 'e + 'b" where
  "rbind r f = (case r of Inl e \<Rightarrow> Inl e | Inr x \<Rightarrow> f x)"

lemma rbind_Inl [simp]: "rbind (Inl e) f = Inl e"
  by (simp add: rbind_def)

lemma rbind_Inr [simp]: "rbind (Inr x) f = f x"
  by (simp add: rbind_def)

lemma rbind_eq_Inr [result_simps]: "rbind r f = Inr y \<longleftrightarrow> (\<exists>x. r = Inr x \<and> f x = Inr y)"
  by (cases r) auto

lemma rbind_eq_Inl [result_simps]:
  "rbind r f = Inl e \<longleftrightarrow> r = Inl e \<or> (\<exists>x. r = Inr x \<and> f x = Inl e)"
  by (cases r) auto

text \<open>\<open>for _, x := range xs { y, err := f(x); if err != nil { return err }; ... }\<close>\<close>

fun rmap :: "('a \<Rightarrow> 'e + 'b) \<Rightarrow> 'a list \<Rightarrow> 'e + 'b list" where
  "rmap f [] = Inr []"
| "rmap f (x # xs) = rbind (f x) (\<lambda>y. rbind (rmap f xs) (\<lambda>ys. Inr (y # ys)))"

fun rfold :: "('s \<Rightarrow> 'a \<Rightarrow> 'e + 's) \<Rightarrow> 's \<Rightarrow> 'a list \<Rightarrow> 'e + 's" where
  "rfold f s [] = Inr s"
| "rfold f s (x # xs) = rbind (f s x) (\<lambda>s'. rfold f s' xs)"

lemma rmap_eq_Inr:
  "rmap f xs = Inr ys \<longleftrightarrow> list_all2 (\<lambda>x y. f x = Inr y) xs ys"
  by (induction xs arbitrary: ys) (auto simp: result_simps list_all2_Cons1)

lemma rmap_all_Inr: "(\<And>x. x \<in> set xs \<Longrightarrow> f x = Inr (g x)) \<Longrightarrow> rmap f xs = Inr (map g xs)"
  by (induction xs) auto

lemma rfold_append:
  "rfold f s (xs @ ys) = rbind (rfold f s xs) (\<lambda>s'. rfold f s' ys)"
  by (induction xs arbitrary: s) (auto simp: rbind_def split: sum.splits)

lemma rfold_invariant:
  assumes "rfold f s xs = Inr t" and "P s"
    and "\<And>s x s'. x \<in> set xs \<Longrightarrow> P s \<Longrightarrow> f s x = Inr s' \<Longrightarrow> P s'"
  shows "P t"
  using assms
proof (induction xs arbitrary: s)
  case Nil
  then show ?case by simp
next
  case (Cons x xs)
  then obtain s' where "f s x = Inr s'" and "rfold f s' xs = Inr t"
    by (auto simp: result_simps)
  with Cons show ?case by (metis list.set_intros)
qed

section \<open>Step relations and their invariants\<close>

text \<open>
  The state machines of the development (the semaphore coordinator, the port allocator, the
  key-value session) share one principle: what holds initially and is kept by every step holds
  in every reachable state. Each of them interprets this locale on its own step relation.
\<close>

inductive reach :: "('s \<Rightarrow> bool) \<Rightarrow> ('s \<Rightarrow> 's \<Rightarrow> bool) \<Rightarrow> 's \<Rightarrow> bool"
  for init :: "'s \<Rightarrow> bool" and step :: "'s \<Rightarrow> 's \<Rightarrow> bool" where
  reach_init: "init s \<Longrightarrow> reach init step s"
| reach_step: "reach init step s \<Longrightarrow> step s t \<Longrightarrow> reach init step t"

locale invariant_system =
  fixes init :: "'s \<Rightarrow> bool" and step :: "'s \<Rightarrow> 's \<Rightarrow> bool" and inv :: "'s \<Rightarrow> bool"
  assumes inv_init: "init s \<Longrightarrow> inv s"
    and inv_step: "inv s \<Longrightarrow> step s t \<Longrightarrow> inv t"
begin

lemma reach_inv: "reach init step s \<Longrightarrow> inv s"
  by (induction rule: reach.induct) (auto intro: inv_init inv_step)

lemma steps_inv: "step\<^sup>*\<^sup>* s t \<Longrightarrow> inv s \<Longrightarrow> inv t"
  by (induction rule: rtranclp_induct) (auto intro: inv_step)

end

section \<open>Lists\<close>

lemma set_takeWhile_dropWhile: "set (takeWhile P xs) \<union> set (dropWhile P xs) = set xs"
  by (metis set_append takeWhile_dropWhile_id)

lemma distinct_filter_partition:
  assumes "distinct xs" "distinct ys" "set ys \<subseteq> set xs"
  shows "distinct (filter (\<lambda>x. x \<in> set ys) xs) \<and> set (filter (\<lambda>x. x \<in> set ys) xs) = set ys"
  using assms by auto

lemma sorted_wrt_map_filter:
  "sorted_wrt R (map f xs) \<Longrightarrow> sorted_wrt R (map f (filter P xs))"
  by (induction xs) auto

lemma sorted_wrt_filter_mono: "sorted_wrt R xs \<Longrightarrow> sorted_wrt R (filter P xs)"
  by (induction xs) auto

lemma find_SomeD: "find P xs = Some x \<Longrightarrow> x \<in> set xs \<and> P x"
  by (induction xs) (auto split: if_splits)

lemma distinct_set_singleton: "distinct xs \<Longrightarrow> set xs = {x} \<Longrightarrow> xs = [x]"
  by (cases xs; cases "tl xs") auto

end
