(* ===== verification/Go_Strings.thy ===== *)
theory Go_Strings
  imports Kive_Prelude
begin

text \<open>
  The parts of Go's \<^verbatim>\<open>strings\<close> and \<^verbatim>\<open>strconv\<close> packages that kive's
  sources use. A Go string is a sequence of bytes, so it is a \<open>string\<close> here (a list of
  \<open>char\<close>, each one byte); Go compares strings bytewise, which is the lexicographic order of
  \<open>HOL-Library.List_Lexorder\<close> over \<open>HOL-Library.Char_ord\<close>. Go's \<open>int\<close> has 64 bits:
  it is an \<open>int\<close> here, with the range check of \<^verbatim>\<open>strconv\<close> and the wrap-around
  of \<open>+\<close> written out (\<open>in_int64\<close>, \<open>wrap64\<close>).
\<close>

section \<open>Integers of 64 bits\<close>

definition max_int64 :: int where "max_int64 = 9223372036854775807"

definition min_int64 :: int where "min_int64 = - 9223372036854775808"

definition in_int64 :: "int \<Rightarrow> bool" where
  "in_int64 v \<longleftrightarrow> min_int64 \<le> v \<and> v \<le> max_int64"

definition wrap64 :: "int \<Rightarrow> int" where
  "wrap64 v = (v - min_int64) mod 18446744073709551616 + min_int64"

lemma wrap64_in_int64: "in_int64 (wrap64 v)"
  using pos_mod_bound [of 18446744073709551616 "v - min_int64"]
    pos_mod_sign [of 18446744073709551616 "v - min_int64"]
  by (simp add: in_int64_def wrap64_def min_int64_def max_int64_def)

lemma wrap64_id: "in_int64 v \<Longrightarrow> wrap64 v = v"
  by (simp add: in_int64_def wrap64_def min_int64_def max_int64_def)

section \<open>Prefixes and suffixes\<close>

definition HasPrefix :: "string \<Rightarrow> string \<Rightarrow> bool" where
  "HasPrefix s p \<longleftrightarrow> take (length p) s = p"

definition HasSuffix :: "string \<Rightarrow> string \<Rightarrow> bool" where
  "HasSuffix s p \<longleftrightarrow> HasPrefix (rev s) (rev p)"

definition TrimPrefix :: "string \<Rightarrow> string \<Rightarrow> string" where
  "TrimPrefix s p = (if HasPrefix s p then drop (length p) s else s)"

definition TrimSuffix :: "string \<Rightarrow> string \<Rightarrow> string" where
  "TrimSuffix s p = (if HasSuffix s p then take (length s - length p) s else s)"

fun Contains :: "string \<Rightarrow> string \<Rightarrow> bool" where
  "Contains [] p = (p = [])"
| "Contains (c # s) p = (HasPrefix (c # s) p \<or> Contains s p)"

lemma HasPrefix_iff: "HasPrefix s p \<longleftrightarrow> (\<exists>r. s = p @ r)"
  unfolding HasPrefix_def by (metis append_eq_conv_conj append_take_drop_id)

lemma HasPrefix_append [simp]: "HasPrefix (p @ r) p"
  by (simp add: HasPrefix_def)

lemma HasSuffix_iff: "HasSuffix s p \<longleftrightarrow> (\<exists>r. s = r @ p)"
  unfolding HasSuffix_def HasPrefix_iff
  by (metis rev_append rev_rev_ident)

lemma TrimPrefix_append [simp]: "TrimPrefix (p @ r) p = r"
  by (simp add: TrimPrefix_def)

lemma TrimSuffix_append [simp]: "TrimSuffix (r @ p) p = r"
  by (auto simp: TrimSuffix_def HasSuffix_iff)

lemma Contains_iff: "Contains s p \<longleftrightarrow> (\<exists>a b. s = a @ p @ b)"
proof (induction s)
  case Nil
  then show ?case by auto
next
  case (Cons c s)
  have "(\<exists>a b. c # s = a @ p @ b) \<longleftrightarrow> (\<exists>b. c # s = p @ b) \<or> (\<exists>a b. s = a @ p @ b)"
    by (metis append_Cons append_self_conv2 list.exhaust list.inject)
  with Cons show ?case by (simp add: HasPrefix_iff)
qed

section \<open>Splitting and joining\<close>

fun split_on :: "char \<Rightarrow> string \<Rightarrow> string list" where
  "split_on c [] = [[]]"
| "split_on c (x # xs) =
     (if x = c then [] # split_on c xs
      else (case split_on c xs of [] \<Rightarrow> [[x]] | p # ps \<Rightarrow> (x # p) # ps))"

fun Join :: "string list \<Rightarrow> string \<Rightarrow> string" where
  "Join [] sep = []"
| "Join [x] sep = x"
| "Join (x # y # ys) sep = x @ sep @ Join (y # ys) sep"

lemma split_on_nonempty [simp]: "split_on c s \<noteq> []"
  by (cases s) (auto split: list.splits)

lemma split_on_no_sep: "c \<notin> set s \<Longrightarrow> split_on c s = [s]"
  by (induction s) auto

lemma split_on_append: "c \<notin> set a \<Longrightarrow> split_on c (a @ c # b) = a # split_on c b"
  by (induction a) auto

lemma split_on_parts: "p \<in> set (split_on c s) \<Longrightarrow> c \<notin> set p \<and> set p \<subseteq> set s"
proof (induction s arbitrary: p)
  case Nil
  then show ?case by simp
next
  case (Cons x xs)
  obtain q qs where q: "split_on c xs = q # qs" by (cases "split_on c xs") auto
  with Cons show ?case by (fastforce split: if_splits)
qed

lemma split_on_Join:
  "xs \<noteq> [] \<Longrightarrow> (\<And>x. x \<in> set xs \<Longrightarrow> c \<notin> set x) \<Longrightarrow> split_on c (Join xs [c]) = xs"
  by (induction xs "[c]" rule: Join.induct) (auto simp: split_on_no_sep split_on_append)

lemma Join_Cons: "xs \<noteq> [] \<Longrightarrow> Join (x # xs) sep = x @ sep @ Join xs sep"
  by (cases xs) auto

lemma Join_split_on: "Join (split_on c s) [c] = s"
proof (induction s)
  case Nil
  then show ?case by simp
next
  case (Cons x xs)
  obtain p ps where p: "split_on c xs = p # ps" by (cases "split_on c xs") auto
  show ?case
  proof (cases "x = c")
    case True
    with Cons show ?thesis by (simp add: Join_Cons)
  next
    case False
    with Cons p show ?thesis by (cases ps) auto
  qed
qed

section \<open>White space\<close>

text \<open>
  \<^verbatim>\<open>strings.TrimSpace\<close> removes leading and trailing runes for which
  \<^verbatim>\<open>unicode.IsSpace\<close> holds. These are the UTF-8 encodings of all of them.
\<close>

definition space_seqs :: "string list" where
  "space_seqs =
     [[CHR 0x20], [CHR 0x09], [CHR 0x0A], [CHR 0x0B], [CHR 0x0C], [CHR 0x0D],
      [CHR 0xC2, CHR 0x85], [CHR 0xC2, CHR 0xA0], [CHR 0xE1, CHR 0x9A, CHR 0x80],
      [CHR 0xE2, CHR 0x80, CHR 0x80], [CHR 0xE2, CHR 0x80, CHR 0x81],
      [CHR 0xE2, CHR 0x80, CHR 0x82], [CHR 0xE2, CHR 0x80, CHR 0x83],
      [CHR 0xE2, CHR 0x80, CHR 0x84], [CHR 0xE2, CHR 0x80, CHR 0x85],
      [CHR 0xE2, CHR 0x80, CHR 0x86], [CHR 0xE2, CHR 0x80, CHR 0x87],
      [CHR 0xE2, CHR 0x80, CHR 0x88], [CHR 0xE2, CHR 0x80, CHR 0x89],
      [CHR 0xE2, CHR 0x80, CHR 0x8A], [CHR 0xE2, CHR 0x80, CHR 0xA8],
      [CHR 0xE2, CHR 0x80, CHR 0xA9], [CHR 0xE2, CHR 0x80, CHR 0xAF],
      [CHR 0xE2, CHR 0x81, CHR 0x9F], [CHR 0xE3, CHR 0x80, CHR 0x80]]"

fun drop_first_seq :: "string list \<Rightarrow> string \<Rightarrow> string option" where
  "drop_first_seq [] s = None"
| "drop_first_seq (w # ws) s =
     (if w \<noteq> [] \<and> HasPrefix s w then Some (drop (length w) s) else drop_first_seq ws s)"

lemma drop_first_seq_shorter: "drop_first_seq ws s = Some r \<Longrightarrow> length r < length s"
proof (induction ws)
  case Nil
  then show ?case by simp
next
  case (Cons w ws)
  show ?case
  proof (cases "w \<noteq> [] \<and> HasPrefix s w")
    case True
    then have "s \<noteq> []" by (auto simp: HasPrefix_iff)
    with True Cons.prems show ?thesis by auto
  next
    case False
    with Cons show ?thesis by (simp split: if_splits)
  qed
qed

function trim_seqs :: "string list \<Rightarrow> string \<Rightarrow> string" where
  "trim_seqs ws s = (case drop_first_seq ws s of None \<Rightarrow> s | Some r \<Rightarrow> trim_seqs ws r)"
  by pat_completeness auto
termination
  by (relation "measure (\<lambda>(ws, s). length s)") (auto dest: drop_first_seq_shorter)

declare trim_seqs.simps [simp del]

definition TrimSpace :: "string \<Rightarrow> string" where
  "TrimSpace s = rev (trim_seqs (map rev space_seqs) (rev (trim_seqs space_seqs s)))"

definition plain :: "char \<Rightarrow> bool" where
  "plain c \<longleftrightarrow> (of_char c :: nat) \<in> {33..126}"

lemma drop_first_seq_suffix: "drop_first_seq ws s = Some r \<Longrightarrow> \<exists>w. s = w @ r"
  by (induction ws) (auto simp: HasPrefix_iff split: if_splits)

lemma trim_seqs_suffix: "\<exists>w. s = w @ trim_seqs ws s"
proof (induction ws s rule: trim_seqs.induct)
  case (1 ws s)
  show ?case
  proof (cases "drop_first_seq ws s")
    case None
    then show ?thesis by (simp add: trim_seqs.simps [of ws s])
  next
    case (Some r)
    with 1 obtain w where "r = w @ trim_seqs ws r" by blast
    moreover obtain v where "s = v @ r" using drop_first_seq_suffix [OF Some] by blast
    ultimately show ?thesis using Some by (metis append.assoc option.simps(5) trim_seqs.simps)
  qed
qed

lemma trim_seqs_fixed: "drop_first_seq ws (trim_seqs ws s) = None"
proof (induction ws s rule: trim_seqs.induct)
  case (1 ws s)
  then show ?case by (cases "drop_first_seq ws s") (simp_all add: trim_seqs.simps [of ws s])
qed

lemma trim_seqs_id: "drop_first_seq ws s = None \<Longrightarrow> trim_seqs ws s = s"
  by (simp add: trim_seqs.simps)

lemma drop_first_seq_None_prefix:
  "drop_first_seq ws (s @ r) = None \<Longrightarrow> drop_first_seq ws s = None"
  by (induction ws) (auto simp: HasPrefix_iff split: if_splits)

lemma TrimSpace_infix: "\<exists>a b. s = a @ TrimSpace s @ b"
proof -
  obtain a where a: "s = a @ trim_seqs space_seqs s" using trim_seqs_suffix by blast
  obtain b where "rev (trim_seqs space_seqs s) =
      b @ trim_seqs (map rev space_seqs) (rev (trim_seqs space_seqs s))"
    using trim_seqs_suffix by blast
  then have "trim_seqs space_seqs s = TrimSpace s @ rev b"
    unfolding TrimSpace_def by (metis rev_append rev_rev_ident)
  with a show ?thesis by (metis append.assoc)
qed

lemma TrimSpace_fixed:
  "drop_first_seq space_seqs (TrimSpace s) = None"
  "drop_first_seq (map rev space_seqs) (rev (TrimSpace s)) = None"
proof -
  let ?l = "trim_seqs space_seqs s"
  obtain b where "rev ?l = b @ trim_seqs (map rev space_seqs) (rev ?l)"
    using trim_seqs_suffix by blast
  then have "?l = TrimSpace s @ rev b"
    unfolding TrimSpace_def by (metis rev_append rev_rev_ident)
  moreover have "drop_first_seq space_seqs ?l = None" by (rule trim_seqs_fixed)
  ultimately show "drop_first_seq space_seqs (TrimSpace s) = None"
    by (metis drop_first_seq_None_prefix)
  show "drop_first_seq (map rev space_seqs) (rev (TrimSpace s)) = None"
    unfolding TrimSpace_def by (simp add: trim_seqs_fixed)
qed

lemma TrimSpace_id_iff:
  "TrimSpace s = s \<longleftrightarrow>
     drop_first_seq space_seqs s = None \<and> drop_first_seq (map rev space_seqs) (rev s) = None"
proof
  assume "TrimSpace s = s"
  then show "drop_first_seq space_seqs s = None \<and>
      drop_first_seq (map rev space_seqs) (rev s) = None"
    using TrimSpace_fixed [of s] by simp
next
  assume "drop_first_seq space_seqs s = None \<and>
      drop_first_seq (map rev space_seqs) (rev s) = None"
  then show "TrimSpace s = s" by (simp add: TrimSpace_def trim_seqs_id)
qed

lemma TrimSpace_idem [simp]: "TrimSpace (TrimSpace s) = TrimSpace s"
  by (simp add: TrimSpace_id_iff TrimSpace_fixed)

lemma set_TrimSpace: "set (TrimSpace s) \<subseteq> set s"
  using TrimSpace_infix [of s] by (metis Un_iff set_append subsetI)

lemma drop_first_seq_hd:
  assumes "s \<noteq> []" and "\<And>w. w \<in> set ws \<Longrightarrow> w \<noteq> [] \<Longrightarrow> hd w \<noteq> hd s"
  shows "drop_first_seq ws s = None"
  using assms
proof (induction ws)
  case Nil
  then show ?case by simp
next
  case (Cons w ws)
  have "\<not> (w \<noteq> [] \<and> HasPrefix s w)"
    using Cons.prems by (metis HasPrefix_iff hd_append2 list.set_intros(1))
  moreover have "drop_first_seq ws s = None"
    using Cons.prems by (intro Cons.IH) auto
  ultimately show ?case by auto
qed

lemma plain_not_space_hd: "plain c \<Longrightarrow> w \<in> set space_seqs \<Longrightarrow> hd w \<noteq> c"
  by (auto simp: space_seqs_def plain_def)

lemma plain_not_space_last: "plain c \<Longrightarrow> w \<in> set (map rev space_seqs) \<Longrightarrow> hd w \<noteq> c"
  by (auto simp: space_seqs_def plain_def)

lemma TrimSpace_plain:
  assumes "s \<noteq> []" and "plain (hd s)" and "plain (last s)"
  shows "TrimSpace s = s"
proof -
  have "drop_first_seq space_seqs s = None"
    using assms plain_not_space_hd by (intro drop_first_seq_hd) auto
  moreover have "drop_first_seq (map rev space_seqs) (rev s) = None"
    using assms plain_not_space_last by (intro drop_first_seq_hd) (auto simp: hd_rev)
  ultimately show ?thesis by (simp add: TrimSpace_def trim_seqs_id)
qed

lemma TrimSpace_Nil [simp]: "TrimSpace [] = []"
  by (simp add: TrimSpace_def trim_seqs_id drop_first_seq.simps space_seqs_def HasPrefix_def)


lemma plain_not_in_space: "plain c \<Longrightarrow> w \<in> set space_seqs \<Longrightarrow> c \<notin> set w"
  by (auto simp: space_seqs_def plain_def)

lemma drop_first_seq_extend:
  assumes "drop_first_seq ws s = None" and "\<And>w. w \<in> set ws \<Longrightarrow> c \<notin> set w"
  shows "drop_first_seq ws (s @ c # t) = None"
  using assms
proof (induction ws)
  case Nil
  then show ?case by simp
next
  case (Cons w ws)
  have "\<not> (w \<noteq> [] \<and> HasPrefix (s @ c # t) w)"
  proof
    assume w: "w \<noteq> [] \<and> HasPrefix (s @ c # t) w"
    then obtain r where r: "s @ c # t = w @ r" by (auto simp: HasPrefix_iff)
    have "c \<notin> set w" using Cons.prems(2) by simp
    moreover obtain u where "s = w @ u \<or> s @ u = w \<and> c # t = u @ r"
      using r unfolding append_eq_append_conv2 by blast
    ultimately have "\<exists>u. s = w @ u"
      by (cases u) auto
    with w Cons.prems(1) show False by (auto simp: HasPrefix_iff split: if_splits)
  qed
  moreover have "drop_first_seq ws (s @ c # t) = None"
    using Cons by (auto split: if_splits)
  ultimately show ?case by auto
qed

lemma TrimSpace_Cons_plain:
  assumes "plain c" and "TrimSpace b = b"
  shows "TrimSpace (c # b) = c # b"
proof -
  have "drop_first_seq space_seqs (c # b) = None"
    using assms plain_not_space_hd by (intro drop_first_seq_hd) auto
  moreover have "drop_first_seq (map rev space_seqs) (rev b @ c # []) = None"
    using assms plain_not_in_space [of c]
    by (intro drop_first_seq_extend) (auto simp: TrimSpace_id_iff)
  ultimately show ?thesis by (simp add: TrimSpace_id_iff)
qed

lemma TrimSpace_append_plain:
  "list_all plain a \<Longrightarrow> TrimSpace b = b \<Longrightarrow> TrimSpace (a @ b) = a @ b"
  by (induction a) (auto simp: TrimSpace_Cons_plain)

section \<open>Letter case\<close>

definition lower_char :: "char \<Rightarrow> char" where
  "lower_char c = (if (of_char c :: nat) \<in> {65..90} then char_of ((of_char c :: nat) + 32) else c)"

text \<open>
  Simple case folding of ASCII letters. Two letters outside ASCII fold into ASCII: the Kelvin
  sign (folds to \<open>k\<close>) and the long s (folds to \<open>s\<close>). With an ASCII right argument this is
  exactly \<^verbatim>\<open>strings.EqualFold\<close>.
\<close>

fun fold_case :: "string \<Rightarrow> string" where
  "fold_case (a # b # c # s) =
     (if [a, b, c] = [CHR 0xE2, CHR 0x84, CHR 0xAA] then CHR ''k'' # fold_case s
      else if [a, b] = [CHR 0xC5, CHR 0xBF] then CHR ''s'' # fold_case (c # s)
      else lower_char a # fold_case (b # c # s))"
| "fold_case [a, b] =
     (if [a, b] = [CHR 0xC5, CHR 0xBF] then ''s'' else [lower_char a, lower_char b])"
| "fold_case [a] = [lower_char a]"
| "fold_case [] = []"

definition EqualFold :: "string \<Rightarrow> string \<Rightarrow> bool" where
  "EqualFold s t \<longleftrightarrow> fold_case s = fold_case t"

lemma fold_case_hd:
  assumes "(of_char d :: nat) < 128"
  shows "hd (fold_case (d # s)) = lower_char d"
proof (cases s)
  case Nil
  then show ?thesis by simp
next
  case (Cons b r)
  from assms have "d \<noteq> CHR 0xE2" "d \<noteq> CHR 0xC5" by auto
  with Cons show ?thesis by (cases r) simp_all
qed

section \<open>Decimal numbers\<close>

definition is_digit :: "char \<Rightarrow> bool" where
  "is_digit c \<longleftrightarrow> (of_char c :: nat) \<in> {48..57}"

definition digit_val :: "char \<Rightarrow> nat" where
  "digit_val c = of_char c - 48"

definition digits_val :: "string \<Rightarrow> nat" where
  "digits_val ds = foldl (\<lambda>a c. 10 * a + digit_val c) 0 ds"

text \<open>\<^verbatim>\<open>strconv.Atoi\<close> and \<^verbatim>\<open>strconv.ParseInt(s, 10, 64)\<close>; \<open>None\<close> is the error.\<close>

definition Atoi :: "string \<Rightarrow> int option" where
  "Atoi s =
     (let (neg, ds) = (case s of [] \<Rightarrow> (False, [])
                       | c # r \<Rightarrow> if c = CHR ''-'' then (True, r)
                                  else if c = CHR ''+'' then (False, r) else (False, s))
      in if ds = [] \<or> \<not> list_all is_digit ds then None
         else let v = (if neg then - int (digits_val ds) else int (digits_val ds))
              in if in_int64 v then Some v else None)"

definition digit_char :: "nat \<Rightarrow> char" where
  "digit_char d = char_of (48 + d)"

fun show_nat :: "nat \<Rightarrow> string" where
  "show_nat n = (if n < 10 then [digit_char n] else show_nat (n div 10) @ [digit_char (n mod 10)])"

declare show_nat.simps [simp del]

definition Itoa :: "int \<Rightarrow> string" where
  "Itoa v = (if v < 0 then CHR ''-'' # show_nat (nat (- v)) else show_nat (nat v))"

lemma digit_char_simps:
  "digit_char 0 = CHR ''0''" "digit_char 1 = CHR ''1''" "digit_char (Suc 0) = CHR ''1''"
  "digit_char 2 = CHR ''2''" "digit_char 3 = CHR ''3''" "digit_char 4 = CHR ''4''"
  "digit_char 5 = CHR ''5''" "digit_char 6 = CHR ''6''" "digit_char 7 = CHR ''7''"
  "digit_char 8 = CHR ''8''" "digit_char 9 = CHR ''9''"
  by code_simp+

lemma of_char_digit_char: "d < 10 \<Longrightarrow> (of_char (digit_char d) :: nat) = 48 + d"
  by (simp add: digit_char_def)

lemma is_digit_digit_char: "d < 10 \<Longrightarrow> is_digit (digit_char d)"
  by (simp add: is_digit_def of_char_digit_char)

lemma digit_val_digit_char: "d < 10 \<Longrightarrow> digit_val (digit_char d) = d"
  by (simp add: digit_val_def of_char_digit_char)

lemma show_nat_nonempty [simp]: "show_nat n \<noteq> []"
  by (subst show_nat.simps) simp

lemma show_nat_digits: "list_all is_digit (show_nat n)"
proof (induction n rule: show_nat.induct)
  case (1 n)
  then show ?case
    by (cases "n < 10") (simp_all add: show_nat.simps [of n] is_digit_digit_char)
qed

lemma digits_val_snoc: "digits_val (ds @ [c]) = 10 * digits_val ds + digit_val c"
  by (simp add: digits_val_def)

lemma digits_val_show_nat: "digits_val (show_nat n) = n"
proof (induction n rule: show_nat.induct)
  case (1 n)
  show ?case
  proof (cases "n < 10")
    case True
    then show ?thesis
      by (simp add: show_nat.simps [of n] digits_val_def digit_val_digit_char)
  next
    case False
    with 1 show ?thesis
      by (simp add: show_nat.simps [of n] digits_val_snoc digit_val_digit_char)
  qed
qed

lemma is_digit_plain: "is_digit c \<Longrightarrow> plain c"
  by (simp add: is_digit_def plain_def)

lemma not_is_digit_sign [simp]: "\<not> is_digit CHR ''-''" "\<not> is_digit CHR ''+''"
  by (simp_all add: is_digit_def)

lemma show_nat_hd: "is_digit (hd (show_nat n))"
  using show_nat_digits [of n] by (cases "show_nat n") auto

lemma show_nat_last: "is_digit (last (show_nat n))"
  using show_nat_digits [of n] by (simp add: list_all_iff)

lemma Atoi_show_nat: "in_int64 (int n) \<Longrightarrow> Atoi (show_nat n) = Some (int n)"
proof -
  assume "in_int64 (int n)"
  moreover obtain c r where cr: "show_nat n = c # r" by (cases "show_nat n") auto
  moreover have "is_digit c" using show_nat_hd [of n] cr by simp
  then have "c \<noteq> CHR ''-''" "c \<noteq> CHR ''+''" by auto
  ultimately show ?thesis
    using show_nat_digits [of n] digits_val_show_nat [of n] by (auto simp: Atoi_def)
qed

lemma Atoi_Itoa: "in_int64 v \<Longrightarrow> Atoi (Itoa v) = Some v"
proof (cases "v < 0")
  case True
  assume "in_int64 v"
  with True show ?thesis
    using show_nat_digits [of "nat (- v)"] digits_val_show_nat [of "nat (- v)"]
    by (auto simp: Atoi_def Itoa_def)
next
  case False
  assume "in_int64 v"
  with False show ?thesis using Atoi_show_nat [of "nat v"] by (simp add: Itoa_def)
qed

lemma Atoi_in_int64: "Atoi s = Some v \<Longrightarrow> in_int64 v"
  by (auto simp: Atoi_def Let_def split: if_splits list.splits prod.splits)

lemma TrimSpace_show_nat [simp]: "TrimSpace (show_nat n) = show_nat n"
  using show_nat_hd show_nat_last is_digit_plain by (simp add: TrimSpace_plain)

end
