(* ===== verification/Ports.thy ===== *)
theory Ports
  imports Go_Strings "HOL-Library.AList"
begin

text \<open>
  Port pools and port assignment: \<^verbatim>\<open>bucket/port_range.go\<close>, the port declarations of
  \<^verbatim>\<open>workspace/ports.go\<close>, the rows of \<open>job_ports\<close> (\<^verbatim>\<open>data/job_ports.go\<close>) and the
  allocator of \<^verbatim>\<open>build/build_ports.go\<close>.

  The nested Go map \<open>job \<rightarrow> port name \<rightarrow> number\<close> is an association list keyed by the pair
  of names. The allocator is a mutable object in the source: an operation returns its next state.
  After an error the build aborts and its transaction is rolled back, so the state that an erring
  operation leaves behind is not observed and the model drops it.
\<close>

section \<open>Port pools\<close>

record PortRange =
  Min :: int
  Max :: int

definition defaultPortRange :: string where
  "defaultPortRange = ''30000,39999''"

definition range_Validate :: "PortRange \<Rightarrow> unit result" where
  "range_Validate r =
     (if Min r < 1 \<or> Max r > 65535 \<or> Min r > Max r then Inl ErrInvalidPortRange else Inr ())"

definition range_Contains :: "PortRange \<Rightarrow> int \<Rightarrow> bool" where
  "range_Contains r port = (port \<ge> Min r \<and> port \<le> Max r)"

definition ParsePortRangeValue :: "string \<Rightarrow> PortRange result" where
  "ParsePortRangeValue raw =
     (case split_on CHR '','' raw of
        [a, b] \<Rightarrow>
          (case Atoi (TrimSpace a) of
             None \<Rightarrow> Inl ErrInvalidPortRange
           | Some mn \<Rightarrow>
               (case Atoi (TrimSpace b) of
                  None \<Rightarrow> Inl ErrInvalidPortRange
                | Some mx \<Rightarrow>
                    rbind (range_Validate \<lparr>Min = mn, Max = mx\<rparr>) (\<lambda>_. Inr \<lparr>Min = mn, Max = mx\<rparr>)))
      | _ \<Rightarrow> Inl ErrInvalidPortRange)"

text \<open>
  The configured value: \<open>port_range\<close> of \<open>kive.conf\<close>, else of \<open>bucket.conf\<close>, else the
  default. Both files are read elsewhere: the arguments are what the reads return, the second one
  already converted by \<open>bucketConfStringValue\<close> (\<open>None\<close> when the key is absent).
\<close>

definition resolvePortRangeRaw :: "string result \<Rightarrow> string option result \<Rightarrow> string result" where
  "resolvePortRangeRaw kiveConf bucketConf =
     rbind kiveConf (\<lambda>c.
       if TrimSpace c \<noteq> '''' then Inr (TrimSpace c)
       else rbind bucketConf (\<lambda>b.
         case b of
           Some s \<Rightarrow> if TrimSpace s \<noteq> '''' then Inr (TrimSpace s) else Inr defaultPortRange
         | None \<Rightarrow> Inr defaultPortRange))"

definition LoadPortRange :: "string result \<Rightarrow> string option result \<Rightarrow> PortRange result" where
  "LoadPortRange kiveConf bucketConf =
     rbind (resolvePortRangeRaw kiveConf bucketConf) ParsePortRangeValue"

section \<open>Declared ports\<close>

record ManifestPortBinding =
  Fixed :: "int option"
  Protocol :: string
  Exposure :: string

definition zero_binding :: ManifestPortBinding where
  "zero_binding = \<lparr>Fixed = None, Protocol = '''', Exposure = ''''\<rparr>"

definition Provisioned :: "ManifestPortBinding \<Rightarrow> bool" where
  "Provisioned b = (Fixed b = None)"

type_synonym ManifestPorts = "(string \<times> ManifestPortBinding) list"

text \<open>
  \<^verbatim>\<open>strings.ToLower\<close> as far as its ASCII results go: besides the ASCII capitals, the two code
  points whose lower case is an ASCII letter are the Kelvin sign (bytes E2 84 AA) and the capital I
  with dot (bytes C4 B0).
\<close>

fun ToLower :: "string \<Rightarrow> string" where
  "ToLower [] = []"
| "ToLower (c # cs) =
     (if c = CHR 0xE2 \<and> take 2 cs = [CHR 0x84, CHR 0xAA] then CHR ''k'' # ToLower (drop 2 cs)
      else if c = CHR 0xC4 \<and> take 1 cs = [CHR 0xB0] then CHR ''i'' # ToLower (drop 1 cs)
      else lower_char c # ToLower cs)"

definition NormalizePortProtocol :: "string \<Rightarrow> string option" where
  "NormalizePortProtocol raw =
     (let v = ToLower (TrimSpace raw)
      in if v = '''' then Some ''tcp''
         else if v \<in> {''http'', ''https'', ''tcp'', ''udp''} then Some v else None)"

definition NormalizePortExposure :: "string \<Rightarrow> string option" where
  "NormalizePortExposure raw =
     (let v = ToLower (TrimSpace raw)
      in if v = '''' then Some ''cluster''
         else if v \<in> {''cluster'', ''public''} then Some v else None)"

definition Names :: "ManifestPorts \<Rightarrow> string list" where
  "Names p = sort (map fst p)"

definition is_lower :: "char \<Rightarrow> bool" where
  "is_lower c = (CHR ''a'' \<le> c \<and> c \<le> CHR ''z'')"

text \<open>\<^verbatim>\<open>^[a-z][a-z0-9_]*$\<close>\<close>

fun manifestPortKeyPattern :: "string \<Rightarrow> bool" where
  "manifestPortKeyPattern [] = False"
| "manifestPortKeyPattern (c # cs) =
     (is_lower c \<and> list_all (\<lambda>d. is_lower d \<or> is_digit d \<or> d = CHR ''_'') cs)"

definition ValidatePortKey :: "string \<Rightarrow> unit result" where
  "ValidatePortKey name0 =
     (let name = TrimSpace name0
      in if name = '''' then Inl ErrPortKeyFormat
         else if \<not> manifestPortKeyPattern name then Inl ErrPortKeyFormat
         else Inr ())"

definition ValidateJobPortKey :: "string \<Rightarrow> string \<Rightarrow> unit result" where
  "ValidateJobPortKey jobName portName =
     rbind (ValidatePortKey portName) (\<lambda>_.
       if \<not> HasPrefix portName (jobName @ ''_'') then Inl ErrPortKeyFormat else Inr ())"

section \<open>The table of assigned ports\<close>

record port_row =
  RowJobID :: string
  RowName :: string
  RowPort :: int
  RowProtocol :: string
  RowExposure :: string

type_synonym PortAssignments = "((string \<times> string) \<times> int) list"

text \<open>
  The join of \<open>job_ports\<close> with \<open>jobs\<close> (rows \<open>(job_id, name)\<close>), scanned into the map.
\<close>

definition joined_ports :: "(string \<times> string) list \<Rightarrow> port_row list \<Rightarrow> ((string \<times> string) \<times> int) list" where
  "joined_ports jobs rows =
     concat (map (\<lambda>r. map (\<lambda>(i, n). ((n, RowName r), RowPort r)) (filter (\<lambda>(i, n). i = RowJobID r) jobs)) rows)"

definition GetAllPortAssignments :: "(string \<times> string) list \<Rightarrow> port_row list \<Rightarrow> PortAssignments" where
  "GetAllPortAssignments jobs rows =
     foldl (\<lambda>m (k, p). AList.update k p m) [] (joined_ports jobs rows)"

section \<open>The allocator\<close>

record portAllocator =
  pool :: PortRange
  existing :: PortAssignments
  usedNumbers :: "int set"

definition newPortAllocator :: "PortAssignments \<Rightarrow> PortRange \<Rightarrow> portAllocator" where
  "newPortAllocator ex r = \<lparr>pool = r, existing = ex, usedNumbers = set (map snd ex)\<rparr>"

definition claimPort :: "portAllocator \<Rightarrow> string \<Rightarrow> string \<Rightarrow> int \<Rightarrow> portAllocator result" where
  "claimPort a jobName portName port =
     (if map_of (existing a) (jobName, portName) = Some port
      then Inr (a\<lparr>usedNumbers := insert port (usedNumbers a)\<rparr>)
      else if port \<in> usedNumbers a then Inl ErrPortCollision
      else Inr (a\<lparr>usedNumbers := insert port (usedNumbers a),
                  existing := AList.update (jobName, portName) port (existing a)\<rparr>))"

definition releaseAssignedNumber :: "portAllocator \<Rightarrow> string \<Rightarrow> string \<Rightarrow> portAllocator" where
  "releaseAssignedNumber a jobName portName =
     (case map_of (existing a) (jobName, portName) of
        None \<Rightarrow> a
      | Some prev \<Rightarrow> a\<lparr>usedNumbers := usedNumbers a - {prev}\<rparr>)"

definition assign_from_pool :: "portAllocator \<Rightarrow> string \<Rightarrow> string \<Rightarrow> (portAllocator \<times> int) result" where
  "assign_from_pool a jobName portName =
     (case find (\<lambda>port. port \<notin> usedNumbers a) [Min (pool a)..Max (pool a)] of
        None \<Rightarrow> Inl ErrPortRangeExhausted
      | Some port \<Rightarrow> rbind (claimPort a jobName portName port) (\<lambda>a'. Inr (a', port)))"

definition assignProvisioned :: "portAllocator \<Rightarrow> string \<Rightarrow> string \<Rightarrow> (portAllocator \<times> int) result" where
  "assignProvisioned a jobName portName =
     rbind (ValidateJobPortKey jobName portName) (\<lambda>_.
       case map_of (existing a) (jobName, portName) of
         Some prev \<Rightarrow>
           (if range_Contains (pool a) prev
            then Inr (a\<lparr>usedNumbers := insert prev (usedNumbers a)\<rparr>, prev)
            else assign_from_pool (releaseAssignedNumber a jobName portName) jobName portName)
       | None \<Rightarrow> assign_from_pool a jobName portName)"

definition assignFixed :: "portAllocator \<Rightarrow> string \<Rightarrow> string \<Rightarrow> int \<Rightarrow> (portAllocator \<times> int) result" where
  "assignFixed a jobName portName port =
     rbind (ValidateJobPortKey jobName portName) (\<lambda>_.
       let a1 = (case map_of (existing a) (jobName, portName) of
                   Some prev \<Rightarrow> if prev \<noteq> port then releaseAssignedNumber a jobName portName else a
                 | None \<Rightarrow> a)
       in rbind (claimPort a1 jobName portName port) (\<lambda>a2. Inr (a2, port)))"

definition resolve :: "portAllocator \<Rightarrow> string \<Rightarrow> string \<Rightarrow> ManifestPortBinding \<Rightarrow> (portAllocator \<times> int) result" where
  "resolve a jobName portName binding =
     (case Fixed binding of
        None \<Rightarrow> assignProvisioned a jobName portName
      | Some port \<Rightarrow> assignFixed a jobName portName port)"

definition is_removed :: "string \<Rightarrow> string list \<Rightarrow> (string \<times> string) \<times> int \<Rightarrow> bool" where
  "is_removed jobName keepNames e = (fst (fst e) = jobName \<and> snd (fst e) \<notin> set keepNames)"

definition releaseRemoved :: "portAllocator \<Rightarrow> string \<Rightarrow> string list \<Rightarrow> portAllocator" where
  "releaseRemoved a jobName keepNames =
     a\<lparr>usedNumbers := usedNumbers a - snd ` set (filter (is_removed jobName keepNames) (existing a)),
       existing := filter (\<lambda>e. \<not> is_removed jobName keepNames e) (existing a)\<rparr>"

text \<open>One iteration of the loop of \<open>syncPorts\<close>; \<open>UNIQUE(job_id, name)\<close> guards the insert.\<close>

definition insert_port_row :: "port_row list \<Rightarrow> port_row \<Rightarrow> port_row list result" where
  "insert_port_row rows r =
     (if \<exists>q \<in> set rows. RowJobID q = RowJobID r \<and> RowName q = RowName r then Inl ErrDatabase
      else Inr (rows @ [r]))"

definition port_binding :: "ManifestPorts \<Rightarrow> string \<Rightarrow> ManifestPortBinding" where
  "port_binding ports portName = (case map_of ports portName of Some b \<Rightarrow> b | None \<Rightarrow> zero_binding)"

definition sync_port ::
  "string \<Rightarrow> string \<Rightarrow> ManifestPorts \<Rightarrow> portAllocator \<times> port_row list \<Rightarrow> string
     \<Rightarrow> (portAllocator \<times> port_row list) result" where
  "sync_port jobID jobName ports st portName =
     (let binding = port_binding ports portName
      in rbind (resolve (fst st) jobName portName binding) (\<lambda>(a, port).
         rbind (insert_port_row (snd st)
                  \<lparr>RowJobID = jobID, RowName = portName, RowPort = port,
                   RowProtocol = (if Protocol binding = '''' then ''tcp'' else Protocol binding),
                   RowExposure = (if Exposure binding = '''' then ''cluster'' else Exposure binding)\<rparr>)
           (\<lambda>rows. Inr (a, rows))))"

definition syncPorts ::
  "string \<Rightarrow> string \<Rightarrow> ManifestPorts \<Rightarrow> portAllocator \<times> port_row list
     \<Rightarrow> (portAllocator \<times> port_row list) result" where
  "syncPorts jobID jobName ports st =
     (let portNames = Names ports;
          a = releaseRemoved (fst st) jobName portNames;
          rows = filter (\<lambda>r. RowJobID r \<noteq> jobID) (snd st)
      in rfold (sync_port jobID jobName ports) (a, rows) portNames)"

text \<open>
  The port part of the loop of \<open>BuildJobsWithOptions\<close>: every workspace job in sorted order, with
  the id the catalog gives it and its declared ports. One allocator is shared by all of them.
\<close>

definition sync_jobs ::
  "(string \<Rightarrow> string) \<Rightarrow> (string \<Rightarrow> ManifestPorts) \<Rightarrow> string list \<Rightarrow> portAllocator \<times> port_row list
     \<Rightarrow> (portAllocator \<times> port_row list) result" where
  "sync_jobs jobID manifestPorts jobNames st =
     rfold (\<lambda>s jobName. syncPorts (jobID jobName) jobName (manifestPorts jobName) s) st (sort jobNames)"

definition buildPortAllocator ::
  "PortRange result \<Rightarrow> (string \<Rightarrow> ManifestPorts) \<Rightarrow> string list \<Rightarrow> PortAssignments result
     \<Rightarrow> portAllocator result" where
  "buildPortAllocator loadPortRange manifestPorts jobNames existing0 =
     (let needsPorts = list_ex (\<lambda>j. manifestPorts j \<noteq> []) jobNames
      in rbind loadPortRange (\<lambda>portRange.
         rbind (if needsPorts then range_Validate portRange else Inr ()) (\<lambda>_.
         rbind existing0 (\<lambda>ex. Inr (newPortAllocator ex portRange)))))"

section \<open>The allocator's invariant\<close>

definition port_inv :: "portAllocator \<Rightarrow> bool" where
  "port_inv a = (distinct (map fst (existing a)) \<and> distinct (map snd (existing a)) \<and>
     usedNumbers a = set (map snd (existing a)))"

lemma set_update_alist:
  "distinct (map fst xs) \<Longrightarrow> set (AList.update k v xs) = insert (k, v) {e \<in> set xs. fst e \<noteq> k}"
  by (induction xs) (auto simp: image_iff)

lemma distinct_snd_update:
  assumes "distinct (map fst xs)" "distinct (map snd xs)" "v \<notin> snd ` {e \<in> set xs. fst e \<noteq> k}"
  shows "distinct (map snd (AList.update k v xs))"
  using assms
proof (induction xs)
  case Nil
  then show ?case by simp
next
  case (Cons x xs)
  then have "snd x \<notin> snd ` set xs" by auto
  moreover have "v \<notin> snd ` set xs" if "fst x = k"
    using Cons.prems that by (force simp: image_iff)
  moreover have "v \<noteq> snd x" if "fst x \<noteq> k" using Cons.prems(3) that by force
  ultimately show ?case
    using Cons by (cases x) (auto simp: set_update_alist image_iff)
qed

lemma map_of_update_other: "k' \<noteq> k \<Longrightarrow> map_of (AList.update k v xs) k' = map_of xs k'"
  by (simp add: update_conv)

lemma map_of_inj:
  assumes "distinct (map snd xs)" "map_of xs k = Some p" "map_of xs k' = Some p"
  shows "k = k'"
  using assms by (metis distinct_map inj_onD map_of_SomeD snd_conv prod.inject)

lemma port_inv_used: "port_inv a \<Longrightarrow> map_of (existing a) k = Some p \<Longrightarrow> p \<in> usedNumbers a"
  by (force simp: port_inv_def dest: map_of_SomeD)

text \<open>
  The state inside an assignment: the number of \<open>k\<close> may already be released while its entry is
  still in the map; every other number is marked used.
\<close>

definition port_inv_but :: "string \<times> string \<Rightarrow> portAllocator \<Rightarrow> bool" where
  "port_inv_but k a = (distinct (map fst (existing a)) \<and> distinct (map snd (existing a)) \<and>
     usedNumbers a = snd ` {e \<in> set (existing a). fst e \<noteq> k})"

lemma port_inv_but_fresh: "port_inv a \<Longrightarrow> map_of (existing a) k = None \<Longrightarrow> port_inv_but k a"
  by (force simp: port_inv_def port_inv_but_def map_of_eq_None_iff)

lemma port_inv_but_release:
  assumes "port_inv a" "map_of (existing a) (j, n) = Some prev"
  shows "port_inv_but (j, n) (releaseAssignedNumber a j n)"
proof -
  have "((j, n), prev) \<in> set (existing a)" using assms(2) by (rule map_of_SomeD)
  moreover have "inj_on snd (set (existing a))" "inj_on fst (set (existing a))"
    using assms(1) by (auto simp: port_inv_def distinct_map)
  ultimately have "snd ` set (existing a) - {prev} = snd ` {e \<in> set (existing a). fst e \<noteq> (j, n)}"
    by (force simp: inj_on_def image_iff)
  then show ?thesis
    using assms by (simp add: port_inv_def port_inv_but_def releaseAssignedNumber_def)
qed

lemma claimPort_inv_but:
  assumes "port_inv_but (j, n) a" "map_of (existing a) (j, n) \<noteq> Some p" "claimPort a j n p = Inr a'"
  shows "port_inv a' \<and> existing a' = AList.update (j, n) p (existing a) \<and> pool a' = pool a"
proof -
  from assms have p: "p \<notin> usedNumbers a"
    and a': "a' = a\<lparr>usedNumbers := insert p (usedNumbers a), existing := AList.update (j, n) p (existing a)\<rparr>"
    by (auto simp: claimPort_def split: if_splits)
  from assms p have "distinct (map snd (AList.update (j, n) p (existing a)))"
    by (auto simp: port_inv_but_def intro: distinct_snd_update)
  with assms show ?thesis
    by (auto simp: a' port_inv_def port_inv_but_def set_update_alist distinct_update)
qed

lemma update_same: "map_of xs k = Some v \<Longrightarrow> AList.update k v xs = xs"
  by (induction xs) (auto split: if_splits)

lemma resolve_fixed_result:
  assumes "port_inv a" "assignFixed a j n p = Inr (a', q)"
  shows "q = p \<and> port_inv a' \<and> existing a' = AList.update (j, n) p (existing a) \<and> pool a' = pool a"
proof (cases "map_of (existing a) (j, n)")
  case None
  with assms claimPort_inv_but [OF port_inv_but_fresh [OF assms(1) None]] show ?thesis
    by (auto simp: assignFixed_def result_simps)
next
  case (Some prev)
  show ?thesis
  proof (cases "prev = p")
    case True
    with assms Some have "q = p" "a' = a\<lparr>usedNumbers := insert p (usedNumbers a)\<rparr>"
      by (auto simp: assignFixed_def result_simps claimPort_def)
    with True Some assms(1) port_inv_used [OF assms(1) Some] show ?thesis
      by (simp add: update_same port_inv_def insert_absorb)
  next
    case False
    have e: "existing (releaseAssignedNumber a j n) = existing a" "pool (releaseAssignedNumber a j n) = pool a"
      by (simp_all add: releaseAssignedNumber_def Some)
    from assms Some False have "claimPort (releaseAssignedNumber a j n) j n p = Inr a' \<and> q = p"
      by (auto simp: assignFixed_def result_simps)
    with claimPort_inv_but [OF port_inv_but_release [OF assms(1) Some], of p a'] Some False e
    show ?thesis by simp
  qed
qed

lemma assign_from_pool_result:
  assumes "port_inv_but (j, n) a" "assign_from_pool a j n = Inr (a', p)"
    and "\<And>prev. map_of (existing a) (j, n) = Some prev \<Longrightarrow> \<not> range_Contains (pool a) prev"
  shows "range_Contains (pool a) p \<and> port_inv a' \<and> existing a' = AList.update (j, n) p (existing a) \<and>
    pool a' = pool a \<and> p \<notin> usedNumbers a \<and> (\<forall>q. Min (pool a) \<le> q \<longrightarrow> q < p \<longrightarrow> q \<in> usedNumbers a)"
proof -
  from assms(2) obtain f: "find (\<lambda>q. q \<notin> usedNumbers a) [Min (pool a)..Max (pool a)] = Some p"
    and c: "claimPort a j n p = Inr a'"
    by (auto simp: assign_from_pool_def result_simps split: option.splits)
  from f obtain i where i: "i < length [Min (pool a)..Max (pool a)]" "p = [Min (pool a)..Max (pool a)] ! i"
    "p \<notin> usedNumbers a" "\<forall>k<i. [Min (pool a)..Max (pool a)] ! k \<in> usedNumbers a"
    by (auto simp: find_Some_iff)
  have p: "p = Min (pool a) + int i" "p \<le> Max (pool a)" using i by (auto simp: nth_upto)
  then have r: "range_Contains (pool a) p" by (simp add: range_Contains_def)
  have "q \<in> usedNumbers a" if "Min (pool a) \<le> q" "q < p" for q
    using i(1,4) that p by (auto simp: nth_upto dest!: spec [of _ "nat (q - Min (pool a))"])
  with r i(3) claimPort_inv_but [OF assms(1) _ c] assms(3) show ?thesis by blast
qed

lemma assignProvisioned_result:
  assumes "port_inv a" "assignProvisioned a j n = Inr (a', p)"
  shows "range_Contains (pool a) p \<and> port_inv a' \<and>
    existing a' = AList.update (j, n) p (existing a) \<and> pool a' = pool a"
proof (cases "map_of (existing a) (j, n)")
  case None
  with assms have "assign_from_pool a j n = Inr (a', p)"
    by (auto simp: assignProvisioned_def result_simps)
  from assign_from_pool_result [OF port_inv_but_fresh [OF assms(1) None] this] None
  show ?thesis by simp
next
  case (Some prev)
  show ?thesis
  proof (cases "range_Contains (pool a) prev")
    case True
    with assms Some have "p = prev" "a' = a\<lparr>usedNumbers := insert prev (usedNumbers a)\<rparr>"
      by (auto simp: assignProvisioned_def result_simps)
    with True Some assms(1) port_inv_used [OF assms(1) Some] show ?thesis
      by (simp add: update_same port_inv_def insert_absorb)
  next
    case False
    have e: "existing (releaseAssignedNumber a j n) = existing a" "pool (releaseAssignedNumber a j n) = pool a"
      by (simp_all add: releaseAssignedNumber_def Some)
    from assms Some False have "assign_from_pool (releaseAssignedNumber a j n) j n = Inr (a', p)"
      by (auto simp: assignProvisioned_def result_simps)
    from assign_from_pool_result [OF port_inv_but_release [OF assms(1) Some] this] Some False e
    show ?thesis by simp
  qed
qed

lemma resolve_result:
  assumes "port_inv a" "resolve a j n b = Inr (a', p)"
  shows "port_inv a' \<and> existing a' = AList.update (j, n) p (existing a) \<and> pool a' = pool a \<and>
    (case Fixed b of Some q \<Rightarrow> p = q | None \<Rightarrow> range_Contains (pool a) p)"
proof (cases "Fixed b")
  case None
  with assms assignProvisioned_result [OF assms(1), of j n a' p] show ?thesis
    by (simp add: resolve_def)
next
  case (Some q)
  with assms resolve_fixed_result [OF assms(1), of j n q a' p] show ?thesis
    by (simp add: resolve_def)
qed

lemma releaseRemoved_inv: "port_inv a \<Longrightarrow> port_inv (releaseRemoved a j keep)"
proof -
  assume i: "port_inv a"
  then have "snd ` set (existing a) - snd ` {e \<in> set (existing a). is_removed j keep e} =
    snd ` {e \<in> set (existing a). \<not> is_removed j keep e}"
    by (auto simp: port_inv_def distinct_map inj_on_def)
  with i show ?thesis
    by (simp add: port_inv_def releaseRemoved_def distinct_map_filter)
qed

inductive port_step :: "portAllocator \<Rightarrow> portAllocator \<Rightarrow> bool" where
  port_resolve: "resolve a j n b = Inr (a', p) \<Longrightarrow> port_step a a'"
| port_release: "port_step a (releaseRemoved a j keep)"

definition port_init :: "portAllocator \<Rightarrow> bool" where
  "port_init a = (\<exists>ex r. a = newPortAllocator ex r \<and> distinct (map fst ex) \<and> distinct (map snd ex))"

interpretation port_machine: invariant_system port_init port_step port_inv
proof
  show "port_inv s" if "port_init s" for s
    using that by (clarsimp simp: port_init_def port_inv_def newPortAllocator_def)
  show "port_inv t" if "port_inv s" "port_step s t" for s t
    using that(2,1) by (cases rule: port_step.cases) (auto dest: resolve_result releaseRemoved_inv)
qed

section \<open>The table and the allocator agree\<close>

text \<open>
  Every row belongs to a job the catalog knows, and its number is the one the allocator holds for
  it; \<open>ids\<close> gives each job its id.
\<close>

definition table_ok :: "(string \<Rightarrow> string) \<Rightarrow> portAllocator \<times> port_row list \<Rightarrow> bool" where
  "table_ok ids st = (port_inv (fst st) \<and> distinct (map (\<lambda>r. (RowJobID r, RowName r)) (snd st)) \<and>
     (\<forall>r \<in> set (snd st). \<exists>j. ids j = RowJobID r \<and>
        map_of (existing (fst st)) (j, RowName r) = Some (RowPort r)))"

lemma table_ok_distinct_ports:
  assumes "table_ok ids st"
  shows "distinct (map RowPort (snd st))"
proof -
  have "r = q" if "r \<in> set (snd st)" "q \<in> set (snd st)" "RowPort r = RowPort q" for r q
  proof -
    from assms that obtain j k where
      "ids j = RowJobID r" "map_of (existing (fst st)) (j, RowName r) = Some (RowPort r)"
      "ids k = RowJobID q" "map_of (existing (fst st)) (k, RowName q) = Some (RowPort q)"
      unfolding table_ok_def by blast
    moreover from this assms that(3) have "(j, RowName r) = (k, RowName q)"
      by (auto simp: table_ok_def port_inv_def dest: map_of_inj)
    ultimately have "(RowJobID r, RowName r) = (RowJobID q, RowName q)" by auto
    with assms that(1,2) show ?thesis by (auto simp: table_ok_def distinct_map inj_on_def)
  qed
  moreover have "distinct (snd st)" using assms by (auto simp: table_ok_def distinct_map)
  ultimately show ?thesis by (auto simp: distinct_map inj_on_def)
qed

lemma sync_port_result:
  assumes "sync_port jid j ports (a, rows) n = Inr (a', rows')" "port_inv a"
  obtains p where "resolve a j n (port_binding ports n) = Inr (a', p)"
    "rows' = rows @ [\<lparr>RowJobID = jid, RowName = n, RowPort = p,
        RowProtocol = (if Protocol (port_binding ports n) = '''' then ''tcp''
          else Protocol (port_binding ports n)),
        RowExposure = (if Exposure (port_binding ports n) = '''' then ''cluster''
          else Exposure (port_binding ports n))\<rparr>]"
    "\<forall>q \<in> set rows. RowJobID q = jid \<longrightarrow> RowName q \<noteq> n"
  using assms by (auto simp: sync_port_def Let_def result_simps insert_port_row_def split: if_splits)

lemma sync_port_table_ok:
  assumes ok: "table_ok ids (a, rows)" and s: "sync_port (ids j) j ports (a, rows) n = Inr (a', rows')"
    and inj: "inj ids"
  shows "table_ok ids (a', rows') \<and> pool a' = pool a"
proof -
  have inv: "port_inv a" using ok by (simp add: table_ok_def)
  from s inv obtain p b pr ex where
    r: "resolve a j n b = Inr (a', p)"
    and rows': "rows' = rows @ [\<lparr>RowJobID = ids j, RowName = n, RowPort = p, RowProtocol = pr, RowExposure = ex\<rparr>]"
    and new: "\<forall>q \<in> set rows. RowJobID q = ids j \<longrightarrow> RowName q \<noteq> n"
    by (elim sync_port_result)
  from resolve_result [OF inv r] have inv': "port_inv a'" "pool a' = pool a"
    and e: "existing a' = AList.update (j, n) p (existing a)" by auto
  have "\<exists>k. ids k = RowJobID q \<and> map_of (existing a') (k, RowName q) = Some (RowPort q)"
    if "q \<in> set rows" for q
  proof -
    from ok that obtain k where k: "ids k = RowJobID q"
      "map_of (existing a) (k, RowName q) = Some (RowPort q)" by (auto simp: table_ok_def)
    moreover have "(k, RowName q) \<noteq> (j, n)" using new that k by auto
    ultimately have "map_of (existing a') (k, RowName q) = Some (RowPort q)"
      by (simp add: e map_of_update_other del: prod.inject)
    with k(1) show ?thesis by blast
  qed
  moreover have "map_of (existing a') (j, n) = Some p" by (simp add: e update_conv)
  moreover have "distinct (map (\<lambda>r. (RowJobID r, RowName r)) rows')"
    using ok new by (auto simp: table_ok_def rows')
  ultimately show ?thesis using inv' by (auto simp: table_ok_def rows')
qed

lemma release_table_ok:
  assumes "table_ok ids (a, rows)"
  shows "table_ok ids (releaseRemoved a j keep, filter (\<lambda>r. RowJobID r \<noteq> ids j) rows)"
proof -
  have "\<exists>k. ids k = RowJobID q \<and> map_of (existing (releaseRemoved a j keep)) (k, RowName q) = Some (RowPort q)"
    if q: "q \<in> set rows" "RowJobID q \<noteq> ids j" for q
  proof -
    from assms q obtain k where k: "ids k = RowJobID q"
      "map_of (existing a) (k, RowName q) = Some (RowPort q)" by (auto simp: table_ok_def)
    with q have "k \<noteq> j" by auto
    then have "map_of (filter (\<lambda>e. \<not> is_removed j keep e) xs) (k, RowName q) = map_of xs (k, RowName q)" for xs
      by (induction xs) (auto simp: is_removed_def)
    with k show ?thesis by (auto simp: releaseRemoved_def)
  qed
  with assms show ?thesis by (auto simp: table_ok_def releaseRemoved_inv distinct_map_filter)
qed

lemma syncPorts_table_ok:
  assumes "table_ok ids st" "inj ids" "syncPorts (ids j) j ports st = Inr st'"
  shows "table_ok ids st' \<and> pool (fst st') = pool (fst st)"
proof -
  from assms(3) have "rfold (sync_port (ids j) j ports)
    (releaseRemoved (fst st) j (Names ports), filter (\<lambda>r. RowJobID r \<noteq> ids j) (snd st)) (Names ports) = Inr st'"
    by (simp add: syncPorts_def Let_def)
  then show ?thesis
  proof (rule rfold_invariant [where P = "\<lambda>s. table_ok ids s \<and> pool (fst s) = pool (fst st)"])
    show "table_ok ids (releaseRemoved (fst st) j (Names ports), filter (\<lambda>r. RowJobID r \<noteq> ids j) (snd st)) \<and>
      pool (fst (releaseRemoved (fst st) j (Names ports), filter (\<lambda>r. RowJobID r \<noteq> ids j) (snd st))) = pool (fst st)"
      using release_table_ok [of ids "fst st" "snd st"] assms(1) by (simp add: releaseRemoved_def)
  next
    fix s n s'
    assume "table_ok ids s \<and> pool (fst s) = pool (fst st)" "sync_port (ids j) j ports s n = Inr s'"
    then show "table_ok ids s' \<and> pool (fst s') = pool (fst st)"
      using sync_port_table_ok [of ids "fst s" "snd s" j ports n "fst s'" "snd s'"] assms(2) by auto
  qed
qed

lemma sync_jobs_table_ok:
  assumes "table_ok ids st" "inj ids" "sync_jobs ids mp jobs st = Inr st'"
  shows "table_ok ids st' \<and> pool (fst st') = pool (fst st)"
  using assms(3) unfolding sync_jobs_def
  by (rule rfold_invariant [where P = "\<lambda>s. table_ok ids s \<and> pool (fst s) = pool (fst st)"])
     (use assms syncPorts_table_ok in fastforce)+

subsection \<open>The rows of one job\<close>

definition row_matches :: "PortRange \<Rightarrow> ManifestPorts \<Rightarrow> port_row \<Rightarrow> bool" where
  "row_matches r ports row =
     (case map_of ports (RowName row) of
        None \<Rightarrow> False
      | Some b \<Rightarrow> (case Fixed b of Some q \<Rightarrow> RowPort row = q | None \<Rightarrow> range_Contains r (RowPort row)) \<and>
          RowProtocol row = (if Protocol b = '''' then ''tcp'' else Protocol b) \<and>
          RowExposure row = (if Exposure b = '''' then ''cluster'' else Exposure b))"

lemma sync_port_rows:
  assumes "rfold (sync_port jid j ports) (a, rows) ns = Inr (a', rows')" "port_inv a"
    and "set ns \<subseteq> fst ` set ports"
  shows "\<exists>new. rows' = rows @ new \<and> map RowName new = ns \<and>
    (\<forall>r \<in> set new. RowJobID r = jid \<and> row_matches (pool a) ports r)"
  using assms
proof (induction ns arbitrary: a rows)
  case Nil
  then show ?case by simp
next
  case (Cons n ns)
  then obtain a1 rows1 where s: "sync_port jid j ports (a, rows) n = Inr (a1, rows1)"
    and rest: "rfold (sync_port jid j ports) (a1, rows1) ns = Inr (a', rows')"
    by (auto simp: result_simps)
  from Cons.prems(3) obtain b where b: "map_of ports n = Some b"
    by (cases "map_of ports n") (auto simp: map_of_eq_None_iff)
  have pb: "port_binding ports n = b" by (simp add: b port_binding_def)
  obtain p where r: "resolve a j n b = Inr (a1, p)"
    and rows1: "rows1 = rows @ [\<lparr>RowJobID = jid, RowName = n, RowPort = p,
        RowProtocol = (if Protocol b = '''' then ''tcp'' else Protocol b),
        RowExposure = (if Exposure b = '''' then ''cluster'' else Exposure b)\<rparr>]"
    by (rule sync_port_result [OF s Cons.prems(2), unfolded pb], rule that)
  note res = resolve_result [OF Cons.prems(2) r]
  from Cons.IH [OF rest] res Cons.prems(3) obtain new where
    "rows' = rows1 @ new" "map RowName new = ns"
    "\<forall>r \<in> set new. RowJobID r = jid \<and> row_matches (pool a) ports r" by auto
  with res b rows1 show ?case
    by (intro exI [of _ "drop (length rows) rows1 @ new"]) (auto simp: row_matches_def split: option.splits)
qed

subsection \<open>The assignments read from the catalog\<close>

lemma foldl_update_distinct:
  assumes "distinct (map fst (m @ kvs))"
  shows "foldl (\<lambda>m (k, p). AList.update k p m) m kvs = m @ kvs"
  using assms
proof (induction kvs arbitrary: m)
  case Nil
  then show ?case by simp
next
  case (Cons kv kvs)
  have "fst kv \<notin> fst ` set m \<Longrightarrow> AList.update (fst kv) (snd kv) m = m @ [kv]" for m
    by (induction m) auto
  moreover have "fst kv \<notin> fst ` set m" using Cons.prems by auto
  ultimately have "AList.update (fst kv) (snd kv) m = m @ [kv]" .
  with Cons.IH [of "m @ [kv]"] Cons.prems show ?case by (cases kv) simp
qed

lemma joined_ports_eq:
  assumes "distinct jobs" "\<forall>(i, n) \<in> set jobs. i = ids n" "inj ids"
    and "\<forall>r \<in> set rows. RowJobID r \<in> fst ` set jobs"
  shows "joined_ports jobs rows = map (\<lambda>r. ((inv ids (RowJobID r), RowName r), RowPort r)) rows"
  using assms(4)
proof (induction rows)
  case Nil
  then show ?case by (simp add: joined_ports_def)
next
  case (Cons r rows)
  then obtain n where n: "(RowJobID r, n) \<in> set jobs" by auto
  then have "ids n = RowJobID r" using assms(2) by auto
  then have inv: "inv ids (RowJobID r) = n" using assms(3) by (metis inv_f_f)
  have "filter (\<lambda>(i, m). i = RowJobID r) jobs = [(RowJobID r, n)]"
  proof -
    have u: "m = n" if "(RowJobID r, m) \<in> set jobs" for m
    proof -
      have "ids m = ids n" using that assms(2) \<open>ids n = RowJobID r\<close> by auto
      then show ?thesis by (rule injD [OF assms(3)])
    qed
    have "set (filter (\<lambda>(i, m). i = RowJobID r) jobs) = {(RowJobID r, n)}"
      using n by (auto intro: u)
    moreover have "distinct (filter (\<lambda>(i, m). i = RowJobID r) jobs)" using assms(1) by simp
    ultimately show ?thesis by (rule distinct_set_singleton [rotated])
  qed
  with Cons inv show ?case by (simp add: joined_ports_def)
qed

lemma loaded_table_ok:
  assumes "inj ids" "distinct jobs" "\<forall>(i, n) \<in> set jobs. i = ids n"
    and "\<forall>r \<in> set rows. RowJobID r \<in> fst ` set jobs"
    and "distinct (map (\<lambda>r. (RowJobID r, RowName r)) rows)" "distinct (map RowPort rows)"
  shows "table_ok ids (newPortAllocator (GetAllPortAssignments jobs rows) r, rows)"
proof -
  let ?f = "\<lambda>r. ((inv ids (RowJobID r), RowName r), RowPort r)"
  have ids: "ids (inv ids (RowJobID q)) = RowJobID q" if "q \<in> set rows" for q
  proof -
    from assms(4) that obtain n where "(RowJobID q, n) \<in> set jobs" by auto
    then have "ids n = RowJobID q" using assms(3) by auto
    then show ?thesis by (metis f_inv_into_f rangeI)
  qed
  have "inj_on (\<lambda>r. (inv ids (RowJobID r), RowName r)) (set rows)"
  proof (rule inj_onI)
    fix x y
    assume "x \<in> set rows" "y \<in> set rows"
      "(inv ids (RowJobID x), RowName x) = (inv ids (RowJobID y), RowName y)"
    moreover from this ids have "RowJobID x = RowJobID y" by (metis prod.inject)
    moreover have "inj_on (\<lambda>r. (RowJobID r, RowName r)) (set rows)"
      using assms(5) by (simp add: distinct_map)
    ultimately show "x = y" by (auto dest: inj_onD)
  qed
  then have d: "distinct (map fst (map ?f rows))"
    using assms(5) by (simp add: distinct_map comp_def)
  then have g: "GetAllPortAssignments jobs rows = map ?f rows"
    using assms by (simp add: GetAllPortAssignments_def joined_ports_eq foldl_update_distinct)
  have "\<exists>j. ids j = RowJobID q \<and> map_of (map ?f rows) (j, RowName q) = Some (RowPort q)"
    if "q \<in> set rows" for q
    using that d ids by (intro exI [of _ "inv ids (RowJobID q)"]) (auto intro: map_of_is_SomeI)
  with d g assms(5,6) show ?thesis
    by (simp add: table_ok_def port_inv_def newPortAllocator_def comp_def)
qed

subsection \<open>Provisioned ports\<close>

definition others :: "portAllocator \<Rightarrow> string \<times> string \<Rightarrow> int set" where
  "others a k = snd ` {e \<in> set (existing a). fst e \<noteq> k}"

definition provisioned_spec :: "portAllocator \<Rightarrow> string \<times> string \<Rightarrow> int result" where
  "provisioned_spec a k =
     (case map_of (existing a) k of
        Some prev \<Rightarrow> if range_Contains (pool a) prev then Inr prev
                     else (case filter (\<lambda>q. q \<notin> others a k) [Min (pool a)..Max (pool a)] of
                             [] \<Rightarrow> Inl ErrPortRangeExhausted | p # _ \<Rightarrow> Inr p)
      | None \<Rightarrow> (case filter (\<lambda>q. q \<notin> others a k) [Min (pool a)..Max (pool a)] of
                   [] \<Rightarrow> Inl ErrPortRangeExhausted | p # _ \<Rightarrow> Inr p))"

lemma find_filter: "find P xs = (case filter P xs of [] \<Rightarrow> None | x # _ \<Rightarrow> Some x)"
  by (induction xs) auto

lemma assign_from_pool_spec:
  assumes "port_inv_but k a" "\<And>prev. map_of (existing a) k = Some prev \<Longrightarrow> \<not> range_Contains (pool a) prev"
  shows "map_sum id snd (assign_from_pool a (fst k) (snd k)) =
    (case filter (\<lambda>q. q \<notin> others a k) [Min (pool a)..Max (pool a)] of
       [] \<Rightarrow> Inl ErrPortRangeExhausted | p # _ \<Rightarrow> Inr p)"
proof (cases "filter (\<lambda>q. q \<notin> others a k) [Min (pool a)..Max (pool a)]")
  case Nil
  then show ?thesis using assms(1)
    by (simp add: assign_from_pool_def find_filter port_inv_but_def others_def)
next
  case (Cons p ps)
  then have f: "find (\<lambda>q. q \<notin> usedNumbers a) [Min (pool a)..Max (pool a)] = Some p"
    using assms(1) by (simp add: find_filter port_inv_but_def others_def)
  then have "p \<notin> usedNumbers a" "range_Contains (pool a) p"
    using find_SomeD [OF f] by (auto simp: range_Contains_def)
  with assms(2) f Cons show ?thesis
    by (auto simp: assign_from_pool_def claimPort_def)
qed

lemma others_release [simp]: "others (releaseAssignedNumber a j n) k = others a k"
  by (simp add: others_def releaseAssignedNumber_def split: option.splits)

lemma release_fields [simp]:
  "existing (releaseAssignedNumber a j n) = existing a"
  "pool (releaseAssignedNumber a j n) = pool a"
  by (simp_all add: releaseAssignedNumber_def split: option.splits)

section \<open>Properties\<close>

text \<open>
  C3. The build never gives one port number to two declared ports: starting from a table of
  \<open>job_ports\<close> without duplicate numbers, a build that succeeds over any set of jobs and manifests
  leaves a table without duplicate numbers, over all jobs and including the rows of jobs it did
  not touch.
\<close>

theorem sync_jobs_ports_unique:
  assumes "inj ids" "distinct jobs" "\<forall>(i, n) \<in> set jobs. i = ids n"
    and "\<forall>r \<in> set rows. RowJobID r \<in> fst ` set jobs"
    and "distinct (map (\<lambda>r. (RowJobID r, RowName r)) rows)" "distinct (map RowPort rows)"
    and "sync_jobs ids manifestPorts jobNames
           (newPortAllocator (GetAllPortAssignments jobs rows) portRange, rows) = Inr (a', rows')"
  shows "distinct (map RowPort rows')"
  using sync_jobs_table_ok [OF loaded_table_ok [OF assms(1-6)] assms(1,7)] table_ok_distinct_ports
  by fastforce

theorem sync_jobs_ports_unique_witness:
  "\<exists>a' rows'. sync_jobs id (\<lambda>j. [(j @ ''_http'', zero_binding)]) [''b'', ''a'']
     (newPortAllocator (GetAllPortAssignments [(''b'', ''b'')]
        [\<lparr>RowJobID = ''b'', RowName = ''b_http'', RowPort = 30000, RowProtocol = ''tcp'', RowExposure = ''cluster''\<rparr>])
        \<lparr>Min = 30000, Max = 30001\<rparr>,
      [\<lparr>RowJobID = ''b'', RowName = ''b_http'', RowPort = 30000, RowProtocol = ''tcp'', RowExposure = ''cluster''\<rparr>])
       = Inr (a', rows') \<and> map RowPort rows' = [30001, 30000] \<and> distinct (map RowPort rows')"
proof -
  let ?row = "\<lparr>RowJobID = ''b'', RowName = ''b_http'', RowPort = 30000, RowProtocol = ''tcp'', RowExposure = ''cluster''\<rparr>"
  let ?st = "(newPortAllocator (GetAllPortAssignments [(''b'', ''b'')] [?row]) \<lparr>Min = 30000, Max = 30001\<rparr>, [?row])"
  have t: "TrimSpace ''a_http'' = ''a_http''" "TrimSpace ''b_http'' = ''b_http''"
    by (rule TrimSpace_plain; simp add: plain_def)+
  have v: "ValidateJobPortKey ''a'' ''a_http'' = Inr ()" "ValidateJobPortKey ''b'' ''b_http'' = Inr ()"
    by (simp_all add: ValidateJobPortKey_def ValidatePortKey_def t is_lower_def is_digit_def HasPrefix_def)
  have u: "[30000..30001] = [30000, 30001::int]" by (simp add: upto.simps)
  obtain a' rows' where r: "sync_jobs id (\<lambda>j. [(j @ ''_http'', zero_binding)]) [''b'', ''a''] ?st = Inr (a', rows')"
    and p: "map RowPort rows' = [30001, 30000]"
    by (simp add: sync_jobs_def syncPorts_def Names_def sync_port_def resolve_def port_binding_def
        zero_binding_def assignProvisioned_def v assign_from_pool_def claimPort_def u
        newPortAllocator_def GetAllPortAssignments_def joined_ports_def releaseRemoved_def
        is_removed_def insert_port_row_def range_Contains_def del: set_filter)
  have "distinct (map RowPort rows')"
    by (rule sync_jobs_ports_unique [OF _ _ _ _ _ _ r]) simp_all
  with r p show ?thesis by (intro exI conjI)
qed

text \<open>
  C33. What \<open>syncPorts\<close> writes for one job: exactly one row per declared port, in name order; a
  fixed port has its declared number, a provisioned one a number of the pool, protocol and exposure
  default to \<open>tcp\<close> and \<open>cluster\<close>; the rows of every other job stay as they were.
\<close>

theorem syncPorts_assigns:
  assumes "port_inv (fst st)" and "syncPorts jobID jobName ports st = Inr (a', rows')"
  shows "filter (\<lambda>r. RowJobID r \<noteq> jobID) rows' = filter (\<lambda>r. RowJobID r \<noteq> jobID) (snd st) \<and>
    map RowName (filter (\<lambda>r. RowJobID r = jobID) rows') = Names ports \<and>
    (\<forall>r \<in> set rows'. RowJobID r = jobID \<longrightarrow> row_matches (pool (fst st)) ports r)"
proof -
  let ?rows = "filter (\<lambda>r. RowJobID r \<noteq> jobID) (snd st)"
  have "rfold (sync_port jobID jobName ports) (releaseRemoved (fst st) jobName (Names ports), ?rows)
      (Names ports) = Inr (a', rows')"
    using assms(2) by (simp add: syncPorts_def Let_def)
  from sync_port_rows [OF this releaseRemoved_inv [OF assms(1)]] obtain new where
    new: "rows' = ?rows @ new" "map RowName new = Names ports"
      "\<forall>r \<in> set new. RowJobID r = jobID \<and> row_matches (pool (fst st)) ports r"
    by (auto simp: Names_def releaseRemoved_def)
  then have "filter (\<lambda>r. RowJobID r \<noteq> jobID) new = []" "filter (\<lambda>r. RowJobID r = jobID) new = new"
    "filter (\<lambda>r. RowJobID r = jobID) ?rows = []"
    by (auto simp: filter_empty_conv filter_id_conv)
  with new show ?thesis by auto
qed

theorem syncPorts_assigns_witness:
  "\<exists>a' rows'. syncPorts ''id1'' ''web'' [(''web_admin'', zero_binding\<lparr>Fixed := Some 9500\<rparr>)]
      (newPortAllocator [] \<lparr>Min = 30000, Max = 30001\<rparr>, []) = Inr (a', rows') \<and>
    map RowName (filter (\<lambda>r. RowJobID r = ''id1'') rows') = [''web_admin''] \<and>
    (\<forall>r \<in> set rows'. RowJobID r = ''id1'' \<longrightarrow>
       row_matches \<lparr>Min = 30000, Max = 30001\<rparr> [(''web_admin'', zero_binding\<lparr>Fixed := Some 9500\<rparr>)] r)"
proof -
  let ?ports = "[(''web_admin'', zero_binding\<lparr>Fixed := Some 9500\<rparr>)]"
  let ?st = "(newPortAllocator [] \<lparr>Min = 30000, Max = 30001\<rparr>, []) :: portAllocator \<times> port_row list"
  have t: "TrimSpace ''web_admin'' = ''web_admin''" by (rule TrimSpace_plain; simp add: plain_def)
  have v: "ValidateJobPortKey ''web'' ''web_admin'' = Inr ()"
    by (simp add: ValidateJobPortKey_def ValidatePortKey_def t is_lower_def is_digit_def HasPrefix_def)
  obtain a' rows' where r: "syncPorts ''id1'' ''web'' ?ports ?st = Inr (a', rows')"
    by (simp add: syncPorts_def Names_def sync_port_def resolve_def port_binding_def zero_binding_def
        assignFixed_def v claimPort_def newPortAllocator_def releaseRemoved_def insert_port_row_def)
  have "port_inv (fst ?st)" by (simp add: port_inv_def newPortAllocator_def)
  from syncPorts_assigns [OF this r] r show ?thesis
    by (intro exI conjI) (auto simp: Names_def newPortAllocator_def)
qed

text \<open>
  A provisioned port keeps the number it already has when that lies in the pool; otherwise it
  gets the smallest pool number no other port holds, and \<open>ErrPortRangeExhausted\<close> is reported
  exactly when there is none.
\<close>

theorem assignProvisioned_outcome:
  assumes "port_inv a" and "ValidateJobPortKey jobName portName = Inr ()"
  shows "map_sum id snd (assignProvisioned a jobName portName) = provisioned_spec a (jobName, portName)"
proof (cases "map_of (existing a) (jobName, portName)")
  case None
  then show ?thesis
    using assign_from_pool_spec [OF port_inv_but_fresh [OF assms(1) None]] assms(2)
    by (simp add: assignProvisioned_def provisioned_spec_def)
next
  case (Some prev)
  show ?thesis
  proof (cases "range_Contains (pool a) prev")
    case True
    then show ?thesis using Some assms(2) by (simp add: assignProvisioned_def provisioned_spec_def)
  next
    case False
    then show ?thesis
      using assign_from_pool_spec [OF port_inv_but_release [OF assms(1) Some]] assms(2) Some
      by (simp add: assignProvisioned_def provisioned_spec_def)
  qed
qed

theorem assignProvisioned_outcome_witness:
  "map_sum id snd (assignProvisioned (newPortAllocator [((''a'', ''a_x''), 7)] \<lparr>Min = 7, Max = 8\<rparr>) ''b'' ''b_x'')
     = Inr 8 \<and>
   map_sum id snd (assignProvisioned (newPortAllocator [((''a'', ''a_x''), 7)] \<lparr>Min = 7, Max = 7\<rparr>) ''b'' ''b_x'')
     = Inl ErrPortRangeExhausted"
proof -
  let ?a = "\<lambda>m. newPortAllocator [((''a'', ''a_x''), 7)] \<lparr>Min = 7, Max = m\<rparr>"
  have t: "TrimSpace ''b_x'' = ''b_x''" by (rule TrimSpace_plain; simp add: plain_def)
  have v: "ValidateJobPortKey ''b'' ''b_x'' = Inr ()"
    by (simp add: ValidateJobPortKey_def ValidatePortKey_def t is_lower_def is_digit_def HasPrefix_def)
  have i: "port_inv (?a m)" for m by (simp add: port_inv_def newPortAllocator_def)
  have "{e. e = ((''a'', ''a_x''), 7::int) \<and> fst e \<noteq> (''b'', ''b_x'')} = {((''a'', ''a_x''), 7)}" by auto
  then have o: "others (?a m) (''b'', ''b_x'') = {7}" for m
    by (simp add: others_def newPortAllocator_def)
  have u: "[7..8] = [7, 8::int]" "[7..7] = [7::int]" by (simp_all add: upto.simps)
  show ?thesis
    using assignProvisioned_outcome [OF i v, of 8] assignProvisioned_outcome [OF i v, of 7]
    by (simp add: provisioned_spec_def o [unfolded newPortAllocator_def, simplified] newPortAllocator_def u)
qed

end
