(* ===== verification/Versions.thy ===== *)
theory Versions
  imports Complex_Main Go_Strings
begin

text \<open>
  Job versions and version constraints: \<^verbatim>\<open>workspace/version.go\<close>,
  \<^verbatim>\<open>workspace/version_specifier.go\<close>, the version part of
  \<^verbatim>\<open>workspace/demands.go\<close>, and \<^verbatim>\<open>data/version.go\<close>. The theory
  shows that \<open>Compare\<close> is the three-way comparison of a linear order (so that the version type
  is an instance of \<open>linorder\<close>), that printing and parsing are inverse on every version the
  parser returns, and what each kind of specifier accepts.
\<close>

section \<open>Data and operations\<close>

subsection \<open>Versions\<close>

datatype version = Version (Major: int) (Minor: int) (Patch: int) (Prerelease: string)

definition zero_version :: version where
  "zero_version = Version 0 0 0 ''''"

text \<open>
  The text before the first \<open>-\<close>, and the trimmed text after it if there is one
  (\<^verbatim>\<open>strings.Index(raw, "-")\<close> and the two slices at it).
\<close>

definition cut_prerelease :: "string \<Rightarrow> string \<times> string option" where
  "cut_prerelease raw =
     (if CHR ''-'' \<in> set raw
      then (takeWhile (\<lambda>c. c \<noteq> CHR ''-'') raw,
            Some (TrimSpace (tl (dropWhile (\<lambda>c. c \<noteq> CHR ''-'') raw))))
      else (raw, None))"

definition parse_segment :: "string \<Rightarrow> int result" where
  "parse_segment part0 =
     (let part = TrimSpace part0
      in if part = '''' then Inl ErrInvalidJobVersion
         else case Atoi part of
                None \<Rightarrow> Inl ErrInvalidJobVersion
              | Some n \<Rightarrow> if n < 0 then Inl ErrInvalidJobVersion else Inr n)"

definition segment_or_zero :: "int list \<Rightarrow> nat \<Rightarrow> int" where
  "segment_or_zero ns i = (if i < length ns then ns ! i else 0)"

definition ParseVersion :: "string \<Rightarrow> version result" where
  "ParseVersion raw0 =
     (let raw = TrimSpace raw0
      in if raw = '''' then Inl ErrInvalidJobVersion
         else if EqualFold raw ''unknown'' then Inl ErrInvalidJobVersion
         else let (release, pre) = cut_prerelease (TrimPrefix (TrimPrefix raw ''v'') ''V'')
              in if pre = Some '''' then Inl ErrInvalidJobVersion
                 else let parts = split_on CHR ''.'' release
                      in if 3 < length parts then Inl ErrInvalidJobVersion
                         else rbind (rmap parse_segment parts)
                           (\<lambda>ns. Inr (Version (segment_or_zero ns 0) (segment_or_zero ns 1)
                                       (segment_or_zero ns 2)
                                       (case pre of None \<Rightarrow> '''' | Some p \<Rightarrow> p))))"

definition release_string :: "version \<Rightarrow> string" where
  "release_string v = Join [Itoa (Major v), Itoa (Minor v), Itoa (Patch v)] ''.''"

definition version_String :: "version \<Rightarrow> string" where
  "version_String v =
     (if Prerelease v \<noteq> '''' then release_string v @ ''-'' @ Prerelease v else release_string v)"

fun compare_segments :: "(int \<times> int) list \<Rightarrow> int option" where
  "compare_segments [] = None"
| "compare_segments ((a, b) # ps) =
     (if a < b then Some (-1) else if a > b then Some 1 else compare_segments ps)"

definition Compare :: "version \<Rightarrow> version \<Rightarrow> int" where
  "Compare v w =
     (case compare_segments [(Major v, Major w), (Minor v, Minor w), (Patch v, Patch w)] of
        Some r \<Rightarrow> r
      | None \<Rightarrow>
          (let vPre = Prerelease v \<noteq> ''''; oPre = Prerelease w \<noteq> ''''
           in if vPre \<and> \<not> oPre then -1
              else if \<not> vPre \<and> oPre then 1
              else if vPre \<and> oPre then
                (if Prerelease v < Prerelease w then -1
                 else if Prerelease v > Prerelease w then 1 else 0)
              else 0))"

subsection \<open>Stored versions\<close>

definition DefaultAllocationVersion :: string where
  "DefaultAllocationVersion = ''0.0.0''"

definition NormalizeDeployVersion :: "string \<Rightarrow> string" where
  "NormalizeDeployVersion raw0 =
     (let raw = TrimSpace raw0
      in if raw = '''' \<or> EqualFold raw ''unknown'' then DefaultAllocationVersion else raw)"

definition normalizeStoredVersion :: "string option \<Rightarrow> string" where
  "normalizeStoredVersion v =
     (case v of None \<Rightarrow> DefaultAllocationVersion | Some s \<Rightarrow> NormalizeDeployVersion s)"

subsection \<open>Specifiers\<close>

datatype specifierOp = specEq | specGte | specLte | specGt | specLt | specCompat

fun op_text :: "specifierOp \<Rightarrow> string" where
  "op_text specEq = ''==''"
| "op_text specGte = ''>=''"
| "op_text specLte = ''<=''"
| "op_text specGt = ''>''"
| "op_text specLt = ''<''"
| "op_text specCompat = ''~=''"

record VersionSpecifier =
  Op :: specifierOp
  SpecVersion :: version
  CompatSegments :: nat

type_synonym VersionSpecifierSet = "VersionSpecifier list"
type_synonym BackwardCompatibilitySpec = "VersionSpecifierSet list"

definition countReleaseSegments :: "string \<Rightarrow> nat" where
  "countReleaseSegments raw0 =
     (let raw = fst (cut_prerelease (TrimPrefix (TrimPrefix (TrimSpace raw0) ''v'') ''V''));
          count = length (filter (\<lambda>part. TrimSpace part \<noteq> '''') (split_on CHR ''.'' raw))
      in if count = 0 then 3 else count)"

definition spec_version_error :: "version result \<Rightarrow> version result" where
  "spec_version_error r = (case r of Inl e \<Rightarrow> Inl ErrInvalidVersionSpecifier | Inr v \<Rightarrow> Inr v)"

definition spec_ops :: "specifierOp list" where
  "spec_ops = [specCompat, specGte, specLte, specEq, specGt, specLt]"

definition ParseVersionSpecifier :: "string \<Rightarrow> VersionSpecifier result" where
  "ParseVersionSpecifier raw0 =
     (let raw = TrimSpace raw0
      in if raw = '''' then Inl ErrInvalidVersionSpecifier
         else case find (\<lambda>p. HasPrefix raw (op_text p)) spec_ops of
           Some p \<Rightarrow>
             (let versionRaw = TrimSpace (drop (length (op_text p)) raw)
              in if versionRaw = '''' then Inl ErrInvalidVersionSpecifier
                 else rbind (spec_version_error (ParseVersion versionRaw))
                   (\<lambda>v. Inr \<lparr>Op = p, SpecVersion = v,
                     CompatSegments = (if p = specCompat then countReleaseSegments versionRaw else 0)\<rparr>))
         | None \<Rightarrow>
             rbind (spec_version_error (ParseVersion raw))
               (\<lambda>v. Inr \<lparr>Op = specEq, SpecVersion = v, CompatSegments = 0\<rparr>))"

definition ParseVersionSpecifierSet :: "string \<Rightarrow> VersionSpecifierSet result" where
  "ParseVersionSpecifierSet raw0 =
     (let raw = TrimSpace raw0
      in if raw = '''' then Inl ErrInvalidVersionSpecifier
         else rmap ParseVersionSpecifier (split_on CHR '','' raw))"

definition ParseBackwardCompatibilityFrom :: "string list \<Rightarrow> BackwardCompatibilitySpec result" where
  "ParseBackwardCompatibilityFrom entries = rmap ParseVersionSpecifierSet entries"

definition compatibleReleaseSatisfied :: "version \<Rightarrow> version \<Rightarrow> nat \<Rightarrow> bool" where
  "compatibleReleaseSatisfied v anchor segments =
     (if Compare v anchor < 0 then False
      else if segments = 1 then Compare v (Version (wrap64 (Major anchor + 1)) 0 0 '''') < 0
      else Compare v (Version (Major anchor) (wrap64 (Minor anchor + 1)) 0 '''') < 0)"

definition spec_Satisfies :: "VersionSpecifier \<Rightarrow> version \<Rightarrow> bool" where
  "spec_Satisfies s v =
     (case Op s of
        specEq \<Rightarrow> Compare v (SpecVersion s) = 0
      | specGte \<Rightarrow> Compare v (SpecVersion s) \<ge> 0
      | specLte \<Rightarrow> Compare v (SpecVersion s) \<le> 0
      | specGt \<Rightarrow> Compare v (SpecVersion s) > 0
      | specLt \<Rightarrow> Compare v (SpecVersion s) < 0
      | specCompat \<Rightarrow> compatibleReleaseSatisfied v (SpecVersion s) (CompatSegments s))"

fun set_Satisfies :: "VersionSpecifierSet \<Rightarrow> version \<Rightarrow> bool" where
  "set_Satisfies [] v = True"
| "set_Satisfies (s # ss) v = (if \<not> spec_Satisfies s v then False else set_Satisfies ss v)"

fun backward_Satisfies :: "BackwardCompatibilitySpec \<Rightarrow> version \<Rightarrow> bool" where
  "backward_Satisfies [] v = False"
| "backward_Satisfies (ss # rest) v = (if set_Satisfies ss v then True else backward_Satisfies rest v)"

subsection \<open>Constraints of hook demands\<close>

text \<open>
  A demand configuration value as decoded from JSON or set by Go code. A finite \<open>float64\<close> is
  the rational it denotes; the conversion to \<open>int64\<close> is exact for integral values in range and
  every other value fails the \<open>value != float64(int64(value))\<close> test.
\<close>

datatype config_value =
    ConfString string
  | ConfFloat64 rat
  | ConfInt int
  | ConfInt64 int
  | ConfOther

record VersionConstraint =
  ConstraintMin :: "version option"
  ConstraintMax :: "version option"

definition parseConfigVersion :: "config_value \<Rightarrow> version result" where
  "parseConfigVersion raw =
     (case raw of
        ConfString s \<Rightarrow> ParseVersion s
      | ConfFloat64 q \<Rightarrow>
          (if of_int \<lfloor>q\<rfloor> = q \<and> in_int64 \<lfloor>q\<rfloor> then ParseVersion (Itoa \<lfloor>q\<rfloor>) else Inl ErrInvalidJobVersion)
      | ConfInt n \<Rightarrow> ParseVersion (Itoa n)
      | ConfInt64 n \<Rightarrow> ParseVersion (Itoa n)
      | ConfOther \<Rightarrow> Inl ErrInvalidJobVersion)"

definition parseOptionalBound :: "config_value option \<Rightarrow> version option result" where
  "parseOptionalBound raw =
     (case raw of None \<Rightarrow> Inr None
      | Some r \<Rightarrow> rbind (parseConfigVersion r) (\<lambda>v. Inr (Some v)))"

definition ParseVersionConstraint :: "(string \<rightharpoonup> config_value) \<Rightarrow> VersionConstraint result" where
  "ParseVersionConstraint config =
     rbind (parseOptionalBound (config ''min_version'')) (\<lambda>mn.
     rbind (parseOptionalBound (config ''max_version'')) (\<lambda>mx.
       (case (mn, mx) of
          (Some a, Some b) \<Rightarrow>
            (if Compare a b > 0 then Inl ErrInvalidHookConfiguration
             else Inr \<lparr>ConstraintMin = mn, ConstraintMax = mx\<rparr>)
        | _ \<Rightarrow> Inr \<lparr>ConstraintMin = mn, ConstraintMax = mx\<rparr>)))"

definition constraint_Satisfies :: "VersionConstraint \<Rightarrow> version \<Rightarrow> unit result" where
  "constraint_Satisfies c upstream =
     (case ConstraintMin c of
        Some mn \<Rightarrow>
          (if Compare upstream mn < 0 then Inl ErrHookDemandVersionMismatch
           else case ConstraintMax c of
             Some mx \<Rightarrow> if Compare upstream mx > 0 then Inl ErrHookDemandVersionMismatch else Inr ()
           | None \<Rightarrow> Inr ())
      | None \<Rightarrow>
          (case ConstraintMax c of
             Some mx \<Rightarrow> if Compare upstream mx > 0 then Inl ErrHookDemandVersionMismatch else Inr ()
           | None \<Rightarrow> Inr ()))"

section \<open>Compare is a linear order\<close>

text \<open>
  The contract of a Go three-way comparison, and what follows from it: a strict order with
  trichotomy. \<open>Compare\<close> interprets it.
\<close>

locale three_way =
  fixes cmp :: "'a \<Rightarrow> 'a \<Rightarrow> int"
  assumes cmp_range: "cmp a b \<in> {-1, 0, 1}"
    and cmp_flip: "cmp b a = - cmp a b"
    and cmp_zero: "cmp a b = 0 \<longleftrightarrow> a = b"
    and cmp_trans: "cmp a b < 0 \<Longrightarrow> cmp b c < 0 \<Longrightarrow> cmp a c < 0"
begin

lemma cmp_refl: "cmp a a = 0"
  by (simp add: cmp_zero)

lemma cmp_le_trans: "cmp a b \<le> 0 \<Longrightarrow> cmp b c \<le> 0 \<Longrightarrow> cmp a c \<le> 0"
  using cmp_trans [of a b c] cmp_zero [of a b] cmp_zero [of b c] by (metis order_le_less)

lemma cmp_antisym: "cmp a b \<le> 0 \<Longrightarrow> cmp b a \<le> 0 \<Longrightarrow> a = b"
  using cmp_flip [of a b] cmp_zero [of a b] by linarith

lemma cmp_total: "cmp a b \<le> 0 \<or> cmp b a \<le> 0"
  using cmp_flip [of a b] by linarith

lemma cmp_less_iff: "cmp a b < 0 \<longleftrightarrow> cmp a b \<le> 0 \<and> \<not> cmp b a \<le> 0"
  using cmp_flip [of a b] by linarith

end

definition version_key :: "version \<Rightarrow> int \<times> int \<times> int \<times> bool \<times> string" where
  "version_key v = (Major v, Minor v, Patch v, Prerelease v = '''', Prerelease v)"

definition key_less :: "int \<times> int \<times> int \<times> bool \<times> string \<Rightarrow> int \<times> int \<times> int \<times> bool \<times> string \<Rightarrow> bool" where
  "key_less k l =
     (case k of (a, b, c, r, p) \<Rightarrow> case l of (a', b', c', r', p') \<Rightarrow>
        a < a' \<or> a = a' \<and> (b < b' \<or> b = b' \<and> (c < c' \<or> c = c' \<and>
          ((\<not> r \<and> r') \<or> (r = r' \<and> p < p')))))"

lemma Compare_neg_iff: "Compare v w < 0 \<longleftrightarrow> key_less (version_key v) (version_key w)"
  by (auto simp: Compare_def version_key_def key_less_def Let_def)

lemma Compare_pos_iff: "Compare v w > 0 \<longleftrightarrow> key_less (version_key w) (version_key v)"
  by (auto simp: Compare_def version_key_def key_less_def Let_def)

lemma key_less_trans: "key_less k l \<Longrightarrow> key_less l m \<Longrightarrow> key_less k m"
  by (auto simp: key_less_def split: prod.splits)

interpretation version_cmp: three_way Compare
proof
  show "Compare a b \<in> {-1, 0, 1}" for a b
    by (auto simp: Compare_def Let_def)
  show "Compare b a = - Compare a b" for a b
    by (auto simp: Compare_def Let_def)
  show "Compare a b = 0 \<longleftrightarrow> a = b" for a b
    by (cases a; cases b) (auto simp: Compare_def Let_def)
  show "Compare a b < 0 \<Longrightarrow> Compare b c < 0 \<Longrightarrow> Compare a c < 0" for a b c
    by (auto simp: Compare_neg_iff intro: key_less_trans)
qed

instantiation version :: linorder
begin

definition less_eq_version :: "version \<Rightarrow> version \<Rightarrow> bool" where
  "less_eq_version v w \<longleftrightarrow> Compare v w \<le> 0"

definition less_version :: "version \<Rightarrow> version \<Rightarrow> bool" where
  "less_version v w \<longleftrightarrow> Compare v w < 0"

instance
proof
  fix u v w :: version
  show "v < w \<longleftrightarrow> v \<le> w \<and> \<not> w \<le> v"
    unfolding less_eq_version_def less_version_def by (rule version_cmp.cmp_less_iff)
  show "v \<le> v"
    by (simp add: less_eq_version_def version_cmp.cmp_refl)
  show "u \<le> v \<Longrightarrow> v \<le> w \<Longrightarrow> u \<le> w"
    unfolding less_eq_version_def by (rule version_cmp.cmp_le_trans)
  show "v \<le> w \<Longrightarrow> w \<le> v \<Longrightarrow> v = w"
    unfolding less_eq_version_def by (rule version_cmp.cmp_antisym)
  show "v \<le> w \<or> w \<le> v"
    unfolding less_eq_version_def by (rule version_cmp.cmp_total)
qed

end

lemma Compare_order:
  "Compare v w < 0 \<longleftrightarrow> v < w" "Compare v w \<le> 0 \<longleftrightarrow> v \<le> w" "Compare v w = 0 \<longleftrightarrow> v = w"
  "Compare v w > 0 \<longleftrightarrow> w < v" "Compare v w \<ge> 0 \<longleftrightarrow> w \<le> v"
  using version_cmp.cmp_flip [of v w]
  by (auto simp: less_version_def less_eq_version_def version_cmp.cmp_zero)

section \<open>Parsing and printing\<close>

definition version_wf :: "version \<Rightarrow> bool" where
  "version_wf v \<longleftrightarrow>
     (\<forall>n \<in> {Major v, Minor v, Patch v}. 0 \<le> n \<and> n \<le> max_int64) \<and>
     TrimSpace (Prerelease v) = Prerelease v"

lemma parse_segment_range: "parse_segment p = Inr n \<Longrightarrow> 0 \<le> n \<and> n \<le> max_int64"
  by (auto simp: parse_segment_def Let_def in_int64_def dest: Atoi_in_int64
      split: if_splits option.splits)

lemma segment_or_zero_range:
  assumes "rmap parse_segment ps = Inr ns"
  shows "0 \<le> segment_or_zero ns i \<and> segment_or_zero ns i \<le> max_int64"
proof (cases "i < length ns")
  case True
  with assms have "parse_segment (ps ! i) = Inr (ns ! i)"
    by (auto simp: rmap_eq_Inr list_all2_conv_all_nth)
  with True show ?thesis using parse_segment_range by (simp add: segment_or_zero_def)
next
  case False
  then show ?thesis by (simp add: segment_or_zero_def max_int64_def)
qed

lemma cut_prerelease_trimmed: "cut_prerelease s = (r, Some p) \<Longrightarrow> TrimSpace p = p"
  by (auto simp: cut_prerelease_def split: if_splits)

lemma ParseVersion_wf: "ParseVersion raw = Inr v \<Longrightarrow> version_wf v"
  by (auto simp: ParseVersion_def version_wf_def Let_def result_simps
      dest: segment_or_zero_range cut_prerelease_trimmed split: if_splits prod.splits option.splits)

lemma Itoa_nonneg: "0 \<le> n \<Longrightarrow> Itoa n = show_nat (nat n)"
  by (simp add: Itoa_def)

lemma parse_segment_Itoa: "0 \<le> n \<Longrightarrow> n \<le> max_int64 \<Longrightarrow> parse_segment (Itoa n) = Inr n"
  using Atoi_show_nat [of "nat n"]
  by (simp add: parse_segment_def Itoa_nonneg in_int64_def min_int64_def)

lemma digit_string_chars: "list_all is_digit s \<Longrightarrow> \<not> is_digit c \<Longrightarrow> c \<notin> set s"
  by (auto simp: list_all_iff)

lemma not_is_digit_marks [simp]: "\<not> is_digit CHR ''.''" "\<not> is_digit CHR '',''" "\<not> is_digit CHR ''v''"
  "\<not> is_digit CHR ''V''" "\<not> is_digit CHR ''=''"
  by (simp_all add: is_digit_def)

lemma release_string_split:
  assumes "version_wf v"
  shows "split_on CHR ''.'' (release_string v) = [Itoa (Major v), Itoa (Minor v), Itoa (Patch v)]"
  using assms digit_string_chars [OF show_nat_digits]
  unfolding release_string_def version_wf_def
  by (intro split_on_Join) (auto simp: Itoa_nonneg)

lemma release_string_chars:
  assumes "version_wf v" and "c \<in> set (release_string v)"
  shows "is_digit c \<or> c = CHR ''.''"
  using assms show_nat_digits
  by (auto simp: release_string_def version_wf_def Itoa_nonneg list_all_iff)

lemma release_string_Cons:
  assumes "version_wf v"
  obtains d r where "release_string v = d # r" and "is_digit d"
  using assms show_nat_hd [of "nat (Major v)"]
  by (cases "show_nat (nat (Major v))") (auto simp: release_string_def version_wf_def Itoa_nonneg)

lemma release_string_plain: "version_wf v \<Longrightarrow> list_all plain (release_string v)"
  using release_string_chars is_digit_plain by (fastforce simp: list_all_iff plain_def)

lemma version_String_eq:
  "version_String v = release_string v @ (if Prerelease v = '''' then '''' else CHR ''-'' # Prerelease v)"
  by (simp add: version_String_def)

lemma plain_dash [simp]: "plain CHR ''-''"
  by (simp add: plain_def)

lemma TrimSpace_version_String [simp]:
  "version_wf v \<Longrightarrow> TrimSpace (version_String v) = version_String v"
  unfolding version_String_eq
  by (intro TrimSpace_append_plain)
     (auto simp: release_string_plain version_wf_def intro!: TrimSpace_Cons_plain)

lemma version_String_Cons:
  assumes "version_wf v"
  obtains d r where "version_String v = d # r" and "is_digit d"
  using assms by (metis release_string_Cons version_String_eq append_Cons)

lemma version_String_not_unknown: "version_wf v \<Longrightarrow> \<not> EqualFold (version_String v) ''unknown''"
proof
  assume "version_wf v" and eq: "EqualFold (version_String v) ''unknown''"
  then obtain d r where d: "version_String v = d # r" "is_digit d"
    using version_String_Cons by blast
  then have "hd (fold_case (d # r)) = d"
    by (subst fold_case_hd) (auto simp: is_digit_def lower_char_def)
  with d eq have "d = CHR ''u''" by (simp add: EqualFold_def lower_char_def)
  with d show False by (simp add: is_digit_def)
qed

lemma cut_prerelease_String:
  assumes "version_wf v"
  shows "cut_prerelease (version_String v) =
    (release_string v, if Prerelease v = '''' then None else Some (Prerelease v))"
proof -
  have no: "CHR ''-'' \<notin> set (release_string v)"
    using release_string_chars [OF assms] by fastforce
  then have "takeWhile (\<lambda>c. c \<noteq> CHR ''-'') (release_string v @ CHR ''-'' # Prerelease v) = release_string v"
    and "dropWhile (\<lambda>c. c \<noteq> CHR ''-'') (release_string v @ CHR ''-'' # Prerelease v) = CHR ''-'' # Prerelease v"
    by (auto simp: takeWhile_append dropWhile_append)
  with no assms show ?thesis
    by (simp add: cut_prerelease_def version_String_eq version_wf_def)
qed

lemma TrimPrefix_version_String:
  assumes "version_wf v"
  shows "TrimPrefix (TrimPrefix (version_String v) ''v'') ''V'' = version_String v"
proof -
  obtain d r where "version_String v = d # r" "is_digit d" using version_String_Cons [OF assms] .
  moreover from this have "d \<noteq> CHR ''v''" "d \<noteq> CHR ''V''" by auto
  ultimately show ?thesis by (simp add: TrimPrefix_def HasPrefix_def)
qed

lemma ParseVersion_String:
  assumes "version_wf v"
  shows "ParseVersion (version_String v) = Inr v"
proof -
  have "rmap parse_segment [Itoa (Major v), Itoa (Minor v), Itoa (Patch v)] =
      Inr [Major v, Minor v, Patch v]"
    using assms by (simp add: version_wf_def parse_segment_Itoa)
  moreover have "version_String v \<noteq> ''''" using version_String_Cons [OF assms] by (metis list.distinct(1))
  ultimately show ?thesis
    using assms
    by (cases v) (simp add: ParseVersion_def version_String_not_unknown TrimPrefix_version_String
        cut_prerelease_String release_string_split segment_or_zero_def)
qed

section \<open>What the specifiers accept\<close>

definition compat_upper :: "version \<Rightarrow> nat \<Rightarrow> version" where
  "compat_upper a segments =
     (if segments = 1 then Version (Major a + 1) 0 0 '''' else Version (Major a) (Minor a + 1) 0 '''')"

lemma spec_Satisfies_order:
  "spec_Satisfies s v =
     (case Op s of
        specEq \<Rightarrow> v = SpecVersion s | specGte \<Rightarrow> SpecVersion s \<le> v | specLte \<Rightarrow> v \<le> SpecVersion s
      | specGt \<Rightarrow> SpecVersion s < v | specLt \<Rightarrow> v < SpecVersion s
      | specCompat \<Rightarrow> compatibleReleaseSatisfied v (SpecVersion s) (CompatSegments s))"
  by (simp add: spec_Satisfies_def Compare_order split: specifierOp.splits)

lemma set_Satisfies_iff: "set_Satisfies ss v \<longleftrightarrow> (\<forall>s \<in> set ss. spec_Satisfies s v)"
  by (induction ss) auto

lemma backward_Satisfies_iff:
  "backward_Satisfies b v \<longleftrightarrow> (\<exists>ss \<in> set b. \<forall>s \<in> set ss. spec_Satisfies s v)"
  by (induction b) (auto simp: set_Satisfies_iff)

lemma compatibleReleaseSatisfied_interval:
  assumes "version_wf a" and "Major a < max_int64" and "Minor a < max_int64"
  shows "compatibleReleaseSatisfied v a k \<longleftrightarrow> a \<le> v \<and> v < compat_upper a k"
proof -
  have "wrap64 (Major a + 1) = Major a + 1" "wrap64 (Minor a + 1) = Minor a + 1"
    using assms by (auto simp: version_wf_def in_int64_def min_int64_def max_int64_def intro!: wrap64_id)
  then show ?thesis
    by (auto simp: compatibleReleaseSatisfied_def compat_upper_def Compare_order not_less)
qed

lemma ParseVersionSpecifier_op:
  assumes "version_wf a" and "p \<noteq> specCompat"
  shows "ParseVersionSpecifier (op_text p @ version_String a) =
    Inr \<lparr>Op = p, SpecVersion = a, CompatSegments = 0\<rparr>"
proof -
  obtain d r where d: "version_String a = d # r" "is_digit d" using version_String_Cons [OF assms(1)] .
  have "list_all plain (op_text p)" by (cases p) (simp_all add: plain_def)
  then have trim: "TrimSpace (op_text p @ version_String a) = op_text p @ version_String a"
    using assms(1) by (intro TrimSpace_append_plain) auto
  have "d \<noteq> CHR ''=''" using d by auto
  then have found: "find (\<lambda>q. HasPrefix (op_text p @ d # r) (op_text q)) spec_ops = Some p"
    using assms(2) by (cases p) (simp_all add: spec_ops_def HasPrefix_def)
  have "op_text p @ d # r \<noteq> ''''" by simp
  then show ?thesis
    using trim found d(1) assms TrimSpace_version_String [OF assms(1)] ParseVersion_String [OF assms(1)]
    unfolding ParseVersionSpecifier_def Let_def
    by (simp add: spec_version_error_def)
qed

lemma ParseVersionSpecifierSet_range:
  assumes "version_wf a" "version_wf b" "CHR '','' \<notin> set (Prerelease a)" "CHR '','' \<notin> set (Prerelease b)"
  shows "ParseVersionSpecifierSet (''>='' @ version_String a @ '',<'' @ version_String b) =
    Inr [\<lparr>Op = specGte, SpecVersion = a, CompatSegments = 0\<rparr>,
         \<lparr>Op = specLt, SpecVersion = b, CompatSegments = 0\<rparr>]"
proof -
  have no: "CHR '','' \<notin> set (version_String v)" if "version_wf v" "CHR '','' \<notin> set (Prerelease v)" for v
    using that release_string_chars [of v "CHR '',''"] by (auto simp: version_String_eq)
  let ?s = "''>='' @ version_String a @ '',<'' @ version_String b"
  have "TrimSpace (''<'' @ version_String b) = ''<'' @ version_String b"
    using assms by (intro TrimSpace_append_plain) (auto simp: plain_def)
  then have "TrimSpace (CHR '','' # ''<'' @ version_String b) = CHR '','' # ''<'' @ version_String b"
    by (intro TrimSpace_Cons_plain) (simp_all add: plain_def)
  then have tb: "drop_first_seq (map rev space_seqs) (rev (CHR '','' # ''<'' @ version_String b)) = None"
    by (simp only: TrimSpace_id_iff)
  have "drop_first_seq (map rev space_seqs) (rev (''<'' @ version_String b) @ CHR '','' # rev (''>='' @ version_String a)) = None"
    using tb plain_not_in_space [of "CHR '',''"]
    by (intro drop_first_seq_extend) (auto simp: plain_def intro: drop_first_seq_None_prefix)
  moreover have "drop_first_seq space_seqs ?s = None"
    using plain_not_space_hd [of "CHR ''>''"] by (intro drop_first_seq_hd) (auto simp: plain_def)
  ultimately have trim: "TrimSpace ?s = ?s" by (simp add: TrimSpace_id_iff)
  have "split_on CHR '','' ((''>='' @ version_String a) @ CHR '','' # (''<'' @ version_String b)) =
      [''>='' @ version_String a, ''<'' @ version_String b]"
    using no assms by (subst split_on_append) (auto simp: split_on_no_sep)
  with trim show ?thesis
    using ParseVersionSpecifier_op [OF assms(1), of specGte] ParseVersionSpecifier_op [OF assms(2), of specLt]
    by (simp add: ParseVersionSpecifierSet_def)
qed

section \<open>Properties\<close>



text \<open>
  C31. Printing a version that \<open>ParseVersion\<close> returned and parsing the text again gives the same
  version, whatever spelling the input had (a leading v, missing segments, spaces, leading
  zeros).
\<close>

theorem ParseVersion_roundtrip:
  "ParseVersion raw = Inr v \<Longrightarrow> ParseVersion (version_String v) = Inr v"
  by (rule ParseVersion_String [OF ParseVersion_wf])

theorem ParseVersion_roundtrip_witness:
  "ParseVersion ''v1.02-rc.1'' = Inr (Version 1 2 0 ''rc.1'') \<and>
   ParseVersion ''1.2.0-rc.1'' = Inr (Version 1 2 0 ''rc.1'')"
proof -
  have t: "TrimSpace ''v1.02-rc.1'' = ''v1.02-rc.1''" "TrimSpace ''rc.1'' = ''rc.1''"
    "TrimSpace ''1'' = ''1''" "TrimSpace ''02'' = ''02''"
    by (rule TrimSpace_plain; simp add: plain_def)+
  have h: "ParseVersion ''v1.02-rc.1'' = Inr (Version 1 2 0 ''rc.1'')"
    by (simp add: ParseVersion_def t EqualFold_def lower_char_def TrimPrefix_def HasPrefix_def
        cut_prerelease_def parse_segment_def Atoi_def is_digit_def digits_val_def digit_val_def
        in_int64_def min_int64_def max_int64_def segment_or_zero_def)
  have "version_String (Version 1 2 0 ''rc.1'') = ''1.2.0-rc.1''"
    by (simp add: version_String_def release_string_def Itoa_def show_nat.simps digit_char_simps)
  with h ParseVersion_roundtrip [OF h] show ?thesis by simp
qed

text \<open>
  A specifier set written \<open>>=a,<b\<close> parses, and it accepts exactly the versions from \<open>a\<close>
  (inclusive) to \<open>b\<close> (exclusive).
\<close>

theorem specifier_range_accepts:
  assumes "version_wf a" "version_wf b"
    and "CHR '','' \<notin> set (Prerelease a)" "CHR '','' \<notin> set (Prerelease b)"
  shows "\<exists>ss. ParseVersionSpecifierSet (''>='' @ version_String a @ '',<'' @ version_String b) = Inr ss \<and>
    (\<forall>v. set_Satisfies ss v \<longleftrightarrow> a \<le> v \<and> v < b)"
  using ParseVersionSpecifierSet_range [OF assms]
  by (auto simp: spec_Satisfies_order)

theorem specifier_range_accepts_witness:
  "\<exists>ss. ParseVersionSpecifierSet (''>='' @ version_String (Version 2 0 0 '''') @ '',<'' @
      version_String (Version 3 0 0 '''')) = Inr ss \<and>
    (\<forall>v. set_Satisfies ss v \<longleftrightarrow> Version 2 0 0 '''' \<le> v \<and> v < Version 3 0 0 '''')"
  by (rule specifier_range_accepts) (simp_all add: version_wf_def max_int64_def)



end
