(* ===== verification/Batches.thy ===== *)
theory Batches
  imports Go_Strings "HOL-Library.Sublist"
begin

text \<open>
  Slices, sets and batches: \<^verbatim>\<open>utils/batch.go\<close>, \<^verbatim>\<open>utils/sets.go\<close>,
  \<^verbatim>\<open>hooks/batch.go\<close> (\<open>BatchCount\<close>, \<open>SplitWorkerBatches\<close>, \<open>BatchEnv\<close>),
  \<open>effectiveBatchSize\<close> of \<^verbatim>\<open>deploy/rollout.go\<close> and the job filters of
  \<^verbatim>\<open>deploy/filters.go\<close>. Every rollout of kive walks an ordered list of workers in
  batches; the locale \<open>batching\<close> states what a rollout needs of the split, and both ways the
  code splits a list interpret it.
\<close>

section \<open>Operations\<close>

subsection \<open>Slices and iterators\<close>

datatype slice_error = NegativeIndex | IndexOutOfRange | StartAfterEnd

definition SliceRange :: "'a list \<Rightarrow> int \<Rightarrow> int \<Rightarrow> slice_error + 'a list" where
  "SliceRange items start stop =
     (let n = int (length items)
      in if start < 0 \<or> stop < 0 then Inl NegativeIndex
         else if start > n \<or> stop > n then Inl IndexOutOfRange
         else if start > stop then Inl StartAfterEnd
         else Inr (take (nat stop - nat start) (drop (nat start) items)))"

text \<open>
  The closure of \<open>NewBatchIterator\<close> keeps \<open>index\<close>; one call returns the next batch (\<open>None\<close>
  when it reports false) and the new index.
\<close>

definition iterator_batch_size :: "int \<Rightarrow> int" where
  "iterator_batch_size batchSize = (if batchSize \<le> 0 then 1 else batchSize)"

definition iterator_next :: "'a list \<Rightarrow> int \<Rightarrow> nat \<Rightarrow> 'a list option \<times> nat" where
  "iterator_next items batchSize index =
     (if index \<ge> length items then (None, index)
      else let e = min (index + nat (iterator_batch_size batchSize)) (length items)
           in (Some (take (e - index) (drop index items)), e))"

text \<open>Calling the iterator until it reports false, as \<^verbatim>\<open>runcommand/execute.go\<close> does.\<close>

function iterator_drain :: "'a list \<Rightarrow> int \<Rightarrow> nat \<Rightarrow> 'a list list" where
  "iterator_drain items batchSize index =
     (if index \<ge> length items then []
      else (case iterator_next items batchSize index of
              (None, _) \<Rightarrow> []
            | (Some batch, index') \<Rightarrow> batch # iterator_drain items batchSize index'))"
  by pat_completeness auto
termination
  by (relation "measure (\<lambda>(items, b, i). length items - i)")
     (auto simp: iterator_next_def iterator_batch_size_def Let_def split: if_splits)

declare iterator_drain.simps [simp del]

subsection \<open>Sets kept as slices\<close>

fun unique_loop :: "string set \<Rightarrow> string list \<Rightarrow> string list" where
  "unique_loop seen [] = []"
| "unique_loop seen (v # vs) =
     (if v \<in> seen then unique_loop seen vs else v # unique_loop (insert v seen) vs)"

definition Unique :: "string list \<Rightarrow> string list" where
  "Unique values = unique_loop {} values"

definition Union :: "string list \<Rightarrow> string list \<Rightarrow> string list" where
  "Union a b = Unique (a @ b)"

definition Intersection :: "string list \<Rightarrow> string list \<Rightarrow> string list" where
  "Intersection a b = (if a = [] \<or> b = [] then [] else filter (\<lambda>v. v \<in> set a) b)"

definition Difference :: "string list \<Rightarrow> string list \<Rightarrow> string list" where
  "Difference a b = filter (\<lambda>v. v \<notin> set b) a"

subsection \<open>Worker batches\<close>

record BatchContext =
  bc_Job :: string
  bc_Phase :: string
  bc_BatchIndex :: nat
  bc_BatchCount :: int
  bc_BatchAllocation :: "string list"
  bc_RolloutOrder :: string
  bc_OrderSource :: string

text \<open>Go's division truncates toward zero.\<close>

definition go_div :: "int \<Rightarrow> int \<Rightarrow> int" where
  "go_div a b = sgn a * sgn b * (\<bar>a\<bar> div \<bar>b\<bar>)"

definition BatchCount :: "int \<Rightarrow> int \<Rightarrow> int" where
  "BatchCount tot batchSize0 =
     (if tot = 0 then 0
      else let batchSize = (if batchSize0 < 1 then tot else batchSize0)
           in go_div (wrap64 (wrap64 (tot + batchSize) - 1)) batchSize)"

text \<open>
  The loop \<open>for i := 0; i < n; i += b\<close> over a list of \<open>n\<close> workers. A batch size of 0 would
  not terminate in Go; every caller passes a positive one (\<open>effectiveBatchSize_pos\<close> below, and the
  guard of \<open>SplitWorkerBatches\<close>).
\<close>

function batch_loop :: "nat \<Rightarrow> 'a list \<Rightarrow> nat \<Rightarrow> 'a list list" where
  "batch_loop b xs i =
     (if i < length xs \<and> 0 < b
      then take (min (i + b) (length xs) - i) (drop i xs) # batch_loop b xs (i + b)
      else [])"
  by pat_completeness auto
termination
  by (relation "measure (\<lambda>(b, xs, i). length xs - i)") auto

declare batch_loop.simps [simp del]

definition SplitWorkerBatches :: "'a list \<Rightarrow> int \<Rightarrow> 'a list list" where
  "SplitWorkerBatches orderedIPs batchSize0 =
     (if orderedIPs = [] then []
      else let batchSize = (if batchSize0 < 1 then int (length orderedIPs) else batchSize0)
           in batch_loop (nat batchSize) orderedIPs 0)"

definition effectiveBatchSize :: "int \<Rightarrow> int \<Rightarrow> int \<Rightarrow> int" where
  "effectiveBatchSize requested tot hardCap =
     (let n = (if requested \<ge> 1 then (if requested > tot then tot else requested) else tot)
      in if hardCap \<ge> 1 \<and> n > hardCap then hardCap else n)"

definition BatchEnv :: "BatchContext \<Rightarrow> string list" where
  "BatchEnv ctx =
     [''BATCH_ALLOCATIONS='' @ Join (bc_BatchAllocation ctx) '','',
      ''BATCH_INDEX='' @ Itoa (int (bc_BatchIndex ctx)),
      ''BATCH_COUNT='' @ Itoa (bc_BatchCount ctx),
      ''DEPLOY_PHASE='' @ bc_Phase ctx,
      ''ROLLOUT_ORDER='' @ bc_RolloutOrder ctx,
      ''ROLLOUT_ORDER_SOURCE='' @ bc_OrderSource ctx,
      ''JOB='' @ bc_Job ctx]"

subsection \<open>Job filters\<close>

definition normalizeJobFilter :: "string list \<Rightarrow> string list" where
  "normalizeJobFilter jobsFilter = (if jobsFilter = [] then [] else Unique jobsFilter)"

definition selectJobsForDeploy :: "string list \<Rightarrow> string list \<Rightarrow> string list" where
  "selectJobsForDeploy availableJobs jobsFilter0 =
     (let jobsFilter = normalizeJobFilter jobsFilter0
      in if jobsFilter = [] then availableJobs
         else filter (\<lambda>job. job \<in> set jobsFilter) availableJobs)"

definition jobInFilter :: "string \<Rightarrow> string list \<Rightarrow> bool" where
  "jobInFilter job jobsFilter \<longleftrightarrow> jobsFilter = [] \<or> job \<in> set jobsFilter"

definition parseJobsCSV :: "string \<Rightarrow> string list" where
  "parseJobsCSV jobsCSV0 =
     (let jobsCSV = TrimSpace jobsCSV0
      in if jobsCSV = '''' then []
         else Unique (filter (\<lambda>p. p \<noteq> '''') (map TrimSpace (split_on CHR '','' jobsCSV))))"

section \<open>Sets\<close>

lemma set_unique_loop: "set (unique_loop seen vs) = set vs - seen"
  by (induction seen vs rule: unique_loop.induct) auto

lemma distinct_unique_loop: "distinct (unique_loop seen vs)"
  by (induction seen vs rule: unique_loop.induct) (auto simp: set_unique_loop)

lemma unique_loop_subseq: "subseq (unique_loop seen vs) vs"
  by (induction seen vs rule: unique_loop.induct) auto

lemma set_Unique [simp]: "set (Unique vs) = set vs"
  by (simp add: Unique_def set_unique_loop)

lemma distinct_Unique [simp]: "distinct (Unique vs)"
  by (simp add: Unique_def distinct_unique_loop)

lemma unique_loop_id: "distinct vs \<Longrightarrow> set vs \<inter> seen = {} \<Longrightarrow> unique_loop seen vs = vs"
  by (induction seen vs rule: unique_loop.induct) auto

lemma Unique_id: "distinct vs \<Longrightarrow> Unique vs = vs"
  by (simp add: Unique_def unique_loop_id)

lemma Unique_Nil [simp]: "Unique vs = [] \<longleftrightarrow> vs = []"
  using set_Unique [of vs] by (metis set_empty)

lemma set_Union [simp]: "set (Union a b) = set a \<union> set b"
  by (simp add: Union_def)

lemma set_Intersection [simp]: "set (Intersection a b) = set a \<inter> set b"
  by (auto simp: Intersection_def)

lemma set_Difference [simp]: "set (Difference a b) = set a - set b"
  by (auto simp: Difference_def)

lemma distinct_Difference [simp]: "distinct a \<Longrightarrow> distinct (Difference a b)"
  by (simp add: Difference_def)

lemma selectJobsForDeploy_eq:
  "selectJobsForDeploy avail flt = filter (\<lambda>job. jobInFilter job flt) avail"
  by (auto simp: selectJobsForDeploy_def normalizeJobFilter_def jobInFilter_def Let_def
      intro!: filter_cong)

section \<open>Batching\<close>

text \<open>
  What a rollout relies on: the batches are the list cut in order into pieces that are not empty
  and not wider than the batch size.
\<close>

locale batching =
  fixes split :: "'a list \<Rightarrow> int \<Rightarrow> 'a list list" and width :: "'a list \<Rightarrow> int \<Rightarrow> nat"
  assumes concat_split: "concat (split xs b) = xs"
    and batch_nonempty: "ys \<in> set (split xs b) \<Longrightarrow> ys \<noteq> []"
    and batch_width: "ys \<in> set (split xs b) \<Longrightarrow> length ys \<le> width xs b"
begin

lemma in_some_batch: "x \<in> set xs \<longleftrightarrow> (\<exists>ys \<in> set (split xs b). x \<in> set ys)"
  using concat_split [of xs b] by (metis UN_iff set_concat)

lemma batches_disjoint:
  assumes "distinct xs" "i < j" "j < length (split xs b)"
  shows "set (split xs b ! i) \<inter> set (split xs b ! j) = {}"
proof -
  have "distinct (concat (split xs b))" using assms(1) by (simp add: concat_split)
  moreover have "removeAll [] (split xs b) = split xs b"
    using batch_nonempty [of "[]"] by (intro removeAll_id) auto
  ultimately have "distinct (split xs b)" and
    "\<And>ys zs. ys \<in> set (split xs b) \<Longrightarrow> zs \<in> set (split xs b) \<Longrightarrow> ys \<noteq> zs \<Longrightarrow> set ys \<inter> set zs = {}"
    by (simp_all add: distinct_concat_iff)
  then show ?thesis using assms by (metis nth_mem nth_eq_iff_index_eq less_trans nat_less_le)
qed

lemma batch_distinct: "distinct xs \<Longrightarrow> ys \<in> set (split xs b) \<Longrightarrow> distinct ys"
  using concat_split [of xs b] by (metis distinct_concat_iff)

lemma batches_before:
  assumes "split xs b = bs @ ys # cs"
  shows "xs = concat bs @ ys @ concat cs"
  using concat_split [of xs b] assms by simp

end

lemma batch_loop_concat: "0 < b \<Longrightarrow> concat (batch_loop b xs i) = drop i xs"
proof (induction b xs i rule: batch_loop.induct)
  case (1 b xs i)
  show ?case
  proof (cases "i < length xs")
    case True
    with 1 have "concat (batch_loop b xs (i + b)) = drop (i + b) xs" by simp
    moreover have "take (min (i + b) (length xs) - i) (drop i xs) @ drop (i + b) xs = drop i xs"
    proof (cases "i + b \<le> length xs")
      case True
      then have "min (i + b) (length xs) - i = b" by simp
      then show ?thesis by (metis append_take_drop_id drop_drop add.commute)
    next
      case False
      then show ?thesis using \<open>i < length xs\<close> by (simp add: min_def)
    qed
    ultimately show ?thesis using True \<open>0 < b\<close> by (subst batch_loop.simps) simp
  next
    case False
    then show ?thesis by (subst batch_loop.simps) simp
  qed
qed

lemma batch_loop_member:
  "ys \<in> set (batch_loop b xs i) \<Longrightarrow> ys \<noteq> [] \<and> length ys \<le> b"
proof (induction b xs i rule: batch_loop.induct)
  case (1 b xs i)
  show ?case
  proof (cases "i < length xs \<and> 0 < b")
    case True
    then have "batch_loop b xs i =
        take (min (i + b) (length xs) - i) (drop i xs) # batch_loop b xs (i + b)"
      by (simp add: batch_loop.simps [of b xs i])
    with "1.prems" consider "ys = take (min (i + b) (length xs) - i) (drop i xs)"
      | "ys \<in> set (batch_loop b xs (i + b))" by auto
    then show ?thesis
    proof cases
      case 1
      with True show ?thesis by (auto simp: min_def)
    next
      case 2
      with True "1.IH" show ?thesis by blast
    qed
  next
    case False
    then have "batch_loop b xs i = []" by (subst batch_loop.simps) auto
    with "1.prems" show ?thesis by simp
  qed
qed

lemma batch_loop_length:
  "0 < b \<Longrightarrow> length (batch_loop b xs i) = (length xs - i + b - 1) div b"
proof (induction b xs i rule: batch_loop.induct)
  case (1 b xs i)
  show ?case
  proof (cases "i < length xs")
    case True
    with 1 have IH: "length (batch_loop b xs (i + b)) = (length xs - (i + b) + b - 1) div b" by simp
    have "(length xs - i + b - 1) div b = Suc ((length xs - (i + b) + b - 1) div b)"
    proof (cases "i + b \<le> length xs")
      case True
      then have "length xs - i + b - 1 = (length xs - (i + b) + b - 1) + b"
        using \<open>0 < b\<close> by simp
      then show ?thesis using \<open>0 < b\<close> by (simp only: div_add_self2)
    next
      case False
      then have "(length xs - (i + b) + b - 1) div b = 0" using \<open>0 < b\<close> by simp
      moreover have "(length xs - i + b - 1) div b = 1"
        using False True \<open>0 < b\<close> by (intro div_nat_eqI) auto
      ultimately show ?thesis by simp
    qed
    with IH True \<open>0 < b\<close> show ?thesis by (simp add: batch_loop.simps [of b xs i])
  next
    case False
    then show ?thesis using \<open>0 < b\<close> by (simp add: batch_loop.simps [of b xs i])
  qed
qed

lemma iterator_drain_eq: "iterator_drain items b i = batch_loop (nat (iterator_batch_size b)) items i"
proof (induction items b i rule: iterator_drain.induct)
  case (1 items b i)
  let ?b = "nat (iterator_batch_size b)"
  have pos: "0 < ?b" by (simp add: iterator_batch_size_def)
  show ?case
  proof (cases "i < length items")
    case True
    let ?e = "min (i + ?b) (length items)"
    have "iterator_drain items b ?e = batch_loop ?b items ?e"
      using 1 True by (simp add: iterator_next_def Let_def)
    moreover have "batch_loop ?b items ?e = batch_loop ?b items (i + ?b)"
      by (cases "i + ?b \<le> length items") (simp_all add: min_def batch_loop.simps)
    ultimately show ?thesis
      using True pos
      by (simp add: iterator_drain.simps [of items b i] batch_loop.simps [of ?b items i]
          iterator_next_def Let_def)
  next
    case False
    then show ?thesis by (simp add: iterator_drain.simps [of items b i] batch_loop.simps [of ?b items i])
  qed
qed

interpretation worker_batches:
  batching SplitWorkerBatches "\<lambda>xs b. if b < 1 then length xs else nat b"
proof
  fix xs :: "'a list" and ys b
  show "concat (SplitWorkerBatches xs b) = xs"
    by (simp add: SplitWorkerBatches_def Let_def batch_loop_concat)
  show "ys \<in> set (SplitWorkerBatches xs b) \<Longrightarrow> ys \<noteq> []"
    by (auto simp: SplitWorkerBatches_def Let_def dest: batch_loop_member split: if_splits)
  show "ys \<in> set (SplitWorkerBatches xs b) \<Longrightarrow> length ys \<le> (if b < 1 then length xs else nat b)"
    by (auto simp: SplitWorkerBatches_def Let_def dest: batch_loop_member split: if_splits)
qed

interpretation iterator_batches:
  batching "\<lambda>xs b. iterator_drain xs b 0" "\<lambda>xs b. nat (iterator_batch_size b)"
proof
  fix xs :: "'a list" and ys b
  have pos: "0 < nat (iterator_batch_size b)" by (simp add: iterator_batch_size_def)
  show "concat (iterator_drain xs b 0) = xs"
    by (simp add: iterator_drain_eq batch_loop_concat [OF pos])
  show "ys \<in> set (iterator_drain xs b 0) \<Longrightarrow> ys \<noteq> []"
    by (auto simp: iterator_drain_eq dest: batch_loop_member)
  show "ys \<in> set (iterator_drain xs b 0) \<Longrightarrow> length ys \<le> nat (iterator_batch_size b)"
    by (auto simp: iterator_drain_eq dest: batch_loop_member)
qed

lemma effectiveBatchSize_pos: "1 \<le> tot \<Longrightarrow> 1 \<le> effectiveBatchSize requested tot hardCap"
  by (simp add: effectiveBatchSize_def Let_def)

lemma effectiveBatchSize_bounds:
  assumes "1 \<le> tot"
  shows "effectiveBatchSize requested tot hardCap \<le> tot"
    and "1 \<le> hardCap \<Longrightarrow> effectiveBatchSize requested tot hardCap \<le> hardCap"
    and "1 \<le> requested \<Longrightarrow> effectiveBatchSize requested tot hardCap \<le> requested"
  using assms by (auto simp: effectiveBatchSize_def Let_def)

lemma go_div_nonneg: "0 \<le> a \<Longrightarrow> 0 < b \<Longrightarrow> go_div a b = a div b"
  by (auto simp: go_div_def sgn_if)

lemma BatchCount_length:
  assumes "int (length xs) + b \<le> max_int64" and "2 * int (length xs) \<le> max_int64"
  shows "BatchCount (int (length xs)) b = int (length (SplitWorkerBatches xs b))"
proof (cases "xs = []")
  case True
  then show ?thesis by (simp add: BatchCount_def SplitWorkerBatches_def)
next
  case False
  let ?b = "if b < 1 then int (length xs) else b"
  have b: "0 < ?b" using False by (cases xs) auto
  have "int (length xs) + ?b \<le> max_int64" using assms by simp
  then have "wrap64 (wrap64 (int (length xs) + ?b) - 1) = int (length xs) + ?b - 1"
    using b by (simp add: wrap64_id in_int64_def min_int64_def max_int64_def)
  then have "BatchCount (int (length xs)) b = (int (length xs) + ?b - 1) div ?b"
    using False b by (simp add: BatchCount_def Let_def go_div_nonneg)
  also have "\<dots> = int ((length xs + nat ?b - 1) div nat ?b)"
    using b by (simp add: zdiv_int of_nat_diff)
  finally show ?thesis
    using False b by (simp add: SplitWorkerBatches_def Let_def batch_loop_length)
qed

section \<open>Properties\<close>

text \<open>
  \<open>SplitWorkerBatches\<close> cuts the ordered workers into consecutive batches: their
  concatenation is the input list, no batch is empty, none is wider than the batch size (or than
  the whole list when the size is below 1), two different batches of distinct workers share none,
  and \<open>BatchCount\<close> is their number.
\<close>

theorem SplitWorkerBatches_partition:
  assumes "distinct xs" and "int (length xs) + b \<le> max_int64" and "2 * int (length xs) \<le> max_int64"
  shows "concat (SplitWorkerBatches xs b) = xs \<and>
    (\<forall>ys \<in> set (SplitWorkerBatches xs b).
      ys \<noteq> [] \<and> length ys \<le> (if b < 1 then length xs else nat b)) \<and>
    (\<forall>i j. i < j \<longrightarrow> j < length (SplitWorkerBatches xs b) \<longrightarrow>
      set (SplitWorkerBatches xs b ! i) \<inter> set (SplitWorkerBatches xs b ! j) = {}) \<and>
    BatchCount (int (length xs)) b = int (length (SplitWorkerBatches xs b))"
  using worker_batches.concat_split worker_batches.batch_nonempty worker_batches.batch_width
    worker_batches.batches_disjoint [OF assms(1)] BatchCount_length [OF assms(2,3)]
  by blast

theorem SplitWorkerBatches_partition_witness:
  "SplitWorkerBatches [''a'', ''b'', ''c''] 2 = [[''a'', ''b''], [''c'']] \<and>
   concat (SplitWorkerBatches [''a'', ''b'', ''c''] 2) = [''a'', ''b'', ''c''] \<and>
   BatchCount 3 2 = 2 \<and>
   set (SplitWorkerBatches [''a'', ''b'', ''c''] 2 ! 0) \<inter>
     set (SplitWorkerBatches [''a'', ''b'', ''c''] 2 ! 1) = {}"
proof -
  let ?xs = "[''a'', ''b'', ''c'']"
  have e: "SplitWorkerBatches ?xs 2 = [[''a'', ''b''], [''c'']]"
    by (simp add: SplitWorkerBatches_def batch_loop.simps)
  have h: "distinct ?xs" "int (length ?xs) + 2 \<le> max_int64" "2 * int (length ?xs) \<le> max_int64"
    by (simp_all add: max_int64_def)
  show ?thesis using SplitWorkerBatches_partition [OF h] e by simp
qed

text \<open>
  The batch iterator of \<open>utils\<close> and \<open>SplitWorkerBatches\<close> of \<open>hooks\<close> cut a list into
  the same batches for every positive batch size; for other sizes the iterator falls back to
  batches of one, the splitter to a single batch.
\<close>

theorem iterator_equals_splitter:
  "iterator_drain xs b 0 =
     (if 1 \<le> b then SplitWorkerBatches xs b else map (\<lambda>x. [x]) xs)"
proof (cases "1 \<le> b")
  case True
  then show ?thesis
    by (cases "xs = []")
       (simp_all add: iterator_drain_eq iterator_batch_size_def SplitWorkerBatches_def batch_loop.simps)
next
  case False
  then have "iterator_drain xs b 0 = batch_loop 1 xs 0"
    by (simp add: iterator_drain_eq iterator_batch_size_def)
  moreover have "batch_loop 1 xs i = map (\<lambda>x. [x]) (drop i xs)" for i
  proof (induction "length xs - i" arbitrary: i)
    case 0
    then show ?case by (simp add: batch_loop.simps)
  next
    case (Suc n)
    then have i: "i < length xs" by simp
    then have "drop i xs = xs ! i # drop (Suc i) xs" by (simp add: Cons_nth_drop_Suc)
    moreover from i have "min (i + 1) (length xs) = Suc i" by simp
    moreover have "batch_loop 1 xs (Suc i) = map (\<lambda>x. [x]) (drop (Suc i) xs)" using Suc by simp
    ultimately show ?case using i by (subst batch_loop.simps) (simp add: SliceRange_def)
  qed
  ultimately show ?thesis using False by simp
qed

end
