(* ===== verification/Path_Match.thy ===== *)
theory Path_Match
  imports Go_Strings
begin

text \<open>
  Glob matching of job-relative paths: \<^verbatim>\<open>utils/pathmatch/glob.go\<close>, with the standard library's
  \<^verbatim>\<open>path.Match\<close> and \<^verbatim>\<open>path.Base\<close> it calls. Strings are byte sequences; a character class and
  \<open>?\<close> consume one UTF-8 code point, as \<^verbatim>\<open>utf8.DecodeRuneInString\<close> reads it. On the platforms
  kive runs on \<^verbatim>\<open>filepath.ToSlash\<close> is the identity.
\<close>

section \<open>Code points\<close>

abbreviation byte :: "char \<Rightarrow> nat" where "byte c \<equiv> of_char c"

definition cont :: "char \<Rightarrow> bool" where
  "cont c = (0x80 \<le> byte c \<and> byte c \<le> 0xBF)"

definition second_ok :: "char \<Rightarrow> char \<Rightarrow> bool" where
  "second_ok b c =
     (if byte b = 0xE0 then 0xA0 \<le> byte c \<and> byte c \<le> 0xBF
      else if byte b = 0xED then 0x80 \<le> byte c \<and> byte c \<le> 0x9F
      else if byte b = 0xF0 then 0x90 \<le> byte c \<and> byte c \<le> 0xBF
      else if byte b = 0xF4 then 0x80 \<le> byte c \<and> byte c \<le> 0x8F
      else cont c)"

fun DecodeRune :: "string \<Rightarrow> nat \<times> nat" where
  "DecodeRune [] = (0xFFFD, 0)"
| "DecodeRune (b # s) =
     (let n = byte b
      in if n < 0x80 then (n, 1)
         else if 0xC2 \<le> n \<and> n \<le> 0xDF then
           (case s of c # _ \<Rightarrow> if cont c then ((n - 0xC0) * 64 + (byte c - 0x80), 2) else (0xFFFD, 1)
            | _ \<Rightarrow> (0xFFFD, 1))
         else if 0xE0 \<le> n \<and> n \<le> 0xEF then
           (case s of c # d # _ \<Rightarrow>
              if second_ok b c \<and> cont d
              then ((n - 0xE0) * 4096 + (byte c - 0x80) * 64 + (byte d - 0x80), 3) else (0xFFFD, 1)
            | _ \<Rightarrow> (0xFFFD, 1))
         else if 0xF0 \<le> n \<and> n \<le> 0xF4 then
           (case s of c # d # e # _ \<Rightarrow>
              if second_ok b c \<and> cont d \<and> cont e
              then ((n - 0xF0) * 262144 + (byte c - 0x80) * 4096 + (byte d - 0x80) * 64 + (byte e - 0x80), 4)
              else (0xFFFD, 1)
            | _ \<Rightarrow> (0xFFFD, 1))
         else (0xFFFD, 1))"

section \<open>path.Match\<close>

definition getEsc :: "string \<Rightarrow> (nat \<times> string) option" where
  "getEsc chunk =
     (case chunk of
        [] \<Rightarrow> None
      | c # cs \<Rightarrow>
          if c = CHR ''-'' \<or> c = CHR '']'' then None
          else let body = (if c = CHR 0x5C then cs else chunk)
               in if body = [] then None
                  else let (r, n) = DecodeRune body; rest = drop n body
                       in if r = 0xFFFD \<and> n = 1 then None
                          else if rest = [] then None else Some (r, rest))"

lemma DecodeRune_pos: "s \<noteq> [] \<Longrightarrow> 0 < snd (DecodeRune s)"
  by (cases s) (simp_all add: Let_def split: list.split)

declare DecodeRune.simps [simp del]

lemma getEsc_shorter: "getEsc chunk = Some (r, rest) \<Longrightarrow> length rest < length chunk"
proof (cases chunk)
  case Nil
  then show "getEsc chunk = Some (r, rest) \<Longrightarrow> length rest < length chunk" by (simp add: getEsc_def)
next
  case (Cons c cs)
  define body where "body = (if c = CHR 0x5C then cs else chunk)"
  assume "getEsc chunk = Some (r, rest)"
  then have "body \<noteq> []" "rest = drop (snd (DecodeRune body)) body"
    by (auto simp: getEsc_def Cons body_def Let_def split: if_splits prod.splits)
  moreover from this have "0 < snd (DecodeRune body)" by (simp add: DecodeRune_pos)
  moreover have "length body \<le> length chunk" by (simp add: body_def Cons)
  ultimately show "length rest < length chunk" by (cases body) auto
qed

text \<open>The ranges of a character class, after \<open>[\<close> and an optional \<open>^\<close>; \<open>started\<close> is \<open>nrange > 0\<close>.\<close>

function class_ranges :: "string \<Rightarrow> nat \<Rightarrow> bool \<Rightarrow> bool \<Rightarrow> (bool \<times> string) option" where
  "class_ranges chunk r matched started =
     (if started \<and> (case chunk of c # _ \<Rightarrow> c = CHR '']'' | [] \<Rightarrow> False)
      then Some (matched, tl chunk)
      else case getEsc chunk of
        None \<Rightarrow> None
      | Some (lo, chunk1) \<Rightarrow>
          if hd chunk1 = CHR ''-'' then
            (case getEsc (tl chunk1) of
               None \<Rightarrow> None
             | Some (hi, chunk2) \<Rightarrow> class_ranges chunk2 r (matched \<or> lo \<le> r \<and> r \<le> hi) True)
          else class_ranges chunk1 r (matched \<or> lo = r) True)"
  by pat_completeness auto
termination
proof (relation "measure (\<lambda>(chunk, _). length chunk)", goal_cases)
  case 1
  then show ?case by simp
next
  case (2 chunk r matched started p lo chunk1 q hi chunk2)
  then have "length chunk1 < length chunk" "length chunk2 < length (tl chunk1)"
    by (auto dest: getEsc_shorter)
  then show ?case by simp
next
  case (3 chunk r matched started p lo chunk1)
  then show ?case by (auto dest: getEsc_shorter)
qed

declare class_ranges.simps [simp del]

datatype chunk_result = BadPattern | ChunkFailed | ChunkRest string

lemma class_ranges_shorter:
  "class_ranges chunk r matched started = Some (m, rest) \<Longrightarrow> length rest \<le> length chunk"
proof (induction chunk r matched started rule: class_ranges.induct)
  case (1 chunk r matched started)
  from "1.prems" show ?case
  proof (subst (asm) class_ranges.simps, split if_split_asm)
    assume "Some (matched, tl chunk) = Some (m, rest)"
    then show ?thesis by auto
  next
    assume s: "\<not> (started \<and> (case chunk of [] \<Rightarrow> False | c # x \<Rightarrow> c = CHR '']''))"
      and r: "(case getEsc chunk of None \<Rightarrow> None
        | Some (lo, chunk1) \<Rightarrow>
          if hd chunk1 = CHR ''-'' then
            (case getEsc (tl chunk1) of None \<Rightarrow> None
             | Some (hi, chunk2) \<Rightarrow> class_ranges chunk2 r (matched \<or> lo \<le> r \<and> r \<le> hi) True)
          else class_ranges chunk1 r (matched \<or> lo = r) True) = Some (m, rest)"
    then obtain lo chunk1 where g: "getEsc chunk = Some (lo, chunk1)" by (auto split: option.splits)
    note len = getEsc_shorter [OF g]
    show ?thesis
    proof (cases "hd chunk1 = CHR ''-''")
      case True
      with r g obtain hi chunk2 where g2: "getEsc (tl chunk1) = Some (hi, chunk2)"
        and c: "class_ranges chunk2 r (matched \<or> lo \<le> r \<and> r \<le> hi) True = Some (m, rest)"
        by (auto split: option.splits)
      from "1.IH"(1) [OF s g refl True g2 refl c] getEsc_shorter [OF g2] len show ?thesis by simp
    next
      case False
      with r g have "class_ranges chunk1 r (matched \<or> lo = r) True = Some (m, rest)" by simp
      from "1.IH"(2) [OF s g refl False this] len show ?thesis by simp
    qed
  qed
qed

text \<open>
  \<open>matchChunk\<close>: after a mismatch the loop goes on over the chunk only to check its syntax
  (\<open>failed\<close>).
\<close>

function match_chunk :: "string \<Rightarrow> string \<Rightarrow> bool \<Rightarrow> chunk_result" where
  "match_chunk [] s failed = (if failed then ChunkFailed else ChunkRest s)"
| "match_chunk (c # cs) s failed0 =
     (let failed = (failed0 \<or> s = [])
      in if c = CHR ''['' then
           (let (r, n) = DecodeRune s;
                s1 = (if failed then s else drop n s);
                r1 = (if failed then 0 else r);
                negated = (case cs of d # _ \<Rightarrow> d = CHR ''^'' | [] \<Rightarrow> False);
                body = (if negated then tl cs else cs)
            in case class_ranges body r1 False False of
                 None \<Rightarrow> BadPattern
               | Some (m, rest) \<Rightarrow> match_chunk rest s1 (failed \<or> m = negated))
         else if c = CHR ''?'' then
           (if failed then match_chunk cs s True
            else match_chunk cs (drop (snd (DecodeRune s)) s) (hd s = CHR ''/''))
         else if c = CHR 0x5C then
           (case cs of
              [] \<Rightarrow> BadPattern
            | d # ds \<Rightarrow> if failed then match_chunk ds s True else match_chunk ds (tl s) (d \<noteq> hd s))
         else if failed then match_chunk cs s True else match_chunk cs (tl s) (c \<noteq> hd s))"
  by pat_completeness auto
termination
proof (relation "measure (\<lambda>(chunk, _). length chunk)", goal_cases)
  case 1
  then show ?case by simp
next
  case (2 c cs s failed0 failed p r n s1 r1 negated body q m rest)
  then have "length rest \<le> length body" "length body \<le> length cs"
    by (auto dest: class_ranges_shorter)
  then show ?case by simp
qed auto

declare match_chunk.simps(2) [simp del]

text \<open>\<open>scanChunk\<close>: the leading stars, then the text up to the next star outside a class.\<close>

fun scan_text :: "string \<Rightarrow> bool \<Rightarrow> string \<times> string" where
  "scan_text [] inrange = ([], [])"
| "scan_text (c # cs) inrange =
     (if c = CHR 0x5C then
        (case cs of [] \<Rightarrow> ([c], [])
         | d # ds \<Rightarrow> let (a, b) = scan_text ds inrange in (c # d # a, b))
      else if c = CHR ''['' then let (a, b) = scan_text cs True in (c # a, b)
      else if c = CHR '']'' then let (a, b) = scan_text cs False in (c # a, b)
      else if c = CHR ''*'' \<and> \<not> inrange then ([], c # cs)
      else let (a, b) = scan_text cs inrange in (c # a, b))"

definition scanChunk :: "string \<Rightarrow> bool \<times> string \<times> string" where
  "scanChunk pattern =
     (let body = dropWhile (\<lambda>c. c = CHR ''*'') pattern
      in (length body < length pattern, scan_text body False))"

lemma scan_text_append: "fst (scan_text p b) @ snd (scan_text p b) = p"
  by (induction p b rule: scan_text.induct) (simp_all add: Let_def case_prod_beta split: list.split)

lemma scanChunk_shorter:
  assumes "pattern \<noteq> []" "scanChunk pattern = (star, chunk, rest)"
  shows "length rest < length pattern"
proof -
  let ?body = "dropWhile (\<lambda>c. c = CHR ''*'') pattern"
  have s: "scan_text ?body False = (chunk, rest)" "star = (length ?body < length pattern)"
    using assms(2) by (auto simp: scanChunk_def Let_def)
  then have len: "length chunk + length rest = length ?body"
    using scan_text_append [of ?body False] by (metis fst_conv length_append snd_conv)
  show ?thesis
  proof (cases "?body = pattern")
    case True
    then have "hd pattern \<noteq> CHR ''*''" using hd_dropWhile [of "\<lambda>c. c = CHR ''*''" pattern] assms(1) by auto
    moreover have "chunk = fst (scan_text pattern False)" using True s(1) by simp
    ultimately have "chunk \<noteq> []" using assms(1)
      by (cases pattern) (simp_all add: Let_def case_prod_beta split: list.split)
    with len True show ?thesis by (cases chunk) auto
  next
    case False
    then have "takeWhile (\<lambda>c. c = CHR ''*'') pattern \<noteq> []" by (metis append_Nil takeWhile_dropWhile_id)
    moreover have "length (takeWhile (\<lambda>c. c = CHR ''*'') pattern) + length ?body = length pattern"
      by (metis length_append takeWhile_dropWhile_id)
    ultimately have "length ?body < length pattern" by (simp add: less_add_same_cancel2 flip: length_greater_0_conv)
    with len show ?thesis by simp
  qed
qed

text \<open>
  The positions where the star may stop: the suffixes of the name after its first, second, \<open>\<dots>\<close>
  byte, none of the skipped bytes being a slash.
\<close>

fun star_suffixes :: "string \<Rightarrow> string list" where
  "star_suffixes [] = []"
| "star_suffixes (c # s) = (if c = CHR ''/'' then [] else s # star_suffixes s)"

fun star_match :: "string \<Rightarrow> bool \<Rightarrow> string list \<Rightarrow> string option" where
  "star_match chunk lastChunk [] = None"
| "star_match chunk lastChunk (s # ss) =
     (case match_chunk chunk s False of
        ChunkRest t \<Rightarrow> if lastChunk \<and> t \<noteq> [] then star_match chunk lastChunk ss else Some t
      | ChunkFailed \<Rightarrow> star_match chunk lastChunk ss
      | BadPattern \<Rightarrow> None)"

text \<open>
  \<^verbatim>\<open>matched, _ := path.Match(pattern, name)\<close>: every caller ignores the error, and with an error
  \<open>matched\<close> is false.
\<close>

function path_Match :: "string \<Rightarrow> string \<Rightarrow> bool" where
  "path_Match pattern name =
     (if pattern = [] then name = []
      else let (star, chunk, rest) = scanChunk pattern
           in if star \<and> chunk = [] then CHR ''/'' \<notin> set name
              else case match_chunk chunk name False of
                BadPattern \<Rightarrow> False
              | ChunkRest t \<Rightarrow>
                  if t = [] \<or> rest \<noteq> [] then path_Match rest t
                  else if star then
                    (case star_match chunk (rest = []) (star_suffixes name) of
                       Some t' \<Rightarrow> path_Match rest t' | None \<Rightarrow> False)
                  else False
              | ChunkFailed \<Rightarrow>
                  if star then
                    (case star_match chunk (rest = []) (star_suffixes name) of
                       Some t' \<Rightarrow> path_Match rest t' | None \<Rightarrow> False)
                  else False)"
  by pat_completeness auto
termination
  by (relation "measure (\<lambda>(pattern, _). length pattern)") (auto intro: scanChunk_shorter [OF _ sym])

declare path_Match.simps [simp del]

section \<open>Job-relative globs\<close>

text \<open>\<^verbatim>\<open>path.Base\<close>: the last element, after trailing slashes are removed.\<close>

definition path_Base :: "string \<Rightarrow> string" where
  "path_Base p =
     (if p = [] then ''.''
      else let q = rev (dropWhile (\<lambda>c. c = CHR ''/'') (rev p))
           in if q = [] then ''/''
              else rev (takeWhile (\<lambda>c. c \<noteq> CHR ''/'') (rev q)))"

definition isLiteralPattern :: "string \<Rightarrow> bool" where
  "isLiteralPattern pattern = (set pattern \<inter> {CHR ''*'', CHR ''?'', CHR ''[''} = {})"

text \<open>\<^verbatim>\<open>strings.SplitN(s, "/", 2)\<close> of a text that contains a slash.\<close>

definition cut_slash :: "string \<Rightarrow> string \<times> string" where
  "cut_slash s = (takeWhile (\<lambda>c. c \<noteq> CHR ''/'') s, tl (dropWhile (\<lambda>c. c \<noteq> CHR ''/'') s))"

text \<open>\<^verbatim>\<open>strings.Split(s, "**")\<close>\<close>

fun split_stars :: "string \<Rightarrow> string list" where
  "split_stars [] = [[]]"
| "split_stars [c] = [[c]]"
| "split_stars (c # d # s) =
     (if c = CHR ''*'' \<and> d = CHR ''*'' then [] # split_stars s
      else (case split_stars (d # s) of p # ps \<Rightarrow> (c # p) # ps | [] \<Rightarrow> [[c]]))"

definition matchDoubleStarPattern :: "string \<Rightarrow> string \<Rightarrow> bool" where
  "matchDoubleStarPattern pattern rel =
     (if HasPrefix pattern ''**/'' then
        (let suffix = TrimPrefix pattern ''**/''
         in if Contains suffix ''/'' then
              (let (dir, name) = cut_slash suffix
               in if \<not> HasPrefix rel (dir @ ''/'') then False
                  else path_Match name (drop (length dir + 1) rel))
            else path_Match suffix (path_Base rel) \<or> path_Match suffix rel)
      else if HasSuffix pattern ''/**'' then
        (let pre = TrimSuffix pattern ''/**''
         in rel = pre \<or> HasPrefix rel (pre @ ''/''))
      else case split_stars pattern of
        [pre, suffix0] \<Rightarrow>
          (if pre \<noteq> [] \<and> \<not> HasPrefix rel pre then False
           else let rest = TrimPrefix (TrimPrefix rel pre) ''/'';
                    suffix = TrimPrefix suffix0 ''/''
                in if suffix0 = [] \<or> suffix = [] then True
                   else path_Match suffix rest \<or> path_Match suffix (path_Base rest))
      | _ \<Rightarrow> False)"

definition matchPattern :: "string \<Rightarrow> string \<Rightarrow> bool" where
  "matchPattern pattern0 rel0 =
     (let pattern = TrimSpace pattern0; rel = TrimPrefix rel0 ''/''
      in if pattern = [] then False
         else if isLiteralPattern pattern \<and> (pattern = rel \<or> pattern = path_Base rel) then True
         else if Contains pattern ''**'' then matchDoubleStarPattern pattern rel
         else if Contains pattern ''/'' then
           (if path_Match pattern rel then True
            else let dir = TrimSuffix pattern ''/''
                 in if dir \<noteq> pattern then rel = dir \<or> HasPrefix rel (dir @ ''/'') else False)
         else path_Match pattern (path_Base rel) \<or> path_Match pattern rel)"

fun first_seen :: "string set \<Rightarrow> (string \<Rightarrow> bool) \<Rightarrow> string list \<Rightarrow> string list" where
  "first_seen seen P [] = []"
| "first_seen seen P (r # rs) =
     (if P r \<and> r \<notin> seen then r # first_seen (insert r seen) P rs else first_seen seen P rs)"

definition MatchAny :: "string list \<Rightarrow> string list \<Rightarrow> string list" where
  "MatchAny patterns rels =
     (if patterns = [] \<or> rels = [] then []
      else first_seen {} (\<lambda>rel. list_ex (\<lambda>p. matchPattern p rel) patterns) rels)"

definition MatchNotAny :: "string list \<Rightarrow> string list \<Rightarrow> string list" where
  "MatchNotAny patterns rels =
     (if patterns = [] \<or> rels = [] then []
      else first_seen {} (\<lambda>rel. MatchAny patterns [rel] = []) rels)"

section \<open>Lemmas\<close>

definition globbed :: "string list \<Rightarrow> string \<Rightarrow> bool" where
  "globbed patterns rel = (\<exists>p \<in> set patterns. matchPattern p rel)"

lemma set_first_seen: "set (first_seen seen P rs) = {r \<in> set rs. P r} - seen"
  by (induction seen P rs rule: first_seen.induct) auto

lemma distinct_first_seen: "distinct (first_seen seen P rs)"
  by (induction seen P rs rule: first_seen.induct) (auto simp: set_first_seen)

lemma first_seen_distinct: "distinct rs \<Longrightarrow> set rs \<inter> seen = {} \<Longrightarrow> first_seen seen P rs = filter P rs"
  by (induction seen P rs rule: first_seen.induct) auto

lemma set_MatchAny: "set (MatchAny patterns rels) = {r \<in> set rels. globbed patterns r}"
  by (auto simp: MatchAny_def globbed_def set_first_seen list_ex_iff)

lemma MatchAny_distinct: "distinct rels \<Longrightarrow> MatchAny patterns rels = filter (globbed patterns) rels"
  by (auto simp: MatchAny_def globbed_def first_seen_distinct list_ex_iff intro!: filter_cong filter_False [symmetric])

lemma MatchAny_single: "MatchAny patterns [r] = [] \<longleftrightarrow> \<not> globbed patterns r"
  using set_MatchAny [of patterns "[r]"] by (auto simp flip: set_empty)

lemma set_MatchNotAny:
  "patterns \<noteq> [] \<Longrightarrow> set (MatchNotAny patterns rels) = {r \<in> set rels. \<not> globbed patterns r}"
  by (auto simp: MatchNotAny_def set_first_seen MatchAny_single)

lemma not_HasPrefix_TrimPrefix: "\<not> HasPrefix s p \<Longrightarrow> TrimPrefix s p = s"
  by (simp add: TrimPrefix_def)

text \<open>A pattern \<open>dir/**\<close> with a plain directory matches exactly the directory and what is below it.\<close>

lemma matchPattern_subtree:
  assumes "list_all (\<lambda>c. plain c \<and> c \<notin> {CHR ''*'', CHR ''/''}) dir" "dir \<noteq> []"
  shows "matchPattern (dir @ ''/**'') rel \<longleftrightarrow>
    TrimPrefix rel ''/'' = dir \<or> HasPrefix (TrimPrefix rel ''/'') (dir @ ''/'')"
proof -
  let ?p = "dir @ ''/**''"
  have "plain CHR ''*''" by (simp add: plain_def)
  then have t: "TrimSpace ?p = ?p"
    using assms by (intro TrimSpace_plain) (auto simp: list_all_iff hd_append)
  have h: "\<not> HasPrefix ?p ''**/''" using assms by (cases dir) (auto simp: HasPrefix_def)
  have s: "HasSuffix ?p ''/**''" "TrimSuffix ?p ''/**'' = dir"
    using HasSuffix_iff [of ?p "''/**''"] TrimSuffix_append [of dir "''/**''"] by blast+
  have c: "Contains ?p ''**''"
    unfolding Contains_iff by (rule exI [of _ "dir @ ''/''"], rule exI [of _ "[]"]) simp
  have l: "\<not> isLiteralPattern ?p" by (simp add: isLiteralPattern_def)
  show ?thesis using assms(2)
    by (simp add: matchPattern_def t l c matchDoubleStarPattern_def h s Let_def)
qed

definition glob_special :: "char \<Rightarrow> bool" where
  "glob_special c = (c \<in> {CHR ''*'', CHR ''?'', CHR ''['', CHR '']'', CHR 0x5C})"

lemma scan_text_literal:
  "list_all (\<lambda>c. \<not> glob_special c) p \<Longrightarrow> scan_text p b = (p, [])"
  by (induction p b rule: scan_text.induct) (auto simp: glob_special_def split: list.splits)

lemma match_chunk_failed_literal:
  "list_all (\<lambda>c. \<not> glob_special c) p \<Longrightarrow> match_chunk p s True = ChunkFailed"
  by (induction p arbitrary: s) (auto simp: match_chunk.simps(2) glob_special_def Let_def)

lemma match_chunk_literal:
  "list_all (\<lambda>c. \<not> glob_special c) p \<Longrightarrow>
     match_chunk p s False = (if HasPrefix s p then ChunkRest (drop (length p) s) else ChunkFailed)"
proof (induction p arbitrary: s)
  case Nil
  then show ?case by (simp add: HasPrefix_def)
next
  case (Cons c p)
  then have step: "match_chunk (c # p) s False =
      (if s = [] then match_chunk p s True else match_chunk p (tl s) (c \<noteq> hd s))"
    by (simp add: match_chunk.simps(2) glob_special_def Let_def)
  show ?case
  proof (cases "s \<noteq> [] \<and> c = hd s")
    case True
    with Cons step show ?thesis by (cases s) (auto simp: HasPrefix_def)
  next
    case False
    with Cons.prems step show ?thesis by (cases s) (auto simp: HasPrefix_def match_chunk_failed_literal)
  qed
qed

lemma star_match_literal:
  assumes "list_all (\<lambda>c. \<not> glob_special c) p"
  shows "star_match p True ss = (if p \<in> set ss then Some [] else None)"
proof (induction ss)
  case (Cons s ss)
  have "s = p" if "HasPrefix s p" "drop (length p) s = []"
    using that by (auto simp: HasPrefix_iff)
  moreover have "HasPrefix p p" "drop (length p) p = []" by (simp_all add: HasPrefix_def)
  ultimately show ?case using Cons by (auto simp: match_chunk_literal [OF assms])
qed simp

lemma in_star_suffixes:
  "t \<in> set (star_suffixes s) \<longleftrightarrow> (\<exists>pre. pre \<noteq> [] \<and> CHR ''/'' \<notin> set pre \<and> s = pre @ t)"
proof (induction s)
  case Nil
  then show ?case by simp
next
  case (Cons c s)
  have "(\<exists>pre. pre \<noteq> [] \<and> CHR ''/'' \<notin> set pre \<and> c # s = pre @ t) \<longleftrightarrow>
    c \<noteq> CHR ''/'' \<and> (t = s \<or> (\<exists>pre. pre \<noteq> [] \<and> CHR ''/'' \<notin> set pre \<and> s = pre @ t))"
  proof (intro iffI)
    assume "\<exists>pre. pre \<noteq> [] \<and> CHR ''/'' \<notin> set pre \<and> c # s = pre @ t"
    then obtain pre where "pre \<noteq> []" "CHR ''/'' \<notin> set pre" "c # s = pre @ t" by blast
    then show "c \<noteq> CHR ''/'' \<and> (t = s \<or> (\<exists>pre. pre \<noteq> [] \<and> CHR ''/'' \<notin> set pre \<and> s = pre @ t))"
      by (cases pre; cases "tl pre") auto
  next
    assume "c \<noteq> CHR ''/'' \<and> (t = s \<or> (\<exists>pre. pre \<noteq> [] \<and> CHR ''/'' \<notin> set pre \<and> s = pre @ t))"
    then consider "c \<noteq> CHR ''/''" "t = s"
      | pre where "c \<noteq> CHR ''/''" "CHR ''/'' \<notin> set pre" "s = pre @ t" by blast
    then show "\<exists>pre. pre \<noteq> [] \<and> CHR ''/'' \<notin> set pre \<and> c # s = pre @ t"
    proof cases
      case 1
      then show ?thesis by (intro exI [of _ "[c]"]) auto
    next
      case (2 pre)
      then show ?thesis by (intro exI [of _ "c # pre"]) auto
    qed
  qed
  with Cons show ?case by auto
qed

lemma path_Match_literal:
  assumes "list_all (\<lambda>c. \<not> glob_special c) p" "p \<noteq> []"
  shows "path_Match p name \<longleftrightarrow> name = p"
proof -
  have "dropWhile (\<lambda>c. c = CHR ''*'') p = p" using assms by (cases p) (auto simp: glob_special_def)
  then have "scanChunk p = (False, p, [])" using assms by (simp add: scanChunk_def Let_def scan_text_literal)
  then show ?thesis using assms
    by (subst path_Match.simps)
       (auto simp: match_chunk_literal HasPrefix_iff path_Match.simps [of "[]"])
qed

section \<open>Properties\<close>

text \<open>
  A pattern \<open>*\<close> followed by a literal text, the usual \<open>*.ext\<close>, matches a name exactly when the name
  ends in the text and the part the star stands for has no slash.
\<close>

lemma path_Match_star_suffix:
  assumes "list_all (\<lambda>c. \<not> glob_special c) ext" "ext \<noteq> []"
  shows "path_Match (CHR ''*'' # ext) name \<longleftrightarrow> (\<exists>pre. name = pre @ ext \<and> CHR ''/'' \<notin> set pre)"
proof -
  have "dropWhile (\<lambda>c. c = CHR ''*'') ext = ext" using assms by (cases ext) (auto simp: glob_special_def)
  then have s: "scanChunk (CHR ''*'' # ext) = (True, ext, [])"
    using assms by (simp add: scanChunk_def Let_def scan_text_literal)
  have e: "path_Match [] t = (t = [])" for t by (simp add: path_Match.simps)
  have "path_Match (CHR ''*'' # ext) name \<longleftrightarrow> name = ext \<or> ext \<in> set (star_suffixes name)"
    using assms
    by (subst path_Match.simps)
       (auto simp: s match_chunk_literal star_match_literal e HasPrefix_iff split: if_splits option.splits)
  also have "\<dots> \<longleftrightarrow> (\<exists>pre. name = pre @ ext \<and> CHR ''/'' \<notin> set pre)"
    unfolding in_star_suffixes by (metis append_Nil empty_iff empty_set)
  finally show ?thesis .
qed

lemma path_Base_no_slash: "s \<noteq> [] \<Longrightarrow> CHR ''/'' \<notin> set s \<Longrightarrow> path_Base s = s"
proof -
  assume a: "s \<noteq> []" "CHR ''/'' \<notin> set s"
  then have "dropWhile (\<lambda>c. c = CHR ''/'') (rev s) = rev s" by (cases "rev s") auto
  moreover have "takeWhile (\<lambda>c. c \<noteq> CHR ''/'') (rev s) = rev s" using a by (subst takeWhile_eq_all_conv) auto
  ultimately show ?thesis using a by (simp only: path_Base_def Let_def rev_rev_ident if_False simp_thms)
qed

lemma path_Base_slash: "CHR ''/'' \<in> set (path_Base s) \<Longrightarrow> path_Base s = ''/''"
  by (auto simp: path_Base_def Let_def split: if_splits dest: set_takeWhileD)

text \<open>
  A glob \<open>*.ext\<close> of a manifest (a star and a literal text without slash) matches a file exactly
  when the last component of its path ends in the text, in whatever directory the file is.
\<close>

theorem matchPattern_extension:
  assumes "list_all (\<lambda>c. \<not> glob_special c \<and> c \<noteq> CHR ''/'') ext" "ext \<noteq> []" "plain (last ext)"
  shows "matchPattern (CHR ''*'' # ext) rel \<longleftrightarrow> HasSuffix (path_Base (TrimPrefix rel ''/'')) ext"
proof -
  let ?r = "TrimPrefix rel ''/''"
  have e: "list_all (\<lambda>c. \<not> glob_special c) ext" and ns: "CHR ''/'' \<notin> set ext"
    and st: "CHR ''*'' \<notin> set ext"
    using assms(1) by (auto simp: list_all_iff glob_special_def)
  have t: "TrimSpace (CHR ''*'' # ext) = CHR ''*'' # ext"
    using assms(2,3) by (intro TrimSpace_plain) (auto simp: plain_def)
  have d: "\<not> Contains (CHR ''*'' # ext) ''**''" "\<not> Contains (CHR ''*'' # ext) ''/''"
    using st ns by (auto simp: Contains_iff Cons_eq_append_conv)
  note star = path_Match_star_suffix [OF e assms(2)]
  have "path_Match (CHR ''*'' # ext) (path_Base ?r) \<longleftrightarrow> HasSuffix (path_Base ?r) ext"
  proof
    assume "HasSuffix (path_Base ?r) ext"
    then obtain pre where pre: "path_Base ?r = pre @ ext" by (auto simp: HasSuffix_iff)
    have "CHR ''/'' \<notin> set (path_Base ?r)"
    proof
      assume "CHR ''/'' \<in> set (path_Base ?r)"
      then have "pre @ ext = ''/''" using path_Base_slash pre by metis
      with assms(2) ns show False by (cases pre) auto
    qed
    with pre star show "path_Match (CHR ''*'' # ext) (path_Base ?r)" by auto
  qed (use star in \<open>auto simp: HasSuffix_iff\<close>)
  moreover have "path_Match (CHR ''*'' # ext) ?r \<Longrightarrow> HasSuffix (path_Base ?r) ext"
    using star ns assms(2) path_Base_no_slash [of ?r] by (auto simp: HasSuffix_iff)
  moreover have "\<not> isLiteralPattern (CHR ''*'' # ext)" by (simp add: isLiteralPattern_def)
  ultimately show ?thesis
    unfolding matchPattern_def t Let_def using d by (auto simp del: Contains.simps)
qed

theorem matchPattern_extension_witness:
  "matchPattern ''*.conf'' ''etc/app.conf'' \<and> \<not> matchPattern ''*.conf'' ''app.conf/x''"
proof -
  have h: "list_all (\<lambda>c. \<not> glob_special c \<and> c \<noteq> CHR ''/'') ''.conf''" "''.conf'' \<noteq> []" "plain (last ''.conf'')"
    by (simp_all add: glob_special_def plain_def)
  have "HasSuffix (path_Base (TrimPrefix ''etc/app.conf'' ''/'')) ''.conf''"
    "\<not> HasSuffix (path_Base (TrimPrefix ''app.conf/x'' ''/'')) ''.conf''"
    by code_simp+
  then show ?thesis using matchPattern_extension [OF h] by simp
qed

end
