(* ===== verification/Rollout_Policy.thy ===== *)
theory Rollout_Policy
  imports Path_Match
begin

text \<open>
  What an update does to a running allocation: file manifests and their difference
  (\<^verbatim>\<open>data/file_manifest.go\<close>), restart policies (\<^verbatim>\<open>workspace/restart_policy.go\<close>) and the choice
  between restart, reload and no action (\<^verbatim>\<open>deploy/rollout_policy.go\<close>).

  A manifest is an association list from job-relative paths to digests, read with \<open>map_of\<close>.
\<close>

section \<open>Definitions\<close>

type_synonym FileManifest = "(string \<times> string) list"

definition DiffFileManifests :: "FileManifest \<Rightarrow> FileManifest \<Rightarrow> string list" where
  "DiffFileManifests previous current =
     sort (filter (\<lambda>p. map_of previous p \<noteq> map_of current p) (remdups (map fst current)) @
           filter (\<lambda>p. map_of current p = None) (remdups (map fst previous)))"

definition RestartPolicyAlways :: string where "RestartPolicyAlways = ''always''"
definition RestartPolicyReload :: string where "RestartPolicyReload = ''reload''"
definition RestartPolicyNever :: string where "RestartPolicyNever = ''never''"

lemmas policy_names = RestartPolicyAlways_def RestartPolicyReload_def RestartPolicyNever_def

definition NormalizeRestartPolicy :: "string \<Rightarrow> string result" where
  "NormalizeRestartPolicy raw =
     (if raw = '''' then Inr RestartPolicyAlways
      else if raw \<in> {RestartPolicyAlways, RestartPolicyReload, RestartPolicyNever} then Inr raw
      else Inl ErrInvalidManifest)"

definition EffectiveRestartPolicy :: "string \<Rightarrow> string" where
  "EffectiveRestartPolicy raw =
     (case NormalizeRestartPolicy raw of Inl _ \<Rightarrow> RestartPolicyAlways | Inr p \<Rightarrow> p)"

datatype rolloutAction = rolloutActionSync | rolloutActionReload | rolloutActionRestart

definition JobHooksGlobPattern :: string where
  "JobHooksGlobPattern = ''_hooks/**''"

definition onlyJobHooksChanged :: "string list \<Rightarrow> bool" where
  "onlyJobHooksChanged changed =
     (if changed = [] then False
      else length (MatchAny [JobHooksGlobPattern] changed) = length changed)"

definition resolveUpdateAction ::
  "string \<Rightarrow> string list \<Rightarrow> string list \<Rightarrow> FileManifest \<Rightarrow> FileManifest \<Rightarrow> bool \<Rightarrow> bool \<Rightarrow> bool
     \<Rightarrow> rolloutAction \<times> string list" where
  "resolveUpdateAction policy restartGlobs reloadGlobs previousFiles currentFiles hashChanged versionOnly
       legacyNoManifest =
     (let changed = DiffFileManifests previousFiles currentFiles
      in if \<not> legacyNoManifest \<and> onlyJobHooksChanged changed then (rolloutActionSync, [])
         else if policy = RestartPolicyNever then (rolloutActionSync, [])
         else if policy = RestartPolicyAlways then
           (if reloadGlobs = [] then (rolloutActionRestart, [])
            else if versionOnly \<and> \<not> hashChanged then (rolloutActionReload, [])
            else if legacyNoManifest \<and> hashChanged then (rolloutActionRestart, [])
            else if changed = [] then (rolloutActionReload, [])
            else let outside = MatchNotAny reloadGlobs changed
                 in if outside \<noteq> [] then (rolloutActionRestart, outside)
                    else (rolloutActionReload, MatchAny reloadGlobs changed))
         else if policy = RestartPolicyReload then
           (if versionOnly \<and> \<not> hashChanged then (rolloutActionReload, [])
            else if legacyNoManifest \<and> hashChanged then (rolloutActionReload, [])
            else if restartGlobs = [] then (rolloutActionReload, [])
            else let matched = MatchAny restartGlobs changed
                 in if matched \<noteq> [] then (rolloutActionRestart, matched) else (rolloutActionReload, []))
         else (rolloutActionRestart, []))"

definition effectiveUpdateAction :: "string \<Rightarrow> rolloutAction" where
  "effectiveUpdateAction policy = fst (resolveUpdateAction policy [] [] [] [] True False False)"

section \<open>Lemmas\<close>

lemma set_DiffFileManifests: "set (DiffFileManifests prev cur) = {p. map_of prev p \<noteq> map_of cur p}"
proof -
  have k: "fst ` set m = {p. map_of m p \<noteq> None}" for m :: FileManifest
    by (auto simp: map_of_eq_None_iff)
  show ?thesis
    unfolding DiffFileManifests_def set_sort set_append set_filter set_remdups set_map k
    by (intro set_eqI) (metis (mono_tags, lifting) Un_iff mem_Collect_eq)
qed

lemma distinct_DiffFileManifests: "distinct (DiffFileManifests prev cur)"
proof -
  have "set (filter P (remdups (map fst cur))) \<inter>
      set (filter (\<lambda>p. map_of cur p = None) (remdups (map fst prev))) = {}" for P
    by (auto simp: map_of_eq_None_iff image_iff)
  then show ?thesis by (simp add: DiffFileManifests_def del: set_filter set_remdups set_map)
qed

lemma DiffFileManifests_Nil: "DiffFileManifests prev cur = [] \<longleftrightarrow> map_of prev = map_of cur"
  using set_DiffFileManifests [of prev cur] by (auto simp flip: set_empty)

definition changed_paths :: "FileManifest \<Rightarrow> FileManifest \<Rightarrow> string set" where
  "changed_paths previous current = {p. map_of previous p \<noteq> map_of current p}"

definition under_hooks :: "string \<Rightarrow> bool" where
  "under_hooks rel = (TrimPrefix rel ''/'' = ''_hooks'' \<or> HasPrefix (TrimPrefix rel ''/'') ''_hooks/'')"

lemma globbed_hooks: "globbed [JobHooksGlobPattern] rel = under_hooks rel"
proof -
  have "list_all (\<lambda>c. plain c \<and> c \<notin> {CHR ''*'', CHR ''/''}) ''_hooks''" by (simp add: plain_def)
  from matchPattern_subtree [OF this] show ?thesis
    by (simp add: globbed_def JobHooksGlobPattern_def under_hooks_def)
qed

lemma onlyJobHooksChanged_iff:
  assumes "distinct changed"
  shows "onlyJobHooksChanged changed \<longleftrightarrow> changed \<noteq> [] \<and> (\<forall>p \<in> set changed. under_hooks p)"
proof -
  have "length (filter P xs) = length xs \<longleftrightarrow> (\<forall>x \<in> set xs. P x)" for P and xs :: "string list"
    by (metis filter_True length_filter_less less_irrefl)
  then show ?thesis
    using assms by (simp add: onlyJobHooksChanged_def MatchAny_distinct globbed_hooks)
qed

lemma MatchAny_Nil: "MatchAny patterns rels = [] \<longleftrightarrow> (\<forall>r \<in> set rels. \<not> globbed patterns r)"
  using set_MatchAny [of patterns rels] by (auto simp flip: set_empty)

lemma MatchNotAny_Nil:
  "patterns \<noteq> [] \<Longrightarrow> MatchNotAny patterns rels = [] \<longleftrightarrow> (\<forall>r \<in> set rels. globbed patterns r)"
  using set_MatchNotAny [of patterns rels] by (auto simp flip: set_empty)

section \<open>Properties\<close>

text \<open>
  \<open>DiffFileManifests\<close> lists exactly the paths whose digest differs between the two manifests
  (added, modified or deleted), each once, in byte order.
\<close>

theorem DiffFileManifests_correct:
  "set (DiffFileManifests previous current) = changed_paths previous current \<and>
   distinct (DiffFileManifests previous current) \<and> sorted (DiffFileManifests previous current)"
  by (simp add: set_DiffFileManifests distinct_DiffFileManifests changed_paths_def) (simp add: DiffFileManifests_def)

text \<open>
  When a running allocation is restarted. With an applied manifest, a restart is chosen exactly
  when the change is not confined to \<open>_hooks/\<close> and either the policy is \<open>always\<close> and a changed
  path escapes the reload globs (or there are none), or it is \<open>reload\<close> and a changed path matches
  a restart glob; a pure version change never restarts a job that has reload globs or the policy
  \<open>reload\<close>, and \<open>never\<close> never restarts.
\<close>

theorem resolveUpdateAction_restart:
  assumes "policy \<in> {RestartPolicyAlways, RestartPolicyReload, RestartPolicyNever}"
  shows "fst (resolveUpdateAction policy restartGlobs reloadGlobs previous current hashChanged versionOnly False)
      = rolloutActionRestart \<longleftrightarrow>
    (changed_paths previous current = {} \<or> (\<exists>p \<in> changed_paths previous current. \<not> under_hooks p)) \<and>
    (policy = RestartPolicyAlways \<and>
       (reloadGlobs = [] \<or> (versionOnly \<longrightarrow> hashChanged) \<and> (\<exists>p \<in> changed_paths previous current. \<not> globbed reloadGlobs p)) \<or>
     policy = RestartPolicyReload \<and>
       (versionOnly \<longrightarrow> hashChanged) \<and> (\<exists>p \<in> changed_paths previous current. globbed restartGlobs p))"
proof -
  let ?changed = "changed_paths previous current"
  let ?d = "DiffFileManifests previous current"
  have d: "set ?d = ?changed" "distinct ?d"
    by (simp_all add: changed_paths_def set_DiffFileManifests distinct_DiffFileManifests)
  have h: "onlyJobHooksChanged ?d \<longleftrightarrow> \<not> (?changed = {} \<or> (\<exists>p \<in> ?changed. \<not> under_hooks p))"
    using d by (auto simp: onlyJobHooksChanged_iff)
  have g: "\<exists>p \<in> ?changed. globbed restartGlobs p \<Longrightarrow> restartGlobs \<noteq> []" by (auto simp: globbed_def)
  have e: "?d = [] \<longleftrightarrow> ?changed = {}" using d(1) by auto
  from assms(1) consider "policy = RestartPolicyAlways" | "policy = RestartPolicyReload"
    | "policy = RestartPolicyNever" by blast
  then show ?thesis
  proof cases
    case 1
    then show ?thesis
      using h d e by (auto simp: resolveUpdateAction_def policy_names Let_def MatchNotAny_Nil)
  next
    case 2
    then show ?thesis
      using h d g by (auto simp: resolveUpdateAction_def policy_names Let_def MatchAny_Nil)
  next
    case 3
    then show ?thesis using h by (auto simp: resolveUpdateAction_def policy_names Let_def)
  qed
qed

theorem resolveUpdateAction_restart_witness:
  "fst (resolveUpdateAction RestartPolicyReload [''*.conf''] [] [] [(''app.conf'', ''d1'')] True False False)
     = rolloutActionRestart"
proof -
  have d: "changed_paths [] [(''app.conf'', ''d1'')] = {''app.conf''}" by (auto simp: changed_paths_def)
  have t: "TrimSpace ''*.conf'' = ''*.conf''" by (rule TrimSpace_plain; simp add: plain_def)
  have b: "path_Base ''app.conf'' = ''app.conf''" by (simp add: path_Base_def)
  have m: "path_Match ''*.conf'' ''app.conf''"
    by (simp add: path_Match.simps scanChunk_def match_chunk.simps)
  have "globbed [''*.conf''] ''app.conf''"
    by (simp add: globbed_def matchPattern_def t b m isLiteralPattern_def TrimPrefix_def HasPrefix_def)
  then show ?thesis
    by (subst resolveUpdateAction_restart) (simp_all add: d under_hooks_def TrimPrefix_def HasPrefix_def)
qed

end
