(* ===== verification/Catalog.thy ===== *)
theory Catalog
  imports Versions Batches Rollout_Policy "HOL-Library.Product_Lexorder"
begin

text \<open>
  The catalog: the SQLite tables in which kive keeps jobs, workers, allocations and the pending and
  applied state of each allocation, with the queries and updates of \<^verbatim>\<open>data/*.go\<close> on them.

  A table is a list of rows in row order. A nullable column is an \<open>option\<close>; a comparison with
  NULL is false, as in SQL. A query without \<^verbatim>\<open>ORDER BY\<close> returns rows in table order. A statement
  itself does not fail (an I/O error of SQLite aborts the transaction and nothing of the run is
  kept); a single-row query that finds no row fails with \<open>ErrDatabase\<close> where the source maps
  \<^verbatim>\<open>sql.ErrNoRows\<close> to it.
\<close>

section \<open>Tables\<close>

record allocation_row =
  a_alloc_id :: string
  a_worker_ip :: string
  a_job :: string
  a_disabled :: int
  a_removed :: int
  a_version :: "string option"

record hash_row =
  h_alloc_id :: string
  pending_hash :: "string option"
  applied_hash :: "string option"
  applied_version :: "string option"

record file_hash_row =
  f_alloc_id :: string
  f_path :: string
  f_pending :: "string option"
  f_applied :: "string option"

record job_row =
  j_job_id :: string
  j_name :: string
  j_version :: string
  deployment_priority :: int
  deployment_order :: int
  deployment_seq :: int
  max_concurrent_restarts :: int
  max_concurrent_starts :: int
  max_concurrent_stops :: int
  restart_policy :: string
  restart_globs :: "string list"
  reload_globs :: "string list"

record worker_row =
  w_worker_id :: string
  w_worker_ip :: string
  w_position :: int

record label_row =
  l_worker_id :: string
  l_label :: string

record hook_row =
  k_job :: string
  k_name :: string
  k_executed_on :: string
  k_demand_job :: string
  k_demand_hook :: string

record build_hash_row =
  b_namespace :: string
  b_key :: string
  b_pending :: "string option"
  b_applied :: "string option"

record catalog =
  allocations :: "allocation_row list"
  allocation_hashes :: "hash_row list"
  allocation_file_hashes :: "file_hash_row list"
  jobs :: "job_row list"
  workers :: "worker_row list"
  worker_labels :: "label_row list"
  hooks :: "hook_row list"
  build_hashes :: "build_hash_row list"

text \<open>\<^verbatim>\<open>UPDATE t SET ... WHERE ...\<close> and \<^verbatim>\<open>DELETE FROM t WHERE ...\<close>\<close>

definition update_where :: "('r \<Rightarrow> bool) \<Rightarrow> ('r \<Rightarrow> 'r) \<Rightarrow> 'r list \<Rightarrow> 'r list" where
  "update_where P f rows = map (\<lambda>r. if P r then f r else r) rows"

definition delete_where :: "('r \<Rightarrow> bool) \<Rightarrow> 'r list \<Rightarrow> 'r list" where
  "delete_where P rows = filter (\<lambda>r. \<not> P r) rows"

text \<open>\<^verbatim>\<open>tx.QueryRow(...).Scan(...)\<close>\<close>

definition query_row :: "('r \<Rightarrow> bool) \<Rightarrow> 'r list \<Rightarrow> 'r result" where
  "query_row P rows = (case find P rows of None \<Rightarrow> Inl ErrDatabase | Some r \<Rightarrow> Inr r)"

definition ifnull :: "'a option \<Rightarrow> 'a \<Rightarrow> 'a" where
  "ifnull v d = (case v of None \<Rightarrow> d | Some x \<Rightarrow> x)"

text \<open>\<open>a != b\<close> between nullable columns.\<close>

definition sql_neq :: "'a option \<Rightarrow> 'a option \<Rightarrow> bool" where
  "sql_neq a b = (case (a, b) of (Some x, Some y) \<Rightarrow> x \<noteq> y | _ \<Rightarrow> False)"

section \<open>Queries\<close>

subsection \<open>Workers\<close>

definition GetAllWorkers :: "catalog \<Rightarrow> string list" where
  "GetAllWorkers c = map w_worker_ip (workers c)"

definition GetWorkers :: "catalog \<Rightarrow> string list \<Rightarrow> string list" where
  "GetWorkers c labels =
     (if labels = [] then map w_worker_ip (sort_key w_position (workers c))
      else map w_worker_ip (filter
             (\<lambda>w. \<exists>l \<in> set (worker_labels c). l_worker_id l = w_worker_id w \<and> l_label l \<in> set labels)
             (sort_key w_position (workers c))))"

definition GetWorkerID :: "catalog \<Rightarrow> string \<Rightarrow> string result" where
  "GetWorkerID c workerIP =
     rbind (query_row (\<lambda>w. w_worker_ip w = workerIP) (workers c)) (\<lambda>w. Inr (w_worker_id w))"

definition GetWorkerPosition :: "catalog \<Rightarrow> string \<Rightarrow> int result" where
  "GetWorkerPosition c workerIP =
     rbind (query_row (\<lambda>w. w_worker_ip w = workerIP) (workers c)) (\<lambda>w. Inr (w_position w))"

definition GetWorkerLabels :: "catalog \<Rightarrow> string \<Rightarrow> string list" where
  "GetWorkerLabels c workerID =
     sort (map l_label (filter (\<lambda>l. l_worker_id l = workerID) (worker_labels c)))"

definition GetLabels :: "catalog \<Rightarrow> string list" where
  "GetLabels c = sort (remdups (map l_label (worker_labels c)))"

definition GetAllocatedWorkerIPs :: "catalog \<Rightarrow> string list" where
  "GetAllocatedWorkerIPs c = sort (remdups (map a_worker_ip (allocations c)))"

type_synonym WorkerCatalog = "string set"

definition NewWorkerCatalog :: "string list \<Rightarrow> WorkerCatalog" where
  "NewWorkerCatalog workerIPs = set workerIPs"

definition LoadWorkerCatalog :: "catalog \<Rightarrow> WorkerCatalog" where
  "LoadWorkerCatalog c = NewWorkerCatalog (GetWorkers c [])"

definition catalog_Contains :: "WorkerCatalog \<Rightarrow> string \<Rightarrow> bool" where
  "catalog_Contains wc workerIP = (workerIP \<in> wc)"

subsection \<open>Allocations\<close>

definition alloc_of :: "catalog \<Rightarrow> string \<Rightarrow> string \<Rightarrow> allocation_row result" where
  "alloc_of c workerIP job =
     query_row (\<lambda>a. a_worker_ip a = workerIP \<and> a_job a = job) (allocations c)"

definition GetAllocationID :: "catalog \<Rightarrow> string \<Rightarrow> string \<Rightarrow> string result" where
  "GetAllocationID c workerIP job = rbind (alloc_of c workerIP job) (\<lambda>a. Inr (a_alloc_id a))"

definition IsAllocationDisabled :: "catalog \<Rightarrow> string \<Rightarrow> string \<Rightarrow> int result" where
  "IsAllocationDisabled c workerIP job = rbind (alloc_of c workerIP job) (\<lambda>a. Inr (a_disabled a))"

definition IsAllocationRemoved :: "catalog \<Rightarrow> string \<Rightarrow> string \<Rightarrow> int result" where
  "IsAllocationRemoved c workerIP job = rbind (alloc_of c workerIP job) (\<lambda>a. Inr (a_removed a))"

definition IsActiveAllocation :: "int \<Rightarrow> int \<Rightarrow> bool" where
  "IsActiveAllocation removed disabled = (removed = 0 \<and> disabled = 0)"

definition IsAllocationActive :: "catalog \<Rightarrow> string \<Rightarrow> string \<Rightarrow> bool result" where
  "IsAllocationActive c workerIP job =
     rbind (IsAllocationRemoved c workerIP job) (\<lambda>removed.
       if removed = 1 then Inr False
       else rbind (IsAllocationDisabled c workerIP job) (\<lambda>disabled. Inr (disabled = 0)))"

definition GetAllocatedJobs :: "catalog \<Rightarrow> string \<Rightarrow> string list" where
  "GetAllocatedJobs c workerIP = map a_job (filter (\<lambda>a. a_worker_ip a = workerIP) (allocations c))"

definition GetActiveAllocatedJobs :: "catalog \<Rightarrow> string \<Rightarrow> string list" where
  "GetActiveAllocatedJobs c workerIP =
     map a_job (filter (\<lambda>a. a_worker_ip a = workerIP \<and> a_removed a = 0 \<and> a_disabled a = 0) (allocations c))"

definition GetAllocatedWorkers :: "catalog \<Rightarrow> string \<Rightarrow> string list" where
  "GetAllocatedWorkers c job = map a_worker_ip (filter (\<lambda>a. a_job a = job) (allocations c))"

fun active_loop :: "catalog \<Rightarrow> string \<Rightarrow> string list \<Rightarrow> string list result" where
  "active_loop c job [] = Inr []"
| "active_loop c job (ip # ips) =
     rbind (IsAllocationRemoved c ip job) (\<lambda>removed.
     rbind (IsAllocationDisabled c ip job) (\<lambda>disabled.
     rbind (active_loop c job ips) (\<lambda>rest.
       Inr (if IsActiveAllocation removed disabled then ip # rest else rest))))"

definition GetActiveAllocations :: "catalog \<Rightarrow> string \<Rightarrow> string list result" where
  "GetActiveAllocations c job = active_loop c job (GetAllocatedWorkers c job)"

definition JobHasActiveAllocations :: "catalog \<Rightarrow> string \<Rightarrow> bool result" where
  "JobHasActiveAllocations c job = rbind (GetActiveAllocations c job) (\<lambda>ws. Inr (ws \<noteq> []))"

text \<open>The inner join with \<open>workers\<close>, ordered by position and then address.\<close>

definition ordered_by_position :: "catalog \<Rightarrow> string list \<Rightarrow> string list" where
  "ordered_by_position c ips =
     map snd (sort (concat (map (\<lambda>ip. map (\<lambda>w. (w_position w, ip))
       (filter (\<lambda>w. w_worker_ip w = ip) (workers c))) ips)))"

definition GetActiveAllocationsOrdered :: "catalog \<Rightarrow> string \<Rightarrow> string list" where
  "GetActiveAllocationsOrdered c job =
     ordered_by_position c (map a_worker_ip
       (filter (\<lambda>a. a_job a = job \<and> a_removed a = 0 \<and> a_disabled a = 0) (allocations c)))"

definition GetNonRemovedAllocationsOrdered :: "catalog \<Rightarrow> string \<Rightarrow> string list" where
  "GetNonRemovedAllocationsOrdered c job =
     ordered_by_position c (map a_worker_ip
       (filter (\<lambda>a. a_job a = job \<and> a_removed a = 0) (allocations c)))"

definition GetNonRemovedAllocations :: "catalog \<Rightarrow> string \<Rightarrow> string list" where
  "GetNonRemovedAllocations c job =
     sort (map a_worker_ip (filter (\<lambda>a. a_job a = job \<and> a_removed a = 0) (allocations c)))"

definition JobHasNonRemovedAllocations :: "catalog \<Rightarrow> string \<Rightarrow> bool" where
  "JobHasNonRemovedAllocations c job = (GetNonRemovedAllocations c job \<noteq> [])"

definition CountJobAllocations :: "catalog \<Rightarrow> string \<Rightarrow> bool \<Rightarrow> nat" where
  "CountJobAllocations c jobName activeOnly =
     length (filter (\<lambda>a. a_job a = jobName \<and> a_removed a = 0 \<and> (activeOnly \<longrightarrow> a_disabled a = 0)) (allocations c))"

definition CountAllocations :: "catalog \<Rightarrow> bool \<Rightarrow> nat" where
  "CountAllocations c activeOnly = length (filter (\<lambda>a. activeOnly \<longrightarrow> a_removed a = 0) (allocations c))"

record StoppedAllocation =
  s_worker_ip :: string
  s_job :: string
  s_removed :: bool
  s_disabled :: bool

definition ListStoppedAllocations :: "catalog \<Rightarrow> StoppedAllocation list" where
  "ListStoppedAllocations c =
     map (\<lambda>a. \<lparr>s_worker_ip = a_worker_ip a, s_job = a_job a,
               s_removed = (a_removed a = 1), s_disabled = (a_disabled a = 1)\<rparr>)
       (filter (\<lambda>a. a_removed a = 1 \<or> a_disabled a = 1) (allocations c))"

definition StoppedAllocationAssumeDead :: "StoppedAllocation \<Rightarrow> WorkerCatalog \<Rightarrow> bool" where
  "StoppedAllocationAssumeDead alloc wc = (s_removed alloc \<and> \<not> catalog_Contains wc (s_worker_ip alloc))"

subsection \<open>Jobs\<close>

definition GetJobs :: "catalog \<Rightarrow> string list" where
  "GetJobs c = map j_name (jobs c)"

definition job_of :: "catalog \<Rightarrow> string \<Rightarrow> job_row result" where
  "job_of c name = query_row (\<lambda>j. j_name j = name) (jobs c)"

definition GetJobID :: "catalog \<Rightarrow> string \<Rightarrow> string result" where
  "GetJobID c name = rbind (job_of c name) (\<lambda>j. Inr (j_job_id j))"

definition GetJobVersion :: "catalog \<Rightarrow> string \<Rightarrow> string result" where
  "GetJobVersion c name = rbind (job_of c name) (\<lambda>j. Inr (j_version j))"

definition TargetJobVersion :: "catalog \<Rightarrow> string \<Rightarrow> string result" where
  "TargetJobVersion c name = rbind (GetJobVersion c name) (\<lambda>v. Inr (NormalizeDeployVersion v))"

definition JobInCatalog :: "catalog \<Rightarrow> string \<Rightarrow> bool" where
  "JobInCatalog c name = (length (filter (\<lambda>j. j_name j = name) (jobs c)) > 0)"

definition GetMaxConcurrentRestarts :: "catalog \<Rightarrow> string \<Rightarrow> int result" where
  "GetMaxConcurrentRestarts c name = rbind (job_of c name) (\<lambda>j. Inr (max_concurrent_restarts j))"

definition GetMaxConcurrentStarts :: "catalog \<Rightarrow> string \<Rightarrow> int result" where
  "GetMaxConcurrentStarts c name =
     rbind (job_of c name) (\<lambda>j. Inr (if max_concurrent_starts j < 0 then 0 else max_concurrent_starts j))"

definition GetMaxConcurrentStops :: "catalog \<Rightarrow> string \<Rightarrow> int result" where
  "GetMaxConcurrentStops c name =
     rbind (job_of c name) (\<lambda>j. Inr (if max_concurrent_stops j < 0 then 0 else max_concurrent_stops j))"

definition GetRestartPolicy :: "catalog \<Rightarrow> string \<Rightarrow> string result" where
  "GetRestartPolicy c name = rbind (job_of c name) (\<lambda>j. NormalizeRestartPolicy (restart_policy j))"

text \<open>The glob columns hold JSON arrays; the model keeps the decoded lists.\<close>

definition GetRestartGlobs :: "catalog \<Rightarrow> string \<Rightarrow> string list result" where
  "GetRestartGlobs c name = rbind (job_of c name) (\<lambda>j. Inr (restart_globs j))"

definition GetReloadGlobs :: "catalog \<Rightarrow> string \<Rightarrow> string list result" where
  "GetReloadGlobs c name = rbind (job_of c name) (\<lambda>j. Inr (reload_globs j))"

definition GetHooks :: "catalog \<Rightarrow> string \<Rightarrow> string \<Rightarrow> string list" where
  "GetHooks c job event =
     remdups (map k_name (filter (\<lambda>k. k_job k = job \<and> k_executed_on k = event) (hooks c)))"

definition JobHasPostDeployCommands :: "catalog \<Rightarrow> string \<Rightarrow> bool" where
  "JobHasPostDeployCommands c job = (GetHooks c job ''post_deploy'' \<noteq> [])"

definition GetJobsWithHook :: "catalog \<Rightarrow> string \<Rightarrow> string \<Rightarrow> string list" where
  "GetJobsWithHook c commandName event =
     sort (remdups (map k_job (filter (\<lambda>k. k_name k = commandName \<and> k_executed_on k = event) (hooks c))))"

definition GetAllAllocatedJobs :: "catalog \<Rightarrow> string list" where
  "GetAllAllocatedJobs c = remdups (map a_job (allocations c))"

definition GetDeployableJobs :: "catalog \<Rightarrow> string list" where
  "GetDeployableJobs c = sort (remdups (map a_job (filter (\<lambda>a. a_removed a = 0) (allocations c))))"

definition GetJobsByDeploymentSeq :: "catalog \<Rightarrow> int \<Rightarrow> string list" where
  "GetJobsByDeploymentSeq c seq =
     remdups (map a_job (filter
       (\<lambda>a. a_removed a = 0 \<and> (\<exists>j \<in> set (jobs c). j_name j = a_job a \<and> deployment_seq j = seq))
       (allocations c)))"

record DeployableJob =
  d_name :: string
  d_order :: int
  d_seq :: int

definition GetDeployableJobsInOrder :: "catalog \<Rightarrow> DeployableJob list" where
  "GetDeployableJobsInOrder c =
     map (\<lambda>j. \<lparr>d_name = j_name j, d_order = deployment_order j, d_seq = deployment_seq j\<rparr>)
       (sort_key (\<lambda>j. (deployment_order j, j_name j))
         (filter (\<lambda>j. \<exists>a \<in> set (allocations c). a_job a = j_name j \<and> a_removed a = 0) (jobs c)))"

text \<open>
  \<^verbatim>\<open>ORDER BY deployment_priority DESC, deployment_seq ASC, name ASC\<close>, then one UPDATE per name with
  its rank.
\<close>

definition deployment_ranking :: "catalog \<Rightarrow> string list" where
  "deployment_ranking c =
     map j_name (sort_key (\<lambda>j. (- deployment_priority j, deployment_seq j, j_name j)) (jobs c))"

fun set_orders :: "nat \<Rightarrow> string list \<Rightarrow> job_row list \<Rightarrow> job_row list" where
  "set_orders order [] rows = rows"
| "set_orders order (name # names) rows =
     set_orders (Suc order) names
       (update_where (\<lambda>j. j_name j = name) (\<lambda>j. j\<lparr>deployment_order := int order\<rparr>) rows)"

definition AssignDeploymentOrders :: "catalog \<Rightarrow> catalog" where
  "AssignDeploymentOrders c = c\<lparr>jobs := set_orders 0 (deployment_ranking c) (jobs c)\<rparr>"

section \<open>Allocation state\<close>

definition HealthFailedAppliedHash :: string where
  "HealthFailedAppliedHash = ''__kive_health_failed__''"

definition hash_of :: "catalog \<Rightarrow> string \<Rightarrow> hash_row option" where
  "hash_of c allocID = find (\<lambda>h. h_alloc_id h = allocID) (allocation_hashes c)"

definition GetAllocationHash :: "catalog \<Rightarrow> string \<Rightarrow> string \<times> string \<times> bool" where
  "GetAllocationHash c allocID =
     (case hash_of c allocID of
        None \<Rightarrow> ('''', '''', False)
      | Some h \<Rightarrow> (ifnull (pending_hash h) '''', ifnull (applied_hash h) '''', True))"

definition GetAllocationAppliedHash :: "catalog \<Rightarrow> string \<Rightarrow> string" where
  "GetAllocationAppliedHash c allocID =
     (case hash_of c allocID of None \<Rightarrow> '''' | Some h \<Rightarrow> ifnull (applied_hash h) '''')"

definition allocationHasAppliedHash :: "catalog \<Rightarrow> string \<Rightarrow> bool" where
  "allocationHasAppliedHash c allocID =
     (case hash_of c allocID of None \<Rightarrow> False | Some h \<Rightarrow> applied_hash h \<noteq> None)"

definition SetAllocationVersion :: "string \<Rightarrow> string \<Rightarrow> catalog \<Rightarrow> catalog" where
  "SetAllocationVersion allocID version c =
     c\<lparr>allocations := update_where (\<lambda>a. a_alloc_id a = allocID)
         (\<lambda>a. a\<lparr>a_version := Some (NormalizeDeployVersion version)\<rparr>) (allocations c)\<rparr>"

definition GetAllocationVersion :: "catalog \<Rightarrow> string \<Rightarrow> string" where
  "GetAllocationVersion c allocID =
     (case find (\<lambda>a. a_alloc_id a = allocID) (allocations c) of
        None \<Rightarrow> DefaultAllocationVersion
      | Some a \<Rightarrow> normalizeStoredVersion (a_version a))"

record AllocationVersions =
  AppliedVersion :: string
  TargetVersion :: string

text \<open>\<^verbatim>\<open>ifnull(h.applied_version, '')\<close> scanned into a NullString that stays invalid without a row.\<close>

definition GetAllocationVersions :: "catalog \<Rightarrow> string \<Rightarrow> AllocationVersions" where
  "GetAllocationVersions c allocID =
     \<lparr>AppliedVersion = normalizeStoredVersion
        (case hash_of c allocID of None \<Rightarrow> None | Some h \<Rightarrow> Some (ifnull (applied_version h) '''')),
      TargetVersion = GetAllocationVersion c allocID\<rparr>"

definition AllocationNeedsVersionRollout :: "catalog \<Rightarrow> string \<Rightarrow> string \<Rightarrow> bool result" where
  "AllocationNeedsVersionRollout c job workerIP =
     rbind (GetAllocationID c workerIP job) (\<lambda>allocID.
       let v = GetAllocationVersions c allocID in Inr (AppliedVersion v \<noteq> TargetVersion v))"

subsection \<open>Pending allocations of a job\<close>

text \<open>The join of \<open>allocations\<close> with \<open>allocation_hashes\<close> on \<open>alloc_id\<close>.\<close>

definition joined_hashes :: "catalog \<Rightarrow> (allocation_row \<times> hash_row) list" where
  "joined_hashes c =
     concat (map (\<lambda>a. map (\<lambda>h. (a, h)) (filter (\<lambda>h. h_alloc_id h = a_alloc_id a) (allocation_hashes c)))
       (allocations c))"

definition active_row :: "string \<Rightarrow> allocation_row \<Rightarrow> bool" where
  "active_row job a = (a_job a = job \<and> a_removed a = 0 \<and> a_disabled a = 0)"

definition live_row :: "string \<Rightarrow> allocation_row \<Rightarrow> bool" where
  "live_row job a = (a_job a = job \<and> a_removed a = 0)"

definition content_pending :: "hash_row \<Rightarrow> bool" where
  "content_pending h = (applied_hash h \<noteq> None \<and> sql_neq (applied_hash h) (pending_hash h))"

definition GetNewAllocations :: "catalog \<Rightarrow> string \<Rightarrow> string list" where
  "GetNewAllocations c job =
     map (\<lambda>(a, h). a_worker_ip a) (filter (\<lambda>(a, h). active_row job a \<and> applied_hash h = None) (joined_hashes c))"

definition GetUpdatedAllocations :: "catalog \<Rightarrow> string \<Rightarrow> string list" where
  "GetUpdatedAllocations c job =
     map (\<lambda>(a, h). a_worker_ip a) (filter (\<lambda>(a, h). active_row job a \<and> content_pending h) (joined_hashes c))"

definition GetUpdatedNonRemovedAllocations :: "catalog \<Rightarrow> string \<Rightarrow> string list" where
  "GetUpdatedNonRemovedAllocations c job =
     map (\<lambda>(a, h). a_worker_ip a) (filter (\<lambda>(a, h). live_row job a \<and> content_pending h) (joined_hashes c))"

text \<open>The left join: one row per hash row, or one row with a NULL applied version when there is none.\<close>

definition applied_versions :: "catalog \<Rightarrow> allocation_row \<Rightarrow> string option list" where
  "applied_versions c a =
     (let vs = map applied_version (filter (\<lambda>h. h_alloc_id h = a_alloc_id a) (allocation_hashes c))
      in if vs = [] then [None] else vs)"

definition version_pending_rows :: "(allocation_row \<Rightarrow> bool) \<Rightarrow> catalog \<Rightarrow> string list" where
  "version_pending_rows P c =
     concat (map (\<lambda>a. map (\<lambda>v. a_worker_ip a)
         (filter (\<lambda>v. ifnull v DefaultAllocationVersion \<noteq> ifnull (a_version a) DefaultAllocationVersion)
           (applied_versions c a)))
       (filter P (allocations c)))"

definition GetVersionPendingNonRemovedAllocations :: "catalog \<Rightarrow> string \<Rightarrow> string list" where
  "GetVersionPendingNonRemovedAllocations c job = version_pending_rows (live_row job) c"

definition GetVersionPendingAllocations :: "catalog \<Rightarrow> string \<Rightarrow> string list" where
  "GetVersionPendingAllocations c job = version_pending_rows (active_row job) c"

definition deployed_hash :: "hash_row \<Rightarrow> bool" where
  "deployed_hash h = (ifnull (applied_hash h) '''' \<noteq> '''')"

definition live_hash :: "hash_row \<Rightarrow> bool" where
  "live_hash h = (deployed_hash h \<and> sql_neq (applied_hash h) (Some HealthFailedAppliedHash))"

definition queryActiveAllocationWorkers :: "(hash_row \<Rightarrow> bool) \<Rightarrow> catalog \<Rightarrow> string \<Rightarrow> string list" where
  "queryActiveAllocationWorkers hashPredicate c job =
     map (\<lambda>(a, h). a_worker_ip a) (filter (\<lambda>(a, h). active_row job a \<and> hashPredicate h) (joined_hashes c))"

definition GetDeployedActiveAllocations :: "catalog \<Rightarrow> string \<Rightarrow> string list" where
  "GetDeployedActiveAllocations c job = queryActiveAllocationWorkers live_hash c job"

definition GetHealthCheckActiveAllocations :: "catalog \<Rightarrow> string \<Rightarrow> string list" where
  "GetHealthCheckActiveAllocations c job = queryActiveAllocationWorkers deployed_hash c job"

definition GetDeployedJobs :: "catalog \<Rightarrow> string list" where
  "GetDeployedJobs c =
     sort (remdups (map (\<lambda>(a, h). a_job a) (filter (\<lambda>(a, h). a_removed a = 0 \<and> deployed_hash h) (joined_hashes c))))"

definition GetDeployedJobsByDeploymentSeq :: "catalog \<Rightarrow> int \<Rightarrow> string list" where
  "GetDeployedJobsByDeploymentSeq c seq =
     sort (remdups (map (\<lambda>(a, h). a_job a) (filter
       (\<lambda>(a, h). a_removed a = 0 \<and> deployed_hash h \<and>
          (\<exists>j \<in> set (jobs c). j_name j = a_job a \<and> deployment_seq j = seq)) (joined_hashes c))))"

subsection \<open>Updates\<close>

definition RemoveAllocationHash :: "string \<Rightarrow> catalog \<Rightarrow> catalog" where
  "RemoveAllocationHash allocID c =
     c\<lparr>allocation_hashes := delete_where (\<lambda>h. h_alloc_id h = allocID) (allocation_hashes c),
       allocation_file_hashes := delete_where (\<lambda>f. f_alloc_id f = allocID) (allocation_file_hashes c)\<rparr>"

text \<open>
  \<open>upsertAllocationPendingFiles\<close>: the insert-or-update of every pending file, then for every known
  path that is no longer pending a delete (never applied) or a NULL pending digest.
\<close>

definition upsert_file :: "string \<Rightarrow> file_hash_row list \<Rightarrow> string \<times> string \<Rightarrow> file_hash_row list" where
  "upsert_file allocID rows pd =
     (if list_ex (\<lambda>f. f_alloc_id f = allocID \<and> f_path f = fst pd) rows
      then update_where (\<lambda>f. f_alloc_id f = allocID \<and> f_path f = fst pd) (\<lambda>f. f\<lparr>f_pending := Some (snd pd)\<rparr>) rows
      else rows @ [\<lparr>f_alloc_id = allocID, f_path = fst pd, f_pending = Some (snd pd), f_applied = None\<rparr>])"

definition drop_unlisted :: "string \<Rightarrow> FileManifest \<Rightarrow> file_hash_row list \<Rightarrow> file_hash_row list" where
  "drop_unlisted allocID pending rows =
     update_where (\<lambda>f. f_alloc_id f = allocID \<and> f_path f \<notin> fst ` set pending) (\<lambda>f. f\<lparr>f_pending := None\<rparr>)
       (delete_where (\<lambda>f. f_alloc_id f = allocID \<and> f_path f \<notin> fst ` set pending \<and> f_applied f = None) rows)"

definition upsertAllocationPendingFiles :: "string \<Rightarrow> FileManifest \<Rightarrow> catalog \<Rightarrow> catalog" where
  "upsertAllocationPendingFiles allocID pending c =
     c\<lparr>allocation_file_hashes :=
         drop_unlisted allocID pending (foldl (upsert_file allocID) (allocation_file_hashes c) pending)\<rparr>"

definition UpdateAllocationPlan :: "string \<Rightarrow> string \<Rightarrow> FileManifest \<Rightarrow> catalog \<Rightarrow> catalog" where
  "UpdateAllocationPlan allocID hash pending c =
     (case hash_of c allocID of
        None \<Rightarrow>
          upsertAllocationPendingFiles allocID pending
            (c\<lparr>allocation_hashes := allocation_hashes c @
                [\<lparr>h_alloc_id = allocID, pending_hash = Some hash, applied_hash = None,
                  applied_version = Some DefaultAllocationVersion\<rparr>]\<rparr>)
      | Some h \<Rightarrow>
          if ifnull (pending_hash h) '''' = hash then c
          else upsertAllocationPendingFiles allocID pending
            (c\<lparr>allocation_hashes := update_where (\<lambda>h. h_alloc_id h = allocID)
                 (\<lambda>h. h\<lparr>pending_hash := Some hash\<rparr>) (allocation_hashes c)\<rparr>))"

definition deleteOrphanFileHashRows :: "string \<Rightarrow> catalog \<Rightarrow> catalog" where
  "deleteOrphanFileHashRows allocID c =
     c\<lparr>allocation_file_hashes :=
         delete_where (\<lambda>f. f_alloc_id f = allocID \<and> f_pending f = None \<and> f_applied f = None)
           (allocation_file_hashes c)\<rparr>"

text \<open>\<^verbatim>\<open>COALESCE((SELECT version FROM allocations WHERE alloc_id = ?), ?)\<close>\<close>

definition target_version :: "catalog \<Rightarrow> string \<Rightarrow> string" where
  "target_version c allocID =
     (case find (\<lambda>a. a_alloc_id a = allocID) (allocations c) of
        None \<Rightarrow> DefaultAllocationVersion
      | Some a \<Rightarrow> ifnull (a_version a) DefaultAllocationVersion)"

definition PromoteAllocationState :: "string \<Rightarrow> catalog \<Rightarrow> catalog" where
  "PromoteAllocationState allocID c =
     deleteOrphanFileHashRows allocID
       (c\<lparr>allocation_hashes := update_where (\<lambda>h. h_alloc_id h = allocID)
            (\<lambda>h. h\<lparr>applied_hash := pending_hash h, applied_version := Some (target_version c allocID)\<rparr>)
            (allocation_hashes c),
          allocation_file_hashes := update_where (\<lambda>f. f_alloc_id f = allocID)
            (\<lambda>f. f\<lparr>f_applied := f_pending f\<rparr>) (allocation_file_hashes c)\<rparr>)"

definition MarkAllocationHealthFailed :: "string \<Rightarrow> catalog \<Rightarrow> catalog" where
  "MarkAllocationHealthFailed allocID c =
     c\<lparr>allocation_hashes := update_where (\<lambda>h. h_alloc_id h = allocID)
         (\<lambda>h. h\<lparr>applied_hash := Some HealthFailedAppliedHash\<rparr>) (allocation_hashes c)\<rparr>"

definition clearAllocationAppliedFiles :: "string \<Rightarrow> catalog \<Rightarrow> catalog" where
  "clearAllocationAppliedFiles allocID c =
     deleteOrphanFileHashRows allocID
       (c\<lparr>allocation_file_hashes := update_where (\<lambda>f. f_alloc_id f = allocID)
            (\<lambda>f. f\<lparr>f_applied := None\<rparr>) (allocation_file_hashes c)\<rparr>)"

definition MarkAllocationStartPending :: "string \<Rightarrow> catalog \<Rightarrow> catalog" where
  "MarkAllocationStartPending allocID c =
     clearAllocationAppliedFiles allocID
       (c\<lparr>allocation_hashes := update_where (\<lambda>h. h_alloc_id h = allocID)
            (\<lambda>h. h\<lparr>applied_hash := None\<rparr>) (allocation_hashes c)\<rparr>)"

definition ClearAllocationLiveState :: "string \<Rightarrow> catalog \<Rightarrow> catalog" where
  "ClearAllocationLiveState allocID c =
     clearAllocationAppliedFiles allocID
       (c\<lparr>allocation_hashes := update_where (\<lambda>h. h_alloc_id h = allocID)
            (\<lambda>h. h\<lparr>applied_hash := None, applied_version := None\<rparr>) (allocation_hashes c)\<rparr>)"

record AllocationFileManifests =
  Pending :: FileManifest
  Applied :: FileManifest
  HasAppliedFiles :: bool

definition opt_entry :: "'k \<Rightarrow> 'v option \<Rightarrow> ('k \<times> 'v) list" where
  "opt_entry k v = (case v of Some d \<Rightarrow> [(k, d)] | None \<Rightarrow> [])"

definition file_manifest :: "(file_hash_row \<Rightarrow> string option) \<Rightarrow> string \<Rightarrow> file_hash_row list \<Rightarrow> FileManifest" where
  "file_manifest col allocID rows =
     concat (map (\<lambda>f. opt_entry (f_path f) (col f))
       (filter (\<lambda>f. f_alloc_id f = allocID) rows))"

definition GetAllocationFileManifests :: "catalog \<Rightarrow> string \<Rightarrow> AllocationFileManifests" where
  "GetAllocationFileManifests c allocID =
     \<lparr>Pending = file_manifest f_pending allocID (allocation_file_hashes c),
      Applied = file_manifest f_applied allocID (allocation_file_hashes c),
      HasAppliedFiles = allocationHasAppliedHash c allocID\<rparr>"

subsection \<open>Digests of the build\<close>

definition build_hash_of :: "catalog \<Rightarrow> string \<Rightarrow> string \<Rightarrow> build_hash_row option" where
  "build_hash_of c namespace key = find (\<lambda>b. b_namespace b = namespace \<and> b_key b = key) (build_hashes c)"

definition UpdateHash :: "string \<Rightarrow> string \<Rightarrow> string \<Rightarrow> catalog \<Rightarrow> catalog" where
  "UpdateHash namespace key hash c =
     (case build_hash_of c namespace key of
        None \<Rightarrow> c\<lparr>build_hashes := build_hashes c @
            [\<lparr>b_namespace = namespace, b_key = key, b_pending = Some hash, b_applied = None\<rparr>]\<rparr>
      | Some _ \<Rightarrow> c\<lparr>build_hashes := update_where (\<lambda>b. b_namespace b = namespace \<and> b_key b = key)
            (\<lambda>b. b\<lparr>b_pending := Some hash\<rparr>) (build_hashes c)\<rparr>)"

definition HashChanged :: "catalog \<Rightarrow> string \<Rightarrow> string \<Rightarrow> bool" where
  "HashChanged c namespace key =
     (case build_hash_of c namespace key of
        None \<Rightarrow> True | Some b \<Rightarrow> ifnull (b_pending b) '''' \<noteq> ifnull (b_applied b) '''')"

definition PromoteHash :: "string \<Rightarrow> string \<Rightarrow> catalog \<Rightarrow> catalog" where
  "PromoteHash namespace key c =
     c\<lparr>build_hashes := update_where (\<lambda>b. b_namespace b = namespace \<and> b_key b = key)
         (\<lambda>b. b\<lparr>b_applied := b_pending b\<rparr>) (build_hashes c)\<rparr>"

definition RemoveHash :: "string \<Rightarrow> string \<Rightarrow> catalog \<Rightarrow> catalog" where
  "RemoveHash namespace key c =
     c\<lparr>build_hashes := delete_where (\<lambda>b. b_namespace b = namespace \<and> b_key b = key) (build_hashes c)\<rparr>"

definition GetAppliedHash :: "catalog \<Rightarrow> string \<Rightarrow> string \<Rightarrow> string" where
  "GetAppliedHash c namespace key =
     (case build_hash_of c namespace key of None \<Rightarrow> '''' | Some b \<Rightarrow> ifnull (b_applied b) '''')"

section \<open>Keyed tables\<close>

lemma find_update_where:
  assumes "\<And>r. K (f r) = K r"
  shows "find K (update_where P f rows) = map_option (\<lambda>r. if P r then f r else r) (find K rows)"
  using assms by (induction rows) (auto simp: update_where_def)

lemma find_delete_where:
  assumes "\<And>r. K r \<Longrightarrow> \<not> P r"
  shows "find K (delete_where P rows) = find K rows"
  using assms by (induction rows) (auto simp: delete_where_def)

lemma find_delete_where_same: "find P (delete_where P rows) = None"
  by (induction rows) (auto simp: delete_where_def)

lemma map_update_where [simp]:
  "(\<And>r. key (f r) = key r) \<Longrightarrow> map key (update_where P f rows) = map key rows"
  by (auto simp: update_where_def)

lemma set_update_where: "set (update_where P f rows) = (\<lambda>r. if P r then f r else r) ` set rows"
  by (auto simp: update_where_def)

lemma set_delete_where [simp]: "set (delete_where P rows) = {r \<in> set rows. \<not> P r}"
  by (auto simp: delete_where_def)

lemma distinct_delete_where: "distinct (map key rows) \<Longrightarrow> distinct (map key (delete_where P rows))"
  by (simp add: delete_where_def distinct_map_filter)

lemma find_distinct_key:
  assumes "distinct (map key rows)"
  shows "find (\<lambda>r. key r = k) rows = Some r \<longleftrightarrow> r \<in> set rows \<and> key r = k"
  using assms by (induction rows) (auto simp: image_iff)

lemma filter_distinct_key:
  assumes "distinct (map key rows)" "r \<in> set rows"
  shows "filter (\<lambda>x. key x = key r) rows = [r]"
  using assms
proof (induction rows)
  case (Cons x rows)
  have "filter (\<lambda>y. key y = key x) rows = []"
    using Cons.prems by (auto simp: filter_empty_conv image_iff)
  with Cons show ?case by (auto simp: image_iff)
qed simp

lemma find_key_None: "find (\<lambda>r. key r = k) rows = None \<longleftrightarrow> k \<notin> key ` set rows"
  by (induction rows) auto

text \<open>
  What an operation on one allocation promises its clients: the row of the allocation is rewritten
  by a function that depends only on parts of the state the operation leaves alone, every other
  row is untouched, and doing it twice is doing it once. Operations over a list of allocations
  follow from that.
\<close>

locale keyed_update =
  fixes look :: "'s \<Rightarrow> 'k \<Rightarrow> 'r option"
    and upd :: "'k \<Rightarrow> 's \<Rightarrow> 's"
    and eff :: "'k \<Rightarrow> 's \<Rightarrow> 'r \<Rightarrow> 'r"
  assumes look_upd: "look (upd k s) k' = (if k' = k then map_option (eff k s) (look s k') else look s k')"
    and eff_frame: "eff k (upd k' s) = eff k s"
    and eff_idem: "eff k s (eff k s r) = eff k s r"
begin

lemma look_fold:
  "look (fold upd ks s) k = (if k \<in> set ks then map_option (eff k s) (look s k) else look s k)"
proof (induction ks arbitrary: s)
  case Nil
  then show ?case by simp
next
  case (Cons a ks)
  then show ?case
    by (auto simp: look_upd eff_frame eff_idem option.map_comp comp_def intro!: option.map_cong)
qed

lemma look_fold_None [simp]: "look (fold upd ks s) k = None \<longleftrightarrow> look s k = None"
  by (auto simp: look_fold)

end

lemma hash_of_update:
  assumes "\<And>r. h_alloc_id (f r) = h_alloc_id r"
  shows "hash_of (c\<lparr>allocation_hashes := update_where (\<lambda>h. h_alloc_id h = allocID) f (allocation_hashes c)\<rparr>) k =
    (if k = allocID then map_option f (hash_of c k) else hash_of c k)"
proof -
  let ?K = "\<lambda>h. h_alloc_id h = k"
  have e: "find ?K (update_where (\<lambda>h. h_alloc_id h = allocID) f (allocation_hashes c)) =
      map_option (\<lambda>r. if h_alloc_id r = allocID then f r else r) (find ?K (allocation_hashes c))"
    by (rule find_update_where) (simp add: assms)
  show ?thesis
  proof (cases "find ?K (allocation_hashes c)")
    case None
    then show ?thesis by (auto simp: hash_of_def e)
  next
    case (Some r)
    with find_SomeD [OF Some] show ?thesis by (auto simp: hash_of_def e)
  qed
qed

lemma hash_of_fields [simp]:
  "hash_of (c\<lparr>allocation_file_hashes := x\<rparr>) k = hash_of c k"
  "hash_of (c\<lparr>allocations := y\<rparr>) k = hash_of c k"
  "hash_of (deleteOrphanFileHashRows i c) k = hash_of c k"
  "hash_of (upsertAllocationPendingFiles i p c) k = hash_of c k"
  by (simp_all add: hash_of_def deleteOrphanFileHashRows_def upsertAllocationPendingFiles_def)

definition promoted_row :: "string \<Rightarrow> catalog \<Rightarrow> hash_row \<Rightarrow> hash_row" where
  "promoted_row allocID c h =
     h\<lparr>applied_hash := pending_hash h, applied_version := Some (target_version c allocID)\<rparr>"

definition health_failed_row :: "hash_row \<Rightarrow> hash_row" where
  "health_failed_row h = h\<lparr>applied_hash := Some HealthFailedAppliedHash\<rparr>"

lemma allocations_fields [simp]:
  "allocations (PromoteAllocationState i c) = allocations c"
  "allocations (MarkAllocationHealthFailed i c) = allocations c"
  "allocations (RemoveAllocationHash i c) = allocations c"
  "allocations (MarkAllocationStartPending i c) = allocations c"
  "allocations (ClearAllocationLiveState i c) = allocations c"
  "allocations (UpdateAllocationPlan i h p c) = allocations c"
  by (simp_all add: PromoteAllocationState_def MarkAllocationHealthFailed_def RemoveAllocationHash_def
      MarkAllocationStartPending_def ClearAllocationLiveState_def clearAllocationAppliedFiles_def
      deleteOrphanFileHashRows_def UpdateAllocationPlan_def upsertAllocationPendingFiles_def Let_def
      split: option.split)

interpretation promote: keyed_update hash_of PromoteAllocationState promoted_row
proof
  fix k c k' r
  show "hash_of (PromoteAllocationState k c) k' =
      (if k' = k then map_option (promoted_row k c) (hash_of c k') else hash_of c k')"
    using hash_of_update [where f = "promoted_row k c" and c = c and allocID = k and k = k']
    by (simp add: PromoteAllocationState_def promoted_row_def [abs_def] hash_of_def
        deleteOrphanFileHashRows_def cong: if_cong)
  show "promoted_row k (PromoteAllocationState k' c) = promoted_row k c"
    by (simp add: promoted_row_def [abs_def] target_version_def)
  show "promoted_row k c (promoted_row k c r) = promoted_row k c r"
    by (simp add: promoted_row_def)
qed

interpretation health_fail: keyed_update hash_of MarkAllocationHealthFailed "\<lambda>_ _. health_failed_row"
proof
  fix k c k' r
  show "hash_of (MarkAllocationHealthFailed k c) k' =
      (if k' = k then map_option health_failed_row (hash_of c k') else hash_of c k')"
    unfolding MarkAllocationHealthFailed_def health_failed_row_def by (rule hash_of_update) simp
  show "health_failed_row (health_failed_row r) = health_failed_row r"
    by (simp add: health_failed_row_def)
qed simp

interpretation start_pending: keyed_update hash_of MarkAllocationStartPending "\<lambda>_ _ h. h\<lparr>applied_hash := None\<rparr>"
proof
  fix k c k'
  show "hash_of (MarkAllocationStartPending k c) k' =
      (if k' = k then map_option (\<lambda>h. h\<lparr>applied_hash := None\<rparr>) (hash_of c k') else hash_of c k')"
    using hash_of_update [where f = "\<lambda>h. h\<lparr>applied_hash := None\<rparr>" and c = c and allocID = k and k = k']
    by (simp add: MarkAllocationStartPending_def clearAllocationAppliedFiles_def hash_of_def
        deleteOrphanFileHashRows_def cong: if_cong)
qed simp_all

interpretation live_clear: keyed_update hash_of ClearAllocationLiveState
  "\<lambda>_ _ h. h\<lparr>applied_hash := None, applied_version := None\<rparr>"
proof
  fix k c k'
  show "hash_of (ClearAllocationLiveState k c) k' =
      (if k' = k then map_option (\<lambda>h. h\<lparr>applied_hash := None, applied_version := None\<rparr>) (hash_of c k')
       else hash_of c k')"
    using hash_of_update [where f = "\<lambda>h. h\<lparr>applied_hash := None, applied_version := None\<rparr>" and c = c and allocID = k and k = k']
    by (simp add: ClearAllocationLiveState_def clearAllocationAppliedFiles_def hash_of_def
        deleteOrphanFileHashRows_def cong: if_cong)
qed simp_all

section \<open>Well-formed catalogs\<close>

text \<open>The primary keys and unique indexes of \<^verbatim>\<open>data/schema.go\<close>.\<close>

definition catalog_wf :: "catalog \<Rightarrow> bool" where
  "catalog_wf c =
     (distinct (map a_alloc_id (allocations c)) \<and>
      distinct (map (\<lambda>a. (a_worker_ip a, a_job a)) (allocations c)) \<and>
      distinct (map h_alloc_id (allocation_hashes c)) \<and>
      distinct (map (\<lambda>f. (f_alloc_id f, f_path f)) (allocation_file_hashes c)) \<and>
      distinct (map j_name (jobs c)) \<and>
      distinct (map w_worker_ip (workers c)))"

lemma joined_hashes_iff:
  assumes "catalog_wf c"
  shows "(a, h) \<in> set (joined_hashes c) \<longleftrightarrow> a \<in> set (allocations c) \<and> hash_of c (a_alloc_id a) = Some h"
  using assms by (auto simp: joined_hashes_def hash_of_def catalog_wf_def find_distinct_key)

lemma alloc_of_wf:
  assumes "catalog_wf c" "a \<in> set (allocations c)"
  shows "alloc_of c (a_worker_ip a) (a_job a) = Inr a"
proof -
  have "distinct (map (\<lambda>a. (a_worker_ip a, a_job a)) (allocations c))"
    using assms(1) by (simp add: catalog_wf_def)
  from find_distinct_key [OF this, of "(a_worker_ip a, a_job a)" a] assms(2)
  show ?thesis by (simp add: alloc_of_def query_row_def)
qed

lemma GetAllocationID_wf:
  "catalog_wf c \<Longrightarrow> a \<in> set (allocations c) \<Longrightarrow>
     GetAllocationID c (a_worker_ip a) (a_job a) = Inr (a_alloc_id a)"
  by (simp add: GetAllocationID_def alloc_of_wf)

lemma GetAllocationID_Inr:
  assumes "GetAllocationID c ip job = Inr i"
  obtains a where "a \<in> set (allocations c)" "a_worker_ip a = ip" "a_job a = job" "a_alloc_id a = i"
proof -
  from assms obtain a where a: "find (\<lambda>a. a_worker_ip a = ip \<and> a_job a = job) (allocations c) = Some a"
    "a_alloc_id a = i"
    by (auto simp: GetAllocationID_def alloc_of_def query_row_def result_simps split: option.splits)
  with find_SomeD [OF a(1)] that show thesis by blast
qed

lemma applied_versions_wf:
  assumes "catalog_wf c"
  shows "applied_versions c a =
    [case hash_of c (a_alloc_id a) of None \<Rightarrow> None | Some h \<Rightarrow> applied_version h]"
proof (cases "hash_of c (a_alloc_id a)")
  case None
  then have "filter (\<lambda>h. h_alloc_id h = a_alloc_id a) (allocation_hashes c) = []"
    by (auto simp: hash_of_def find_key_None filter_empty_conv image_iff)
  with None show ?thesis by (simp add: applied_versions_def)
next
  case (Some h)
  have d: "distinct (map h_alloc_id (allocation_hashes c))" using assms by (simp add: catalog_wf_def)
  have "h \<in> set (allocation_hashes c)" "h_alloc_id h = a_alloc_id a"
    using Some d by (simp_all add: hash_of_def find_distinct_key)
  with filter_distinct_key [OF d this(1)]
  have "filter (\<lambda>h. h_alloc_id h = a_alloc_id a) (allocation_hashes c) = [h]" by simp
  with Some show ?thesis by (simp add: applied_versions_def)
qed

subsection \<open>Every update keeps the catalog well-formed\<close>

lemma wf_update_hashes:
  "catalog_wf c \<Longrightarrow> (\<And>r. h_alloc_id (f r) = h_alloc_id r) \<Longrightarrow>
     catalog_wf (c\<lparr>allocation_hashes := update_where P f (allocation_hashes c)\<rparr>)"
  by (simp add: catalog_wf_def)

lemma wf_update_files:
  "catalog_wf c \<Longrightarrow> (\<And>r. f_alloc_id (f r) = f_alloc_id r \<and> f_path (f r) = f_path r) \<Longrightarrow>
     catalog_wf (c\<lparr>allocation_file_hashes := update_where P f (allocation_file_hashes c)\<rparr>)"
  by (simp add: catalog_wf_def)

lemma wf_delete_orphans: "catalog_wf c \<Longrightarrow> catalog_wf (deleteOrphanFileHashRows i c)"
  by (simp add: catalog_wf_def deleteOrphanFileHashRows_def distinct_delete_where)

lemma wf_promote: "catalog_wf c \<Longrightarrow> catalog_wf (PromoteAllocationState i c)"
proof -
  assume "catalog_wf c"
  then have "catalog_wf (c\<lparr>allocation_hashes := update_where (\<lambda>h. h_alloc_id h = i)
            (\<lambda>h. h\<lparr>applied_hash := pending_hash h, applied_version := Some (target_version c i)\<rparr>)
            (allocation_hashes c),
          allocation_file_hashes := update_where (\<lambda>f. f_alloc_id f = i)
            (\<lambda>f. f\<lparr>f_applied := f_pending f\<rparr>) (allocation_file_hashes c)\<rparr>)"
    by (simp add: catalog_wf_def)
  then show ?thesis unfolding PromoteAllocationState_def by (rule wf_delete_orphans)
qed

lemma wf_mark: "catalog_wf c \<Longrightarrow> catalog_wf (MarkAllocationHealthFailed i c)"
  unfolding MarkAllocationHealthFailed_def by (rule wf_update_hashes) simp_all

lemma hash_of_remove: "hash_of (RemoveAllocationHash i c) k = (if k = i then None else hash_of c k)"
  unfolding hash_of_def RemoveAllocationHash_def
  by (auto simp: find_delete_where_same intro: find_delete_where)

lemma wf_remove: "catalog_wf c \<Longrightarrow> catalog_wf (RemoveAllocationHash i c)"
  by (simp add: catalog_wf_def RemoveAllocationHash_def distinct_delete_where)

lemma wf_clear_files: "catalog_wf c \<Longrightarrow> catalog_wf (clearAllocationAppliedFiles i c)"
  unfolding clearAllocationAppliedFiles_def by (intro wf_delete_orphans wf_update_files) simp_all

lemma wf_start_pending: "catalog_wf c \<Longrightarrow> catalog_wf (MarkAllocationStartPending i c)"
  unfolding MarkAllocationStartPending_def by (intro wf_clear_files wf_update_hashes) simp_all

lemma wf_clear_live: "catalog_wf c \<Longrightarrow> catalog_wf (ClearAllocationLiveState i c)"
  unfolding ClearAllocationLiveState_def by (intro wf_clear_files wf_update_hashes) simp_all

lemma upsert_file_keys:
  "distinct (map (\<lambda>f. (f_alloc_id f, f_path f)) rows) \<Longrightarrow>
     distinct (map (\<lambda>f. (f_alloc_id f, f_path f)) (upsert_file i rows pd))"
  by (auto simp: upsert_file_def list_ex_iff)

lemma foldl_upsert_keys:
  "distinct (map (\<lambda>f. (f_alloc_id f, f_path f)) rows) \<Longrightarrow>
     distinct (map (\<lambda>f. (f_alloc_id f, f_path f)) (foldl (upsert_file i) rows pending))"
  by (induction pending arbitrary: rows) (auto simp del: map_map intro: upsert_file_keys)

lemma drop_unlisted_keys:
  "distinct (map (\<lambda>f. (f_alloc_id f, f_path f)) rows) \<Longrightarrow>
     distinct (map (\<lambda>f. (f_alloc_id f, f_path f)) (drop_unlisted i pending rows))"
  unfolding drop_unlisted_def by (subst map_update_where) (simp_all add: distinct_delete_where)

lemma wf_upsert: "catalog_wf c \<Longrightarrow> catalog_wf (upsertAllocationPendingFiles i pending c)"
  by (simp add: catalog_wf_def upsertAllocationPendingFiles_def drop_unlisted_keys foldl_upsert_keys)

lemma wf_plan: "catalog_wf c \<Longrightarrow> catalog_wf (UpdateAllocationPlan i hash pending c)"
proof (cases "hash_of c i")
  case None
  assume "catalog_wf c"
  moreover from None have "i \<notin> h_alloc_id ` set (allocation_hashes c)"
    by (simp add: hash_of_def find_key_None)
  ultimately have "catalog_wf (c\<lparr>allocation_hashes := allocation_hashes c @
      [\<lparr>h_alloc_id = i, pending_hash = Some hash, applied_hash = None,
        applied_version = Some DefaultAllocationVersion\<rparr>]\<rparr>)"
    by (auto simp: catalog_wf_def)
  with None show ?thesis by (simp add: UpdateAllocationPlan_def wf_upsert)
next
  case (Some h)
  assume "catalog_wf c"
  then have "catalog_wf (c\<lparr>allocation_hashes := update_where (\<lambda>h. h_alloc_id h = i)
                 (\<lambda>h. h\<lparr>pending_hash := Some hash\<rparr>) (allocation_hashes c)\<rparr>)"
    by (rule wf_update_hashes) simp
  with Some \<open>catalog_wf c\<close> show ?thesis by (simp add: UpdateAllocationPlan_def wf_upsert)
qed

lemmas catalog_wf_intros [intro] =
  wf_promote wf_mark wf_remove wf_start_pending wf_clear_live wf_plan

lemma wf_fold: "(\<And>i c. catalog_wf c \<Longrightarrow> catalog_wf (f i c)) \<Longrightarrow> catalog_wf c \<Longrightarrow> catalog_wf (fold f is c)"
  by (induction "is" arbitrary: c) auto

subsection \<open>File manifests after an update\<close>

lemma opt_entry_simps [simp]:
  "opt_entry k None = []" "opt_entry k (Some d) = [(k, d)]"
  by (simp_all add: opt_entry_def)

lemma map_of_opt_entry:
  "map_of (opt_entry k v @ xs) q = (if q = k \<and> v \<noteq> None then v else map_of xs q)"
  by (cases v) auto

lemma file_manifest_Nil [simp]: "file_manifest col i [] = []"
  by (simp add: file_manifest_def)

lemma file_manifest_Cons [simp]:
  "file_manifest col i (f # rows) =
     (if f_alloc_id f = i then opt_entry (f_path f) (col f) else []) @
     file_manifest col i rows"
  by (simp add: file_manifest_def)

lemma file_manifest_append [simp]:
  "file_manifest col i (xs @ ys) = file_manifest col i xs @ file_manifest col i ys"
  by (simp add: file_manifest_def)

lemma file_manifest_orphans:
  "file_manifest f_pending i (delete_where (\<lambda>f. f_alloc_id f = k \<and> f_pending f = None \<and> f_applied f = None) rows) =
     file_manifest f_pending i rows"
  "file_manifest f_applied i (delete_where (\<lambda>f. f_alloc_id f = k \<and> f_pending f = None \<and> f_applied f = None) rows) =
     file_manifest f_applied i rows"
  by (induction rows) (auto simp: delete_where_def)

lemma file_manifest_promoted:
  "file_manifest f_applied i (update_where (\<lambda>f. f_alloc_id f = i) (\<lambda>f. f\<lparr>f_applied := f_pending f\<rparr>) rows) =
   file_manifest f_pending i rows"
  by (induction rows) (auto simp: update_where_def split: option.split)

lemma file_manifest_pending_frame:
  "file_manifest f_pending i (update_where P (\<lambda>f. f\<lparr>f_applied := g f\<rparr>) rows) = file_manifest f_pending i rows"
  by (induction rows) (auto simp: update_where_def split: option.split)

lemma lookup_Cons [simp]:
  "map_of (file_manifest col i (f # rows)) q =
     (if f_alloc_id f = i \<and> q = f_path f \<and> col f \<noteq> None then col f else map_of (file_manifest col i rows) q)"
  by (simp only: file_manifest_Cons map_of_opt_entry append.simps split: if_split) blast

lemma lookup_upsert_update:
  "map_of (file_manifest f_pending i
      (update_where (\<lambda>f. f_alloc_id f = i \<and> f_path f = q) (\<lambda>f. f\<lparr>f_pending := Some d\<rparr>) rows)) p =
   (if p = q \<and> list_ex (\<lambda>f. f_alloc_id f = i \<and> f_path f = q) rows then Some d
    else map_of (file_manifest f_pending i rows) p)"
  by (induction rows) (auto simp: update_where_def simp del: file_manifest_Cons)

lemma lookup_no_row:
  "\<not> list_ex (\<lambda>f. f_alloc_id f = i \<and> f_path f = q) rows \<Longrightarrow> map_of (file_manifest col i rows) q = None"
  by (induction rows) (auto simp del: file_manifest_Cons)

lemma lookup_upsert:
  "map_of (file_manifest f_pending i (upsert_file i rows (q, d))) p =
     (if p = q then Some d else map_of (file_manifest f_pending i rows) p)"
proof (cases "list_ex (\<lambda>f. f_alloc_id f = i \<and> f_path f = q) rows")
  case True
  then show ?thesis by (auto simp: upsert_file_def lookup_upsert_update)
next
  case False
  then show ?thesis
    using lookup_no_row [OF False, of f_pending]
    by (auto simp: upsert_file_def map_add_def split: option.splits)
qed

lemma lookup_foldl_upsert:
  "distinct (map fst pending) \<Longrightarrow>
     map_of (file_manifest f_pending i (foldl (upsert_file i) rows pending)) p =
       (case map_of pending p of Some d \<Rightarrow> Some d | None \<Rightarrow> map_of (file_manifest f_pending i rows) p)"
proof (induction pending arbitrary: rows)
  case Nil
  then show ?case by simp
next
  case (Cons qd pending)
  obtain q d where qd: "qd = (q, d)" by (cases qd)
  have "map_of pending q = None" using Cons.prems qd by (simp add: map_of_eq_None_iff)
  with Cons qd show ?case by (auto simp: lookup_upsert split: option.splits)
qed

lemma lookup_drop_unlisted:
  "map_of (file_manifest f_pending i (drop_unlisted i pending rows)) p =
     (if p \<in> fst ` set pending then map_of (file_manifest f_pending i rows) p else None)"
  by (induction rows)
     (auto simp: drop_unlisted_def update_where_def delete_where_def simp del: file_manifest_Cons)

section \<open>Properties\<close>


text \<open>
  Staging a plan and reading it back: unless the stored pending hash already equals the new
  one, the pending manifest read after \<open>UpdateAllocationPlan\<close> is the staged manifest, the pending
  hash is the new one, and the applied hash and the running version stay as they were (a new
  allocation starts without an applied hash and with the default version).
\<close>

theorem UpdateAllocationPlan_roundtrip:
  assumes "distinct (map fst files)"
    and "case hash_of c i of None \<Rightarrow> True | Some h \<Rightarrow> ifnull (pending_hash h) '''' \<noteq> hash"
  shows "map_of (Pending (GetAllocationFileManifests (UpdateAllocationPlan i hash files c) i)) = map_of files \<and>
    (\<exists>h. hash_of (UpdateAllocationPlan i hash files c) i = Some h \<and> pending_hash h = Some hash \<and>
      applied_hash h = (case hash_of c i of None \<Rightarrow> None | Some h0 \<Rightarrow> applied_hash h0) \<and>
      applied_version h = (case hash_of c i of None \<Rightarrow> Some DefaultAllocationVersion
                           | Some h0 \<Rightarrow> applied_version h0))"
proof -
  have files: "allocation_file_hashes (UpdateAllocationPlan i hash files c) =
      drop_unlisted i files (foldl (upsert_file i) (allocation_file_hashes c) files)"
    using assms(2) by (auto simp: UpdateAllocationPlan_def upsertAllocationPendingFiles_def split: option.splits)
  have "map_of (file_manifest f_pending i (allocation_file_hashes (UpdateAllocationPlan i hash files c))) p =
      map_of files p" for p
  proof (cases "map_of files p")
    case None
    then have "p \<notin> fst ` set files" by (simp add: map_of_eq_None_iff)
    with None show ?thesis unfolding files lookup_drop_unlisted lookup_foldl_upsert [OF assms(1)] by simp
  next
    case (Some d)
    then have "p \<in> fst ` set files" using map_of_SomeD [OF Some] by force
    with Some show ?thesis unfolding files lookup_drop_unlisted lookup_foldl_upsert [OF assms(1)] by simp
  qed
  then have m: "map_of (Pending (GetAllocationFileManifests (UpdateAllocationPlan i hash files c) i)) = map_of files"
    by (simp add: GetAllocationFileManifests_def ext)
  show ?thesis
  proof (cases "hash_of c i")
    case None
    then have "find (\<lambda>h. h_alloc_id h = i) (allocation_hashes c) = None" by (simp add: hash_of_def)
    moreover have "find P xs = None \<Longrightarrow> find P (xs @ [r]) = (if P r then Some r else None)" for P r and xs :: "hash_row list"
      by (induction xs) (auto split: if_splits)
    ultimately have "find (\<lambda>h. h_alloc_id h = i) (allocation_hashes c @ [r]) = (if h_alloc_id r = i then Some r else None)" for r
      by blast
    with None m show ?thesis
      by (simp add: UpdateAllocationPlan_def) (simp add: hash_of_def)
  next
    case (Some h)
    with assms(2) m show ?thesis by (simp add: UpdateAllocationPlan_def hash_of_update)
  qed
qed

definition empty_catalog :: catalog where
  "empty_catalog = \<lparr>allocations = [], allocation_hashes = [], allocation_file_hashes = [], jobs = [],
     workers = [], worker_labels = [], hooks = [], build_hashes = []\<rparr>"

theorem UpdateAllocationPlan_roundtrip_witness:
  "map_of (Pending (GetAllocationFileManifests
      (UpdateAllocationPlan ''a1'' ''h1'' [(''x'', ''1''), (''y'', ''2'')] empty_catalog) ''a1'')) =
    map_of [(''x'', ''1''), (''y'', ''2'')]"
proof -
  have "distinct (map fst [(''x'', ''1''), (''y'', ''2'')])" by simp
  moreover have "case hash_of empty_catalog ''a1'' of None \<Rightarrow> True | Some h \<Rightarrow> ifnull (pending_hash h) '''' \<noteq> ''h1''"
    by (simp add: hash_of_def empty_catalog_def)
  ultimately show ?thesis using UpdateAllocationPlan_roundtrip by blast
qed

inductive catalog_step :: "catalog \<Rightarrow> catalog \<Rightarrow> bool" where
  step_plan: "catalog_step c (UpdateAllocationPlan i hash files c)"
| step_promote: "catalog_step c (PromoteAllocationState i c)"
| step_health_failed: "catalog_step c (MarkAllocationHealthFailed i c)"
| step_start_pending: "catalog_step c (MarkAllocationStartPending i c)"
| step_clear_live: "catalog_step c (ClearAllocationLiveState i c)"
| step_remove: "catalog_step c (RemoveAllocationHash i c)"
| step_version: "catalog_step c (SetAllocationVersion i v c)"
| step_orders: "catalog_step c (AssignDeploymentOrders c)"

lemma set_orders_names: "map j_name (set_orders n names rows) = map j_name rows"
  by (induction n names rows rule: set_orders.induct) simp_all

lemma wf_orders: "catalog_wf c \<Longrightarrow> catalog_wf (AssignDeploymentOrders c)"
  by (simp add: catalog_wf_def AssignDeploymentOrders_def set_orders_names)

lemma wf_version: "catalog_wf c \<Longrightarrow> catalog_wf (SetAllocationVersion i v c)"
  by (simp add: catalog_wf_def SetAllocationVersion_def)

interpretation catalog_machine: invariant_system "\<lambda>c. c = empty_catalog" catalog_step catalog_wf
proof
  show "catalog_wf s" if "s = empty_catalog" for s
    using that by (simp add: catalog_wf_def empty_catalog_def)
  show "catalog_wf t" if "catalog_wf s" "catalog_step s t" for s t
    using that(2,1) by (cases rule: catalog_step.cases) (auto intro: wf_orders wf_version)
qed




end
