(* ===== verification/Sequence.thy ===== *)
theory Sequence
  imports Catalog "HOL-Library.AList"
begin

text \<open>
  The deployment order of jobs: hook demands and their validation (\<^verbatim>\<open>build/validate_demands.go\<close>,
  \<^verbatim>\<open>workspace/demands.go\<close>), the cycle check and the dependency levels
  (\<^verbatim>\<open>build/build_deployment_sequence.go\<close>) and the ranks derived from them
  (\<^verbatim>\<open>build/build_deployment_order.go\<close>).
\<close>

section \<open>The dependency graph\<close>

type_synonym dependency_map = "(string \<times> string list) list"

definition dep_of :: "dependency_map \<Rightarrow> string \<Rightarrow> string list" where
  "dep_of deps x = (case map_of deps x of Some ds \<Rightarrow> ds | None \<Rightarrow> [])"

definition add_dependency :: "dependency_map \<Rightarrow> string \<times> string \<Rightarrow> dependency_map" where
  "add_dependency deps e =
     (let deps1 = AList.update (fst e) (dep_of deps (fst e) @ [snd e]) deps
      in if map_of deps1 (snd e) = None then AList.update (snd e) [] deps1 else deps1)"

definition loadHookDependencies :: "catalog \<Rightarrow> dependency_map" where
  "loadHookDependencies c =
     foldl add_dependency []
       (remdups (map (\<lambda>k. (k_job k, k_demand_job k)) (filter (\<lambda>k. k_demand_job k \<noteq> '''') (hooks c))))"

section \<open>The cycle check\<close>

datatype visit_state = unseen | visiting | complete

text \<open>
  \<open>visitJob\<close> over a list of jobs. The recursion of the source ends because every nested call marks
  a new job; the model carries a bound on the nesting depth, and \<open>None\<close> means that the bound was
  too small (it never is with one more than the number of jobs, below). The error carries the
  reported cycle.
\<close>

fun visitJobs ::
  "nat \<Rightarrow> dependency_map \<Rightarrow> (string \<Rightarrow> visit_state) \<Rightarrow> string list \<Rightarrow> string list
     \<Rightarrow> (string list + (string \<Rightarrow> visit_state)) option" where
  "visitJobs n deps s [] path = Some (Inr s)"
| "visitJobs 0 deps s (d # ds) path = None"
| "visitJobs (Suc n) deps s (d # ds) path =
     (case s d of
        complete \<Rightarrow> visitJobs (Suc n) deps s ds path
      | visiting \<Rightarrow> Some (Inl (if d \<in> set path then dropWhile (\<lambda>x. x \<noteq> d) path @ [d] else [d]))
      | unseen \<Rightarrow>
          (case visitJobs n deps (s(d := visiting)) (dep_of deps d) (path @ [d]) of
             None \<Rightarrow> None
           | Some (Inl cycle) \<Rightarrow> Some (Inl cycle)
           | Some (Inr s') \<Rightarrow> visitJobs (Suc n) deps (s'(d := complete)) ds path))"

fun detect_loop ::
  "nat \<Rightarrow> dependency_map \<Rightarrow> (string \<Rightarrow> visit_state) \<Rightarrow> string list \<Rightarrow> (string list + unit) option" where
  "detect_loop n deps s [] = Some (Inr ())"
| "detect_loop n deps s (j # js) =
     (if s j = unseen then
        (case visitJobs n deps s [j] [] of
           None \<Rightarrow> None
         | Some (Inl cycle) \<Rightarrow> Some (Inl cycle)
         | Some (Inr s') \<Rightarrow> detect_loop n deps s' js)
      else detect_loop n deps s js)"

definition detectCircularHookDependencies :: "dependency_map \<Rightarrow> (string list + unit) option" where
  "detectCircularHookDependencies deps =
     detect_loop (Suc (length deps)) deps (\<lambda>_. unseen) (map fst deps)"

section \<open>Dependency levels\<close>

text \<open>
  The recursive query \<open>hook_seq\<close>: the jobs at level 0, then for every row and every hook that
  demands its job a row one level higher. On a cyclic graph the query would not end, so the model
  is a partial function.
\<close>

definition next_level :: "hook_row list \<Rightarrow> (string \<times> nat) list \<Rightarrow> (string \<times> nat) list" where
  "next_level hs rows =
     concat (map (\<lambda>(j, n). map (\<lambda>k. (k_job k, Suc n)) (filter (\<lambda>k. k_demand_job k = j) hs)) rows)"

partial_function (option) hook_seq :: "hook_row list \<Rightarrow> (string \<times> nat) list \<Rightarrow> (string \<times> nat) list option" where
  "hook_seq hs rows =
     (if rows = [] then Some []
      else Option.bind (hook_seq hs (next_level hs rows)) (\<lambda>rest. Some (rows @ rest)))"

definition max_level :: "(string \<times> nat) list \<Rightarrow> string \<Rightarrow> nat" where
  "max_level rows job = fold max (map snd (filter (\<lambda>r. fst r = job) rows)) 0"

definition BuildDeploymentSequence :: "catalog \<Rightarrow> catalog result option" where
  "BuildDeploymentSequence c =
     (case detectCircularHookDependencies (loadHookDependencies c) of
        None \<Rightarrow> None
      | Some (Inl cycle) \<Rightarrow> Some (Inl ErrCircularHookDependency)
      | Some (Inr _) \<Rightarrow>
          Option.bind (hook_seq (hooks c) (map (\<lambda>j. (j_name j, 0)) (jobs c))) (\<lambda>rows.
            Some (Inr (c\<lparr>jobs := map (\<lambda>j. if j_name j \<in> fst ` set rows
                                      then j\<lparr>deployment_seq := int (max_level rows (j_name j))\<rparr> else j) (jobs c)\<rparr>))))"

definition BuildDeploymentOrder :: "catalog \<Rightarrow> catalog" where
  "BuildDeploymentOrder c = AssignDeploymentOrders c"

section \<open>Hook demands\<close>

record hook_spec =
  hook_Name :: string
  demand_Job :: string
  demand_Hook :: string
  demand_Config :: "string \<rightharpoonup> config_value"

record manifest =
  m_version :: string
  m_priority :: int
  m_hooks :: "hook_spec list"

definition ValidateHookDemand :: "string \<Rightarrow> hook_spec \<Rightarrow> unit result" where
  "ValidateHookDemand jobName h =
     (let demandJob = TrimSpace (demand_Job h); demandHook = TrimSpace (demand_Hook h)
      in if demandJob = '''' \<and> demandHook = '''' then Inr ()
         else if demandJob = '''' then Inl ErrInvalidHookDemand
         else if demandJob = jobName then Inl ErrInvalidHookConfiguration
         else Inr ())"

definition RequiresExplicitVersion :: "manifest \<Rightarrow> bool" where
  "RequiresExplicitVersion m = list_ex (\<lambda>h. TrimSpace (demand_Job h) \<noteq> '''') (m_hooks m)"

definition isDemandTarget :: "(string \<times> manifest) list \<Rightarrow> string \<Rightarrow> bool" where
  "isDemandTarget ms jobName =
     list_ex (\<lambda>(j, m). list_ex (\<lambda>h. TrimSpace (demand_Job h) = jobName) (m_hooks m)) ms"

definition resolveJobVersion :: "(string \<times> manifest) list \<Rightarrow> string \<Rightarrow> manifest \<Rightarrow> version result" where
  "resolveJobVersion ms jobName m =
     (let raw = TrimSpace (m_version m);
          needsExplicit = (RequiresExplicitVersion m \<or> isDemandTarget ms jobName)
      in if raw = '''' then (if needsExplicit then Inl ErrInvalidJobVersion else Inr zero_version)
         else ParseVersion raw)"

text \<open>
  \<open>loadJobCatalog\<close> reads the manifest of every job (argument \<open>ms\<close>, in job-name order, job names
  distinct) and resolves every version before any demand is checked.
\<close>

definition load_versions :: "(string \<times> manifest) list \<Rightarrow> (string \<times> version) list result" where
  "load_versions ms = rmap (\<lambda>(j, m). rbind (resolveJobVersion ms j m) (\<lambda>v. Inr (j, v))) ms"

definition check_demand ::
  "(string \<times> manifest) list \<Rightarrow> (string \<times> version) list \<Rightarrow> string \<Rightarrow> manifest \<Rightarrow> hook_spec \<Rightarrow> unit result" where
  "check_demand ms versions jobName m h =
     rbind (ValidateHookDemand jobName h) (\<lambda>_.
       let demandJob = TrimSpace (demand_Job h); demandHook = TrimSpace (demand_Hook h)
       in if demandJob = '''' then Inr ()
          else case map_of ms demandJob of
            None \<Rightarrow> Inl ErrInvalidHookDemand
          | Some dm \<Rightarrow>
              if m_priority m > m_priority dm then Inl ErrInvalidHookDemand
              else if demandHook \<noteq> '''' \<and> demandHook \<notin> hook_Name ` set (m_hooks dm) then Inl ErrInvalidHookDemand
              else rbind (ParseVersionConstraint (demand_Config h)) (\<lambda>constraint.
                if ConstraintMin constraint = None \<and> ConstraintMax constraint = None then Inr ()
                else if TrimSpace (m_version dm) = '''' then Inl ErrInvalidJobVersion
                else case map_of versions demandJob of
                  None \<Rightarrow> constraint_Satisfies constraint zero_version
                | Some v \<Rightarrow> constraint_Satisfies constraint v))"

definition ValidateHookDemands :: "(string \<times> manifest) list \<Rightarrow> unit result" where
  "ValidateHookDemands ms =
     rbind (load_versions ms) (\<lambda>versions.
     rbind (rmap (\<lambda>(j, m). rmap (check_demand ms versions j m) (m_hooks m)) ms) (\<lambda>_. Inr ()))"

section \<open>The cycle check is correct\<close>

text \<open>A set of jobs built by adding, one at a time, a job all of whose dependencies are already in it.\<close>

inductive settled_set :: "dependency_map \<Rightarrow> string set \<Rightarrow> bool" for deps where
  settled_empty: "settled_set deps {}"
| settled_insert: "settled_set deps C \<Longrightarrow> x \<notin> C \<Longrightarrow> set (dep_of deps x) \<subseteq> C \<Longrightarrow> settled_set deps (insert x C)"

abbreviation completed :: "(string \<Rightarrow> visit_state) \<Rightarrow> string set" where
  "completed s \<equiv> {x. s x = complete}"

abbreviation in_progress :: "(string \<Rightarrow> visit_state) \<Rightarrow> string set" where
  "in_progress s \<equiv> {x. s x = visiting}"

lemma visitJobs_ok:
  assumes "visitJobs n deps s ds path = Some (Inr s')" "settled_set deps (completed s)"
  shows "settled_set deps (completed s') \<and> completed s \<subseteq> completed s' \<and> set ds \<subseteq> completed s' \<and>
    in_progress s' = in_progress s"
  using assms
proof (induction n deps s ds path arbitrary: s' rule: visitJobs.induct)
  case (1 n deps s path)
  then show ?case by simp
next
  case (2 deps s d ds path)
  then show ?case by simp
next
  case (3 n deps s d ds path)
  show ?case
  proof (cases "s d")
    case complete
    with 3 show ?thesis by auto
  next
    case visiting
    with 3 show ?thesis by simp
  next
    case unseen
    then obtain s2 where v: "visitJobs n deps (s(d := visiting)) (dep_of deps d) (path @ [d]) = Some (Inr s2)"
      and r: "visitJobs (Suc n) deps (s2(d := complete)) ds path = Some (Inr s')"
      using "3.prems"(1) by (auto split: option.splits sum.splits)
    have c: "completed (s(d := visiting)) = completed s" using unseen by auto
    have "settled_set deps (completed (s(d := visiting)))" unfolding c by (rule "3.prems"(2))
    note ih = "3.IH"(1) [OF unseen v this]
    from ih have s2: "settled_set deps (completed s2)" "completed s \<subseteq> completed s2"
      "set (dep_of deps d) \<subseteq> completed s2" "in_progress s2 = in_progress (s(d := visiting))"
      unfolding c by blast+
    then have d: "d \<notin> completed s2" by (metis (mono_tags) fun_upd_same mem_Collect_eq visit_state.distinct(5))
    have c3: "completed (s2(d := complete)) = insert d (completed s2)" by auto
    have "settled_set deps (insert d (completed s2))" using s2(1,3) d by (intro settled_insert)
    then have "settled_set deps (completed (s2(d := complete)))" unfolding c3 .
    from "3.IH"(2) [OF unseen v refl r this]
    have fin: "settled_set deps (completed s')" "insert d (completed s2) \<subseteq> completed s'"
      "set ds \<subseteq> completed s'" "in_progress s' = in_progress (s2(d := complete))"
      unfolding c3 by blast+
    have "in_progress (s2(d := complete)) = in_progress s"
      using s2(4) unseen by (auto simp: set_eq_iff split: if_splits)
    with fin s2(2) show ?thesis by auto
  qed
qed

fun chain :: "dependency_map \<Rightarrow> string list \<Rightarrow> bool" where
  "chain deps (x # y # xs) = (y \<in> set (dep_of deps x) \<and> chain deps (y # xs))"
| "chain deps _ = True"

lemma chain_append:
  "xs \<noteq> [] \<Longrightarrow> chain deps (xs @ [y]) \<longleftrightarrow> chain deps xs \<and> y \<in> set (dep_of deps (last xs))"
  by (induction deps xs rule: chain.induct) auto

lemma chain_dropWhile: "chain deps xs \<Longrightarrow> chain deps (dropWhile P xs)"
  by (induction deps xs rule: chain.induct) auto

definition is_cycle :: "dependency_map \<Rightarrow> string list \<Rightarrow> bool" where
  "is_cycle deps cyc = (2 \<le> length cyc \<and> hd cyc = last cyc \<and> chain deps cyc)"

lemma visitJobs_cycle:
  assumes "visitJobs n deps s ds path = Some (Inl cyc)" "settled_set deps (completed s)"
    and "in_progress s = set path" "chain deps path" "path \<noteq> [] \<Longrightarrow> set ds \<subseteq> set (dep_of deps (last path))"
  shows "is_cycle deps cyc"
  using assms
proof (induction n deps s ds path arbitrary: cyc rule: visitJobs.induct)
  case (1 n deps s path)
  then show ?case by simp
next
  case (2 deps s d ds path)
  then show ?case by simp
next
  case (3 n deps s d ds path)
  show ?case
  proof (cases "s d")
    case complete
    with 3 show ?thesis by auto
  next
    case visiting
    with "3.prems"(3) have d: "d \<in> set path" by auto
    let ?t = "dropWhile (\<lambda>x. x \<noteq> d) path"
    have ne: "?t \<noteq> []" using d by (simp add: dropWhile_eq_Nil_conv)
    then have "hd ?t = d" using hd_dropWhile [of "\<lambda>x. x \<noteq> d" path] by simp
    moreover have "last ?t = last path" using ne by (metis last_appendR takeWhile_dropWhile_id)
    moreover have "d \<in> set (dep_of deps (last path))" using "3.prems"(5) d by force
    moreover have "cyc = ?t @ [d]" using "3.prems"(1) visiting d by simp
    moreover have "chain deps ?t" using "3.prems"(4) by (rule chain_dropWhile)
    ultimately show ?thesis using ne by (cases ?t) (auto simp: is_cycle_def chain_append simp flip: append_Cons)
  next
    case unseen
    have c: "completed (s(d := visiting)) = completed s" using unseen by auto
    have p: "in_progress (s(d := visiting)) = set (path @ [d])" using "3.prems"(3) by auto
    have ch: "chain deps (path @ [d])"
      using "3.prems"(4,5) by (cases "path = []") (simp_all add: chain_append)
    show ?thesis
    proof (cases "visitJobs n deps (s(d := visiting)) (dep_of deps d) (path @ [d])")
      case None
      with "3.prems"(1) unseen show ?thesis by simp
    next
      case (Some r)
      show ?thesis
      proof (cases r)
        case (Inl cyc')
        with Some have v: "visitJobs n deps (s(d := visiting)) (dep_of deps d) (path @ [d]) = Some (Inl cyc')"
          by simp
        with "3.prems"(1) unseen have "cyc = cyc'" by simp
        moreover have "settled_set deps (completed (s(d := visiting)))" unfolding c by (rule "3.prems"(2))
        ultimately show ?thesis using "3.IH"(1) [OF unseen v _ p ch] by simp
      next
        case (Inr s2)
        with Some have v: "visitJobs n deps (s(d := visiting)) (dep_of deps d) (path @ [d]) = Some (Inr s2)"
          by simp
        have "settled_set deps (completed (s(d := visiting)))" unfolding c by (rule "3.prems"(2))
        from visitJobs_ok [OF v this] p
        have s2: "settled_set deps (completed s2)" "set (dep_of deps d) \<subseteq> completed s2"
          "in_progress s2 = set (path @ [d])" by auto
        have d: "d \<notin> completed s2" "d \<notin> set path"
        proof -
          have "d \<in> in_progress s2" "d \<notin> in_progress s" using s2(3) unseen by simp_all
          then show "d \<notin> completed s2" "d \<notin> set path" using "3.prems"(3) by simp_all
        qed
        have "completed (s2(d := complete)) = insert d (completed s2)" by auto
        then have a: "settled_set deps (completed (s2(d := complete)))"
          using settled_insert [OF s2(1) d(1) s2(2)] by simp
        have b: "in_progress (s2(d := complete)) = set path"
          using s2(3) d(2) by (auto simp: set_eq_iff split: if_splits)
        have r: "visitJobs (Suc n) deps (s2(d := complete)) ds path = Some (Inl cyc)"
          using "3.prems"(1) unseen v by simp
        show ?thesis
          by (rule "3.IH"(2) [OF unseen v refl r a b "3.prems"(4)]) (use "3.prems"(5) in auto)
      qed
    qed
  qed
qed

subsection \<open>The bound on the nesting is enough\<close>

lemma visitJobs_unseen:
  "visitJobs n deps s ds path = Some (Inr s') \<Longrightarrow> s' x = unseen \<Longrightarrow> s x = unseen"
proof (induction n deps s ds path arbitrary: s' rule: visitJobs.induct)
  case (3 n deps s d ds path)
  show ?case
  proof (cases "s d")
    case unseen
    then obtain s2 where v: "visitJobs n deps (s(d := visiting)) (dep_of deps d) (path @ [d]) = Some (Inr s2)"
      and r: "visitJobs (Suc n) deps (s2(d := complete)) ds path = Some (Inr s')"
      using "3.prems"(1) by (auto split: option.splits sum.splits)
    from "3.IH"(2) [OF unseen v refl r "3.prems"(2)] have "s2 x = unseen" by (auto split: if_splits)
    from "3.IH"(1) [OF unseen v this] show ?thesis by (auto split: if_splits)
  qed (use 3 in auto)
qed auto

lemma visitJobs_enough:
  assumes "finite U" "set ds \<subseteq> U" "\<And>x. x \<in> U \<Longrightarrow> set (dep_of deps x) \<subseteq> U"
    and "card {x \<in> U. s x = unseen} < n"
  shows "visitJobs n deps s ds path \<noteq> None"
  using assms
proof (induction n deps s ds path rule: visitJobs.induct)
  case (3 n deps s d ds path)
  show ?case
  proof (cases "s d")
    case unseen
    let ?s1 = "s(d := visiting)"
    have dU: "d \<in> U" using "3.prems"(2) by simp
    have "{x \<in> U. ?s1 x = unseen} = {x \<in> U. s x = unseen} - {d}" using unseen by auto
    moreover have "d \<in> {x \<in> U. s x = unseen}" using dU unseen by simp
    moreover have "finite {x \<in> U. s x = unseen}" using "3.prems"(1) by simp
    ultimately have "card {x \<in> U. ?s1 x = unseen} < card {x \<in> U. s x = unseen}"
      by (metis card_Diff1_less)
    then have "card {x \<in> U. ?s1 x = unseen} < n" using "3.prems"(4) by simp
    then have v: "visitJobs n deps ?s1 (dep_of deps d) (path @ [d]) \<noteq> None"
      using "3.IH"(1) [OF unseen] "3.prems"(1,3) dU by blast
    show ?thesis
    proof (cases "visitJobs n deps ?s1 (dep_of deps d) (path @ [d])")
      case None
      with v show ?thesis by simp
    next
      case (Some r)
      show ?thesis
      proof (cases r)
        case (Inl cyc)
        with Some unseen show ?thesis by simp
      next
        case (Inr s2)
        with Some have v2: "visitJobs n deps ?s1 (dep_of deps d) (path @ [d]) = Some (Inr s2)" by simp
        have "{x \<in> U. (s2(d := complete)) x = unseen} \<subseteq> {x \<in> U. s x = unseen}"
        proof (intro subsetI CollectI conjI)
          fix x
          assume x: "x \<in> {x \<in> U. (s2(d := complete)) x = unseen}"
          then have "x \<noteq> d" "s2 x = unseen" by (auto split: if_splits)
          with visitJobs_unseen [OF v2 this(2)] show "s x = unseen" by simp
          from x show "x \<in> U" by simp
        qed
        moreover have "finite {x \<in> U. s x = unseen}" using "3.prems"(1) by simp
        ultimately have "card {x \<in> U. (s2(d := complete)) x = unseen} \<le> card {x \<in> U. s x = unseen}"
          by (rule card_mono [rotated])
        then have "card {x \<in> U. (s2(d := complete)) x = unseen} < Suc n" using "3.prems"(4) by simp
        moreover have "set ds \<subseteq> U" using "3.prems"(2) by simp
        ultimately have "visitJobs (Suc n) deps (s2(d := complete)) ds path \<noteq> None"
          by (intro "3.IH"(2) [OF unseen v2 refl "3.prems"(1)] "3.prems"(3))
        with unseen v2 show ?thesis by simp
      qed
    qed
  qed (use 3 in auto)
qed auto

lemma detect_loop_ok:
  assumes "detect_loop n deps s js = Some (Inr ())" "settled_set deps (completed s)" "in_progress s = {}"
  shows "\<exists>C. settled_set deps C \<and> set js \<subseteq> C \<and> completed s \<subseteq> C"
  using assms
proof (induction n deps s js rule: detect_loop.induct)
  case (1 n deps s)
  then show ?case by auto
next
  case (2 n deps s j js)
  show ?case
  proof (cases "s j = unseen")
    case True
    with "2.prems"(1) obtain s2 where v: "visitJobs n deps s [j] [] = Some (Inr s2)"
      and r: "detect_loop n deps s2 js = Some (Inr ())"
      by (auto split: option.splits sum.splits)
    note ok = visitJobs_ok [OF v "2.prems"(2)]
    then have "in_progress s2 = {}" using "2.prems"(3) by blast
    with "2.IH"(1) [OF True v refl r] ok obtain C where
      "settled_set deps C" "set js \<subseteq> C" "completed s2 \<subseteq> C" by blast
    with ok show ?thesis by (intro exI [of _ C]) auto
  next
    case False
    with "2.prems"(3) have "s j = complete" by (cases "s j") auto
    with False 2 show ?thesis by fastforce
  qed
qed

lemma detect_loop_cycle:
  assumes "detect_loop n deps s js = Some (Inl cyc)" "settled_set deps (completed s)" "in_progress s = {}"
  shows "is_cycle deps cyc"
  using assms
proof (induction n deps s js rule: detect_loop.induct)
  case (1 n deps s)
  then show ?case by simp
next
  case (2 n deps s j js)
  show ?case
  proof (cases "s j = unseen")
    case True
    then consider "visitJobs n deps s [j] [] = Some (Inl cyc)"
      | s2 where "visitJobs n deps s [j] [] = Some (Inr s2)" "detect_loop n deps s2 js = Some (Inl cyc)"
      using "2.prems"(1) by (auto split: option.splits sum.splits)
    then show ?thesis
    proof cases
      case 1
      then show ?thesis using visitJobs_cycle [OF 1 "2.prems"(2)] "2.prems"(3) by simp
    next
      case (2 s2)
      note ok = visitJobs_ok [OF 2(1) "2.prems"(2)]
      then have "in_progress s2 = {}" using "2.prems"(3) by blast
      with "2.IH"(1) [OF True 2(1) refl 2(2)] ok show ?thesis by blast
    qed
  next
    case False
    with 2 show ?thesis by simp
  qed
qed

lemma detect_loop_enough:
  assumes "finite U" "set js \<subseteq> U" "\<And>x. x \<in> U \<Longrightarrow> set (dep_of deps x) \<subseteq> U" "card U < n"
  shows "detect_loop n deps s js \<noteq> None"
  using assms
proof (induction n deps s js rule: detect_loop.induct)
  case (1 n deps s)
  then show ?case by simp
next
  case (2 n deps s j js)
  have "card {x \<in> U. s x = unseen} < n"
    using "2.prems"(4) card_mono [OF "2.prems"(1), of "{x \<in> U. s x = unseen}"] by fastforce
  then have "visitJobs n deps s [j] [] \<noteq> None"
    using visitJobs_enough [of U "[j]" deps s n "[]"] "2.prems"(1,2,3) by simp
  with 2 show ?case by (auto split: option.splits sum.splits)
qed

lemma settled_rank:
  "settled_set deps C \<Longrightarrow>
     finite C \<and> (\<exists>r. \<forall>x \<in> C. r x < card C \<and> (\<forall>y \<in> set (dep_of deps x). y \<in> C \<and> r y < (r x :: nat)))"
proof (induction rule: settled_set.induct)
  case settled_empty
  then show ?case by simp
next
  case (settled_insert C x)
  then obtain r where fin: "finite C"
    and r: "\<forall>x \<in> C. r x < card C \<and> (\<forall>y \<in> set (dep_of deps x). y \<in> C \<and> r y < (r x :: nat))" by blast
  have "\<forall>z \<in> insert x C. (r(x := card C)) z < card (insert x C) \<and>
      (\<forall>y \<in> set (dep_of deps z). y \<in> insert x C \<and> (r(x := card C)) y < (r(x := card C)) z)"
    using settled_insert.hyps(2,3) r fin by (auto simp: less_Suc_eq)
  with fin show ?case by (metis finite_insert)
qed

text \<open>Without a cycle no chain of dependencies returns to its start.\<close>

lemma settled_no_cycle:
  assumes "settled_set deps C" "is_cycle deps cyc" "hd cyc \<in> C"
  shows False
proof -
  obtain r where r: "\<forall>x \<in> C. (\<forall>y \<in> set (dep_of deps x). y \<in> C \<and> r y < (r x :: nat))"
    using settled_rank [OF assms(1)] by blast
  have "chain deps xs \<Longrightarrow> hd xs \<in> C \<Longrightarrow> 2 \<le> length xs \<Longrightarrow> r (last xs) < r (hd xs)" for xs
  proof (induction xs)
    case Nil
    then show ?case by simp
  next
    case (Cons x xs)
    then obtain y ys where xs: "xs = y # ys" by (cases xs) auto
    with Cons.prems r have y: "y \<in> C" "r y < r x" by auto
    show ?case
    proof (cases ys)
      case Nil
      with xs y show ?thesis by simp
    next
      case (Cons z zs)
      with xs Cons.prems Cons.IH y show ?thesis by simp
    qed
  qed
  with assms show False unfolding is_cycle_def by (metis less_irrefl)
qed

section \<open>Levels\<close>

lemma max_level_ge: "(j, n) \<in> set rows \<Longrightarrow> n \<le> max_level rows j"
proof -
  have ge: "m \<le> fold max ns m" for m and ns :: "nat list"
  proof (induction ns arbitrary: m)
    case (Cons a ns)
    have "m \<le> max a m" by simp
    also have "\<dots> \<le> fold max ns (max a m)" by (rule Cons)
    finally show ?case by simp
  qed simp
  have mem: "n \<in> set ns \<Longrightarrow> n \<le> fold max ns m" for m and ns :: "nat list"
  proof (induction ns arbitrary: m)
    case (Cons a ns)
    have "a \<le> fold max ns (max a m)" using ge [of "max a m" ns] by simp
    with Cons show ?case by auto
  qed simp
  show "(j, n) \<in> set rows \<Longrightarrow> n \<le> max_level rows j"
    unfolding max_level_def by (rule mem) force
qed

lemma max_level_attained: "max_level rows j = 0 \<or> (j, max_level rows j) \<in> set rows"
proof -
  have "fold max ns m = m \<or> fold max ns m \<in> set ns" for m and ns :: "nat list"
    by (induction ns arbitrary: m) (auto simp: max_def split: if_splits)
  from this [of "map snd (filter (\<lambda>r. fst r = j) rows)" 0] show ?thesis
    unfolding max_level_def by auto
qed

definition hook_edges :: "hook_row list \<Rightarrow> (string \<times> string) set" where
  "hook_edges hs = (\<lambda>k. (k_demand_job k, k_job k)) ` set hs"

definition level_closed :: "hook_row list \<Rightarrow> (string \<times> nat) list \<Rightarrow> (string \<times> nat) list \<Rightarrow> bool" where
  "level_closed hs rows res =
     (set rows \<subseteq> set res \<and>
      (\<forall>d j n. (d, n) \<in> set res \<longrightarrow> (d, j) \<in> hook_edges hs \<longrightarrow> (j, Suc n) \<in> set res) \<and>
      (\<forall>j n. (j, n) \<in> set res \<longrightarrow> (j, n) \<in> set rows \<or>
         (\<exists>m d. n = Suc m \<and> (d, j) \<in> hook_edges hs \<and> (d, m) \<in> set res)))"

lemma set_next_level:
  "(j, n) \<in> set (next_level hs rows) \<longleftrightarrow>
     (\<exists>m d. n = Suc m \<and> (d, j) \<in> hook_edges hs \<and> (d, m) \<in> set rows)"
proof -
  have n: "set (next_level hs rows) =
      (\<Union>(d, m) \<in> set rows. (\<lambda>k. (k_job k, Suc m)) ` {k \<in> set hs. k_demand_job k = d})"
    unfolding next_level_def by (simp add: case_prod_beta)
  have e: "(j, n) \<in> (\<lambda>k. (k_job k, Suc m)) ` {k \<in> set hs. k_demand_job k = d} \<longleftrightarrow>
      n = Suc m \<and> (d, j) \<in> hook_edges hs" for d m
    unfolding hook_edges_def by (auto simp: image_iff)
  have u: "x \<in> (\<Union>(d, m) \<in> R. A d m) \<longleftrightarrow> (\<exists>d m. (d, m) \<in> R \<and> x \<in> A d m)"
    for x :: "string \<times> nat" and R :: "(string \<times> nat) set" and A by auto
  show ?thesis unfolding n u e by blast
qed

lemma level_closed_step:
  assumes "level_closed hs (next_level hs rows) res"
  shows "level_closed hs rows (rows @ res)"
proof -
  have sub: "set (next_level hs rows) \<subseteq> set res" using assms by (simp add: level_closed_def)
  have "(j, Suc n) \<in> set res" if "(d, n) \<in> set rows" "(d, j) \<in> hook_edges hs" for d j n
    using sub that set_next_level by blast
  moreover have "\<exists>m d. n = Suc m \<and> (d, j) \<in> hook_edges hs \<and> (d, m) \<in> set (rows @ res)"
    if "(j, n) \<in> set res" for j n
  proof -
    from assms that consider "(j, n) \<in> set (next_level hs rows)"
      | "\<exists>m d. n = Suc m \<and> (d, j) \<in> hook_edges hs \<and> (d, m) \<in> set res"
      unfolding level_closed_def by blast
    then show ?thesis by cases (auto simp: set_next_level)
  qed
  ultimately show ?thesis using assms unfolding level_closed_def by (simp only: set_append) blast
qed

lemma hook_seq_returns:
  fixes r :: "string \<Rightarrow> nat"
  assumes "\<And>d j. (d, j) \<in> hook_edges hs \<Longrightarrow> d \<in> V \<Longrightarrow> r d < r j \<and> r j < N \<and> j \<in> V"
    and "\<And>j n. (j, n) \<in> set rows \<Longrightarrow> j \<in> V \<and> n = g \<and> n \<le> r j \<and> (0 < g \<longrightarrow> r j < N)"
  shows "\<exists>res. hook_seq hs rows = Some res \<and> level_closed hs rows res"
  using assms(2)
proof (induction "Suc N - g" arbitrary: g rows)
  case 0
  have "rows = []"
  proof (rule ccontr)
    assume "rows \<noteq> []"
    then obtain j n where "(j, n) \<in> set rows" by (cases rows) auto
    with "0.prems" [OF this] "0.hyps" show False by simp
  qed
  then show ?case by (subst hook_seq.simps) (simp add: level_closed_def)
next
  case (Suc m)
  show ?case
  proof (cases "rows = []")
    case True
    then show ?thesis by (subst hook_seq.simps) (simp add: level_closed_def)
  next
    case False
    have "j \<in> V \<and> n = Suc g \<and> n \<le> r j \<and> (0 < Suc g \<longrightarrow> r j < N)"
      if "(j, n) \<in> set (next_level hs rows)" for j n
    proof -
      from that obtain i d where "n = Suc i" "(d, j) \<in> hook_edges hs" "(d, i) \<in> set rows"
        unfolding set_next_level by blast
      with Suc.prems [of d i] assms(1) [of d j] show ?thesis by simp
    qed
    moreover have "m = Suc N - Suc g" using Suc.hyps(2) by simp
    ultimately obtain res where "hook_seq hs (next_level hs rows) = Some res"
      "level_closed hs (next_level hs rows) res" using Suc.hyps(1) [of "Suc g" "next_level hs rows"] by blast
    then show ?thesis using False
      by (subst hook_seq.simps) (auto simp: level_closed_step)
  qed
qed

section \<open>The loaded graph\<close>

definition deps_closed :: "dependency_map \<Rightarrow> bool" where
  "deps_closed deps = (\<forall>x. set (dep_of deps x) \<subseteq> fst ` set deps)"

lemma dep_of_key: "y \<in> set (dep_of deps x) \<Longrightarrow> x \<in> fst ` set deps"
proof (cases "map_of deps x")
  case None
  then show "y \<in> set (dep_of deps x) \<Longrightarrow> x \<in> fst ` set deps" by (simp add: dep_of_def)
next
  case (Some ds)
  then show "x \<in> fst ` set deps" using map_of_SomeD [OF Some] by force
qed

lemma dep_of_update: "dep_of (AList.update x ds deps) z = (if z = x then ds else dep_of deps z)"
  by (simp add: dep_of_def update_conv)

lemma dep_of_add: "dep_of (add_dependency deps (x, y)) z = (if z = x then dep_of deps x @ [y] else dep_of deps z)"
proof -
  let ?m = "AList.update x (dep_of deps x @ [y]) deps"
  have m: "dep_of ?m z = (if z = x then dep_of deps x @ [y] else dep_of deps z)" by (rule dep_of_update)
  show ?thesis
  proof (cases "map_of ?m y = None")
    case True
    then have "dep_of (AList.update y [] ?m) z = dep_of ?m z"
      by (simp only: dep_of_update [of y]) (simp add: dep_of_def)
    with True m show ?thesis by (simp only: add_dependency_def Let_def fst_conv snd_conv simp_thms if_True)
  next
    case False
    with m show ?thesis by (simp only: add_dependency_def Let_def fst_conv snd_conv if_False)
  qed
qed

lemma keys_add: "fst ` set (add_dependency deps (x, y)) = insert x (insert y (fst ` set deps))"
proof -
  have k: "fst ` set (AList.update k v m) = insert k (fst ` set m)" for k v and m :: dependency_map
    by (induction m) auto
  let ?m = "AList.update x (dep_of deps x @ [y]) deps"
  show ?thesis
  proof (cases "map_of ?m y = None")
    case True
    then have "add_dependency deps (x, y) = AList.update y [] ?m" by (simp add: add_dependency_def Let_def)
    then show ?thesis by (simp add: k insert_commute)
  next
    case False
    then have "y \<in> fst ` set ?m" by (simp add: map_of_eq_None_iff)
    moreover from False have "add_dependency deps (x, y) = ?m" by (auto simp: add_dependency_def Let_def)
    ultimately show ?thesis by (auto simp: k)
  qed
qed

lemma foldl_add_dependency:
  "set (dep_of (foldl add_dependency deps es) z) = set (dep_of deps z) \<union> {y. (z, y) \<in> set es}"
proof (induction es arbitrary: deps)
  case (Cons e es)
  then show ?case by (cases e) (auto simp: dep_of_add)
qed simp

lemma keys_foldl_add:
  "fst ` set (foldl add_dependency deps es) = fst ` set deps \<union> fst ` set es \<union> snd ` set es"
proof (induction es arbitrary: deps)
  case (Cons e es)
  obtain x y where e: "e = (x, y)" by (cases e)
  have "fst ` set (foldl add_dependency deps (e # es)) =
      fst ` set (add_dependency deps (x, y)) \<union> fst ` set es \<union> snd ` set es"
    by (simp only: foldl_Cons e Cons)
  then show ?case by (simp only: keys_add e) auto
qed simp

lemma dep_of_load:
  "y \<in> set (dep_of (loadHookDependencies c) x) \<longleftrightarrow> y \<noteq> '''' \<and> (y, x) \<in> hook_edges (hooks c)"
proof -
  have "set (dep_of (loadHookDependencies c) x) =
      {y. (x, y) \<in> (\<lambda>k. (k_job k, k_demand_job k)) ` {k \<in> set (hooks c). k_demand_job k \<noteq> ''''}}"
    unfolding loadHookDependencies_def foldl_add_dependency by (simp add: dep_of_def)
  then show ?thesis by (auto simp: hook_edges_def image_iff)
qed

lemma deps_closed_load: "deps_closed (loadHookDependencies c)"
  unfolding deps_closed_def
proof (intro allI subsetI)
  fix x y
  assume "y \<in> set (dep_of (loadHookDependencies c) x)"
  then have "y \<in> snd ` set (remdups (map (\<lambda>k. (k_job k, k_demand_job k))
      (filter (\<lambda>k. k_demand_job k \<noteq> '''') (hooks c))))"
    unfolding loadHookDependencies_def foldl_add_dependency by (auto simp: dep_of_def image_iff)
  then show "y \<in> fst ` set (loadHookDependencies c)"
    unfolding loadHookDependencies_def keys_foldl_add by blast
qed

lemma detect_total:
  assumes "deps_closed deps"
  shows "detectCircularHookDependencies deps \<noteq> None"
  unfolding detectCircularHookDependencies_def
proof (rule detect_loop_enough [where U = "fst ` set deps"])
  show "card (fst ` set deps) < Suc (length deps)"
    by (metis card_image_le card_length finite_set le_imp_less_Suc le_trans)
qed (use assms in \<open>auto simp: deps_closed_def\<close>)

lemma completed_init: "completed (\<lambda>_. unseen) = {}" "in_progress (\<lambda>_. unseen) = {}"
  by simp_all

lemma detect_ok_settled:
  assumes "detectCircularHookDependencies deps = Some (Inr ())"
  obtains C where "settled_set deps C" "fst ` set deps \<subseteq> C"
  using detect_loop_ok [OF assms [unfolded detectCircularHookDependencies_def]]
  by (auto simp: completed_init settled_empty)

lemma detect_cycle:
  "detectCircularHookDependencies deps = Some (Inl cyc) \<Longrightarrow> is_cycle deps cyc"
  unfolding detectCircularHookDependencies_def
  by (erule detect_loop_cycle) (simp_all add: settled_empty)

lemma cycle_start_key:
  assumes "is_cycle deps cyc"
  shows "hd cyc \<in> fst ` set deps"
proof -
  from assms obtain x y xs where "cyc = x # y # xs" unfolding is_cycle_def
    by (cases cyc; cases "tl cyc") auto
  with assms have "y \<in> set (dep_of deps (hd cyc))" by (auto simp: is_cycle_def)
  then show ?thesis by (rule dep_of_key)
qed

section \<open>Ranks\<close>

definition names_of :: "catalog \<Rightarrow> string set" where
  "names_of c = j_name ` set (jobs c)"

definition seq_of :: "catalog \<Rightarrow> string \<Rightarrow> int" where
  "seq_of c name = (case find (\<lambda>j. j_name j = name) (jobs c) of Some j \<Rightarrow> deployment_seq j | None \<Rightarrow> 0)"

definition order_of :: "catalog \<Rightarrow> string \<Rightarrow> int" where
  "order_of c name = (case find (\<lambda>j. j_name j = name) (jobs c) of Some j \<Rightarrow> deployment_order j | None \<Rightarrow> 0)"

text \<open>Hooks belong to jobs of the catalog and no job has the empty name.\<close>

definition hooks_wf :: "catalog \<Rightarrow> bool" where
  "hooks_wf c = (snd ` hook_edges (hooks c) \<subseteq> names_of c \<and> '''' \<notin> names_of c)"

lemma hook_seq_on_catalog:
  assumes "detectCircularHookDependencies (loadHookDependencies c) = Some (Inr ())" "hooks_wf c"
  shows "\<exists>res. hook_seq (hooks c) (map (\<lambda>j. (j_name j, 0)) (jobs c)) = Some res \<and>
    level_closed (hooks c) (map (\<lambda>j. (j_name j, 0)) (jobs c)) res"
proof -
  obtain C where C: "settled_set (loadHookDependencies c) C" "fst ` set (loadHookDependencies c) \<subseteq> C"
    using detect_ok_settled [OF assms(1)] .
  obtain r where r: "\<And>x. x \<in> C \<Longrightarrow> r x < card C"
    "\<And>x y. x \<in> C \<Longrightarrow> y \<in> set (dep_of (loadHookDependencies c) x) \<Longrightarrow> r y < (r x :: nat)"
    using settled_rank [OF C(1)] by blast
  show ?thesis
  proof (rule hook_seq_returns [where V = "names_of c" and r = r and N = "card C" and g = 0])
    fix d j
    assume e: "(d, j) \<in> hook_edges (hooks c)" and d: "d \<in> names_of c"
    then have "d \<noteq> ''''" using assms(2) by (auto simp: hooks_wf_def)
    with e have y: "d \<in> set (dep_of (loadHookDependencies c) j)" by (simp add: dep_of_load)
    then have "j \<in> C" using C(2) dep_of_key by blast
    with r y show "r d < r j \<and> r j < card C \<and> j \<in> names_of c"
      using e assms(2) by (force simp: hooks_wf_def)
  next
    fix j and n :: nat
    assume "(j, n) \<in> set (map (\<lambda>j. (j_name j, 0)) (jobs c))"
    then show "j \<in> names_of c \<and> n = 0 \<and> n \<le> r j \<and> (0 < (0::nat) \<longrightarrow> r j < card C)"
      by (auto simp: names_of_def)
  qed
qed

lemma BuildDeploymentSequence_result:
  assumes "BuildDeploymentSequence c = Some (Inr c')" "hooks_wf c"
  obtains res where "level_closed (hooks c) (map (\<lambda>j. (j_name j, 0)) (jobs c)) res"
    "c' = c\<lparr>jobs := map (\<lambda>j. j\<lparr>deployment_seq := int (max_level res (j_name j))\<rparr>) (jobs c)\<rparr>"
proof -
  from assms(1) have d: "detectCircularHookDependencies (loadHookDependencies c) = Some (Inr ())"
    by (auto simp: BuildDeploymentSequence_def split: option.splits sum.splits)
  from hook_seq_on_catalog [OF d assms(2)] obtain res where
    s: "hook_seq (hooks c) (map (\<lambda>j. (j_name j, 0)) (jobs c)) = Some res"
    and l: "level_closed (hooks c) (map (\<lambda>j. (j_name j, 0)) (jobs c)) res" by blast
  have n: "j_name j \<in> fst ` set res" if "j \<in> set (jobs c)" for j
  proof -
    have "(j_name j, 0) \<in> set res" using l that unfolding level_closed_def by auto
    then show ?thesis by force
  qed
  have e: "map (\<lambda>j. if j_name j \<in> fst ` set res then j\<lparr>deployment_seq := int (max_level res (j_name j))\<rparr> else j) (jobs c)
      = map (\<lambda>j. j\<lparr>deployment_seq := int (max_level res (j_name j))\<rparr>) (jobs c)"
    by (rule map_cong [OF refl]) (simp add: n)
  from assms(1) d s have "c' = c\<lparr>jobs := map (\<lambda>j. if j_name j \<in> fst ` set res
      then j\<lparr>deployment_seq := int (max_level res (j_name j))\<rparr> else j) (jobs c)\<rparr>"
    by (simp add: BuildDeploymentSequence_def)
  then have "c' = c\<lparr>jobs := map (\<lambda>j. j\<lparr>deployment_seq := int (max_level res (j_name j))\<rparr>) (jobs c)\<rparr>"
    unfolding e .
  with l that show thesis by blast
qed

lemma seq_of_built:
  "name \<in> names_of c \<Longrightarrow>
     seq_of (c\<lparr>jobs := map (\<lambda>j. j\<lparr>deployment_seq := int (f (j_name j))\<rparr>) (jobs c)\<rparr>) name = int (f name)"
proof -
  assume "name \<in> names_of c"
  then obtain j where j: "find (\<lambda>j. j_name j = name) (jobs c) = Some j"
    by (cases "find (\<lambda>j. j_name j = name) (jobs c)") (auto simp: find_key_None names_of_def)
  have "find (\<lambda>j. j_name j = name) (map (\<lambda>j. j\<lparr>deployment_seq := int (f (j_name j))\<rparr>) rows) =
      map_option (\<lambda>j. j\<lparr>deployment_seq := int (f (j_name j))\<rparr>) (find (\<lambda>j. j_name j = name) rows)" for rows :: "job_row list"
    by (induction rows) auto
  with j find_SomeD [OF j] show ?thesis by (simp add: seq_of_def)
qed

lemma names_of_built [simp]:
  "names_of (c\<lparr>jobs := map (\<lambda>j. j\<lparr>deployment_seq := f j\<rparr>) (jobs c)\<rparr>) = names_of c"
  by (auto simp: names_of_def image_iff)

lemma set_orders_other:
  "name \<notin> set names \<Longrightarrow>
     find (\<lambda>j. j_name j = name) (set_orders n names rows) = find (\<lambda>j. j_name j = name) rows"
proof (induction n names rows rule: set_orders.induct)
  case (2 order m names rows)
  have "m \<noteq> name \<Longrightarrow> find (\<lambda>j. j_name j = name)
      (update_where (\<lambda>j. j_name j = m) (\<lambda>j. j\<lparr>deployment_order := int order\<rparr>) rows) = find (\<lambda>j. j_name j = name) rows"
    for rows :: "job_row list"
    by (induction rows) (auto simp: update_where_def)
  with 2 show ?case by auto
qed simp

lemma order_of_set_orders:
  "distinct names \<Longrightarrow> i < length names \<Longrightarrow> find (\<lambda>j. j_name j = names ! i) rows \<noteq> None \<Longrightarrow>
     \<exists>j. find (\<lambda>j. j_name j = names ! i) (set_orders n names rows) = Some j \<and> deployment_order j = int (n + i)"
proof (induction n names rows arbitrary: i rule: set_orders.induct)
  case (1 n rows)
  then show ?case by simp
next
  case (2 n m names rows)
  let ?rows = "update_where (\<lambda>j. j_name j = m) (\<lambda>j. j\<lparr>deployment_order := int n\<rparr>) rows"
  have u: "find (\<lambda>j. j_name j = k) ?rows =
      map_option (\<lambda>j. if j_name j = m then j\<lparr>deployment_order := int n\<rparr> else j) (find (\<lambda>j. j_name j = k) rows)" for k
    by (rule find_update_where) simp
  show ?case
  proof (cases i)
    case 0
    with "2.prems"(3) obtain j where j: "find (\<lambda>j. j_name j = m) rows = Some j" by auto
    moreover have "j_name j = m" using find_SomeD [OF j] by simp
    ultimately show ?thesis using 0 "2.prems"(1) by (simp add: set_orders_other u)
  next
    case (Suc k)
    have "find (\<lambda>j. j_name j = names ! k) ?rows \<noteq> None" using "2.prems"(3) Suc by (simp add: u)
    with "2.IH" [of k] "2.prems"(1,2) Suc show ?thesis by simp
  qed
qed

text \<open>The rank of a job is its position in the ordering by priority, level and name.\<close>

lemma order_of_rank:
  assumes "distinct (map j_name (jobs c))" "i < length (deployment_ranking c)"
  shows "order_of (AssignDeploymentOrders c) (deployment_ranking c ! i) = int i"
proof -
  let ?r = "deployment_ranking c"
  have d: "distinct ?r" using assms(1) by (simp add: deployment_ranking_def distinct_map)
  have "set ?r = j_name ` set (jobs c)" by (simp add: deployment_ranking_def)
  then have "?r ! i \<in> j_name ` set (jobs c)" using assms(2) by (metis nth_mem)
  then have "find (\<lambda>j. j_name j = ?r ! i) (jobs c) \<noteq> None" by (simp add: find_key_None)
  from order_of_set_orders [OF d assms(2) this, of 0] show ?thesis
    by (auto simp: order_of_def AssignDeploymentOrders_def)
qed

lemma rank_less:
  assumes "distinct (map j_name (jobs c))" "a \<in> set (jobs c)" "b \<in> set (jobs c)"
    and "(- deployment_priority a, deployment_seq a, j_name a) < (- deployment_priority b, deployment_seq b, j_name b)"
  shows "order_of (AssignDeploymentOrders c) (j_name a) < order_of (AssignDeploymentOrders c) (j_name b)"
proof -
  let ?key = "\<lambda>j. (- deployment_priority j, deployment_seq j, j_name j)"
  let ?s = "sort_key ?key (jobs c)"
  obtain i j where ij: "i < length ?s" "?s ! i = a" "j < length ?s" "?s ! j = b"
    using assms(2,3) in_set_conv_nth [of a ?s] in_set_conv_nth [of b ?s] unfolding set_sort by blast
  have s: "sorted (map ?key ?s)" by (rule sorted_sort_key)
  have "i < j"
  proof (rule ccontr)
    assume "\<not> i < j"
    then have "map ?key ?s ! j \<le> map ?key ?s ! i" using ij by (intro sorted_nth_mono [OF s]) simp_all
    then have "?key b \<le> ?key a" unfolding nth_map [OF ij(1)] nth_map [OF ij(3)] ij(2,4) .
    with assms(4) show False by (simp only: not_le [symmetric]) blast
  qed
  moreover have "deployment_ranking c ! i = j_name a" "deployment_ranking c ! j = j_name b"
    using ij by (simp_all add: deployment_ranking_def del: length_sort)
  ultimately show ?thesis
    using order_of_rank [OF assms(1), of i] order_of_rank [OF assms(1), of j] ij
    by (simp add: deployment_ranking_def)
qed

definition demanded_by :: "catalog \<Rightarrow> string \<Rightarrow> string set" where
  "demanded_by c j = {d \<in> names_of c. (d, j) \<in> hook_edges (hooks c)}"

lemma finite_demanded_by: "finite (demanded_by c j)"
  by (simp add: demanded_by_def names_of_def)

lemma level_recursion:
  assumes "level_closed (hooks c) (map (\<lambda>j. (j_name j, 0)) (jobs c)) res" "hooks_wf c"
  shows "max_level res j =
    (if demanded_by c j = {} then 0 else Suc (Max (max_level res ` demanded_by c j)))"
proof -
  have base: "(d, 0) \<in> set res" if "d \<in> names_of c" for d
    using assms(1) that unfolding level_closed_def names_of_def by auto
  have step: "(j, Suc n) \<in> set res" if "(d, n) \<in> set res" "(d, j) \<in> hook_edges (hooks c)" for d j n
    using assms(1) that unfolding level_closed_def by blast
  have inv: "(j, n) \<in> set res \<Longrightarrow> n = 0 \<and> j \<in> names_of c \<or>
      (\<exists>m d. n = Suc m \<and> (d, j) \<in> hook_edges (hooks c) \<and> (d, m) \<in> set res)" for j n
  proof -
    assume "(j, n) \<in> set res"
    with assms(1) consider "(j, n) \<in> set (map (\<lambda>j. (j_name j, 0)) (jobs c))"
      | "\<exists>m d. n = Suc m \<and> (d, j) \<in> hook_edges (hooks c) \<and> (d, m) \<in> set res"
      unfolding level_closed_def by blast
    then show ?thesis by cases (auto simp: names_of_def)
  qed
  have row_names: "(d, m) \<in> set res \<Longrightarrow> d \<in> names_of c" for d m
    using inv assms(2) unfolding hooks_wf_def by (force simp: image_iff)
  have attained: "(d, max_level res d) \<in> set res" if "d \<in> names_of c" for d
    using max_level_attained [of res d] base [OF that] by auto
  have up: "max_level res d < max_level res j" if "d \<in> demanded_by c j" for d
    using max_level_ge [OF step [OF attained]] that by (auto simp: demanded_by_def Suc_le_eq)
  show ?thesis
  proof (cases "max_level res j")
    case 0
    then have "demanded_by c j = {}" using up by auto
    with 0 show ?thesis by simp
  next
    case (Suc m)
    then have "(j, Suc m) \<in> set res" using max_level_attained [of res j] by simp
    with inv obtain d where d: "(d, j) \<in> hook_edges (hooks c)" "(d, m) \<in> set res" by blast
    then have "d \<in> demanded_by c j" using row_names by (auto simp: demanded_by_def)
    moreover have "m \<le> max_level res d" using d(2) by (rule max_level_ge)
    moreover have "x \<le> m" if "x \<in> max_level res ` demanded_by c j" for x using that up Suc by force
    ultimately have "Max (max_level res ` demanded_by c j) = m"
      using finite_demanded_by by (intro Max_eqI) (auto, metis antisym imageI)
    with Suc \<open>d \<in> demanded_by c j\<close> show ?thesis by auto
  qed
qed

section \<open>Properties\<close>

text \<open>
  C18. The cycle check always ends, accepts exactly the acyclic demand graphs, and the cycle it
  reports is a cycle of the graph.
\<close>

theorem detectCircularHookDependencies_correct:
  assumes "deps_closed deps"
  shows "detectCircularHookDependencies deps = Some (Inr ()) \<and> \<not> (\<exists>cyc. is_cycle deps cyc) \<or>
    (\<exists>cyc. detectCircularHookDependencies deps = Some (Inl cyc) \<and> is_cycle deps cyc)"
proof -
  obtain r where r: "detectCircularHookDependencies deps = Some r" using detect_total [OF assms] by blast
  show ?thesis
  proof (cases r)
    case (Inl cyc)
    with r have "detectCircularHookDependencies deps = Some (Inl cyc)" by simp
    with detect_cycle [OF this] show ?thesis by blast
  next
    case (Inr u)
    with r have ok: "detectCircularHookDependencies deps = Some (Inr ())" by simp
    obtain C where C: "settled_set deps C" "fst ` set deps \<subseteq> C" using detect_ok_settled [OF ok] .
    have "\<not> is_cycle deps cyc" for cyc
    proof
      assume cyc: "is_cycle deps cyc"
      then have "hd cyc \<in> C" using cycle_start_key C(2) by blast
      with settled_no_cycle [OF C(1) cyc] show False .
    qed
    with ok show ?thesis by blast
  qed
qed

theorem detectCircularHookDependencies_correct_witness:
  "deps_closed [(''a'', [''b'']), (''b'', [''a''])] \<and>
   (\<exists>cyc. detectCircularHookDependencies [(''a'', [''b'']), (''b'', [''a''])] = Some (Inl cyc) \<and>
     is_cycle [(''a'', [''b'']), (''b'', [''a''])] cyc)"
proof -
  let ?d = "[(''a'', [''b'']), (''b'', [''a''])]"
  have c: "deps_closed ?d" by (auto simp: deps_closed_def dep_of_def split: if_splits)
  have "is_cycle ?d [''a'', ''b'', ''a'']" by (simp add: is_cycle_def dep_of_def)
  with detectCircularHookDependencies_correct [OF c] c show ?thesis by blast
qed

text \<open>
  C29. Computing the deployment levels always ends: with a cyclic demand graph the build fails with
  \<open>ErrCircularHookDependency\<close>; otherwise a job that demands no job of the catalog has level 0 and
  every other job is one above the highest job it demands.
\<close>

theorem BuildDeploymentSequence_levels:
  assumes "hooks_wf c"
  shows "BuildDeploymentSequence c = Some (Inl ErrCircularHookDependency) \<or>
    (\<exists>c'. BuildDeploymentSequence c = Some (Inr c') \<and>
      (\<forall>j \<in> names_of c. seq_of c' j =
         (if demanded_by c j = {} then 0 else 1 + Max (seq_of c' ` demanded_by c j))))"
proof (cases "\<exists>c'. BuildDeploymentSequence c = Some (Inr c')")
  case True
  then obtain c' where b: "BuildDeploymentSequence c = Some (Inr c')" by blast
  from BuildDeploymentSequence_result [OF b assms] obtain res where
    l: "level_closed (hooks c) (map (\<lambda>j. (j_name j, 0)) (jobs c)) res"
    and c': "c' = c\<lparr>jobs := map (\<lambda>j. j\<lparr>deployment_seq := int (max_level res (j_name j))\<rparr>) (jobs c)\<rparr>" .
  have s: "seq_of c' d = int (max_level res d)" if "d \<in> names_of c" for d
    unfolding c' using that by (rule seq_of_built)
  have "seq_of c' j = (if demanded_by c j = {} then 0 else 1 + Max (seq_of c' ` demanded_by c j))"
    if "j \<in> names_of c" for j
  proof -
    have "seq_of c' ` demanded_by c j = int ` max_level res ` demanded_by c j"
      using s by (auto simp: demanded_by_def image_iff)
    moreover have "demanded_by c j \<noteq> {} \<Longrightarrow>
        Max (int ` max_level res ` demanded_by c j) = int (Max (max_level res ` demanded_by c j))"
      using finite_demanded_by by (intro mono_Max_commute [symmetric]) (auto intro: monoI)
    ultimately show ?thesis
      using s [OF that] level_recursion [OF l assms, of j] by simp
  qed
  with b show ?thesis by blast
next
  case False
  obtain r where r: "detectCircularHookDependencies (loadHookDependencies c) = Some r"
    using detect_total [OF deps_closed_load] by blast
  show ?thesis
  proof (cases r)
    case (Inl cyc)
    with r show ?thesis by (simp add: BuildDeploymentSequence_def)
  next
    case (Inr u)
    with r hook_seq_on_catalog [OF _ assms] False show ?thesis
      by (auto simp: BuildDeploymentSequence_def)
  qed
qed

lemma find_job: "j \<in> set rows \<Longrightarrow> distinct (map j_name rows) \<Longrightarrow> find (\<lambda>x. j_name x = j_name j) rows = Some j"
  by (simp add: find_distinct_key)

text \<open>A catalog of two jobs: a hook of \<open>app\<close> demands \<open>db\<close>, which has the later name.\<close>

definition pair_job :: "string \<Rightarrow> job_row" where
  "pair_job n = \<lparr>j_job_id = n, j_name = n, j_version = ''1.0.0'', deployment_priority = 5,
     deployment_order = 0, deployment_seq = 0, max_concurrent_restarts = 1, max_concurrent_starts = 1,
     max_concurrent_stops = 1, restart_policy = ''always'', restart_globs = [], reload_globs = []\<rparr>"

definition pair_catalog :: catalog where
  "pair_catalog = empty_catalog\<lparr>jobs := [pair_job ''app'', pair_job ''db''],
     hooks := [\<lparr>k_job = ''app'', k_name = ''migrate'', k_executed_on = ''pre_deploy'',
                k_demand_job = ''db'', k_demand_hook = ''dump''\<rparr>]\<rparr>"

definition pair_manifests :: "(string \<times> manifest) list" where
  "pair_manifests =
     [(''app'', \<lparr>m_version = ''1.0.0'', m_priority = 5,
        m_hooks = [\<lparr>hook_Name = ''migrate'', demand_Job = ''db'', demand_Hook = ''dump'', demand_Config = Map.empty\<rparr>]\<rparr>),
      (''db'', \<lparr>m_version = ''1.0.0'', m_priority = 5,
        m_hooks = [\<lparr>hook_Name = ''dump'', demand_Job = [], demand_Hook = [], demand_Config = Map.empty\<rparr>]\<rparr>)]"

lemma pair_wf: "catalog_wf pair_catalog"
  by (simp add: catalog_wf_def pair_catalog_def pair_job_def empty_catalog_def)

lemma pair_hooks_wf: "hooks_wf pair_catalog"
  by (simp add: hooks_wf_def pair_catalog_def pair_job_def empty_catalog_def hook_edges_def names_of_def)

lemma pair_sequence: "\<exists>c1. BuildDeploymentSequence pair_catalog = Some (Inr c1)"
proof -
  have "detectCircularHookDependencies (loadHookDependencies pair_catalog) = Some (Inr ())"
    by code_simp
  with hook_seq_on_catalog [OF this pair_hooks_wf] show ?thesis
    by (auto simp: BuildDeploymentSequence_def)
qed

theorem BuildDeploymentSequence_levels_witness:
  "\<exists>c'. BuildDeploymentSequence pair_catalog = Some (Inr c') \<and> seq_of c' ''app'' = 1 + seq_of c' ''db'' \<and> seq_of c' ''db'' = 0"
proof -
  obtain c' where c': "BuildDeploymentSequence pair_catalog = Some (Inr c')"
    using pair_sequence by blast
  then have *: "\<forall>j \<in> names_of pair_catalog. seq_of c' j =
      (if demanded_by pair_catalog j = {} then 0 else 1 + Max (seq_of c' ` demanded_by pair_catalog j))"
    using BuildDeploymentSequence_levels [OF pair_hooks_wf] by simp
  have "demanded_by pair_catalog ''app'' = {''db''}" "demanded_by pair_catalog ''db'' = {}"
    "''app'' \<in> names_of pair_catalog" "''db'' \<in> names_of pair_catalog"
    by (auto simp: demanded_by_def names_of_def pair_catalog_def pair_job_def hook_edges_def)
  with * c' show ?thesis by simp
qed

text \<open>
  What the build stores of the manifests: the priority of each job, and for each hook row the
  demand of a declared hook. \<open>demands_trimmed\<close> says that the demanded names are written without
  surrounding white space: the validation trims them, the \<open>hooks\<close> table holds them as written.
\<close>

definition built_from :: "catalog \<Rightarrow> (string \<times> manifest) list \<Rightarrow> bool" where
  "built_from c ms =
     (list_all (\<lambda>j. case map_of ms (j_name j) of Some m \<Rightarrow> m_priority m = deployment_priority j | None \<Rightarrow> False) (jobs c) \<and>
      list_all (\<lambda>k. case map_of ms (k_job k) of
                      Some m \<Rightarrow> list_ex (\<lambda>h. demand_Job h = k_demand_job k) (m_hooks m) | None \<Rightarrow> False) (hooks c))"

definition demands_trimmed :: "(string \<times> manifest) list \<Rightarrow> bool" where
  "demands_trimmed ms = list_all (\<lambda>(j, m). list_all (\<lambda>h. TrimSpace (demand_Job h) = demand_Job h) (m_hooks m)) ms"

lemma nth_image_whole: "(\<lambda>i. xs ! i) ` {0..<length xs} = set xs"
  using nth_image [of "length xs" xs] by simp

lemma rmap_unit_ok: "rmap f xs = Inr ys \<Longrightarrow> x \<in> set xs \<Longrightarrow> \<exists>y. f x = Inr y"
proof (induction xs arbitrary: ys)
  case Nil
  then show ?case by simp
next
  case (Cons a xs)
  then obtain y zs where "f a = Inr y" "rmap f xs = Inr zs" by (auto simp: rbind_eq_Inr)
  with Cons show ?case by auto
qed

lemma ValidateHookDemands_priority:
  assumes "ValidateHookDemands ms = Inr ()" "(j, m) \<in> set ms" "h \<in> set (m_hooks m)"
    and "map_of ms (TrimSpace (demand_Job h)) = Some dm" "TrimSpace (demand_Job h) \<noteq> ''''"
  shows "m_priority m \<le> m_priority dm"
proof -
  from assms(1) obtain versions ys where
    "rmap (\<lambda>(j, m). rmap (check_demand ms versions j m) (m_hooks m)) ms = Inr ys"
    by (auto simp: ValidateHookDemands_def result_simps)
  from rmap_unit_ok [OF this assms(2)] obtain zs where
    "rmap (check_demand ms versions j m) (m_hooks m) = Inr zs" by auto
  from rmap_unit_ok [OF this assms(3)] obtain u where "check_demand ms versions j m h = Inr u" by blast
  then have "\<not> m_priority m > m_priority dm"
    using assms(4,5) by (auto simp: check_demand_def result_simps Let_def split: if_splits)
  then show ?thesis by simp
qed

lemma built_priority:
  assumes "built_from c ms" "demands_trimmed ms" "ValidateHookDemands ms = Inr ()" "hooks_wf c"
    and "a \<in> set (jobs c)" "b \<in> set (jobs c)" "(j_name a, j_name b) \<in> hook_edges (hooks c)"
  shows "deployment_priority b \<le> deployment_priority a"
proof -
  from assms(7) obtain k where k: "k \<in> set (hooks c)" "k_demand_job k = j_name a" "k_job k = j_name b"
    by (auto simp: hook_edges_def)
  with assms(1) obtain m h where m: "map_of ms (j_name b) = Some m" "h \<in> set (m_hooks m)" "demand_Job h = j_name a"
    by (fastforce simp: built_from_def list_all_iff list_ex_iff split: option.splits)
  from assms(1,5,6) m(1) obtain dm where dm: "map_of ms (j_name a) = Some dm"
    "m_priority dm = deployment_priority a" "m_priority m = deployment_priority b"
    by (fastforce simp: built_from_def list_all_iff split: option.splits)
  have t: "TrimSpace (demand_Job h) = j_name a"
    using assms(2) m map_of_SomeD [OF m(1)] by (fastforce simp: demands_trimmed_def list_all_iff)
  moreover have "j_name a \<in> names_of c" using assms(5) by (simp add: names_of_def)
  then have "j_name a \<noteq> ''''" using assms(4) unfolding hooks_wf_def by metis
  ultimately show ?thesis
    using ValidateHookDemands_priority [OF assms(3) map_of_SomeD [OF m(1)] m(2)] dm by simp
qed

text \<open>
  C15. A demanded job is deployed before the job that demands it. When the demands pass validation
  and the sequence and order steps of the build succeed, \<open>deployment_order\<close> of the demanded job is
  smaller, and the orders of all jobs are the numbers \<open>0, 1, \<dots>\<close> without gaps.
\<close>

theorem demanded_job_first:
  assumes "ValidateHookDemands ms = Inr ()" "built_from c ms" "demands_trimmed ms"
    and "catalog_wf c" "hooks_wf c" "BuildDeploymentSequence c = Some (Inr c1)"
  shows "(\<forall>d \<in> names_of c. \<forall>j \<in> names_of c. (d, j) \<in> hook_edges (hooks c) \<longrightarrow>
      order_of (BuildDeploymentOrder c1) d < order_of (BuildDeploymentOrder c1) j) \<and>
    order_of (BuildDeploymentOrder c1) ` names_of c = int ` {0..<length (jobs c)}"
proof -
  from BuildDeploymentSequence_result [OF assms(6,5)] obtain res where
    l: "level_closed (hooks c) (map (\<lambda>j. (j_name j, 0)) (jobs c)) res"
    and c1: "c1 = c\<lparr>jobs := map (\<lambda>j. j\<lparr>deployment_seq := int (max_level res (j_name j))\<rparr>) (jobs c)\<rparr>" .
  let ?g = "\<lambda>j. j\<lparr>deployment_seq := int (max_level res (j_name j))\<rparr>"
  have dist: "distinct (map j_name (jobs c1))"
    using assms(4) by (simp add: catalog_wf_def c1 comp_def)
  have "order_of (BuildDeploymentOrder c1) d < order_of (BuildDeploymentOrder c1) j"
    if "d \<in> names_of c" "j \<in> names_of c" "(d, j) \<in> hook_edges (hooks c)" for d j
  proof -
    from that obtain a b where a: "a \<in> set (jobs c)" "j_name a = d" and b: "b \<in> set (jobs c)" "j_name b = j"
      by (auto simp: names_of_def)
    have p: "deployment_priority b \<le> deployment_priority a"
      using built_priority [OF assms(2,3,1,5) a(1) b(1)] that a b by simp
    have dm: "d \<in> demanded_by c j" using that by (simp add: demanded_by_def)
    then have "max_level res d \<le> Max (max_level res ` demanded_by c j)"
      using finite_demanded_by by simp
    then have "max_level res d < max_level res j"
      using level_recursion [OF l assms(5), of j] dm by auto
    then have "(- deployment_priority (?g a), deployment_seq (?g a), j_name (?g a)) <
        (- deployment_priority (?g b), deployment_seq (?g b), j_name (?g b))"
      using p a b by (auto simp: less_prod_def)
    moreover have "?g a \<in> set (jobs c1)" "?g b \<in> set (jobs c1)" using a b by (auto simp: c1)
    ultimately show ?thesis
      using rank_less [OF dist, of "?g a" "?g b"] a b by (simp add: BuildDeploymentOrder_def)
  qed
  moreover have "order_of (BuildDeploymentOrder c1) ` names_of c = int ` {0..<length (jobs c)}"
  proof -
    let ?r = "deployment_ranking c1"
    have n: "names_of c = (\<lambda>i. ?r ! i) ` {0..<length ?r}"
    proof -
      have "set ?r = names_of c1" by (simp add: deployment_ranking_def names_of_def)
      also have "\<dots> = names_of c" unfolding c1 by simp
      finally have s: "set ?r = names_of c" .
      have "set ?r = (\<lambda>i. ?r ! i) ` {0..<length ?r}" by (rule nth_image_whole [symmetric])
      with s show ?thesis by simp
    qed
    have "length ?r = length (jobs c)" by (simp add: deployment_ranking_def c1)
    then show ?thesis
      unfolding n BuildDeploymentOrder_def image_image
      using order_of_rank [OF dist] by (intro image_cong) auto
  qed
  ultimately show ?thesis by blast
qed

theorem demanded_job_first_witness:
  "(\<exists>c1. BuildDeploymentSequence pair_catalog = Some (Inr c1) \<and>
     order_of (BuildDeploymentOrder c1) ''db'' < order_of (BuildDeploymentOrder c1) ''app'')"
proof -
  obtain c1 where c1: "BuildDeploymentSequence pair_catalog = Some (Inr c1)"
    using pair_sequence by blast
  have v: "ValidateHookDemands pair_manifests = Inr ()" by code_simp
  have b: "built_from pair_catalog pair_manifests" "demands_trimmed pair_manifests" by code_simp+
  have e: "''db'' \<in> names_of pair_catalog" "''app'' \<in> names_of pair_catalog"
    "(''db'', ''app'') \<in> hook_edges (hooks pair_catalog)"
    by (auto simp: names_of_def pair_catalog_def pair_job_def hook_edges_def)
  have "order_of (BuildDeploymentOrder c1) ''db'' < order_of (BuildDeploymentOrder c1) ''app''"
    using demanded_job_first [OF v b pair_wf pair_hooks_wf c1] e by blast
  with c1 show ?thesis by blast
qed

end
