(* ===== verification/Rollout_Order.thy ===== *)
theory Rollout_Order
  imports Batches
begin

text \<open>
  The order in which a rollout visits the allocations of a job: \<^verbatim>\<open>rollout/order.go\<close>. An
  operator may pin the order in the key-value store (\<open>rollout_order\<close>); kive uses the pinned order
  only when it names every candidate exactly once, and otherwise falls back to the catalog order.
  The catalog query and the key-value read are arguments here; \<open>Deploy\<close> supplies the catalog's
  and the store's own functions.
\<close>

section \<open>Operations\<close>

record ResolvedOrder =
  Ordered :: "string list"
  FullOrder :: string
  Source :: string

definition OrderSourceKV :: string where "OrderSourceKV = ''kv''"

definition OrderSourceDefault :: string where "OrderSourceDefault = ''default''"

definition parseOrderList :: "string \<Rightarrow> string list" where
  "parseOrderList raw = filter (\<lambda>part. part \<noteq> '''') (map TrimSpace (split_on CHR '','' raw))"

datatype order_problem =
    OrderEmpty
  | OrderDuplicate string
  | OrderUnknown string
  | OrderMissing

text \<open>
  The loop over the list: \<open>Inl\<close> is the first problem, \<open>Inr\<close> the set of names seen. The last
  loop of the source ranges over a Go map, so which missing allocation it reports is unspecified.
\<close>

fun validate_seen :: "string set \<Rightarrow> string list \<Rightarrow> string set \<Rightarrow> order_problem + string set" where
  "validate_seen seen [] active = Inr seen"
| "validate_seen seen (ip # ips) active =
     (if ip \<in> seen then Inl (OrderDuplicate ip)
      else if ip \<notin> active then Inl (OrderUnknown ip)
      else validate_seen (insert ip seen) ips active)"

definition validateRolloutOrderList :: "string list \<Rightarrow> string list \<Rightarrow> order_problem option" where
  "validateRolloutOrderList orderList active =
     (if orderList = [] \<and> active \<noteq> [] then Some OrderEmpty
      else case validate_seen {} orderList (set active) of
        Inl p \<Rightarrow> Some p
      | Inr seen \<Rightarrow> if list_all (\<lambda>ip. ip \<in> seen) active then None else Some OrderMissing)"

fun append_missing :: "string list \<Rightarrow> string list \<Rightarrow> string list" where
  "append_missing ordered [] = ordered"
| "append_missing ordered (ip # ips) =
     (if ip \<in> set ordered then append_missing ordered ips else append_missing (ordered @ [ip]) ips)"

definition defaultCatalogOrder :: "string list \<Rightarrow> string list \<Rightarrow> string list" where
  "defaultCatalogOrder catalog candidates =
     append_missing (filter (\<lambda>ip. ip \<in> set candidates) catalog) candidates"

definition orderByList :: "string list \<Rightarrow> string list \<Rightarrow> string list" where
  "orderByList candidates orderList = filter (\<lambda>ip. ip \<in> set candidates) orderList"

definition default_resolved :: "string list \<Rightarrow> ResolvedOrder" where
  "default_resolved ordered =
     \<lparr>Ordered = ordered, FullOrder = Join ordered '','', Source = OrderSourceDefault\<rparr>"

definition ResolveOrder ::
  "string list result \<Rightarrow> string option \<Rightarrow> string list \<Rightarrow> ResolvedOrder result" where
  "ResolveOrder catalog rawOrder candidates =
     (if candidates = [] then Inr \<lparr>Ordered = [], FullOrder = '''', Source = ''''\<rparr>
      else rbind catalog (\<lambda>cat.
        let defaultOrdered = defaultCatalogOrder cat candidates
        in case rawOrder of
             None \<Rightarrow> Inr (default_resolved defaultOrdered)
           | Some raw \<Rightarrow>
               (let orderList = parseOrderList raw
                in case validateRolloutOrderList orderList candidates of
                     Some reason \<Rightarrow> Inr (default_resolved defaultOrdered)
                   | None \<Rightarrow> Inr \<lparr>Ordered = orderByList candidates orderList,
                                  FullOrder = raw, Source = OrderSourceKV\<rparr>)))"

section \<open>Lemmas\<close>

lemma validate_seen_Inr:
  "validate_seen seen ips active = Inr t \<longleftrightarrow>
     distinct ips \<and> set ips \<inter> seen = {} \<and> set ips \<subseteq> active \<and> t = seen \<union> set ips"
  by (induction seen ips active rule: validate_seen.induct) auto

lemma validate_ok_iff:
  assumes "active \<noteq> []"
  shows "validateRolloutOrderList ol active = None \<longleftrightarrow> distinct ol \<and> set ol = set active"
proof (cases "validate_seen {} ol (set active)")
  case (Inl p)
  then have "\<not> (distinct ol \<and> set ol \<subseteq> set active)"
    using validate_seen_Inr [of "{}" ol "set active" "set ol"] by auto
  with Inl show ?thesis by (auto simp: validateRolloutOrderList_def)
next
  case (Inr t)
  then have "distinct ol" "set ol \<subseteq> set active" "t = set ol" by (auto simp: validate_seen_Inr)
  with Inr assms show ?thesis by (auto simp: validateRolloutOrderList_def list_all_iff)
qed

lemma append_missing_eq:
  "append_missing ordered ips = ordered @ unique_loop (set ordered) ips"
  by (induction ordered ips rule: append_missing.induct) (auto simp: insert_commute)

lemma set_defaultCatalogOrder [simp]: "set (defaultCatalogOrder cat cs) = set cs"
  by (auto simp: defaultCatalogOrder_def append_missing_eq set_unique_loop)

lemma distinct_defaultCatalogOrder: "distinct cat \<Longrightarrow> distinct (defaultCatalogOrder cat cs)"
  by (auto simp: defaultCatalogOrder_def append_missing_eq set_unique_loop distinct_unique_loop)

lemma defaultCatalogOrder_catalog:
  "set cs \<subseteq> set cat \<Longrightarrow> defaultCatalogOrder cat cs = filter (\<lambda>ip. ip \<in> set cs) cat"
proof -
  assume "set cs \<subseteq> set cat"
  then have "set (unique_loop (set (filter (\<lambda>ip. ip \<in> set cs) cat)) cs) = {}"
    by (auto simp: set_unique_loop)
  then show ?thesis by (simp add: defaultCatalogOrder_def append_missing_eq)
qed

lemma ResolveOrder_cases:
  assumes "ResolveOrder catalog raw cs = Inr r" and "cs \<noteq> []"
  obtains (default) cat where "catalog = Inr cat" "r = default_resolved (defaultCatalogOrder cat cs)"
  | (kv) cat s where "catalog = Inr cat" "raw = Some s" "distinct (parseOrderList s)"
      "set (parseOrderList s) = set cs"
      "r = \<lparr>Ordered = parseOrderList s, FullOrder = s, Source = OrderSourceKV\<rparr>"
proof -
  from assms obtain cat where cat: "catalog = Inr cat"
    by (auto simp: ResolveOrder_def result_simps)
  show thesis
  proof (cases raw)
    case None
    with assms cat default show ?thesis by (auto simp: ResolveOrder_def Let_def)
  next
    case (Some s)
    show ?thesis
    proof (cases "validateRolloutOrderList (parseOrderList s) cs")
      case None
      then have "distinct (parseOrderList s)" "set (parseOrderList s) = set cs"
        using assms(2) by (simp_all add: validate_ok_iff)
      moreover from this have "orderByList cs (parseOrderList s) = parseOrderList s"
        by (auto simp: orderByList_def filter_id_conv)
      ultimately show ?thesis
        using assms cat Some None kv by (auto simp: ResolveOrder_def Let_def)
    next
      case (Some p)
      with assms cat \<open>raw = Some s\<close> default show ?thesis by (auto simp: ResolveOrder_def Let_def)
    qed
  qed
qed

lemma ResolveOrder_total: "\<exists>r. ResolveOrder (Inr cat) raw cs = Inr r"
  by (cases "ResolveOrder (Inr cat) raw cs")
     (auto simp: ResolveOrder_def Let_def split: if_splits option.splits)

lemma ResolveOrder_set:
  "ResolveOrder catalog raw cs = Inr r \<Longrightarrow> set (Ordered r) = set cs"
proof (cases "cs = []")
  case True
  then show "ResolveOrder catalog raw cs = Inr r \<Longrightarrow> set (Ordered r) = set cs"
    by (auto simp: ResolveOrder_def)
next
  case False
  assume "ResolveOrder catalog raw cs = Inr r"
  then show "set (Ordered r) = set cs"
    using False by (cases rule: ResolveOrder_cases) (auto simp: default_resolved_def)
qed

lemma ResolveOrder_distinct:
  assumes "ResolveOrder (Inr cat) raw cs = Inr r" and "distinct cat"
  shows "distinct (Ordered r)"
proof (cases "cs = []")
  case True
  with assms show ?thesis by (auto simp: ResolveOrder_def)
next
  case False
  from assms(1) False show ?thesis
    using assms(2)
    by (cases rule: ResolveOrder_cases) (auto simp: default_resolved_def distinct_defaultCatalogOrder)
qed

section \<open>Properties\<close>

text \<open>
  Resolving the rollout order never loses, adds or repeats an allocation: whenever the catalog
  query succeeds with distinct workers, \<open>ResolveOrder\<close> returns an order, and it lists exactly the
  candidates, each once, whatever the operator wrote in \<open>rollout_order\<close>.
\<close>

theorem ResolveOrder_permutes:
  assumes "distinct cat"
  shows "\<exists>r. ResolveOrder (Inr cat) raw cs = Inr r \<and> distinct (Ordered r) \<and> set (Ordered r) = set cs"
proof -
  obtain r where r: "ResolveOrder (Inr cat) raw cs = Inr r"
    by (cases "ResolveOrder (Inr cat) raw cs")
       (auto simp: ResolveOrder_def Let_def split: if_splits option.splits)
  with assms show ?thesis using ResolveOrder_set ResolveOrder_distinct by blast
qed

theorem ResolveOrder_permutes_witness:
  "\<exists>r. ResolveOrder (Inr [''w1'', ''w2'']) (Some ''w2,w9'') [''w2'', ''w1''] = Inr r \<and>
     distinct (Ordered r) \<and> set (Ordered r) = set [''w2'', ''w1'']"
  by (rule ResolveOrder_permutes) simp

text \<open>
  The operator's order is used exactly when it is a permutation of the candidates: then the
  rollout visits the workers in the written order; any other text falls back to the catalog order,
  with workers unknown to the catalog appended.
\<close>

theorem ResolveOrder_source:
  assumes "cs \<noteq> []"
  shows "ResolveOrder (Inr cat) (Some raw) cs =
    Inr (if distinct (parseOrderList raw) \<and> set (parseOrderList raw) = set cs
         then \<lparr>Ordered = parseOrderList raw, FullOrder = raw, Source = OrderSourceKV\<rparr>
         else default_resolved (defaultCatalogOrder cat cs))"
proof (cases "validateRolloutOrderList (parseOrderList raw) cs")
  case None
  then have "distinct (parseOrderList raw) \<and> set (parseOrderList raw) = set cs"
    using assms by (simp add: validate_ok_iff)
  moreover from this have "orderByList cs (parseOrderList raw) = parseOrderList raw"
    by (auto simp: orderByList_def filter_id_conv)
  ultimately show ?thesis using None assms by (simp add: ResolveOrder_def Let_def)
next
  case (Some p)
  then have "\<not> (distinct (parseOrderList raw) \<and> set (parseOrderList raw) = set cs)"
    using validate_ok_iff [OF assms, of "parseOrderList raw"] by simp
  with Some assms show ?thesis by (simp add: ResolveOrder_def Let_def del: de_Morgan_conj)
qed

theorem ResolveOrder_source_witness:
  "ResolveOrder (Inr [''a'', ''b'']) (Some ''b,a'') [''a'', ''b''] =
     Inr \<lparr>Ordered = [''b'', ''a''], FullOrder = ''b,a'', Source = OrderSourceKV\<rparr>"
proof -
  have "TrimSpace ''a'' = ''a''" "TrimSpace ''b'' = ''b''"
    by (rule TrimSpace_plain; simp add: plain_def)+
  then have "parseOrderList ''b,a'' = [''b'', ''a'']" by (simp add: parseOrderList_def)
  then show ?thesis
    using ResolveOrder_source [of "[''a'', ''b'']" "[''a'', ''b'']" "''b,a''"] by auto
qed

end
