(* ===== verification/Deploy.thy ===== *)
theory Deploy
  imports Catalog Rollout_Order
begin

text \<open>
  The rollout of one job (\<^verbatim>\<open>deploy/job_deploy.go\<close>, \<^verbatim>\<open>deploy/rollout.go\<close>,
  \<^verbatim>\<open>deploy/allocations.go\<close>, \<^verbatim>\<open>deploy/hashes.go\<close>, \<^verbatim>\<open>deploy/batch_hooks.go\<close>).

  A deploy reads and writes the catalog inside one transaction and acts on worker machines in
  between. The state of the model is the catalog of the transaction, the bucket generation and the
  trace of actions performed so far; an action is an \<open>event\<close>, and whether it fails is decided by the
  environment, an argument of every definition that acts: it may depend on the whole trace, so a
  theorem over all environments covers every pattern of failures. A failed step keeps the changes
  made before it: deploy commits partial progress.

  Actions on the workers of one batch run concurrently in the program. They write no catalog state
  and each concerns its own worker; the model runs them in batch order and, as the program does,
  runs all of them before it reports a failure. The contexts passed to workers are never cancelled
  (\<open>withDeployWorkContext\<close>); a cancel takes effect only as the error \<open>ErrCancelled\<close> of a health gate.
\<close>

section \<open>Actions and the environment\<close>

record CommandContext =
  cc_Job :: string
  cc_Phase :: string
  cc_Action :: string
  cc_Cmd :: string

datatype event =
    WorkerCommand string CommandContext "string list"
  | StageSync string "string list"
  | Rsync string "string list"
  | RsyncCerts string "string list"
  | RsyncMetadata string bool
  | HookRun string string string "string list" int "string list"
  | HealthGate string
  | KvDelete string string
  | KvPurge string
  | KvPersist
  | PrepareJob string string
  | PrepareWorker string int "(string \<times> int) list"
  | Prerequisites "string list"
  | RemoveLocal string
  | InsertHistory
  | Commit
  | Vacuum
  | Backup

record deploy_env =
  outcome :: "event list \<Rightarrow> event \<Rightarrow> kive_error option"
  rollout_order_kv :: "event list \<Rightarrow> string \<Rightarrow> string option"
  conf_max_syncs :: "int result"
  staged_tree :: "event list \<Rightarrow> string \<Rightarrow> string \<Rightarrow> (string \<times> FileManifest) result"

record world =
  cat :: catalog
  generation :: int
  trace :: "event list"

type_synonym ('e, 'a) act = "world \<Rightarrow> ('e + 'a) \<times> world"

type_synonym 'a deploy = "(kive_error, 'a) act"

definition ret :: "'a \<Rightarrow> ('e, 'a) act" where
  "ret x w = (Inr x, w)"

definition raise :: "'e \<Rightarrow> ('e, 'a) act" where
  "raise x w = (Inl x, w)"

definition bindD :: "('e, 'a) act \<Rightarrow> ('a \<Rightarrow> ('e, 'b) act) \<Rightarrow> ('e, 'b) act" where
  "bindD m f w = (case m w of (Inl x, w') \<Rightarrow> (Inl x, w') | (Inr a, w') \<Rightarrow> f a w')"

definition thenD :: "('e, 'a) act \<Rightarrow> ('e, 'b) act \<Rightarrow> ('e, 'b) act" where
  "thenD m n = bindD m (\<lambda>_. n)"

text \<open>A read of the catalog that may fail, a read that cannot, a write, and an action.\<close>

definition query :: "(catalog \<Rightarrow> 'e + 'a) \<Rightarrow> ('e, 'a) act" where
  "query f w = (f (cat w), w)"

definition readC :: "(catalog \<Rightarrow> 'a) \<Rightarrow> ('e, 'a) act" where
  "readC f w = (Inr (f (cat w)), w)"

definition writeC :: "(catalog \<Rightarrow> catalog) \<Rightarrow> ('e, unit) act" where
  "writeC f w = (Inr (), w\<lparr>cat := f (cat w)\<rparr>)"

definition perform :: "deploy_env \<Rightarrow> event \<Rightarrow> unit deploy" where
  "perform e ev w =
     ((case outcome e (trace w) ev of None \<Rightarrow> Inr () | Some x \<Rightarrow> Inl x), w\<lparr>trace := trace w @ [ev]\<rparr>)"

text \<open>\<open>for _, x := range xs { if err := f(x); err != nil { return err } }\<close>\<close>

primrec forD :: "('a \<Rightarrow> ('e, unit) act) \<Rightarrow> 'a list \<Rightarrow> ('e, unit) act" where
  "forD f [] = ret ()"
| "forD f (x # xs) = thenD (f x) (forD f xs)"

text \<open>Run the action, drop its error.\<close>

definition ignoring :: "(kive_error \<Rightarrow> bool) \<Rightarrow> unit deploy \<Rightarrow> unit deploy" where
  "ignoring P m w = (case m w of (Inl x, w') \<Rightarrow> ((if P x then Inr () else Inl x), w') | r \<Rightarrow> r)"

section \<open>Worker actions\<close>

text \<open>Paths are built by \<^verbatim>\<open>path.Join\<close> from the generated bucket id and valid job names, which it only concatenates.\<close>

definition WorkerBucketPath :: "string \<Rightarrow> string" where
  "WorkerBucketPath bucketID = ''/opt/kive/'' @ bucketID"

definition runnerCommand :: "string \<Rightarrow> string \<Rightarrow> string \<Rightarrow> string" where
  "runnerCommand bucketID action job =
     ''python3 '' @ WorkerBucketPath bucketID @ ''/bin/runner.py '' @ bucketID @ '' '' @ action @ '' --jobs '' @ job"

definition runnerCmdCtx :: "string \<Rightarrow> string \<Rightarrow> string \<Rightarrow> string \<Rightarrow> CommandContext" where
  "runnerCmdCtx job phase action bucketID =
     \<lparr>cc_Job = job, cc_Phase = phase, cc_Action = action, cc_Cmd = runnerCommand bucketID action job\<rparr>"

definition mkdir_ctx :: "string \<Rightarrow> string list \<Rightarrow> CommandContext" where
  "mkdir_ctx bucketID js =
     \<lparr>cc_Job = Join js '','', cc_Phase = ''rsync'', cc_Action = ''mkdir'',
      cc_Cmd = ''mkdir -p '' @ Join (WorkerBucketPath bucketID #
        map (\<lambda>j. WorkerBucketPath bucketID @ ''/jobs/'' @ j @ ''/certs'') js) '' ''\<rparr>"

text \<open>\<open>StageSync\<close> stands for the local files of the transfer: the filter file and the modes of staged certificates.\<close>

definition syncWorkerFiles :: "deploy_env \<Rightarrow> string \<Rightarrow> string \<Rightarrow> string list \<Rightarrow> unit deploy" where
  "syncWorkerFiles e bucketID workerIP js =
     thenD (perform e (WorkerCommand workerIP (mkdir_ctx bucketID js) []))
    (thenD (perform e (StageSync workerIP js))
    (thenD (perform e (Rsync workerIP js))
           (perform e (RsyncCerts workerIP js))))"

definition DefaultMaxConcurrentSyncs :: int where "DefaultMaxConcurrentSyncs = 16"

definition maxConcurrentSyncs :: "deploy_env \<Rightarrow> int result" where
  "maxConcurrentSyncs e =
     rbind (conf_max_syncs e) (\<lambda>n. Inr (if n < 1 then DefaultMaxConcurrentSyncs else n))"

fun parallel_errors :: "(string \<Rightarrow> unit deploy) \<Rightarrow> string list \<Rightarrow> world \<Rightarrow> kive_error list \<times> world" where
  "parallel_errors f [] w = ([], w)"
| "parallel_errors f (ip # ips) w =
     (case f ip w of
        (r, w1) \<Rightarrow> case parallel_errors f ips w1 of
          (errs, w2) \<Rightarrow> ((case r of Inl x \<Rightarrow> x # errs | Inr _ \<Rightarrow> errs), w2))"

text \<open>\<open>joinErrors\<close> formats the messages into a new error, which wraps none of them.\<close>

definition runParallelWorkers :: "string list \<Rightarrow> (string \<Rightarrow> unit deploy) \<Rightarrow> unit deploy" where
  "runParallelWorkers workerIPs f w =
     (case parallel_errors f workerIPs w of
        (errs, w') \<Rightarrow> ((if errs = [] then Inr () else Inl ErrPlain), w'))"

definition preBatchHealthCheck :: "deploy_env \<Rightarrow> string \<Rightarrow> bool \<Rightarrow> unit deploy" where
  "preBatchHealthCheck e job force = (if force then ret () else perform e (HealthGate job))"

definition allocationVersionEnv :: "string \<Rightarrow> string \<Rightarrow> catalog \<Rightarrow> string list result" where
  "allocationVersionEnv job workerIP c =
     rbind (GetAllocationID c workerIP job) (\<lambda>allocID.
       let v = GetAllocationVersions c allocID
       in Inr [''CURRENT_VERSION='' @ AppliedVersion v, ''NEW_VERSION='' @ TargetVersion v])"

definition runLifecycle :: "deploy_env \<Rightarrow> string \<Rightarrow> string \<Rightarrow> string \<Rightarrow> string \<Rightarrow> unit deploy" where
  "runLifecycle e bucketID job action workerIP =
     bindD (query (allocationVersionEnv job workerIP)) (\<lambda>env.
       perform e (WorkerCommand workerIP (runnerCmdCtx job ''rollout'' action bucketID) env))"

definition clearWorkerVersionKVKeys :: "deploy_env \<Rightarrow> string \<Rightarrow> string \<Rightarrow> unit deploy" where
  "clearWorkerVersionKVKeys e job workerIP =
     forD (\<lambda>key. ignoring (\<lambda>x. x = KvErrNotFound \<or> x = KvErrNamespaceNotFound)
             (perform e (KvDelete (''kive/job/'' @ job @ ''/worker/'' @ workerIP) key)))
       [''version'', ''current_version'', ''new_version'']"

section \<open>Hooks\<close>

definition RunHookOnWorkers ::
  "deploy_env \<Rightarrow> string \<Rightarrow> string \<Rightarrow> string \<Rightarrow> string list \<Rightarrow> int \<Rightarrow> string list \<Rightarrow> unit deploy" where
  "RunHookOnWorkers e job hookName event workerIPs concurrency extraEnv =
     bindD (readC (\<lambda>c. GetHooks c job event)) (\<lambda>allowedHooks.
       if hookName \<notin> set allowedHooks then raise ErrPlain
       else if workerIPs = [] then ret ()
       else perform e (HookRun job hookName event (Unique workerIPs)
              (if concurrency < 1 then 1 else concurrency) extraEnv))"

definition RunHookInBatches ::
  "deploy_env \<Rightarrow> string \<Rightarrow> string \<Rightarrow> string \<Rightarrow> string list \<Rightarrow> int \<Rightarrow> BatchContext \<Rightarrow> unit deploy" where
  "RunHookInBatches e job hookName event orderedIPs batchSize0 baseCtx =
     (if orderedIPs = [] then ret ()
      else let batches = SplitWorkerBatches orderedIPs (if batchSize0 < 1 then 1 else batchSize0)
           in forD (\<lambda>(i, batchIPs).
                RunHookOnWorkers e job hookName event batchIPs
                  (if int (length batchIPs) < 1 then 1 else int (length batchIPs))
                  (BatchEnv (baseCtx\<lparr>bc_Job := job, bc_BatchIndex := i, bc_BatchCount := int (length batches),
                                     bc_BatchAllocation := batchIPs\<rparr>)))
              (enumerate 0 batches))"

definition executeAllocationEventHooks ::
  "deploy_env \<Rightarrow> string \<Rightarrow> string \<Rightarrow> string list \<Rightarrow> BatchContext \<Rightarrow> unit deploy" where
  "executeAllocationEventHooks e job event workerIPs batchCtx =
     (if workerIPs = [] then ret ()
      else bindD (readC (\<lambda>c. GetHooks c job event)) (\<lambda>commands.
        forD (\<lambda>command. RunHookOnWorkers e job command event workerIPs (int (length workerIPs))
                (BatchEnv (batchCtx\<lparr>bc_Job := job\<rparr>)))
          commands))"

section \<open>Promotion and the health gate\<close>

definition promoteAllocationWorkers :: "deploy_env \<Rightarrow> string \<Rightarrow> string list \<Rightarrow> unit deploy" where
  "promoteAllocationWorkers e job workerIPs =
     forD (\<lambda>workerIP.
       bindD (query (\<lambda>c. GetAllocationID c workerIP job)) (\<lambda>allocID.
       thenD (writeC (PromoteAllocationState allocID))
             (clearWorkerVersionKVKeys e job workerIP))) workerIPs"

definition markAllocationWorkersHealthFailed :: "string \<Rightarrow> string list \<Rightarrow> unit deploy" where
  "markAllocationWorkersHealthFailed job workerIPs =
     forD (\<lambda>workerIP.
       bindD (query (\<lambda>c. GetAllocationID c workerIP job)) (\<lambda>allocID.
         writeC (MarkAllocationHealthFailed allocID))) workerIPs"

definition promoteThenHealth :: "deploy_env \<Rightarrow> string \<Rightarrow> string list \<Rightarrow> unit deploy" where
  "promoteThenHealth e job batch =
     thenD (promoteAllocationWorkers e job batch)
       (\<lambda>w. case perform e (HealthGate job) w of
              (Inr u, w1) \<Rightarrow> (Inr u, w1)
            | (Inl err, w1) \<Rightarrow>
                (case markAllocationWorkersHealthFailed job batch w1 of
                   (Inl markErr, w2) \<Rightarrow> (Inl markErr, w2)
                 | (Inr u, w2) \<Rightarrow> (Inl err, w2)))"

definition promoteAllocationHash :: "deploy_env \<Rightarrow> string \<Rightarrow> unit deploy" where
  "promoteAllocationHash e job =
     bindD (readC (\<lambda>c. GetNonRemovedAllocations c job)) (promoteAllocationWorkers e job)"

text \<open>\<open>staged_tree\<close> is the hash of the staged directory of a job on a worker, without host-local paths.\<close>

definition updateJobAllocationHashes :: "deploy_env \<Rightarrow> string \<Rightarrow> unit deploy" where
  "updateJobAllocationHashes e job =
     bindD (readC (\<lambda>c. GetNonRemovedAllocations c job)) (forD (\<lambda>workerIP.
       bindD (query (\<lambda>c. GetAllocationID c workerIP job)) (\<lambda>allocID.
       bindD (\<lambda>w. (staged_tree e (trace w) workerIP job, w)) (\<lambda>tree.
       thenD (writeC (UpdateAllocationPlan allocID (fst tree) (snd tree)))
             (clearWorkerVersionKVKeys e job workerIP)))))"

definition updateAllocationHash :: "deploy_env \<Rightarrow> string list \<Rightarrow> unit deploy" where
  "updateAllocationHash e js = forD (updateJobAllocationHashes e) js"

section \<open>Batches of a rollout\<close>

definition ResolveRolloutOrder :: "deploy_env \<Rightarrow> string \<Rightarrow> string list \<Rightarrow> ResolvedOrder deploy" where
  "ResolveRolloutOrder e job candidates w =
     (ResolveOrder (Inr (GetNonRemovedAllocationsOrdered (cat w) job)) (rollout_order_kv e (trace w) job) candidates, w)"

definition activeWorkers :: "catalog \<Rightarrow> string \<Rightarrow> string list \<Rightarrow> string list result" where
  "activeWorkers c job workerIPs =
     rbind (rmap (\<lambda>ip. rbind (IsAllocationActive c ip job) (\<lambda>ok. Inr (ip, ok))) workerIPs)
       (\<lambda>rs. Inr (map fst (filter snd rs)))"

text \<open>The body of the batch loops: pre-batch gate, transfer and lifecycle command, hooks, promotion and gate.\<close>

definition rolloutBatch ::
  "deploy_env \<Rightarrow> string \<Rightarrow> bool \<Rightarrow> (string \<Rightarrow> unit deploy) \<Rightarrow> string \<Rightarrow> string \<Rightarrow> ResolvedOrder \<Rightarrow> int
     \<Rightarrow> nat \<times> string list \<Rightarrow> unit deploy" where
  "rolloutBatch e job force workerFn phase event resolved totalBatches = (\<lambda>(i, batch).
     thenD (preBatchHealthCheck e job force)
    (thenD (runParallelWorkers batch workerFn)
    (thenD (executeAllocationEventHooks e job event batch
              \<lparr>bc_Job = job, bc_Phase = phase, bc_BatchIndex = i, bc_BatchCount = totalBatches,
               bc_BatchAllocation = batch, bc_RolloutOrder = FullOrder resolved, bc_OrderSource = Source resolved\<rparr>)
           (promoteThenHealth e job batch))))"

definition rolloutStartBatches ::
  "deploy_env \<Rightarrow> string \<Rightarrow> string list \<Rightarrow> bool \<Rightarrow> (string \<Rightarrow> unit deploy) \<Rightarrow> (string \<Rightarrow> unit deploy) \<Rightarrow> unit deploy" where
  "rolloutStartBatches e job candidates force startFn rsyncFn =
     (if candidates = [] then ret ()
      else bindD (query (\<lambda>c. activeWorkers c job candidates)) (\<lambda>active.
        if active = [] then ret ()
        else bindD (ResolveRolloutOrder e job active) (\<lambda>resolved.
             bindD (query (\<lambda>c. GetMaxConcurrentStarts c job)) (\<lambda>parallelism.
             bindD (query (\<lambda>_. maxConcurrentSyncs e)) (\<lambda>hardCap.
               let n = int (length (Ordered resolved));
                   batchSize = effectiveBatchSize parallelism n hardCap
               in forD (rolloutBatch e job force (\<lambda>ip. thenD (rsyncFn ip) (startFn ip)) ''new''
                          ''after_allocation_started'' resolved (BatchCount n batchSize))
                    (enumerate 0 (batch_loop (nat batchSize) (Ordered resolved) 0)))))))"

definition rolloutRestartBatches ::
  "deploy_env \<Rightarrow> string \<Rightarrow> string list \<Rightarrow> bool \<Rightarrow> (string \<Rightarrow> unit deploy) \<Rightarrow> (string \<Rightarrow> unit deploy) \<Rightarrow> unit deploy" where
  "rolloutRestartBatches e job candidates force restartFn rsyncFn =
     (if candidates = [] then ret ()
      else bindD (query (\<lambda>c. activeWorkers c job candidates)) (\<lambda>active.
        if active = [] then ret ()
        else bindD (ResolveRolloutOrder e job active) (\<lambda>resolved.
             bindD (query (\<lambda>c. GetMaxConcurrentRestarts c job)) (\<lambda>configured.
             bindD (query (\<lambda>_. maxConcurrentSyncs e)) (\<lambda>hardCap.
               let n = int (length (Ordered resolved));
                   parallelism = effectiveBatchSize (if configured < 1 then 1 else configured) n hardCap
               in forD (rolloutBatch e job force (\<lambda>ip. thenD (rsyncFn ip) (restartFn ip)) ''update''
                          ''after_allocation_restarted'' resolved (BatchCount n parallelism))
                    (enumerate 0 (batch_loop (nat parallelism) (Ordered resolved) 0)))))))"

definition hash_row_missing :: "catalog \<Rightarrow> string \<Rightarrow> string \<Rightarrow> bool result" where
  "hash_row_missing c job workerIP =
     rbind (GetAllocationID c workerIP job) (\<lambda>allocID.
       Inr (length (filter (\<lambda>h. h_alloc_id h = allocID) (allocation_hashes c)) = 0))"

fun first_missing :: "(string \<Rightarrow> bool result) \<Rightarrow> string list \<Rightarrow> bool result" where
  "first_missing f [] = Inr False"
| "first_missing f (ip # ips) = rbind (f ip) (\<lambda>b. if b then Inr True else first_missing f ips)"

definition JobNeedsRollout :: "catalog \<Rightarrow> string \<Rightarrow> bool result" where
  "JobNeedsRollout c job =
     rbind (first_missing (hash_row_missing c job) (GetNonRemovedAllocations c job)) (\<lambda>missing.
       Inr (missing \<or> GetNewAllocations c job \<noteq> [] \<or> GetUpdatedNonRemovedAllocations c job \<noteq> [] \<or>
            GetVersionPendingNonRemovedAllocations c job \<noteq> []))"

section \<open>The rollout of a job\<close>

definition handleNewAllocations :: "deploy_env \<Rightarrow> string \<Rightarrow> string \<Rightarrow> bool \<Rightarrow> unit deploy" where
  "handleNewAllocations e bucketID job force =
     bindD (readC (\<lambda>c. GetNewAllocations c job)) (\<lambda>newAllocations.
       if newAllocations = [] then ret ()
       else rolloutStartBatches e job newAllocations force
              (runLifecycle e bucketID job ''start'') (\<lambda>ip. syncWorkerFiles e bucketID ip [job]))"

definition allocationsNeedingRestart :: "catalog \<Rightarrow> string \<Rightarrow> bool \<Rightarrow> string list result" where
  "allocationsNeedingRestart c job force =
     (let newAllocations = GetNewAllocations c job
      in if \<not> force then
           Inr (Difference (Unique (GetUpdatedAllocations c job @ GetVersionPendingAllocations c job)) newAllocations)
         else rbind (GetActiveAllocations c job) (\<lambda>active. Inr (Difference active newAllocations)))"

definition updateAction ::
  "catalog \<Rightarrow> string \<Rightarrow> string \<Rightarrow> string list \<Rightarrow> string list \<Rightarrow> string \<Rightarrow> (string \<times> rolloutAction) result" where
  "updateAction c job policy restartGlobs reloadGlobs workerIP =
     rbind (GetAllocationID c workerIP job) (\<lambda>allocID.
       let (current, previous, ok) = GetAllocationHash c allocID;
           hashChanged = (ok \<and> previous \<noteq> '''' \<and> previous \<noteq> current)
       in rbind (AllocationNeedsVersionRollout c job workerIP) (\<lambda>needsVersion.
          let versionOnly = (needsVersion \<and> \<not> hashChanged);
              manifests = GetAllocationFileManifests c allocID
          in Inr (workerIP, fst (resolveUpdateAction policy restartGlobs reloadGlobs
                (Applied manifests) (Pending manifests) hashChanged versionOnly (\<not> HasAppliedFiles manifests)))))"

definition handleUpdatedAllocations :: "deploy_env \<Rightarrow> string \<Rightarrow> string \<Rightarrow> bool \<Rightarrow> unit deploy" where
  "handleUpdatedAllocations e bucketID job force =
     bindD (query (\<lambda>c. allocationsNeedingRestart c job force)) (\<lambda>updatedAllocations.
       if updatedAllocations = [] then ret ()
       else
         bindD (query (\<lambda>c. GetRestartPolicy c job)) (\<lambda>policy.
         bindD (query (\<lambda>c. GetRestartGlobs c job)) (\<lambda>restartGlobs.
         bindD (query (\<lambda>c. GetReloadGlobs c job)) (\<lambda>reloadGlobs.
         bindD (query (\<lambda>c. rmap (updateAction c job policy restartGlobs reloadGlobs) updatedAllocations)) (\<lambda>actions.
           let restartWorkers = map fst (filter (\<lambda>(ip, a). a = rolloutActionRestart) actions);
               reloadWorkers = map fst (filter (\<lambda>(ip, a). a = rolloutActionReload) actions);
               rsyncFn = (\<lambda>ip. syncWorkerFiles e bucketID ip [job])
           in thenD
                (if reloadWorkers = [] then ret ()
                 else rolloutRestartBatches e job reloadWorkers force (runLifecycle e bucketID job ''reload'') rsyncFn)
                (if restartWorkers = [] then ret ()
                 else rolloutRestartBatches e job restartWorkers force (runLifecycle e bucketID job ''restart'') rsyncFn))))))"

definition finalizeJobDeploy :: "deploy_env \<Rightarrow> string \<Rightarrow> unit deploy" where
  "finalizeJobDeploy e job = promoteAllocationHash e job"

definition jobControlBatch ::
  "deploy_env \<Rightarrow> string \<Rightarrow> string \<Rightarrow> bool \<Rightarrow> string list \<Rightarrow> string list \<Rightarrow> ResolvedOrder \<Rightarrow> nat
     \<Rightarrow> nat \<times> string list \<Rightarrow> unit deploy" where
  "jobControlBatch e bucketID job force commands extraEnv resolved batchCount = (\<lambda>(i, batch).
     thenD (preBatchHealthCheck e job force)
    (thenD (forD (\<lambda>ip. syncWorkerFiles e bucketID ip [job]) batch)
    (thenD (forD (\<lambda>command. RunHookOnWorkers e job command ''job_control'' batch (int (length batch))
              (extraEnv @ BatchEnv
                \<lparr>bc_Job = job, bc_Phase = ''job_control'', bc_BatchIndex = i, bc_BatchCount = int batchCount,
                 bc_BatchAllocation = batch, bc_RolloutOrder = FullOrder resolved,
                 bc_OrderSource = Source resolved\<rparr>)) commands)
           (promoteThenHealth e job batch))))"

definition runJobControlRollout ::
  "deploy_env \<Rightarrow> string \<Rightarrow> string \<Rightarrow> string list \<Rightarrow> bool \<Rightarrow> unit deploy" where
  "runJobControlRollout e bucketID job commands force =
     bindD (readC (\<lambda>c. GetAllocatedWorkers c job)) (\<lambda>allocs.
     bindD (readC (\<lambda>c. GetNewAllocations c job)) (\<lambda>newAllocations.
     bindD (query (\<lambda>c. allocationsNeedingRestart c job force)) (\<lambda>updatedAllocations.
     bindD (ResolveRolloutOrder e job allocs) (\<lambda>resolved.
     bindD (query (\<lambda>c. GetMaxConcurrentRestarts c job)) (\<lambda>batchSize.
       let extraEnv = [''UPDATED_ALLOCATIONS='' @ Join updatedAllocations '','',
                       ''NEW_ALLOCATIONS='' @ Join newAllocations '',''];
           batches = SplitWorkerBatches (Ordered resolved) batchSize
       in forD (jobControlBatch e bucketID job force commands extraEnv resolved (length batches))
            (enumerate 0 batches))))))"

definition deployJobWithCommands ::
  "deploy_env \<Rightarrow> string \<Rightarrow> string \<Rightarrow> string list \<Rightarrow> bool \<Rightarrow> unit deploy" where
  "deployJobWithCommands e bucketID job commands force =
     bindD (query (\<lambda>c. JobNeedsRollout c job)) (\<lambda>needsRollout.
       if \<not> force \<and> \<not> needsRollout then ret ()
       else thenD (runJobControlRollout e bucketID job commands force) (finalizeJobDeploy e job))"

definition deployJob :: "deploy_env \<Rightarrow> string \<Rightarrow> string \<Rightarrow> bool \<Rightarrow> unit deploy" where
  "deployJob e bucketID job force =
     bindD (readC (\<lambda>c. GetHooks c job ''job_control'')) (\<lambda>commands.
       if commands \<noteq> [] then deployJobWithCommands e bucketID job commands force
       else bindD (query (\<lambda>c. JobNeedsRollout c job)) (\<lambda>needsRollout.
         if needsRollout \<or> force then
           thenD (handleNewAllocations e bucketID job force)
          (thenD (handleUpdatedAllocations e bucketID job force)
                 (finalizeJobDeploy e job))
         else ret ()))"

section \<open>Relations that hold across every action\<close>

lemma bindD_cases:
  "bindD m f w = (r, w') \<longleftrightarrow>
     (\<exists>x. m w = (Inl x, w') \<and> r = Inl x) \<or> (\<exists>a w1. m w = (Inr a, w1) \<and> f a w1 = (r, w'))"
  by (auto simp: bindD_def split: prod.splits sum.splits)

lemma bindD_Inr: "bindD m f w = (Inr b, w') \<longleftrightarrow> (\<exists>a w1. m w = (Inr a, w1) \<and> f a w1 = (Inr b, w'))"
  by (auto simp: bindD_cases)

lemma thenD_Inr: "thenD m n w = (Inr b, w') \<longleftrightarrow> (\<exists>a w1. m w = (Inr a, w1) \<and> n w1 = (Inr b, w'))"
  by (simp add: thenD_def bindD_Inr)

lemma thenD_Inl:
  "thenD m n w = (Inl x, w') \<longleftrightarrow> m w = (Inl x, w') \<or> (\<exists>a w1. m w = (Inr a, w1) \<and> n w1 = (Inl x, w'))"
  by (auto simp: thenD_def bindD_cases)

lemmas act_simps = ret_def raise_def query_def readC_def writeC_def

text \<open>
  An effect relation relates a state to the states reached from it by actions. It is reflexive and
  transitive and holds for the recording of one event; then it holds across every composition of
  actions whose catalog writes it tolerates. The rollout code needs it for two writes, promotion
  and the health-failed mark of an allocation of the job.
\<close>

locale effect_relation =
  fixes R :: "world \<Rightarrow> world \<Rightarrow> bool"
  assumes R_refl: "R w w"
    and R_trans: "R u v \<Longrightarrow> R v w \<Longrightarrow> R u w"
    and R_event: "R w (w\<lparr>trace := trace w @ [ev]\<rparr>)"
begin

lemma R_ret: "R w (snd (ret x w))" and R_raise: "R w (snd (raise y w))"
  and R_query: "R w (snd (query f w))" and R_readC: "R w (snd (readC g w))"
  by (simp_all add: act_simps R_refl)

lemma R_perform: "R w (snd (perform e ev w))"
  by (simp add: perform_def R_event)

lemma R_bind:
  assumes "R w (snd (m w))" "\<And>x w1. m w = (Inr x, w1) \<Longrightarrow> R w1 (snd (f x w1))"
  shows "R w (snd (bindD m f w))"
proof (cases "m w")
  case (Pair r w1)
  show ?thesis
  proof (cases r)
    case (Inl x)
    with Pair assms(1) show ?thesis by (simp add: bindD_def)
  next
    case (Inr a)
    with Pair assms show ?thesis by (auto simp: bindD_def intro: R_trans)
  qed
qed

lemma R_then: "R w (snd (m w)) \<Longrightarrow> (\<And>w1. R w1 (snd (n w1))) \<Longrightarrow> R w (snd (thenD m n w))"
  unfolding thenD_def by (rule R_bind)

lemma R_for: "(\<And>x w1. x \<in> set xs \<Longrightarrow> R w1 (snd (f x w1))) \<Longrightarrow> R w (snd (forD f xs w))"
  by (induction xs arbitrary: w) (auto intro: R_ret R_then)

lemma R_ignoring: "R w (snd (m w)) \<Longrightarrow> R w (snd (ignoring P m w))"
  by (auto simp: ignoring_def split: prod.splits sum.splits)

lemma R_parallel_errors: "(\<And>ip w1. R w1 (snd (f ip w1))) \<Longrightarrow> R w (snd (parallel_errors f ips w))"
proof (induction ips arbitrary: w)
  case Nil
  then show ?case by (simp add: R_refl)
next
  case (Cons ip ips)
  obtain r w1 where "f ip w = (r, w1)" by (cases "f ip w")
  moreover have "R w w1" using Cons.prems [of w ip] calculation by simp
  moreover have "R w1 (snd (parallel_errors f ips w1))" by (rule Cons.IH) (rule Cons.prems)
  ultimately show ?case by (auto split: prod.splits intro: R_trans)
qed

lemma R_parallel: "(\<And>ip w1. R w1 (snd (f ip w1))) \<Longrightarrow> R w (snd (runParallelWorkers ips f w))"
  using R_parallel_errors [of f w ips] by (auto simp: runParallelWorkers_def split: prod.splits)

lemma R_resolve: "R w (snd (ResolveRolloutOrder e job ips w))"
  by (simp add: ResolveRolloutOrder_def R_refl)

lemmas R_rules = R_ret R_raise R_query R_readC R_perform R_ignoring R_resolve R_bind R_then R_for R_parallel

lemma R_sync: "R w (snd (syncWorkerFiles e b ip js w))"
  unfolding syncWorkerFiles_def by (intro R_rules)

lemma R_gate: "R w (snd (preBatchHealthCheck e job force w))"
  unfolding preBatchHealthCheck_def by (auto intro: R_rules)

lemma R_clear: "R w (snd (clearWorkerVersionKVKeys e job ip w))"
  unfolding clearWorkerVersionKVKeys_def by (intro R_rules)

lemma R_lifecycle: "R w (snd (runLifecycle e b job action ip w))"
  unfolding runLifecycle_def by (intro R_rules)

lemma R_hook: "R w (snd (RunHookOnWorkers e job h ev ips n env w))"
  unfolding RunHookOnWorkers_def by (auto intro!: R_bind R_readC R_raise R_ret R_perform)

lemma R_hook_batches: "R w (snd (RunHookInBatches e job h ev ips n ctx w))"
  unfolding RunHookInBatches_def Let_def by (auto intro!: R_ret R_for R_hook)

lemma R_event_hooks: "R w (snd (executeAllocationEventHooks e job ev ips ctx w))"
  unfolding executeAllocationEventHooks_def by (auto intro!: R_ret R_readC R_bind R_for R_hook)

end

locale rollout_relation = effect_relation R for R :: "world \<Rightarrow> world \<Rightarrow> bool" +
  fixes job :: string
  assumes R_promote: "GetAllocationID (cat w) ip job = Inr i \<Longrightarrow> R w (w\<lparr>cat := PromoteAllocationState i (cat w)\<rparr>)"
    and R_mark: "GetAllocationID (cat w) ip job = Inr i \<Longrightarrow> R w (w\<lparr>cat := MarkAllocationHealthFailed i (cat w)\<rparr>)"
begin

lemma R_promote_workers: "R w (snd (promoteAllocationWorkers e job ips w))"
  unfolding promoteAllocationWorkers_def
  by (intro R_rules R_clear) (auto simp: act_simps intro: R_promote)

lemma R_mark_workers: "R w (snd (markAllocationWorkersHealthFailed job ips w))"
  unfolding markAllocationWorkersHealthFailed_def
  by (intro R_rules) (auto simp: act_simps intro: R_mark)

lemma R_promote_health: "R w (snd (promoteThenHealth e job ips w))"
  unfolding promoteThenHealth_def
proof (rule R_then [OF R_promote_workers])
  fix w1
  show "R w1 (snd (case perform e (HealthGate job) w1 of (Inr u, w2) \<Rightarrow> (Inr u, w2)
      | (Inl err, w2) \<Rightarrow> (case markAllocationWorkersHealthFailed job ips w2 of
           (Inl markErr, w3) \<Rightarrow> (Inl markErr, w3) | (Inr u, w3) \<Rightarrow> (Inl err, w3))))"
    using R_perform [of w1 e "HealthGate job"] R_mark_workers [of "snd (perform e (HealthGate job) w1)" ips]
    by (auto split: prod.splits sum.splits intro: R_trans)
qed

lemma R_batch: "(\<And>ip w1. R w1 (snd (f ip w1))) \<Longrightarrow> R w (snd (rolloutBatch e job force f phase ev rs n ib w))"
  unfolding rolloutBatch_def
  by (cases ib) (auto intro!: R_then R_gate R_parallel R_event_hooks R_promote_health)

lemma R_start_batches:
  "(\<And>ip w1. R w1 (snd (f ip w1))) \<Longrightarrow> (\<And>ip w1. R w1 (snd (g ip w1))) \<Longrightarrow>
     R w (snd (rolloutStartBatches e job ips force f g w))"
  unfolding rolloutStartBatches_def Let_def
  by (auto intro!: R_ret R_bind R_query R_resolve R_for R_batch R_then)

lemma R_restart_batches:
  "(\<And>ip w1. R w1 (snd (f ip w1))) \<Longrightarrow> (\<And>ip w1. R w1 (snd (g ip w1))) \<Longrightarrow>
     R w (snd (rolloutRestartBatches e job ips force f g w))"
  unfolding rolloutRestartBatches_def Let_def
  by (auto intro!: R_ret R_bind R_query R_resolve R_for R_batch R_then)

lemma R_new: "R w (snd (handleNewAllocations e b job force w))"
  unfolding handleNewAllocations_def
  by (auto intro!: R_ret R_bind R_readC R_start_batches R_lifecycle R_sync)

lemma R_updated: "R w (snd (handleUpdatedAllocations e b job force w))"
  unfolding handleUpdatedAllocations_def Let_def
  by (auto intro!: R_ret R_bind R_query R_then R_restart_batches R_lifecycle R_sync)

lemma R_finalize: "R w (snd (finalizeJobDeploy e job w))"
  unfolding finalizeJobDeploy_def promoteAllocationHash_def by (intro R_bind R_readC R_promote_workers)

lemma R_job_control: "R w (snd (runJobControlRollout e b job cmds force w))"
  unfolding runJobControlRollout_def Let_def jobControlBatch_def
  by (auto intro!: R_bind R_readC R_query R_resolve R_for R_then R_gate R_sync R_hook R_promote_health)

lemma R_deployJob: "R w (snd (deployJob e b job force w))"
  unfolding deployJob_def deployJobWithCommands_def
  by (auto intro!: R_bind R_readC R_query R_ret R_then R_job_control R_finalize R_new R_updated)

end

section \<open>What a rollout may change\<close>

definition job_alloc_ids :: "catalog \<Rightarrow> string \<Rightarrow> string set" where
  "job_alloc_ids c job = a_alloc_id ` {a \<in> set (allocations c). a_job a = job}"

text \<open>The states a hash row can be left in: as it was, promoted, or marked health-failed (with or without promotion).\<close>

definition row_states :: "catalog \<Rightarrow> string \<Rightarrow> (hash_row \<Rightarrow> hash_row) set" where
  "row_states c k = {id, promoted_row k c, health_failed_row, health_failed_row \<circ> promoted_row k c}"

definition same_tables :: "catalog \<Rightarrow> catalog \<Rightarrow> bool" where
  "same_tables c c' =
     (allocations c' = allocations c \<and> jobs c' = jobs c \<and> workers c' = workers c \<and>
      worker_labels c' = worker_labels c \<and> hooks c' = hooks c \<and> build_hashes c' = build_hashes c)"

definition rows_follow :: "string \<Rightarrow> catalog \<Rightarrow> catalog \<Rightarrow> bool" where
  "rows_follow job c c' =
     (\<forall>k. \<exists>f \<in> (if k \<in> job_alloc_ids c job then row_states c k else {id}).
        hash_of c' k = map_option f (hash_of c k))"

definition rollout_frame :: "string \<Rightarrow> world \<Rightarrow> world \<Rightarrow> bool" where
  "rollout_frame job w w' =
     (same_tables (cat w) (cat w') \<and> rows_follow job (cat w) (cat w') \<and>
      (catalog_wf (cat w) \<longrightarrow> catalog_wf (cat w')) \<and> generation w' = generation w \<and>
      (\<exists>evs. trace w' = trace w @ evs))"

lemma promoted_row_alloc: "allocations c' = allocations c \<Longrightarrow> promoted_row k c' = promoted_row k c"
  by (simp add: promoted_row_def [abs_def] target_version_def)

lemma row_states_comp: "f \<in> row_states c k \<Longrightarrow> g \<in> row_states c k \<Longrightarrow> g \<circ> f \<in> row_states c k"
  by (auto simp: row_states_def promoted_row_def health_failed_row_def fun_eq_iff)

lemma row_states_alloc: "allocations c' = allocations c \<Longrightarrow> row_states c' k = row_states c k"
  unfolding row_states_def by (simp only: promoted_row_alloc [of c' c])

lemma rows_follow_refl: "rows_follow job c c"
  unfolding rows_follow_def by (auto simp: row_states_def option.map_id)

lemma rows_follow_trans:
  assumes "rows_follow job c1 c2" "rows_follow job c2 c3" "allocations c2 = allocations c1"
  shows "rows_follow job c1 c3"
  unfolding rows_follow_def
proof
  fix k
  let ?S = "if k \<in> job_alloc_ids c1 job then row_states c1 k else {id}"
  have s: "(if k \<in> job_alloc_ids c2 job then row_states c2 k else {id}) = ?S"
    by (simp only: job_alloc_ids_def assms(3) row_states_alloc [OF assms(3)])
  obtain f where f: "f \<in> ?S" "hash_of c2 k = map_option f (hash_of c1 k)"
    using assms(1) unfolding rows_follow_def by blast
  obtain g where g: "g \<in> ?S" "hash_of c3 k = map_option g (hash_of c2 k)"
    using assms(2) s unfolding rows_follow_def by metis
  have "g \<circ> f \<in> ?S" using f g row_states_comp by (auto split: if_splits)
  moreover have "hash_of c3 k = map_option (g \<circ> f) (hash_of c1 k)"
    using f g by (simp add: option.map_comp)
  ultimately show "\<exists>f \<in> ?S. hash_of c3 k = map_option f (hash_of c1 k)" by blast
qed

lemma frame_write:
  assumes "same_tables (cat w) c'" "catalog_wf (cat w) \<Longrightarrow> catalog_wf c'"
    and "\<And>k. hash_of c' k = (if k = i then map_option f (hash_of (cat w) k) else hash_of (cat w) k)"
    and "i \<in> job_alloc_ids (cat w) job" "f \<in> row_states (cat w) i"
  shows "rollout_frame job w (w\<lparr>cat := c'\<rparr>)"
proof -
  have "rows_follow job (cat w) c'"
    unfolding rows_follow_def
  proof
    fix k
    have "id \<in> (if k \<in> job_alloc_ids (cat w) job then row_states (cat w) k else {id})"
      by (simp add: row_states_def)
    moreover have "hash_of c' k = map_option id (hash_of (cat w) k)" if "k \<noteq> i"
      using assms(3) [of k] that by (simp add: option.map_id)
    moreover have "hash_of c' i = map_option f (hash_of (cat w) i)" using assms(3) [of i] by simp
    ultimately show "\<exists>f \<in> (if k \<in> job_alloc_ids (cat w) job then row_states (cat w) k else {id}).
        hash_of c' k = map_option f (hash_of (cat w) k)"
      using assms(4,5) by (cases "k = i") (metis, blast)
  qed
  with assms show ?thesis by (simp add: rollout_frame_def)
qed

lemma alloc_id_of_job: "GetAllocationID c ip job = Inr i \<Longrightarrow> i \<in> job_alloc_ids c job"
  by (erule GetAllocationID_Inr) (auto simp: job_alloc_ids_def)

lemma same_tables_writes:
  "same_tables c (PromoteAllocationState i c)" "same_tables c (MarkAllocationHealthFailed i c)"
  "same_tables c (RemoveAllocationHash i c)" "same_tables c (UpdateAllocationPlan i h p c)"
  by (simp_all add: same_tables_def PromoteAllocationState_def deleteOrphanFileHashRows_def
      MarkAllocationHealthFailed_def RemoveAllocationHash_def UpdateAllocationPlan_def
      upsertAllocationPendingFiles_def split: option.split)

interpretation frame: rollout_relation "rollout_frame job" job for job
proof
  fix u v w :: world and ev ip i
  show "rollout_frame job w w" by (simp add: rollout_frame_def same_tables_def rows_follow_refl)
  show "rollout_frame job u w" if "rollout_frame job u v" "rollout_frame job v w"
    using that rows_follow_trans [of job "cat u" "cat v" "cat w"]
    by (auto simp: rollout_frame_def same_tables_def)
  show "rollout_frame job w (w\<lparr>trace := trace w @ [ev]\<rparr>)"
    by (simp add: rollout_frame_def same_tables_def rows_follow_refl)
  assume "GetAllocationID (cat w) ip job = Inr i"
  then have i: "i \<in> job_alloc_ids (cat w) job" by (rule alloc_id_of_job)
  show "rollout_frame job w (w\<lparr>cat := PromoteAllocationState i (cat w)\<rparr>)"
    by (rule frame_write [OF same_tables_writes(1) wf_promote promote.look_upd i])
       (simp_all add: row_states_def)
  show "rollout_frame job w (w\<lparr>cat := MarkAllocationHealthFailed i (cat w)\<rparr>)"
    by (rule frame_write [OF same_tables_writes(2) wf_mark health_fail.look_upd i])
       (simp_all add: row_states_def)
qed

section \<open>Promotion of a list of workers\<close>

interpretation same_cat: effect_relation "\<lambda>w w'. cat w' = cat w"
  by unfold_locales simp_all

lemma cat_clear [simp]: "clearWorkerVersionKVKeys e job ip w = (r, w') \<Longrightarrow> cat w' = cat w"
  using same_cat.R_clear [where w = w and e = e and job = job and ip = ip] by simp

lemma GetAllocationID_alloc: "allocations c' = allocations c \<Longrightarrow> GetAllocationID c' = GetAllocationID c"
  by (intro ext) (simp add: GetAllocationID_def alloc_of_def)

lemma promote_workers_fold:
  assumes "promoteAllocationWorkers e job ips w = (Inr u, w')"
  shows "\<exists>ids. rmap (\<lambda>ip. GetAllocationID (cat w) ip job) ips = Inr ids \<and>
    cat w' = fold PromoteAllocationState ids (cat w)"
  using assms
proof (induction ips arbitrary: w)
  case Nil
  then show ?case by (simp add: promoteAllocationWorkers_def act_simps)
next
  case (Cons ip ips)
  from Cons.prems obtain i w1 w2 where
    i: "GetAllocationID (cat w) ip job = Inr i"
    and w1: "clearWorkerVersionKVKeys e job ip (w\<lparr>cat := PromoteAllocationState i (cat w)\<rparr>) = (Inr (), w1)"
    and rest: "promoteAllocationWorkers e job ips w1 = (Inr u, w')"
    by (auto simp: promoteAllocationWorkers_def thenD_Inr bindD_Inr act_simps)
  have c1: "cat w1 = PromoteAllocationState i (cat w)" using cat_clear [OF w1] by simp
  from Cons.IH [OF rest] obtain ids where
    "rmap (\<lambda>ip. GetAllocationID (cat w) ip job) ips = Inr ids"
    "cat w' = fold PromoteAllocationState ids (PromoteAllocationState i (cat w))"
    using GetAllocationID_alloc [of "cat w1" "cat w"] c1 by auto
  with i show ?case by auto
qed

lemma promote_workers_rows:
  assumes "promoteAllocationWorkers e job ips w = (Inr u, w')" "catalog_wf (cat w)"
    and "a \<in> set (allocations (cat w))" "a_job a = job" "a_worker_ip a \<in> set ips"
  shows "hash_of (cat w') (a_alloc_id a) =
    map_option (promoted_row (a_alloc_id a) (cat w)) (hash_of (cat w) (a_alloc_id a))"
proof -
  obtain ids where ids: "rmap (\<lambda>ip. GetAllocationID (cat w) ip job) ips = Inr ids"
    and c: "cat w' = fold PromoteAllocationState ids (cat w)"
    using promote_workers_fold [OF assms(1)] by blast
  have "GetAllocationID (cat w) (a_worker_ip a) job = Inr (a_alloc_id a)"
    using GetAllocationID_wf [OF assms(2,3)] assms(4) by simp
  with assms(5) ids have "a_alloc_id a \<in> set ids"
  proof (induction ips arbitrary: ids)
    case (Cons ip ips)
    from Cons.prems obtain i js where "GetAllocationID (cat w) ip job = Inr i" "ids = i # js"
      "rmap (\<lambda>ip. GetAllocationID (cat w) ip job) ips = Inr js" by (auto simp: rbind_eq_Inr)
    with Cons show ?case by auto
  qed simp
  with c show ?thesis by (simp add: promote.look_fold)
qed

section \<open>A settled job needs no rollout\<close>

definition planned :: "catalog \<Rightarrow> string \<Rightarrow> bool" where
  "planned c job = list_all (\<lambda>a. live_row job a \<longrightarrow>
     (case hash_of c (a_alloc_id a) of None \<Rightarrow> False | Some h \<Rightarrow> pending_hash h \<noteq> None)) (allocations c)"

definition settled_row :: "allocation_row \<Rightarrow> hash_row \<Rightarrow> bool" where
  "settled_row a h = (pending_hash h \<noteq> None \<and> applied_hash h = pending_hash h \<and>
     applied_version h = Some (ifnull (a_version a) DefaultAllocationVersion))"

definition settled :: "catalog \<Rightarrow> string \<Rightarrow> bool" where
  "settled c job = list_all (\<lambda>a. live_row job a \<longrightarrow>
     (case hash_of c (a_alloc_id a) of None \<Rightarrow> False | Some h \<Rightarrow> settled_row a h)) (allocations c)"

lemma settled_iff:
  "settled c job \<longleftrightarrow> (\<forall>a \<in> set (allocations c). live_row job a \<longrightarrow>
     (\<exists>h. hash_of c (a_alloc_id a) = Some h \<and> settled_row a h))"
  by (auto simp: settled_def list_all_iff split: option.splits)

lemma first_missing_False: "(\<And>x. x \<in> set xs \<Longrightarrow> f x = Inr False) \<Longrightarrow> first_missing f xs = Inr False"
  by (induction xs) auto

lemma hash_row_missing_wf:
  assumes "catalog_wf c" "a \<in> set (allocations c)"
  shows "hash_row_missing c (a_job a) (a_worker_ip a) = Inr (hash_of c (a_alloc_id a) = None)"
  using assms by (auto simp: hash_row_missing_def GetAllocationID_wf hash_of_def find_key_None filter_empty_conv image_iff)

lemma sql_neq_same [simp]: "\<not> sql_neq x x"
  by (cases x) (simp_all add: sql_neq_def)

lemma settled_no_rollout:
  assumes "catalog_wf c" "settled c job"
  shows "JobNeedsRollout c job = Inr False"
proof -
  note s = assms(2) [unfolded settled_iff]
  have m: "first_missing (hash_row_missing c job) (GetNonRemovedAllocations c job) = Inr False"
  proof (rule first_missing_False)
    fix ip
    assume "ip \<in> set (GetNonRemovedAllocations c job)"
    then obtain a where a: "a \<in> set (allocations c)" "live_row job a" "ip = a_worker_ip a"
      by (auto simp: GetNonRemovedAllocations_def live_row_def)
    then show "hash_row_missing c job ip = Inr False"
      using hash_row_missing_wf [OF assms(1) a(1)] s by (auto simp: live_row_def)
  qed
  have "GetNewAllocations c job = []"
    using s by (force simp: GetNewAllocations_def filter_empty_conv joined_hashes_iff [OF assms(1)]
        active_row_def live_row_def settled_row_def)
  moreover have "GetUpdatedNonRemovedAllocations c job = []"
    using s by (force simp: GetUpdatedNonRemovedAllocations_def filter_empty_conv joined_hashes_iff [OF assms(1)]
        settled_row_def content_pending_def)
  moreover have "GetVersionPendingNonRemovedAllocations c job = []"
    using s by (force simp: GetVersionPendingNonRemovedAllocations_def version_pending_rows_def
        applied_versions_wf [OF assms(1)] filter_empty_conv settled_row_def ifnull_def split: option.splits)
  ultimately show ?thesis using m by (simp add: JobNeedsRollout_def)
qed

lemma planned_frame:
  assumes "rollout_frame job' w w'" "planned (cat w) job"
  shows "planned (cat w') job"
proof -
  have a: "allocations (cat w') = allocations (cat w)" using assms(1) by (simp add: rollout_frame_def same_tables_def)
  have r: "\<exists>f. hash_of (cat w') k = map_option f (hash_of (cat w) k) \<and> (\<forall>h. pending_hash (f h) = pending_hash h)" for k
  proof -
    obtain f where f: "f \<in> (if k \<in> job_alloc_ids (cat w) job' then row_states (cat w) k else {id})"
      "hash_of (cat w') k = map_option f (hash_of (cat w) k)"
      using assms(1) unfolding rollout_frame_def rows_follow_def by blast
    then have "\<forall>h. pending_hash (f h) = pending_hash h"
      by (auto simp: row_states_def promoted_row_def health_failed_row_def split: if_splits)
    with f show ?thesis by blast
  qed
  show ?thesis
    unfolding planned_def list_all_iff a
  proof (intro ballI impI)
    fix x
    assume "x \<in> set (allocations (cat w))" "live_row job x"
    with assms(2) obtain h where "hash_of (cat w) (a_alloc_id x) = Some h" "pending_hash h \<noteq> None"
      by (auto simp: planned_def list_all_iff split: option.splits)
    with r [of "a_alloc_id x"]
    show "case hash_of (cat w') (a_alloc_id x) of None \<Rightarrow> False | Some h \<Rightarrow> pending_hash h \<noteq> None" by auto
  qed
qed

lemma target_version_wf:
  "catalog_wf c \<Longrightarrow> a \<in> set (allocations c) \<Longrightarrow> target_version c (a_alloc_id a) = ifnull (a_version a) DefaultAllocationVersion"
  using find_distinct_key [of a_alloc_id "allocations c" "a_alloc_id a" a]
  by (simp add: target_version_def catalog_wf_def)

lemma finalize_settles:
  assumes "finalizeJobDeploy e job w = (Inr u, w')" "catalog_wf (cat w)" "planned (cat w) job"
  shows "settled (cat w') job"
proof -
  have p: "promoteAllocationWorkers e job (GetNonRemovedAllocations (cat w) job) w = (Inr u, w')"
    using assms(1) by (simp add: finalizeJobDeploy_def promoteAllocationHash_def bindD_Inr act_simps)
  have a: "allocations (cat w') = allocations (cat w)"
    using frame.R_finalize [where job = job and w = w and e = e] assms(1) by (simp add: rollout_frame_def same_tables_def)
  show ?thesis
    unfolding settled_iff a
  proof (intro ballI impI)
    fix x
    assume x: "x \<in> set (allocations (cat w))" "live_row job x"
    from x assms(3) obtain h where h: "hash_of (cat w) (a_alloc_id x) = Some h" "pending_hash h \<noteq> None"
      by (auto simp: planned_def list_all_iff split: option.splits)
    have "a_worker_ip x \<in> set (GetNonRemovedAllocations (cat w) job)"
      using x by (auto simp: GetNonRemovedAllocations_def live_row_def)
    then have "hash_of (cat w') (a_alloc_id x) = Some (promoted_row (a_alloc_id x) (cat w) h)"
      using promote_workers_rows [OF p assms(2) x(1)] x(2) h(1) by (simp add: live_row_def)
    then show "\<exists>h. hash_of (cat w') (a_alloc_id x) = Some h \<and> settled_row x h"
      using h(2) target_version_wf [OF assms(2) x(1)] by (simp add: settled_row_def promoted_row_def)
  qed
qed

section \<open>The catalog after a sequence of batches\<close>

definition alloc_ids :: "catalog \<Rightarrow> string \<Rightarrow> string list \<Rightarrow> string list" where
  "alloc_ids c job ips = map (\<lambda>ip. case GetAllocationID c ip job of Inr i \<Rightarrow> i | Inl _ \<Rightarrow> []) ips"

definition promote_all :: "string \<Rightarrow> string list \<Rightarrow> catalog \<Rightarrow> catalog" where
  "promote_all job ips c = fold PromoteAllocationState (alloc_ids c job ips) c"

definition mark_all :: "string \<Rightarrow> string list \<Rightarrow> catalog \<Rightarrow> catalog" where
  "mark_all job ips c = fold MarkAllocationHealthFailed (alloc_ids c job ips) c"

text \<open>The store deletes a key or reports that it, or its namespace, is not there (\<^verbatim>\<open>kv/store.go\<close>).\<close>

definition kv_deletes :: "deploy_env \<Rightarrow> bool" where
  "kv_deletes e = (\<forall>t ns k. outcome e t (KvDelete ns k) \<in> {None, Some KvErrNotFound, Some KvErrNamespaceNotFound})"

definition all_allocated :: "catalog \<Rightarrow> string \<Rightarrow> string list \<Rightarrow> bool" where
  "all_allocated c job ips = list_all (\<lambda>ip. case GetAllocationID c ip job of Inr _ \<Rightarrow> True | Inl _ \<Rightarrow> False) ips"

lemma alloc_ids_simps [simp]:
  "alloc_ids c job [] = []" "alloc_ids c job (xs @ ys) = alloc_ids c job xs @ alloc_ids c job ys"
  "alloc_ids c job (ip # ips) = (case GetAllocationID c ip job of Inr i \<Rightarrow> i | Inl _ \<Rightarrow> []) # alloc_ids c job ips"
  by (simp_all add: alloc_ids_def)

lemma alloc_ids_alloc: "allocations c' = allocations c \<Longrightarrow> alloc_ids c' job ips = alloc_ids c job ips"
  by (simp only: alloc_ids_def GetAllocationID_alloc [of c' c])

lemma all_allocated_alloc: "allocations c' = allocations c \<Longrightarrow> all_allocated c' job ips = all_allocated c job ips"
  by (simp only: all_allocated_def GetAllocationID_alloc [of c' c])

lemma allocations_fold_promote [simp]: "allocations (fold PromoteAllocationState ids c) = allocations c"
  by (induction ids arbitrary: c) auto

lemma allocations_promote_all [simp]: "allocations (promote_all job ips c) = allocations c"
  by (simp add: promote_all_def)

lemma promote_all_append: "promote_all job (xs @ ys) c = promote_all job ys (promote_all job xs c)"
proof -
  have "alloc_ids (fold PromoteAllocationState (alloc_ids c job xs) c) job ys = alloc_ids c job ys"
    by (rule alloc_ids_alloc) simp
  then show ?thesis by (simp add: promote_all_def)
qed

lemma clear_ok:
  assumes "kv_deletes e"
  shows "\<exists>w'. clearWorkerVersionKVKeys e job ip w = (Inr (), w') \<and> cat w' = cat w"
proof -
  have "\<exists>w'. forD (\<lambda>key. ignoring (\<lambda>x. x = KvErrNotFound \<or> x = KvErrNamespaceNotFound)
      (perform e (KvDelete ns key))) keys w = (Inr (), w') \<and> cat w' = cat w" for keys ns
  proof (induction keys arbitrary: w)
    case Nil
    then show ?case by (simp add: act_simps)
  next
    case (Cons key keys)
    let ?w = "w\<lparr>trace := trace w @ [KvDelete ns key]\<rparr>"
    have "ignoring (\<lambda>x. x = KvErrNotFound \<or> x = KvErrNamespaceNotFound) (perform e (KvDelete ns key)) w = (Inr (), ?w)"
    proof -
      have "outcome e (trace w) (KvDelete ns key) \<in> {None, Some KvErrNotFound, Some KvErrNamespaceNotFound}"
        using assms unfolding kv_deletes_def by blast
      then show ?thesis by (auto simp: ignoring_def perform_def)
    qed
    with Cons.IH [of ?w] show ?case by (simp add: thenD_def bindD_def)
  qed
  then show ?thesis unfolding clearWorkerVersionKVKeys_def by blast
qed

lemma promote_workers_ok:
  assumes "kv_deletes e" "all_allocated (cat w) job ips"
  shows "\<exists>w'. promoteAllocationWorkers e job ips w = (Inr (), w') \<and> cat w' = promote_all job ips (cat w)"
  using assms(2)
proof (induction ips arbitrary: w)
  case Nil
  then show ?case by (simp add: promoteAllocationWorkers_def act_simps promote_all_def alloc_ids_def)
next
  case (Cons ip ips)
  from Cons.prems obtain i where i: "GetAllocationID (cat w) ip job = Inr i"
    by (auto simp: all_allocated_def split: sum.splits)
  obtain w1 where w1: "clearWorkerVersionKVKeys e job ip (w\<lparr>cat := PromoteAllocationState i (cat w)\<rparr>) = (Inr (), w1)"
    "cat w1 = PromoteAllocationState i (cat w)"
    using clear_ok [OF assms(1)] by (metis world.select_convs(1) world.surjective world.update_convs(1))
  have a: "all_allocated (cat w1) job ips"
    using Cons.prems all_allocated_alloc [of "cat w1" "cat w"] w1(2) by (simp add: all_allocated_def)
  from Cons.IH [OF a] obtain w2 where w2: "promoteAllocationWorkers e job ips w1 = (Inr (), w2)"
    "cat w2 = promote_all job ips (cat w1)" by blast
  have "promoteAllocationWorkers e job (ip # ips) w = (Inr (), w2)"
    using i w1(1) w2(1) by (simp add: promoteAllocationWorkers_def thenD_def bindD_def act_simps)
  moreover have "promote_all job (ip # ips) (cat w) = promote_all job ips (cat w1)"
    using promote_all_append [of job "[ip]" ips "cat w"] i w1(2) by (simp add: promote_all_def)
  ultimately show ?case using w2(2) by simp
qed

lemma allocations_fold_mark [simp]: "allocations (fold MarkAllocationHealthFailed ids c) = allocations c"
  by (induction ids arbitrary: c) auto

lemma mark_workers_ok:
  assumes "all_allocated (cat w) job ips"
  shows "markAllocationWorkersHealthFailed job ips w = (Inr (), w\<lparr>cat := mark_all job ips (cat w)\<rparr>)"
  using assms
proof (induction ips arbitrary: w)
  case Nil
  then show ?case by (simp add: markAllocationWorkersHealthFailed_def act_simps mark_all_def alloc_ids_def)
next
  case (Cons ip ips)
  from Cons.prems obtain i where i: "GetAllocationID (cat w) ip job = Inr i"
    by (auto simp: all_allocated_def split: sum.splits)
  let ?w = "w\<lparr>cat := MarkAllocationHealthFailed i (cat w)\<rparr>"
  have "all_allocated (cat ?w) job ips"
    using Cons.prems all_allocated_alloc [of "cat ?w" "cat w"] by (simp add: all_allocated_def)
  from Cons.IH [OF this] have "markAllocationWorkersHealthFailed job ips ?w =
      (Inr (), w\<lparr>cat := mark_all job ips (cat ?w)\<rparr>)" by simp
  moreover have "mark_all job (ip # ips) (cat w) = mark_all job ips (cat ?w)"
    using i alloc_ids_alloc [of "cat ?w" "cat w"] by (simp add: mark_all_def)
  ultimately show ?case
    using i by (simp add: markAllocationWorkersHealthFailed_def thenD_def bindD_def act_simps)
qed

text \<open>What a batch of a rollout leaves: promoted, untouched, or promoted and marked health-failed.\<close>

definition batch_result :: "string \<Rightarrow> string list \<Rightarrow> kive_error + unit \<Rightarrow> catalog \<Rightarrow> catalog \<Rightarrow> bool" where
  "batch_result job batch r c c' =
     (case r of
        Inr _ \<Rightarrow> c' = promote_all job batch c
      | Inl _ \<Rightarrow> c' = c \<or> c' = mark_all job batch (promote_all job batch c))"

lemma promoteThenHealth_result:
  assumes "kv_deletes e" "all_allocated (cat w) job batch" "promoteThenHealth e job batch w = (r, w')"
  shows "batch_result job batch r (cat w) (cat w')"
proof -
  obtain w1 where w1: "promoteAllocationWorkers e job batch w = (Inr (), w1)"
    "cat w1 = promote_all job batch (cat w)" using promote_workers_ok [OF assms(1,2)] by blast
  obtain g w2 where g: "perform e (HealthGate job) w1 = (g, w2)" by (cases "perform e (HealthGate job) w1")
  have c2: "cat w2 = cat w1" using same_cat.R_perform [where w = w1 and e = e and ev = "HealthGate job"] g by simp
  have "all_allocated (cat w2) job batch"
    using assms(2) all_allocated_alloc [of "cat w2" "cat w"] c2 w1(2) by simp
  note m = mark_workers_ok [OF this]
  show ?thesis
    using assms(3) w1 g c2 m
    by (cases g) (auto simp: promoteThenHealth_def thenD_def bindD_def batch_result_def)
qed

lemma rolloutBatch_result:
  assumes "kv_deletes e" "all_allocated (cat w) job batch" "\<And>ip w. cat (snd (f ip w)) = cat w"
    and "rolloutBatch e job force f phase ev rs n (i, batch) w = (r, w')"
  shows "batch_result job batch r (cat w) (cat w')"
proof -
  let ?ctx = "\<lparr>bc_Job = job, bc_Phase = phase, bc_BatchIndex = i, bc_BatchCount = n,
               bc_BatchAllocation = batch, bc_RolloutOrder = FullOrder rs, bc_OrderSource = Source rs\<rparr>"
  let ?before = "thenD (preBatchHealthCheck e job force)
      (thenD (runParallelWorkers batch f) (executeAllocationEventHooks e job ev batch ?ctx))"
  have assoc: "thenD a (thenD b (thenD c d)) = thenD (thenD a (thenD b c)) d" for a b c :: "(kive_error, unit) act" and d
    by (rule ext) (auto simp: thenD_def bindD_def split: prod.splits sum.splits)
  have run: "thenD ?before (promoteThenHealth e job batch) w = (r, w')"
    using assms(4) by (simp add: rolloutBatch_def assoc)
  obtain g w1 where g: "?before w = (g, w1)" by (cases "?before w")
  have "cat (snd (?before w)) = cat w"
    by (intro same_cat.R_then same_cat.R_gate same_cat.R_parallel same_cat.R_event_hooks assms(3))
  with g have c1: "cat w1 = cat w" by simp
  show ?thesis
  proof (cases g)
    case (Inl x)
    with run g c1 show ?thesis by (auto simp: thenD_def bindD_def batch_result_def)
  next
    case (Inr u)
    with run g have "promoteThenHealth e job batch w1 = (r, w')" by (simp add: thenD_def bindD_def)
    from promoteThenHealth_result [OF assms(1) _ this] assms(2) c1 show ?thesis by simp
  qed
qed

lemma all_allocated_append [simp]:
  "all_allocated c job (xs @ ys) \<longleftrightarrow> all_allocated c job xs \<and> all_allocated c job ys"
  by (simp add: all_allocated_def)

lemma promote_all_Nil [simp]: "promote_all job [] c = c"
  by (simp add: promote_all_def)

lemma batches_result:
  assumes "kv_deletes e" "all_allocated (cat w) job (concat bs)" "\<And>ip w. cat (snd (f ip w)) = cat w"
    and "forD (rolloutBatch e job force f phase ev rs n) (enumerate k bs) w = (r, w')"
  shows "\<exists>finished rest. bs = finished @ rest \<and>
    (case r of
       Inr _ \<Rightarrow> rest = [] \<and> cat w' = promote_all job (concat bs) (cat w)
     | Inl _ \<Rightarrow> rest \<noteq> [] \<and> batch_result job (hd rest) r (promote_all job (concat finished) (cat w)) (cat w'))"
  using assms(2,4)
proof (induction bs arbitrary: w k)
  case Nil
  then show ?case by (auto simp: act_simps)
next
  case (Cons b bs)
  obtain g w1 where g: "rolloutBatch e job force f phase ev rs n (k, b) w = (g, w1)"
    by (cases "rolloutBatch e job force f phase ev rs n (k, b) w")
  have br: "batch_result job b g (cat w) (cat w1)"
    using rolloutBatch_result [OF assms(1) _ assms(3) g] Cons.prems(1) by simp
  show ?case
  proof (cases g)
    case (Inl x)
    with Cons.prems(2) g have "r = Inl x" "w' = w1" by (simp_all add: thenD_def bindD_def)
    with br Inl show ?thesis by (intro exI [of _ "[]"] exI [of _ "b # bs"]) simp
  next
    case (Inr u)
    with br have c1: "cat w1 = promote_all job b (cat w)" by (simp add: batch_result_def)
    from Inr Cons.prems(2) g have "forD (rolloutBatch e job force f phase ev rs n) (enumerate (Suc k) bs) w1 = (r, w')"
      by (simp add: thenD_def bindD_def)
    moreover have "all_allocated (cat w1) job (concat bs)"
      using Cons.prems(1) all_allocated_alloc [of "cat w1" "cat w"] c1 by simp
    ultimately obtain finished rest where "bs = finished @ rest"
      "case r of
       Inr _ \<Rightarrow> rest = [] \<and> cat w' = promote_all job (concat bs) (cat w1)
     | Inl _ \<Rightarrow> rest \<noteq> [] \<and> batch_result job (hd rest) r (promote_all job (concat finished) (cat w1)) (cat w')"
      using Cons.IH by blast
    then show ?thesis
      by (intro exI [of _ "b # finished"] exI [of _ rest]) (simp add: promote_all_append c1 split: sum.splits)
  qed
qed

definition rollout_result :: "string \<Rightarrow> string list \<Rightarrow> kive_error + unit \<Rightarrow> catalog \<Rightarrow> catalog \<Rightarrow> bool" where
  "rollout_result job candidates r c c' =
     (case r of
        Inr _ \<Rightarrow> (\<exists>order active. activeWorkers c job candidates = Inr active \<and> set order = set active \<and>
                   c' = promote_all job order c)
      | Inl _ \<Rightarrow> (\<exists>finished failed. set finished \<union> set failed \<subseteq> set candidates \<and>
                   (c' = promote_all job finished c \<or>
                    c' = mark_all job failed (promote_all job failed (promote_all job finished c)))))"

lemma rollout_result_unchanged: "rollout_result job cs (Inl x) c c"
  unfolding rollout_result_def by (auto intro!: exI [of _ "[]"])

lemma activeWorkers_subset:
  assumes "activeWorkers c job cs = Inr active"
  shows "set active \<subseteq> set cs"
proof -
  obtain rs where "rmap (\<lambda>ip. rbind (IsAllocationActive c ip job) (\<lambda>ok. Inr (ip, ok))) cs = Inr rs"
    "active = map fst (filter snd rs)"
    using assms by (auto simp: activeWorkers_def rbind_eq_Inr)
  moreover from this(1) have "set (map fst rs) \<subseteq> set cs"
    by (induction cs arbitrary: rs) (fastforce simp: rbind_eq_Inr)+
  ultimately show ?thesis by auto
qed

lemma all_allocated_subset: "all_allocated c job xs \<Longrightarrow> set ys \<subseteq> set xs \<Longrightarrow> all_allocated c job ys"
  by (auto simp: all_allocated_def list_all_iff)

text \<open>The loops of both kinds of rollout, given the order, the batch size and a worker function that leaves the catalog alone.\<close>

lemma ordered_batches_result:
  assumes "kv_deletes e" "all_allocated (cat w) job cs" "\<And>ip w. cat (snd (f ip w)) = cat w"
    and "activeWorkers (cat w) job cs = Inr active" "active \<noteq> []"
    and "ResolveRolloutOrder e job active w = (Inr rs, w)" "0 < b"
    and "forD (rolloutBatch e job force f phase ev rs n) (enumerate 0 (batch_loop b (Ordered rs) 0)) w = (r, w')"
  shows "rollout_result job cs r (cat w) (cat w')"
proof -
  let ?bs = "batch_loop b (Ordered rs) 0"
  have o: "set (Ordered rs) = set active"
    using assms(6) by (intro ResolveOrder_set) (simp add: ResolveRolloutOrder_def)
  have c: "concat ?bs = Ordered rs" using batch_loop_concat [OF assms(7), of "Ordered rs" 0] by simp
  have sub: "set (Ordered rs) \<subseteq> set cs" using o activeWorkers_subset [OF assms(4)] by simp
  from batches_result [OF assms(1) _ assms(3) assms(8)] obtain finished rest where
    split: "?bs = finished @ rest"
    and res: "case r of Inr _ \<Rightarrow> rest = [] \<and> cat w' = promote_all job (concat ?bs) (cat w)
     | Inl _ \<Rightarrow> rest \<noteq> [] \<and> batch_result job (hd rest) r (promote_all job (concat finished) (cat w)) (cat w')"
    using all_allocated_subset [OF assms(2) sub] c by auto
  show ?thesis
  proof (cases r)
    case (Inr u)
    with res o assms(4) c show ?thesis by (auto simp: rollout_result_def intro!: exI [of _ "Ordered rs"])
  next
    case (Inl x)
    with res have h: "rest \<noteq> []" "batch_result job (hd rest) r (promote_all job (concat finished) (cat w)) (cat w')"
      by simp_all
    have "set (concat finished) \<union> set (hd rest) \<subseteq> set cs"
    proof -
      have "set (concat ?bs) \<subseteq> set cs" using c sub by simp
      then have "set (concat (finished @ rest)) \<subseteq> set cs" by (simp only: split)
      with h(1) show ?thesis by (cases rest) auto
    qed
    moreover have "cat w' = promote_all job (concat finished) (cat w) \<or>
        cat w' = mark_all job (hd rest) (promote_all job (hd rest) (promote_all job (concat finished) (cat w)))"
      using h(2) Inl by (simp add: batch_result_def)
    ultimately show ?thesis
      unfolding rollout_result_def Inl sum.case by blast
  qed
qed

lemma cat_worker_fn: "cat (snd (thenD (syncWorkerFiles e b ip [job]) (runLifecycle e b job action ip) w)) = cat w"
  by (intro same_cat.R_then same_cat.R_sync same_cat.R_lifecycle)

lemma resolve_state: "ResolveRolloutOrder e job ips w = (Inr rs, w1) \<Longrightarrow> w1 = w"
  by (simp add: ResolveRolloutOrder_def)

lemma restart_result:
  assumes "kv_deletes e" "all_allocated (cat w) job cs"
    and "rolloutRestartBatches e job cs force (runLifecycle e b job action) (\<lambda>ip. syncWorkerFiles e b ip [job]) w = (r, w')"
  shows "rollout_result job cs r (cat w) (cat w')"
proof (cases "cs = []")
  case True
  with assms(3) show ?thesis
    by (auto simp: rolloutRestartBatches_def act_simps rollout_result_def activeWorkers_def intro!: exI [of _ "[]"])
next
  case False
  show ?thesis
  proof (cases "activeWorkers (cat w) job cs")
    case (Inl x)
    with False assms(3) show ?thesis
      by (auto simp: rolloutRestartBatches_def bindD_def act_simps rollout_result_unchanged)
  next
    case (Inr active)
    show ?thesis
    proof (cases "active = []")
      case True
      with False Inr assms(3) show ?thesis
        by (auto simp: rolloutRestartBatches_def bindD_def act_simps rollout_result_def intro!: exI [of _ "[]"])
    next
      case ne: False
      obtain rs where rs: "ResolveRolloutOrder e job active w = (Inr rs, w)"
        using ResolveOrder_total unfolding ResolveRolloutOrder_def by force
      show ?thesis
      proof (cases "\<exists>configured hardCap. GetMaxConcurrentRestarts (cat w) job = Inr configured \<and> maxConcurrentSyncs e = Inr hardCap")
        case True
        then obtain configured hardCap where q: "GetMaxConcurrentRestarts (cat w) job = Inr configured"
          "maxConcurrentSyncs e = Inr hardCap" by blast
        have "set (Ordered rs) = set active"
          using rs by (intro ResolveOrder_set) (simp add: ResolveRolloutOrder_def)
        then have "Ordered rs \<noteq> []" using ne by auto
        then have "0 < nat (effectiveBatchSize (if configured < 1 then 1 else configured) (int (length (Ordered rs))) hardCap)"
          using effectiveBatchSize_pos [of "int (length (Ordered rs))" "if configured < 1 then 1 else configured" hardCap]
          by (cases "Ordered rs") auto
        from ordered_batches_result [OF assms(1,2) cat_worker_fn Inr ne rs this] show ?thesis
          using False Inr ne rs q assms(3)
          by (simp add: rolloutRestartBatches_def bindD_def act_simps Let_def)
      next
        case no: False
        with False Inr ne rs assms(3) show ?thesis
          by (cases "GetMaxConcurrentRestarts (cat w) job"; cases "maxConcurrentSyncs e")
             (auto simp: rolloutRestartBatches_def bindD_def act_simps rollout_result_unchanged)
      qed
    qed
  qed
qed

section \<open>Properties\<close>

text \<open>
  C6. The frame of a rollout, for every pattern of failures: \<open>deployJob\<close> keeps every table but the
  hash tables, keeps the catalog well-formed and the generation, only appends to the trace, and
  leaves the hash row of every allocation of the job unchanged, promoted, or marked health-failed;
  rows of other jobs are untouched.
\<close>

theorem deployJob_frame: "rollout_frame job w (snd (deployJob e bucketID job force w))"
  by (rule frame.R_deployJob)

lemma deployJob_settles:
  assumes "catalog_wf (cat w)" "planned (cat w) job" "deployJob e bucketID job force w = (Inr u, w')"
  shows "JobNeedsRollout (cat w') job = Inr False"
proof -
  have wf: "catalog_wf (cat w')"
    using frame.R_deployJob [where job = job and w = w and e = e and b = bucketID and force = force] assms
    by (simp add: rollout_frame_def)
  have fin: "JobNeedsRollout (cat w') job = Inr False"
    if "rollout_frame job w w1" "finalizeJobDeploy e job w1 = (Inr u, w')" for w1
  proof -
    have "catalog_wf (cat w1)" using that(1) assms(1) by (simp add: rollout_frame_def)
    from settled_no_rollout [OF wf finalize_settles [OF that(2) this planned_frame [OF that(1) assms(2)]]]
    show ?thesis .
  qed
  show ?thesis
  proof (cases "GetHooks (cat w) job ''job_control'' = []")
    case False
    with assms(3) have d: "deployJobWithCommands e bucketID job (GetHooks (cat w) job ''job_control'') force w = (Inr u, w')"
      by (simp add: deployJob_def bindD_def act_simps)
    then consider "JobNeedsRollout (cat w) job = Inr False" "w' = w"
      | w1 v where "runJobControlRollout e bucketID job (GetHooks (cat w) job ''job_control'') force w = (Inr v, w1)"
          "finalizeJobDeploy e job w1 = (Inr u, w')"
      by (auto simp: deployJobWithCommands_def bindD_Inr thenD_Inr act_simps split: if_splits)
    then show ?thesis
    proof cases
      case 2
      then show ?thesis
        using fin [of w1] frame.R_job_control [where job = job and w = w and e = e and b = bucketID and force = force
            and cmds = "GetHooks (cat w) job ''job_control''"] by simp
    qed simp
  next
    case True
    with assms(3) consider "JobNeedsRollout (cat w) job = Inr False" "w' = w"
      | w1 w2 v1 v2 where "handleNewAllocations e bucketID job force w = (Inr v1, w1)"
          "handleUpdatedAllocations e bucketID job force w1 = (Inr v2, w2)" "finalizeJobDeploy e job w2 = (Inr u, w')"
      by (auto simp: deployJob_def bindD_Inr thenD_Inr act_simps split: if_splits)
    then show ?thesis
    proof cases
      case 2
      then have "rollout_frame job w w1" "rollout_frame job w1 w2"
        using frame.R_new [where job = job and w = w and e = e and b = bucketID and force = force]
          frame.R_updated [where job = job and w = w1 and e = e and b = bucketID and force = force] by simp_all
      with 2 show ?thesis using fin frame.R_trans by blast
    qed simp
  qed
qed

text \<open>
  C2. A rollout that succeeds finishes the job: when the plan of every allocation is staged and
  \<open>deployJob\<close> returns without error, \<open>JobNeedsRollout\<close> is false afterwards, for every restart policy,
  with or without \<open>job_control\<close> hooks and with or without force.
\<close>

theorem deployJob_completes:
  assumes "catalog_wf (cat w)" "planned (cat w) job" "deployJob e bucketID job force w = (Inr u, w')"
  shows "JobNeedsRollout (cat w') job = Inr False"
  using assms by (rule deployJob_settles)

text \<open>An environment in which every action succeeds, and a catalog with one running and one new allocation.\<close>

definition quiet_env :: deploy_env where
  "quiet_env = \<lparr>outcome = (\<lambda>_ _. None), rollout_order_kv = (\<lambda>_ _. None), conf_max_syncs = Inr 4,
     staged_tree = (\<lambda>_ _ _. Inr (''h2'', [(''run.sh'', ''d2'')]))\<rparr>"

definition demo_catalog :: "string \<Rightarrow> catalog" where
  "demo_catalog policy = empty_catalog\<lparr>
     allocations := [\<lparr>a_alloc_id = ''a1'', a_worker_ip = ''w1'', a_job = ''web'', a_disabled = 0, a_removed = 0, a_version = Some ''1.1.0''\<rparr>,
                     \<lparr>a_alloc_id = ''a2'', a_worker_ip = ''w2'', a_job = ''web'', a_disabled = 0, a_removed = 1, a_version = Some ''1.1.0''\<rparr>],
     allocation_hashes := [\<lparr>h_alloc_id = ''a1'', pending_hash = Some ''h2'', applied_hash = Some ''h1'', applied_version = Some ''1.0.0''\<rparr>,
                           \<lparr>h_alloc_id = ''a2'', pending_hash = Some ''h1'', applied_hash = Some ''h1'', applied_version = Some ''1.0.0''\<rparr>],
     allocation_file_hashes := [\<lparr>f_alloc_id = ''a1'', f_path = ''run.sh'', f_pending = Some ''d2'', f_applied = Some ''d1''\<rparr>],
     jobs := [\<lparr>j_job_id = ''j1'', j_name = ''web'', j_version = ''1.1.0'', deployment_priority = 0, deployment_order = 0,
        deployment_seq = 0, max_concurrent_restarts = 1, max_concurrent_starts = 0, max_concurrent_stops = 0,
        restart_policy = policy, restart_globs = [], reload_globs = []\<rparr>],
     workers := [\<lparr>w_worker_id = ''i1'', w_worker_ip = ''w1'', w_position = 0\<rparr>]\<rparr>"

definition demo_world :: "string \<Rightarrow> world" where
  "demo_world policy = \<lparr>cat = demo_catalog policy, generation = 7, trace = []\<rparr>"

lemma demo_wf: "catalog_wf (cat (demo_world policy))"
  by (simp add: demo_world_def demo_catalog_def catalog_wf_def empty_catalog_def)

lemma demo_planned: "planned (cat (demo_world policy)) ''web''"
  by (simp add: demo_world_def demo_catalog_def planned_def empty_catalog_def hash_of_def)

theorem deployJob_completes_witness:
  "\<exists>w'. deployJob quiet_env ''b'' ''web'' False (demo_world ''always'') = (Inr (), w') \<and>
     JobNeedsRollout (cat (demo_world ''always'')) ''web'' = Inr True \<and>
     JobNeedsRollout (cat w') ''web'' = Inr False"
proof -
  let ?r = "deployJob quiet_env ''b'' ''web'' False (demo_world ''always'')"
  have "isl (fst ?r) = False" by code_simp
  then obtain w' where w': "?r = (Inr (), w')" by (cases ?r; cases "fst ?r") auto
  have "JobNeedsRollout (cat (demo_world ''always'')) ''web'' = Inr True" by code_simp
  with deployJob_completes [OF demo_wf demo_planned w'] w' show ?thesis by blast
qed


text \<open>The same environment, but the gate after the promotion of a batch fails.\<close>

definition sick_env :: deploy_env where
  "sick_env = quiet_env\<lparr>outcome := (\<lambda>t ev. if ev = HealthGate ''web'' \<and> HealthGate ''web'' \<in> set t
     then Some ErrHealthCheckFailed else None)\<rparr>"


lemma resolveUpdateAction_never:
  "fst (resolveUpdateAction RestartPolicyNever rg lg p c hc vo lm) = rolloutActionSync"
  by (simp add: resolveUpdateAction_def Let_def)

lemma updateAction_never:
  assumes "catalog_wf c" "a \<in> set (allocations c)"
  shows "updateAction c (a_job a) RestartPolicyNever rg lg (a_worker_ip a) = Inr (a_worker_ip a, rolloutActionSync)"
  using GetAllocationID_wf [OF assms]
  by (auto simp: updateAction_def AllocationNeedsVersionRollout_def Let_def resolveUpdateAction_never split: prod.splits)

lemma needing_restart_allocated:
  assumes "catalog_wf c" "allocationsNeedingRestart c job False = Inr ips" "ip \<in> set ips"
  shows "\<exists>a \<in> set (allocations c). a_job a = job \<and> a_worker_ip a = ip"
proof -
  have "ip \<in> set (GetUpdatedAllocations c job) \<union> set (GetVersionPendingAllocations c job)"
    using assms(2,3) by (auto simp: allocationsNeedingRestart_def Let_def Difference_def)
  then consider h a where "(a, h) \<in> set (joined_hashes c)" "a_job a = job" "a_worker_ip a = ip"
    | a where "a \<in> set (allocations c)" "a_job a = job" "a_worker_ip a = ip"
    by (auto simp: GetUpdatedAllocations_def GetVersionPendingAllocations_def version_pending_rows_def active_row_def)
  then show ?thesis using joined_hashes_iff [OF assms(1)] by cases blast+
qed

lemma job_queries:
  assumes "GetRestartPolicy c job = Inr p"
  obtains rg lg where "GetRestartGlobs c job = Inr rg" "GetReloadGlobs c job = Inr lg"
  using assms by (auto simp: GetRestartPolicy_def GetRestartGlobs_def GetReloadGlobs_def rbind_eq_Inr)

lemma never_updated:
  assumes "catalog_wf (cat w)" "GetRestartPolicy (cat w) job = Inr RestartPolicyNever"
  shows "handleUpdatedAllocations e b job False w = (Inr (), w)"
proof -
  obtain ips where ips: "allocationsNeedingRestart (cat w) job False = Inr ips"
    by (simp add: allocationsNeedingRestart_def Let_def)
  obtain rg lg where g: "GetRestartGlobs (cat w) job = Inr rg" "GetReloadGlobs (cat w) job = Inr lg"
    using job_queries [OF assms(2)] by blast
  have "rmap (updateAction (cat w) job RestartPolicyNever rg lg) ips = Inr (map (\<lambda>ip. (ip, rolloutActionSync)) ips)"
  proof (rule rmap_all_Inr)
    fix ip
    assume "ip \<in> set ips"
    then obtain a where "a \<in> set (allocations (cat w))" "a_job a = job" "a_worker_ip a = ip"
      using needing_restart_allocated [OF assms(1) ips] by blast
    with updateAction_never [OF assms(1), of a rg lg]
    show "updateAction (cat w) job RestartPolicyNever rg lg ip = Inr (ip, rolloutActionSync)" by simp
  qed
  then show ?thesis
    using ips g assms(2)
    by (simp add: handleUpdatedAllocations_def bindD_def thenD_def act_simps Let_def filter_map comp_def)
qed

definition only_kv :: "event \<Rightarrow> bool" where
  "only_kv ev = (case ev of KvDelete ns k \<Rightarrow> True | _ \<Rightarrow> False)"

lemma only_kv_delete [simp]: "only_kv (KvDelete ns k)"
  by (simp add: only_kv_def)

lemma clear_events:
  assumes "clearWorkerVersionKVKeys e job ip w = (r, w')"
  shows "\<exists>evs. trace w' = trace w @ evs \<and> list_all only_kv evs"
proof -
  have "\<exists>evs. trace (snd (forD (\<lambda>key. ignoring P (perform e (KvDelete ns key))) keys w)) = trace w @ evs \<and>
      list_all only_kv evs" for P ns keys
  proof (induction keys arbitrary: w)
    case Nil
    then show ?case by (simp add: act_simps)
  next
    case (Cons key keys)
    let ?m = "ignoring P (perform e (KvDelete ns key))"
    have t: "trace (snd (?m w)) = trace w @ [KvDelete ns key]"
      by (auto simp: ignoring_def perform_def split: option.splits)
    obtain r w1 where m: "?m w = (r, w1)" by (cases "?m w")
    show ?case
    proof (cases r)
      case (Inl x)
      with m t show ?thesis by (simp add: thenD_def bindD_def)
    next
      case (Inr u)
      from Cons.IH [of w1] obtain evs where
        "trace (snd (forD (\<lambda>key. ignoring P (perform e (KvDelete ns key))) keys w1)) = trace w1 @ evs"
        "list_all only_kv evs" by blast
      with m t Inr show ?thesis by (simp add: thenD_def bindD_def)
    qed
  qed
  then have "\<exists>evs. trace (snd (clearWorkerVersionKVKeys e job ip w)) = trace w @ evs \<and> list_all only_kv evs"
    unfolding clearWorkerVersionKVKeys_def by blast
  with assms show ?thesis by simp
qed

lemma promote_events:
  assumes "promoteAllocationWorkers e job ips w = (Inr u, w')"
  shows "\<exists>evs. trace w' = trace w @ evs \<and> list_all only_kv evs"
  using assms
proof (induction ips arbitrary: w)
  case Nil
  then show ?case by (simp add: promoteAllocationWorkers_def act_simps)
next
  case (Cons ip ips)
  from Cons.prems obtain i w1 where
    w1: "clearWorkerVersionKVKeys e job ip (w\<lparr>cat := PromoteAllocationState i (cat w)\<rparr>) = (Inr (), w1)"
    and rest: "promoteAllocationWorkers e job ips w1 = (Inr u, w')"
    by (auto simp: promoteAllocationWorkers_def thenD_Inr bindD_Inr act_simps)
  from clear_events [OF w1] obtain evs where "trace w1 = trace w @ evs" "list_all only_kv evs" by auto
  moreover from Cons.IH [OF rest] obtain evs' where "trace w' = trace w1 @ evs'" "list_all only_kv evs'" by blast
  ultimately show ?case by auto
qed

lemma all_allocated_live:
  assumes "catalog_wf c"
  shows "all_allocated c job (GetNonRemovedAllocations c job)"
  using GetAllocationID_wf [OF assms]
  by (auto simp: all_allocated_def list_all_iff GetNonRemovedAllocations_def)



end
