(* ===== verification/Deploy_Run.thy ===== *)
theory Deploy_Run
  imports Deploy
begin

text \<open>
  One deploy (\<^verbatim>\<open>deploy/execute.go\<close>) with the phases it runs in one transaction: prerequisites, the
  generation bump, worker metadata, the plan of every job, pre-deploy hooks, reconciliation of removed
  and disabled allocations, the rollout of each job in order, the final metadata sync, post-deploy
  hooks, history and commit.

  A phase reports failures instead of stopping the run; the state of a run is the list of failures, the
  recorded outcomes, the jobs whose plan failed and the abort flag. An early return rolls the
  transaction back: the catalog and the generation are those before the run, while what was done on
  workers (the trace) stays. The runtime log, the snapshot and the metrics push have no effect on the
  catalog; the snapshot is an event, the others are left out.
\<close>

section \<open>Errors\<close>

datatype deploy_error =
    CancelledError
  | JobError string kive_error
  | PreDeployError string kive_error
  | PostDeployError string kive_error
  | OtherError kive_error

definition isPreDeployError :: "deploy_error \<Rightarrow> bool" where
  "isPreDeployError err = (case err of PreDeployError j x \<Rightarrow> True | _ \<Rightarrow> False)"

definition isPostDeployError :: "deploy_error \<Rightarrow> bool" where
  "isPostDeployError err = (case err of PostDeployError j x \<Rightarrow> True | _ \<Rightarrow> False)"

text \<open>Every wrapper unwraps to its cause; \<open>CancelledError\<close> unwraps to the cancelled context.\<close>

definition isCancelled :: "deploy_error \<Rightarrow> bool" where
  "isCancelled err =
     (case err of CancelledError \<Rightarrow> True | JobError j x \<Rightarrow> x = ErrCancelled | PreDeployError j x \<Rightarrow> x = ErrCancelled
      | PostDeployError j x \<Rightarrow> x = ErrCancelled | OtherError x \<Rightarrow> x = ErrCancelled)"

definition noteHealthCancel :: "deploy_error list \<Rightarrow> deploy_error list" where
  "noteHealthCancel failures =
     (if \<not> list_ex isCancelled failures then failures
      else if CancelledError \<in> set failures then failures
      else failures @ [CancelledError])"

definition wrap_error :: "(kive_error \<Rightarrow> 'e) \<Rightarrow> 'a deploy \<Rightarrow> ('e, 'a) act" where
  "wrap_error f m w = (case m w of (Inl x, w') \<Rightarrow> (Inl (f x), w') | (Inr a, w') \<Rightarrow> (Inr a, w'))"

text \<open>An action that cannot fail.\<close>

definition note_event :: "event \<Rightarrow> ('e, unit) act" where
  "note_event ev w = (Inr (), w\<lparr>trace := trace w @ [ev]\<rparr>)"

section \<open>Preparation\<close>

definition buildWorkerJobsList :: "catalog \<Rightarrow> string \<Rightarrow> (string \<times> int) list result" where
  "buildWorkerJobsList c workerIP =
     rbind (rmap (\<lambda>job.
         rbind (IsAllocationRemoved c workerIP job) (\<lambda>removed.
           if removed = 1 then Inr None
           else rbind (IsAllocationDisabled c workerIP job) (\<lambda>disabled. Inr (Some (job, disabled)))))
       (GetAllocatedJobs c workerIP))
     (\<lambda>entries. Inr (List.map_filter id entries))"

text \<open>\<open>PrepareWorker\<close> stands for the files written below the staging directory of the worker.\<close>

definition prepareOneWorkerFiles :: "deploy_env \<Rightarrow> string \<Rightarrow> unit deploy" where
  "prepareOneWorkerFiles e workerIP =
     bindD (query (\<lambda>c. GetWorkerID c workerIP)) (\<lambda>workerID.
     bindD (query (\<lambda>c. buildWorkerJobsList c workerIP)) (\<lambda>workerJobs.
       (\<lambda>w. perform e (PrepareWorker workerIP (generation w) workerJobs) w)))"

definition prepareWorkersFiles :: "deploy_env \<Rightarrow> string list \<Rightarrow> unit deploy" where
  "prepareWorkersFiles e ws = forD (prepareOneWorkerFiles e) ws"

definition prepareJobsFiles :: "deploy_env \<Rightarrow> string list \<Rightarrow> unit deploy" where
  "prepareJobsFiles e js =
     forD (\<lambda>job. bindD (readC (\<lambda>c. GetNonRemovedAllocations c job))
        (forD (\<lambda>workerIP. perform e (PrepareJob job workerIP)))) js"

definition RefreshPlanHashesForJobs :: "deploy_env \<Rightarrow> string list \<Rightarrow> unit deploy" where
  "RefreshPlanHashesForJobs e js =
     (if js = [] then ret () else thenD (prepareJobsFiles e js) (updateAllocationHash e js))"

definition refreshPlanHashesForJobPlan :: "deploy_env \<Rightarrow> string \<Rightarrow> unit deploy" where
  "refreshPlanHashesForJobPlan e job = RefreshPlanHashesForJobs e [job]"

section \<open>Hooks around the run\<close>

definition hooks_for_job ::
  "(string \<Rightarrow> kive_error \<Rightarrow> deploy_error) \<Rightarrow> deploy_env \<Rightarrow> string \<Rightarrow> string \<Rightarrow> (deploy_error, unit) act" where
  "hooks_for_job err e event job =
     bindD (readC (\<lambda>c. GetHooks c job event)) (\<lambda>commands.
       if commands = [] then ret ()
       else bindD (readC (\<lambda>c. GetNonRemovedAllocations c job)) (\<lambda>workerIPs.
            bindD (wrap_error (JobError job) (ResolveRolloutOrder e job workerIPs)) (\<lambda>resolved.
            bindD (wrap_error (JobError job) (query (\<lambda>c. GetMaxConcurrentRestarts c job))) (\<lambda>batchSize.
              forD (\<lambda>command. wrap_error (err job)
                  (RunHookInBatches e job command event (Ordered resolved) batchSize
                    \<lparr>bc_Job = [], bc_Phase = event, bc_BatchIndex = 0, bc_BatchCount = 0, bc_BatchAllocation = [],
                     bc_RolloutOrder = FullOrder resolved, bc_OrderSource = Source resolved\<rparr>)) commands))))"

definition executePreHooksForJob :: "deploy_env \<Rightarrow> string \<Rightarrow> (deploy_error, unit) act" where
  "executePreHooksForJob e job = hooks_for_job PreDeployError e ''pre_deploy'' job"

definition executePostHooks :: "deploy_env \<Rightarrow> string \<Rightarrow> (deploy_error, unit) act" where
  "executePostHooks e job = hooks_for_job PostDeployError e ''post_deploy'' job"

definition persistHookKV :: "deploy_env \<Rightarrow> string \<Rightarrow> (deploy_error, unit) act" where
  "persistHookKV e job = wrap_error (JobError job) (perform e KvPersist)"

section \<open>Reconciliation of removed and disabled allocations\<close>

record stoppedReconcileItem =
  ri_alloc :: StoppedAllocation
  ri_assumeDead :: bool

definition allocationWasDeployed :: "catalog \<Rightarrow> string \<Rightarrow> string \<Rightarrow> bool result" where
  "allocationWasDeployed c workerIP job =
     rbind (GetAllocationID c workerIP job) (\<lambda>allocID. Inr (GetAllocationAppliedHash c allocID \<noteq> []))"

definition stopReconcileBatchSize :: "deploy_env \<Rightarrow> catalog \<Rightarrow> string \<Rightarrow> int \<Rightarrow> int result" where
  "stopReconcileBatchSize e c job stopCount =
     (if stopCount < 1 then Inr 1
      else rbind (maxConcurrentSyncs e) (\<lambda>hardCap.
        if \<not> JobInCatalog c job then Inr (effectiveBatchSize 0 stopCount hardCap)
        else rbind (GetMaxConcurrentStops c job) (\<lambda>parallelism. Inr (effectiveBatchSize parallelism stopCount hardCap))))"

definition runWorkerCommandOrAssumeDead :: "deploy_env \<Rightarrow> string \<Rightarrow> CommandContext \<Rightarrow> string list \<Rightarrow> unit deploy" where
  "runWorkerCommandOrAssumeDead e workerIP cmdCtx env =
     ignoring (\<lambda>_. True) (perform e (WorkerCommand workerIP cmdCtx env))"

definition removeHashOf :: "string \<Rightarrow> string \<Rightarrow> unit deploy" where
  "removeHashOf workerIP job =
     bindD (query (\<lambda>c. GetAllocationID c workerIP job)) (\<lambda>allocID. writeC (RemoveAllocationHash allocID))"

definition reconcileSkippedStopAllocation :: "StoppedAllocation \<Rightarrow> unit deploy" where
  "reconcileSkippedStopAllocation alloc =
     (if s_removed alloc then removeHashOf (s_worker_ip alloc) (s_job alloc) else ret ())"

definition JobDeployArtifactsCleanupCommand :: "string \<Rightarrow> string \<Rightarrow> string" where
  "JobDeployArtifactsCleanupCommand bucketID job =
     (let q = [CHR 0x22];
          base = q @ WorkerBucketPath bucketID @ ''/jobs/'' @ job @ q
      in ''if [ -d '' @ base @ '' ]; then find '' @ base @
         '' -mindepth 1 -maxdepth 1 ! -name data ! -name logs -exec rm -rf {} +; fi'')"

definition removeJobDeployArtifactsFromWorker ::
  "deploy_env \<Rightarrow> string \<Rightarrow> string \<Rightarrow> string \<Rightarrow> bool \<Rightarrow> unit deploy" where
  "removeJobDeployArtifactsFromWorker e bucketID workerIP job assumeDead =
     (let cmdCtx = \<lparr>cc_Job = job, cc_Phase = ''reconcile'', cc_Action = ''cleanup_deploy'',
                    cc_Cmd = JobDeployArtifactsCleanupCommand bucketID job\<rparr>
      in thenD (if assumeDead then runWorkerCommandOrAssumeDead e workerIP cmdCtx []
                else perform e (WorkerCommand workerIP cmdCtx []))
               (perform e (RemoveLocal (workerIP @ ''/jobs/'' @ job))))"

definition removeWorkerBucketFromWorker :: "deploy_env \<Rightarrow> string \<Rightarrow> string \<Rightarrow> unit deploy" where
  "removeWorkerBucketFromWorker e bucketID workerIP =
     thenD (runWorkerCommandOrAssumeDead e workerIP
             \<lparr>cc_Job = [], cc_Phase = ''reconcile'', cc_Action = ''cleanup_worker'',
              cc_Cmd = ''rm -rf '' @ WorkerBucketPath bucketID\<rparr> [])
           (perform e (RemoveLocal workerIP))"

text \<open>\<open>itemByIP\<close> of the code: the last item of a worker, and the zero item where there is none.\<close>

definition itemByIP :: "stoppedReconcileItem list \<Rightarrow> string \<Rightarrow> stoppedReconcileItem" where
  "itemByIP items ip =
     (case map_of (rev (map (\<lambda>item. (s_worker_ip (ri_alloc item), item)) items)) ip of
        None \<Rightarrow> \<lparr>ri_alloc = \<lparr>s_worker_ip = [], s_job = [], s_removed = False, s_disabled = False\<rparr>, ri_assumeDead = False\<rparr>
      | Some item \<Rightarrow> item)"

definition stopFn :: "deploy_env \<Rightarrow> string \<Rightarrow> string \<Rightarrow> stoppedReconcileItem list \<Rightarrow> string \<Rightarrow> unit deploy" where
  "stopFn e bucketID job items workerIP =
     (let item = itemByIP items workerIP;
          stopCtx = runnerCmdCtx job ''reconcile'' ''stop'' bucketID
      in if ri_assumeDead item then runWorkerCommandOrAssumeDead e workerIP stopCtx []
         else thenD (perform e (WorkerCommand workerIP stopCtx [])) (syncWorkerFiles e bucketID workerIP [job]))"

definition stopBatch ::
  "deploy_env \<Rightarrow> string \<Rightarrow> string \<Rightarrow> bool \<Rightarrow> stoppedReconcileItem list \<Rightarrow> ResolvedOrder \<Rightarrow> nat \<Rightarrow> nat \<times> string list \<Rightarrow> unit deploy" where
  "stopBatch e bucketID job force items resolved batchCount = (\<lambda>(i, batch).
     thenD (preBatchHealthCheck e job force)
    (thenD (runParallelWorkers batch (stopFn e bucketID job items))
    (thenD (executeAllocationEventHooks e job ''after_allocation_stopped'' batch
              \<lparr>bc_Job = job, bc_Phase = ''stop'', bc_BatchIndex = i, bc_BatchCount = int batchCount,
               bc_BatchAllocation = batch, bc_RolloutOrder = FullOrder resolved, bc_OrderSource = Source resolved\<rparr>)
    (thenD (promoteAllocationWorkers e job (filter (\<lambda>ip. \<not> s_disabled (ri_alloc (itemByIP items ip))) batch))
           (perform e (HealthGate job))))))"

text \<open>The first loop: which items are stopped; the others only lose the hash of a removed allocation.\<close>

fun stop_items :: "string \<Rightarrow> stoppedReconcileItem list \<Rightarrow> stoppedReconcileItem list deploy" where
  "stop_items job [] = ret []"
| "stop_items job (item # items) =
     (if s_disabled (ri_alloc item) then bindD (stop_items job items) (\<lambda>rest. ret (item # rest))
      else bindD (query (\<lambda>c. allocationWasDeployed c (s_worker_ip (ri_alloc item)) job)) (\<lambda>wasDeployed.
        if wasDeployed then bindD (stop_items job items) (\<lambda>rest. ret (item # rest))
        else thenD (reconcileSkippedStopAllocation (ri_alloc item)) (stop_items job items)))"

definition cleanup_removed :: "deploy_env \<Rightarrow> string \<Rightarrow> string \<Rightarrow> stoppedReconcileItem \<Rightarrow> unit deploy" where
  "cleanup_removed e bucketID job item =
     (if s_removed (ri_alloc item) then
        thenD (removeJobDeployArtifactsFromWorker e bucketID (s_worker_ip (ri_alloc item)) job (ri_assumeDead item))
              (removeHashOf (s_worker_ip (ri_alloc item)) job)
      else ret ())"

text \<open>The rest of it: stop the kept items in batches, then clean up after the removed ones.\<close>

definition stop_and_clean ::
  "deploy_env \<Rightarrow> string \<Rightarrow> string \<Rightarrow> bool \<Rightarrow> stoppedReconcileItem list \<Rightarrow> unit deploy" where
  "stop_and_clean e bucketID job force stopItems =
     (if stopItems = [] then ret ()
      else
        let stopIPs = map (\<lambda>item. s_worker_ip (ri_alloc item)) stopItems
        in bindD (ResolveRolloutOrder e job stopIPs) (\<lambda>resolved.
           bindD (query (\<lambda>c. stopReconcileBatchSize e c job (int (length stopIPs)))) (\<lambda>batchSize.
             let batches = SplitWorkerBatches (Ordered resolved) batchSize
             in thenD (forD (stopBatch e bucketID job force stopItems resolved (length batches)) (enumerate 0 batches))
                      (forD (cleanup_removed e bucketID job) stopItems))))"

definition reconcileStoppedAllocationsForJob ::
  "deploy_env \<Rightarrow> string \<Rightarrow> string \<Rightarrow> bool \<Rightarrow> stoppedReconcileItem list \<Rightarrow> unit deploy" where
  "reconcileStoppedAllocationsForJob e bucketID job force items =
     bindD (stop_items job items) (stop_and_clean e bucketID job force)"

definition purgeHookKVForInactiveJobs :: "deploy_env \<Rightarrow> StoppedAllocation list \<Rightarrow> unit deploy" where
  "purgeHookKVForInactiveJobs e stopped =
     (if stopped = [] then ret ()
      else thenD
        (forD (\<lambda>job.
           bindD (readC (\<lambda>c. JobHasNonRemovedAllocations c job)) (\<lambda>retained.
             if retained then ret ()
             else thenD (forD (\<lambda>ns. note_event (KvPurge ns))
                   [''kive/job/'' @ job, ''vars/bucket/job/'' @ job, ''vars/job/'' @ job, ''secrets/job/'' @ job])
               (bindD (readC (\<lambda>c. GetAllocatedWorkers c job)) (\<lambda>workerIPs.
                  forD (\<lambda>ip. note_event (KvPurge (''kive/job/'' @ job @ ''/worker/'' @ ip))) workerIPs))))
           (Unique (map s_job stopped)))
        (perform e KvPersist))"

text \<open>
  Go groups the stopped allocations in a map and visits the jobs, and the workers that left the catalog,
  in an unspecified order; the model takes the order in which they are listed.
\<close>

definition reconcile_items :: "catalog \<Rightarrow> StoppedAllocation list \<Rightarrow> string \<Rightarrow> stoppedReconcileItem list" where
  "reconcile_items c stopped job =
     map (\<lambda>alloc. \<lparr>ri_alloc = alloc, ri_assumeDead = StoppedAllocationAssumeDead alloc (LoadWorkerCatalog c)\<rparr>)
       (filter (\<lambda>alloc. s_job alloc = job) stopped)"

definition offCatalogWorkers :: "catalog \<Rightarrow> StoppedAllocation list \<Rightarrow> string list result" where
  "offCatalogWorkers c stopped =
     rbind (rmap (\<lambda>alloc. rbind (allocationWasDeployed c (s_worker_ip alloc) (s_job alloc)) (\<lambda>wasRunning.
         Inr (if s_removed alloc \<and> \<not> catalog_Contains (LoadWorkerCatalog c) (s_worker_ip alloc) \<and> wasRunning
              then [s_worker_ip alloc] else []))) stopped)
       (\<lambda>ips. Inr (Unique (concat ips)))"

definition reconcileRemovedAndDisabledAllocations ::
  "deploy_env \<Rightarrow> string \<Rightarrow> string list \<Rightarrow> bool \<Rightarrow> unit deploy" where
  "reconcileRemovedAndDisabledAllocations e bucketID jobsFilter force =
     bindD (readC id) (\<lambda>c.
       let stopped = filter (\<lambda>alloc. jobInFilter (s_job alloc) jobsFilter) (ListStoppedAllocations c)
       in bindD (query (\<lambda>_. offCatalogWorkers c stopped)) (\<lambda>gone.
          thenD (forD (\<lambda>job. reconcileStoppedAllocationsForJob e bucketID job force (reconcile_items c stopped job))
                   (Unique (map s_job stopped)))
         (thenD (forD (removeWorkerBucketFromWorker e bucketID) gone)
                (purgeHookKVForInactiveJobs e stopped))))"

section \<open>The history of a run\<close>

text \<open>
  The record keeps what a run decides; the columns that are only copied into the row (start and end time,
  source revision, git hash of the build, text of the error) are part of the rows in the theory of the
  history, where they matter.
\<close>

record DeployHistoryJob =
  hj_Job :: string
  hj_Outcome :: string
  hj_Reason :: string
  hj_Version :: string
  hj_DeploymentOrder :: int

record DeployHistoryRecord =
  dh_RunID :: string
  dh_Generation :: int
  dh_Status :: string
  dh_JobsFilter :: string
  dh_Force :: bool
  dh_Jobs :: "DeployHistoryJob list"

definition DeployHistoryOutcomeSkipped :: string where "DeployHistoryOutcomeSkipped = ''skipped''"
definition DeployHistoryOutcomeDeployed :: string where "DeployHistoryOutcomeDeployed = ''deployed''"
definition DeployHistoryOutcomeFailed :: string where "DeployHistoryOutcomeFailed = ''failed''"
definition DeployHistoryOutcomeAborted :: string where "DeployHistoryOutcomeAborted = ''aborted''"
definition DeployHistoryStatusSucceeded :: string where "DeployHistoryStatusSucceeded = ''succeeded''"
definition DeployHistoryStatusFailed :: string where "DeployHistoryStatusFailed = ''failed''"
definition DeployHistoryStatusCancelled :: string where "DeployHistoryStatusCancelled = ''cancelled''"

definition JobDeployMeta :: "catalog \<Rightarrow> string \<Rightarrow> (string \<times> int) result" where
  "JobDeployMeta c job = rbind (job_of c job) (\<lambda>j. Inr (j_version j, deployment_order j))"

definition job_entry :: "catalog \<Rightarrow> string \<Rightarrow> string \<Rightarrow> string \<Rightarrow> DeployHistoryJob" where
  "job_entry c job out reason =
     (let (version, order) = (case JobDeployMeta c job of Inl x \<Rightarrow> ([], 0) | Inr m \<Rightarrow> m)
      in \<lparr>hj_Job = job, hj_Outcome = out, hj_Reason = reason, hj_Version = version, hj_DeploymentOrder = order\<rparr>)"

section \<open>A run\<close>

text \<open>Reasons that are error messages are dropped, like all message texts.\<close>

record run =
  failures :: "deploy_error list"
  outcomes :: "string \<rightharpoonup> DeployHistoryJob"
  prepareFailed :: "string set"
  abortDeploy :: bool

definition new_run :: run where
  "new_run = \<lparr>failures = [], outcomes = Map.empty, prepareFailed = {}, abortDeploy = False\<rparr>"

definition add_failure :: "deploy_error \<Rightarrow> run \<Rightarrow> run" where
  "add_failure err r = r\<lparr>failures := failures r @ [err]\<rparr>"

definition recordJobOutcome :: "catalog \<Rightarrow> string \<Rightarrow> string \<Rightarrow> string \<Rightarrow> run \<Rightarrow> run" where
  "recordJobOutcome c job out reason r = r\<lparr>outcomes := (outcomes r)(job \<mapsto> job_entry c job out reason)\<rparr>"

definition abort_run :: "run \<Rightarrow> run" where
  "abort_run r = r\<lparr>abortDeploy := True\<rparr>"

definition allJobsDeployedOrSkipped :: "string list \<Rightarrow> (string \<rightharpoonup> DeployHistoryJob) \<Rightarrow> bool" where
  "allJobsDeployedOrSkipped deployableJobs outs =
     list_all (\<lambda>job. case outs job of None \<Rightarrow> False
       | Some entry \<Rightarrow> hj_Outcome entry = DeployHistoryOutcomeDeployed \<or> hj_Outcome entry = DeployHistoryOutcomeSkipped)
     deployableJobs"

text \<open>Run an action and append its error to the failures.\<close>

definition collecting :: "(deploy_error, unit) act \<Rightarrow> run \<Rightarrow> world \<Rightarrow> run \<times> world" where
  "collecting m r w = (case m w of (Inl err, w') \<Rightarrow> (add_failure err r, w') | (Inr u, w') \<Rightarrow> (r, w'))"

fun plan_phase :: "deploy_env \<Rightarrow> string list \<Rightarrow> run \<Rightarrow> world \<Rightarrow> run \<times> world" where
  "plan_phase e [] r w = (r, w)"
| "plan_phase e (job # js) r w =
     (case refreshPlanHashesForJobPlan e job w of
        (Inr u, w1) \<Rightarrow> plan_phase e js r w1
      | (Inl x, w1) \<Rightarrow>
          if isCancelled (OtherError x) then (abort_run r, w1)
          else plan_phase e js
            (recordJobOutcome (cat w1) job DeployHistoryOutcomeFailed []
              (add_failure (JobError job x) (r\<lparr>prepareFailed := insert job (prepareFailed r)\<rparr>))) w1)"

fun pre_phase :: "deploy_env \<Rightarrow> string list \<Rightarrow> run \<Rightarrow> world \<Rightarrow> run \<times> world" where
  "pre_phase e [] r w = (r, w)"
| "pre_phase e (job # js) r w =
     (case executePreHooksForJob e job w of
        (Inl err, w1) \<Rightarrow>
          if isPreDeployError err \<or> isCancelled err then (abort_run (add_failure err r), w1)
          else (case collecting (persistHookKV e job) (add_failure err r) w1 of (r2, w2) \<Rightarrow> pre_phase e js r2 w2)
      | (Inr u, w1) \<Rightarrow> (case collecting (persistHookKV e job) r w1 of (r2, w2) \<Rightarrow> pre_phase e js r2 w2))"

fun rollout_phase :: "deploy_env \<Rightarrow> string \<Rightarrow> bool \<Rightarrow> string list \<Rightarrow> run \<Rightarrow> world \<Rightarrow> run \<times> world" where
  "rollout_phase e bucketID force [] r w = (r, w)"
| "rollout_phase e bucketID force (job # js) r w =
     (if job \<in> prepareFailed r then rollout_phase e bucketID force js r w
      else case JobNeedsRollout (cat w) job of
        Inl x \<Rightarrow> (abort_run (recordJobOutcome (cat w) job DeployHistoryOutcomeFailed []
                    (add_failure (JobError job x) r)), w)
      | Inr needsRollout \<Rightarrow>
          if \<not> force \<and> \<not> needsRollout then
            rollout_phase e bucketID force js
              (recordJobOutcome (cat w) job DeployHistoryOutcomeSkipped ''deploy_complete'' r) w
          else
            (case wrap_error (JobError job) (deployJob e bucketID job force) w of
               (deployErr, w1) \<Rightarrow>
                 (case collecting (persistHookKV e job) r w1 of
                    (r2, w2) \<Rightarrow>
                      (case deployErr of
                         Inl err \<Rightarrow>
                           (abort_run (recordJobOutcome (cat w2) job
                              (if isCancelled err then DeployHistoryOutcomeAborted else DeployHistoryOutcomeFailed) []
                              (add_failure err r2)), w2)
                       | Inr u \<Rightarrow>
                           rollout_phase e bucketID force js
                             (recordJobOutcome (cat w2) job DeployHistoryOutcomeDeployed [] r2) w2))))"

fun post_phase :: "deploy_env \<Rightarrow> string list \<Rightarrow> run \<Rightarrow> world \<Rightarrow> run \<times> world" where
  "post_phase e [] r w = (r, w)"
| "post_phase e (job # js) r w =
     (if \<not> JobHasPostDeployCommands (cat w) job then post_phase e js r w
      else case executePostHooks e job w of
        (Inl err, w1) \<Rightarrow>
          if isPostDeployError err \<or> isCancelled err then (abort_run (add_failure err r), w1)
          else (case collecting (persistHookKV e job) (add_failure err r) w1 of (r2, w2) \<Rightarrow> post_phase e js r2 w2)
      | (Inr u, w1) \<Rightarrow> (case collecting (persistHookKV e job) r w1 of (r2, w2) \<Rightarrow> post_phase e js r2 w2))"

definition syncWorkersMetadata :: "deploy_env \<Rightarrow> string list \<Rightarrow> bool \<Rightarrow> unit deploy" where
  "syncWorkersMetadata e ws includeWorkerJSON =
     bindD (query (\<lambda>_. maxConcurrentSyncs e)) (\<lambda>limit.
       runParallelWorkers ws (\<lambda>ip. perform e (RsyncMetadata ip includeWorkerJSON)))"

definition finalSyncWorkerMetadata :: "deploy_env \<Rightarrow> string list \<Rightarrow> bool \<Rightarrow> unit deploy" where
  "finalSyncWorkerMetadata e ws includeWorkerJSON =
     (if ws = [] then ret ()
      else thenD (prepareWorkersFiles e ws) (syncWorkersMetadata e ws includeWorkerJSON))"

definition history_jobs :: "catalog \<Rightarrow> string list \<Rightarrow> (string \<rightharpoonup> DeployHistoryJob) \<Rightarrow> DeployHistoryJob list" where
  "history_jobs c deployableJobs outs =
     map (\<lambda>job. case outs job of Some entry \<Rightarrow> entry
            | None \<Rightarrow> job_entry c job DeployHistoryOutcomeAborted ''deploy_aborted'') deployableJobs"

definition history_status :: "deploy_error list \<Rightarrow> string" where
  "history_status fs =
     (if list_ex isCancelled fs then DeployHistoryStatusCancelled
      else if fs \<noteq> [] then DeployHistoryStatusFailed else DeployHistoryStatusSucceeded)"

definition writeDeployHistory ::
  "string \<Rightarrow> world \<Rightarrow> string list \<Rightarrow> bool \<Rightarrow> string list \<Rightarrow> run \<Rightarrow> DeployHistoryRecord option" where
  "writeDeployHistory runID w jobsFilter force deployableJobs r =
     (if runID = [] then None
      else Some \<lparr>dh_RunID = runID, dh_Generation = generation w, dh_Status = history_status (failures r),
                 dh_JobsFilter = Join jobsFilter '','', dh_Force = force,
                 dh_Jobs = history_jobs (cat w) deployableJobs (outcomes r)\<rparr>)"

definition listDeployableJobs :: "catalog \<Rightarrow> string list \<Rightarrow> string list" where
  "listDeployableJobs c jobsFilter = selectJobsForDeploy (map d_name (GetDeployableJobsInOrder c)) jobsFilter"

definition bumpGenerationForDeploy :: "world \<Rightarrow> world" where
  "bumpGenerationForDeploy w = w\<lparr>generation := generation w + 1\<rparr>"

definition revertGenerationForDeploy :: "int \<Rightarrow> world \<Rightarrow> world" where
  "revertGenerationForDeploy previous w = w\<lparr>generation := previous\<rparr>"

text \<open>The phases between the bump of the generation and the commit.\<close>

definition run_phases ::
  "deploy_env \<Rightarrow> string \<Rightarrow> string list \<Rightarrow> bool \<Rightarrow> string list \<Rightarrow> string list \<Rightarrow> world \<Rightarrow> run \<times> world" where
  "run_phases e bucketID jobsFilter force ws js w =
     (case plan_phase e js new_run w of (r1, w1) \<Rightarrow>
      case (if abortDeploy r1 then (r1, w1) else pre_phase e js r1 w1) of (r2, w2) \<Rightarrow>
      case (if abortDeploy r2 then (r2, w2)
            else case reconcileRemovedAndDisabledAllocations e bucketID jobsFilter force w2 of
                (Inl x, w') \<Rightarrow> (abort_run (add_failure (OtherError x) r2), w') | (Inr u, w') \<Rightarrow> (r2, w')) of (r3, w3) \<Rightarrow>
      case (if abortDeploy r3 then (r3, w3) else rollout_phase e bucketID force js r3 w3) of (r4, w4) \<Rightarrow>
      case collecting (wrap_error OtherError
             (finalSyncWorkerMetadata e ws (allJobsDeployedOrSkipped js (outcomes r4)))) r4 w4 of (r5, w5) \<Rightarrow>
      if abortDeploy r5 then (r5, w5) else post_phase e js r5 w5)"

record execute_result =
  er_errors :: "deploy_error list"
  er_history :: "DeployHistoryRecord option"

definition early_return :: "kive_error \<Rightarrow> world \<Rightarrow> world \<Rightarrow> execute_result \<times> world" where
  "early_return x w w' = (\<lparr>er_errors = [OtherError x], er_history = None\<rparr>, w'\<lparr>cat := cat w, generation := generation w\<rparr>)"

definition insert_history ::
  "deploy_env \<Rightarrow> DeployHistoryRecord option \<Rightarrow> run \<Rightarrow> world \<Rightarrow> run \<times> world \<times> DeployHistoryRecord option" where
  "insert_history e history r w =
     (case history of
        None \<Rightarrow> (r, w, None)
      | Some h \<Rightarrow> (case perform e InsertHistory w of
                     (Inl x, w') \<Rightarrow> (add_failure (OtherError x) r, w', None)
                   | (Inr u, w') \<Rightarrow> (r, w', Some h)))"

text \<open>A commit that fails leaves the database as it was; vacuum and snapshot come after it.\<close>

definition commit_run :: "deploy_env \<Rightarrow> world \<Rightarrow> run \<Rightarrow> DeployHistoryRecord option \<Rightarrow> world \<Rightarrow> execute_result \<times> world" where
  "commit_run e w r written w8 =
     (case perform e Commit w8 of
        (Inl x, w9) \<Rightarrow> early_return ErrDatabase w w9
      | (Inr u, w9) \<Rightarrow>
          (case perform e Vacuum w9 of
             (Inl x, w10) \<Rightarrow>
               (\<lparr>er_errors = failures r @ [OtherError x], er_history = written\<rparr>,
                if failures r = [] then w10 else snd (perform e Backup w10))
           | (Inr v, w10) \<Rightarrow> (\<lparr>er_errors = failures r, er_history = written\<rparr>, snd (perform e Backup w10))))"

definition finish_run ::
  "deploy_env \<Rightarrow> string \<Rightarrow> string list \<Rightarrow> bool \<Rightarrow> string list \<Rightarrow> world \<Rightarrow> run \<Rightarrow> world \<Rightarrow> execute_result \<times> world" where
  "finish_run e runID jobsFilter force js w r6 w6 =
     (let r7 = r6\<lparr>failures := noteHealthCancel (failures r6)\<rparr>;
          w7 = (if allJobsDeployedOrSkipped js (outcomes r7) then w6 else revertGenerationForDeploy (generation w) w6)
      in case insert_history e (writeDeployHistory runID w7 jobsFilter force js r7) r7 w7 of
           (r8, w8, written) \<Rightarrow> commit_run e w r8 written w8)"

definition execute :: "deploy_env \<Rightarrow> string \<Rightarrow> string \<Rightarrow> string list \<Rightarrow> bool \<Rightarrow> world \<Rightarrow> execute_result \<times> world" where
  "execute e bucketID runID jobsFilter0 force w =
     (let jobsFilter = normalizeJobFilter jobsFilter0;
          ws = GetWorkers (cat w) []
      in case perform e (Prerequisites ws) w of
           (Inl x, w1) \<Rightarrow> early_return x w w1
         | (Inr u, w1) \<Rightarrow>
             (let js = listDeployableJobs (cat w) jobsFilter
              in case prepareWorkersFiles e ws (bumpGenerationForDeploy w1) of
                   (Inl x, w2) \<Rightarrow> early_return x w w2
                 | (Inr v, w2) \<Rightarrow>
                     (case run_phases e bucketID jobsFilter force ws js w2 of
                        (r6, w6) \<Rightarrow> finish_run e runID jobsFilter force js w r6 w6)))"

section \<open>Effects of the phases\<close>

lemma resolve_set: "ResolveRolloutOrder e job ips w = (Inr rs, w1) \<Longrightarrow> set (Ordered rs) = set ips"
  unfolding ResolveRolloutOrder_def by (rule ResolveOrder_set) (erule Pair_inject)

lemma enumerate_snd: "ib \<in> set (enumerate k xs) \<Longrightarrow> snd ib \<in> set xs"
  by (cases ib) (auto simp: enumerate_eq_zip dest: set_zip_rightD)

context effect_relation
begin

lemma R_wrap: "R w (snd (m w)) \<Longrightarrow> R w (snd (wrap_error f m w))"
  by (auto simp: wrap_error_def split: prod.splits sum.splits)

lemma R_note: "R w (snd (note_event ev w))"
  by (simp add: note_event_def R_event)

lemma R_collecting: "R w (snd (m w)) \<Longrightarrow> R w (snd (collecting m r w))"
  by (auto simp: collecting_def split: prod.splits sum.splits)

lemma R_persist: "R w (snd (persistHookKV e job w))"
  unfolding persistHookKV_def by (intro R_wrap R_perform)

lemma R_collect_persist: "R w (snd (collecting (persistHookKV e job) r w))"
  by (rule R_collecting) (rule R_persist)

lemma R_prepare_workers: "R w (snd (prepareWorkersFiles e ips w))"
  unfolding prepareWorkersFiles_def prepareOneWorkerFiles_def by (intro R_rules)

lemma R_prepare_jobs: "R w (snd (prepareJobsFiles e js w))"
  unfolding prepareJobsFiles_def by (intro R_rules)

lemma R_hooks_for_job: "R w (snd (hooks_for_job err e event job w))"
  unfolding hooks_for_job_def by (auto intro!: R_bind R_readC R_ret R_wrap R_resolve R_query R_for R_hook_batches)

lemma R_final_sync: "R w (snd (finalSyncWorkerMetadata e ips b w))"
  unfolding finalSyncWorkerMetadata_def syncWorkersMetadata_def
  by (auto intro!: R_ret R_then R_prepare_workers R_bind R_query R_parallel R_perform)

lemma R_assume_dead: "R w (snd (runWorkerCommandOrAssumeDead e ip ctx env w))"
  unfolding runWorkerCommandOrAssumeDead_def by (intro R_ignoring R_perform)

lemma R_stopFn: "R w (snd (stopFn e b job items ip w))"
  unfolding stopFn_def Let_def by (auto intro!: R_assume_dead R_then R_perform R_sync)

lemma R_remove_artifacts: "R w (snd (removeJobDeployArtifactsFromWorker e b ip job dead w))"
  unfolding removeJobDeployArtifactsFromWorker_def Let_def by (auto intro!: R_then R_assume_dead R_perform)

lemma R_remove_bucket: "R w (snd (removeWorkerBucketFromWorker e b ip w))"
  unfolding removeWorkerBucketFromWorker_def by (intro R_then R_assume_dead R_perform)

lemma R_purge_kv: "R w (snd (purgeHookKVForInactiveJobs e stopped w))"
  unfolding purgeHookKVForInactiveJobs_def
  by (auto intro!: R_ret R_then R_for R_bind R_readC R_note R_perform simp del: forD.simps)

lemma R_pre_phase: "R w (snd (pre_phase e js r w))"
proof (induction js arbitrary: r w)
  case Nil
  then show ?case by (simp add: R_refl)
next
  case (Cons job js)
  have hook: "R w (snd (executePreHooksForJob e job w))"
    unfolding executePreHooksForJob_def by (rule R_hooks_for_job)
  have rest: "R w1 (snd (pre_phase e js r2 w2))" if "collecting (persistHookKV e job) q w1 = (r2, w2)" for q w1 r2 w2
    using R_collect_persist [of w1 e job q] Cons.IH that by (metis R_trans snd_conv)
  show ?case
    using hook rest by (auto split: prod.split sum.split intro: R_trans)
qed

lemma R_post_phase: "R w (snd (post_phase e js r w))"
proof (induction js arbitrary: r w)
  case Nil
  then show ?case by (simp add: R_refl)
next
  case (Cons job js)
  have hook: "R w (snd (executePostHooks e job w))"
    unfolding executePostHooks_def by (rule R_hooks_for_job)
  have rest: "R w1 (snd (post_phase e js r2 w2))" if "collecting (persistHookKV e job) q w1 = (r2, w2)" for q w1 r2 w2
    using R_collect_persist [of w1 e job q] Cons.IH that by (metis R_trans snd_conv)
  show ?case
    using hook rest Cons.IH by (auto split: prod.split sum.split intro: R_trans)
qed

end

text \<open>
  What reconciliation may do to an allocation that is gone: promote it and remove its hash rows. A
  relation that tolerates both for gone allocations holds across the whole phase.
\<close>

locale stop_relation = effect_relation R for R :: "world \<Rightarrow> world \<Rightarrow> bool" +
  fixes gone :: "string \<Rightarrow> string \<Rightarrow> bool"
  assumes R_stop_promote: "gone ip job \<Longrightarrow> GetAllocationID (cat w) ip job = Inr i \<Longrightarrow>
      R w (w\<lparr>cat := PromoteAllocationState i (cat w)\<rparr>)"
    and R_stop_remove: "gone ip job \<Longrightarrow> GetAllocationID (cat w) ip job = Inr i \<Longrightarrow>
      R w (w\<lparr>cat := RemoveAllocationHash i (cat w)\<rparr>)"
begin

definition ok_item :: "string \<Rightarrow> stoppedReconcileItem \<Rightarrow> bool" where
  "ok_item job item \<longleftrightarrow> s_job (ri_alloc item) = job \<and> (s_removed (ri_alloc item) \<or> s_disabled (ri_alloc item)) \<and>
     (s_removed (ri_alloc item) \<longrightarrow> gone (s_worker_ip (ri_alloc item)) job)"

lemma R_remove_hash: "gone ip job \<Longrightarrow> R w (snd (removeHashOf ip job w))"
  unfolding removeHashOf_def by (intro R_bind R_query) (auto simp: act_simps intro: R_stop_remove)

lemma R_promote_gone:
  "(\<And>ip. ip \<in> set ips \<Longrightarrow> gone ip job) \<Longrightarrow> R w (snd (promoteAllocationWorkers e job ips w))"
  unfolding promoteAllocationWorkers_def
  by (intro R_for R_bind R_query R_then R_clear) (auto simp: act_simps intro: R_stop_promote)

lemma R_stop_items: "(\<And>item. item \<in> set items \<Longrightarrow> ok_item job item) \<Longrightarrow> R w (snd (stop_items job items w))"
proof (induction items arbitrary: w)
  case (Cons item items)
  have "R w1 (snd (reconcileSkippedStopAllocation (ri_alloc item) w1))" for w1
    unfolding reconcileSkippedStopAllocation_def using Cons.prems [of item]
    by (auto simp: ok_item_def intro: R_remove_hash R_ret)
  with Cons show ?case by (auto intro!: R_bind R_query R_ret R_then)
qed (simp add: R_ret)

lemma itemByIP_in:
  assumes "ip \<in> (\<lambda>item. s_worker_ip (ri_alloc item)) ` set items"
  shows "itemByIP items ip \<in> set items \<and> s_worker_ip (ri_alloc (itemByIP items ip)) = ip"
proof -
  let ?m = "rev (map (\<lambda>item. (s_worker_ip (ri_alloc item), item)) items)"
  have "ip \<in> fst ` set ?m" using assms by (auto simp: image_image)
  then have "map_of ?m ip \<noteq> None" by (simp add: map_of_eq_None_iff)
  then obtain item where item: "map_of ?m ip = Some item" by blast
  then have "(ip, item) \<in> set ?m" by (rule map_of_SomeD)
  with item show ?thesis by (auto simp: itemByIP_def)
qed

lemma stop_items_subset: "stop_items job items w = (Inr kept, w') \<Longrightarrow> set kept \<subseteq> set items"
proof (induction items arbitrary: w kept)
  case (Cons item items)
  from Cons.prems show ?case
    by (auto simp: bindD_Inr thenD_Inr act_simps split: if_splits dest!: Cons.IH)
qed (simp add: act_simps)

lemma R_stop_batch:
  assumes "\<And>item. item \<in> set items \<Longrightarrow> ok_item job item"
    and "set batch \<subseteq> (\<lambda>item. s_worker_ip (ri_alloc item)) ` set items"
  shows "R w (snd (stopBatch e b job force items rs n (i, batch) w))"
proof -
  have "gone ip job" if "ip \<in> set (filter (\<lambda>ip. \<not> s_disabled (ri_alloc (itemByIP items ip))) batch)" for ip
  proof -
    from that assms(2) have "itemByIP items ip \<in> set items \<and> s_worker_ip (ri_alloc (itemByIP items ip)) = ip"
      by (intro itemByIP_in) auto
    with assms(1) [of "itemByIP items ip"] that show ?thesis by (simp add: ok_item_def)
  qed
  then show ?thesis
    unfolding stopBatch_def
    by (auto intro!: R_then R_gate R_parallel R_stopFn R_event_hooks R_perform R_promote_gone)
qed

lemma R_cleanup: "ok_item job item \<Longrightarrow> R w (snd (cleanup_removed e b job item w))"
  unfolding cleanup_removed_def ok_item_def by (auto intro!: R_then R_remove_artifacts R_remove_hash R_ret)

lemma R_stop_batches:
  assumes ok: "\<And>item. item \<in> set kept \<Longrightarrow> ok_item job item"
    and rs: "set (Ordered rs) = (\<lambda>item. s_worker_ip (ri_alloc item)) ` set kept"
  shows "R w (snd (forD (stopBatch e b job force kept rs n) (enumerate 0 (SplitWorkerBatches (Ordered rs) bs)) w))"
proof (rule R_for)
  fix ib w1
  assume "ib \<in> set (enumerate 0 (SplitWorkerBatches (Ordered rs) bs))"
  then have "snd ib \<in> set (SplitWorkerBatches (Ordered rs) bs)" by (rule enumerate_snd)
  then obtain i batch where ib: "ib = (i, batch)" "batch \<in> set (SplitWorkerBatches (Ordered rs) bs)"
    by (metis prod.collapse)
  have "set batch \<subseteq> set (Ordered rs)"
  proof
    fix ip
    assume "ip \<in> set batch"
    with ib(2) show "ip \<in> set (Ordered rs)"
      unfolding worker_batches.in_some_batch [where xs = "Ordered rs" and b = bs] by (rule bexI [rotated])
  qed
  with rs have "set batch \<subseteq> (\<lambda>item. s_worker_ip (ri_alloc item)) ` set kept" by simp
  with ok show "R w1 (snd (stopBatch e b job force kept rs n ib w1))" unfolding ib(1) by (intro R_stop_batch)
qed

lemma R_stop_and_clean:
  assumes ok: "\<And>item. item \<in> set kept \<Longrightarrow> ok_item job item"
  shows "R w (snd (stop_and_clean e b job force kept w))"
proof -
  have clean: "R w1 (snd (forD (cleanup_removed e b job) kept w1))" for w1
    by (intro R_for R_cleanup ok)
  have batches: "R w2 (snd (forD (stopBatch e b job force kept rs n) (enumerate 0 (SplitWorkerBatches (Ordered rs) bs)) w2))"
    if "ResolveRolloutOrder e job (map (\<lambda>item. s_worker_ip (ri_alloc item)) kept) w3 = (Inr rs, w4)" for rs n bs w2 w3 w4
    using resolve_set [OF that] by (intro R_stop_batches ok) simp_all
  show ?thesis
    unfolding stop_and_clean_def Let_def by (auto intro!: R_ret R_bind R_resolve R_query R_then clean batches)
qed

lemma R_reconcile_job:
  assumes "\<And>item. item \<in> set items \<Longrightarrow> ok_item job item"
  shows "R w (snd (reconcileStoppedAllocationsForJob e b job force items w))"
  unfolding reconcileStoppedAllocationsForJob_def
proof (rule R_bind [OF R_stop_items [OF assms]], assumption)
  fix kept w1
  assume kept: "stop_items job items w = (Inr kept, w1)"
  show "R w1 (snd (stop_and_clean e b job force kept w1))"
    using stop_items_subset [OF kept] assms by (intro R_stop_and_clean) blast
qed

lemma ok_reconcile_items:
  assumes "item \<in> set (reconcile_items c (filter P (ListStoppedAllocations c)) job)"
    and "\<And>alloc. alloc \<in> set (ListStoppedAllocations c) \<Longrightarrow> s_removed alloc \<Longrightarrow> gone (s_worker_ip alloc) (s_job alloc)"
  shows "ok_item job item"
proof -
  from assms(1) have item: "ri_alloc item \<in> set (ListStoppedAllocations c)" "s_job (ri_alloc item) = job"
    by (auto simp: reconcile_items_def)
  moreover from item(1) have "s_removed (ri_alloc item) \<or> s_disabled (ri_alloc item)"
    by (auto simp: ListStoppedAllocations_def)
  ultimately show ?thesis using assms(2) by (auto simp: ok_item_def)
qed

lemma R_reconcile:
  assumes "\<And>alloc. alloc \<in> set (ListStoppedAllocations (cat w)) \<Longrightarrow> s_removed alloc \<Longrightarrow> gone (s_worker_ip alloc) (s_job alloc)"
  shows "R w (snd (reconcileRemovedAndDisabledAllocations e b flt force w))"
proof -
  let ?c = "cat w"
  let ?stopped = "filter (\<lambda>alloc. jobInFilter (s_job alloc) flt) (ListStoppedAllocations ?c)"
  have job: "R w1 (snd (reconcileStoppedAllocationsForJob e b job force (reconcile_items ?c ?stopped job) w1))" for job w1
    by (rule R_reconcile_job) (erule ok_reconcile_items, erule (1) assms)
  have "R w (snd (bindD (query (\<lambda>_. offCatalogWorkers ?c ?stopped)) (\<lambda>gone.
          thenD (forD (\<lambda>job. reconcileStoppedAllocationsForJob e b job force (reconcile_items ?c ?stopped job))
                   (Unique (map s_job ?stopped)))
         (thenD (forD (removeWorkerBucketFromWorker e b) gone) (purgeHookKVForInactiveJobs e ?stopped))) w))"
    by (intro R_bind R_query R_then R_for R_remove_bucket R_purge_kv job)
  then show ?thesis
    unfolding reconcileRemovedAndDisabledAllocations_def by (simp add: bindD_def [of "readC id"] readC_def Let_def)
qed

end

text \<open>
  The relation of the reconciliation phase, relative to the catalog \<open>c\<close> it started from: rows of
  allocations that are not removed stay as they are.
\<close>

definition stop_rel :: "catalog \<Rightarrow> world \<Rightarrow> world \<Rightarrow> bool" where
  "stop_rel c w w' \<longleftrightarrow>
     (same_tables c (cat w) \<and> catalog_wf (cat w) \<longrightarrow>
        same_tables c (cat w') \<and> catalog_wf (cat w') \<and>
        (\<forall>a \<in> set (allocations c). a_removed a \<noteq> 1 \<longrightarrow> hash_of (cat w') (a_alloc_id a) = hash_of (cat w) (a_alloc_id a))) \<and>
     generation w' = generation w \<and> (\<exists>evs. trace w' = trace w @ evs)"

definition removed_alloc :: "catalog \<Rightarrow> string \<Rightarrow> string \<Rightarrow> bool" where
  "removed_alloc c ip job \<longleftrightarrow> (\<exists>a \<in> set (allocations c). a_worker_ip a = ip \<and> a_job a = job \<and> a_removed a = 1)"

lemma same_tables_trans: "same_tables c c1 \<Longrightarrow> same_tables c1 c2 \<Longrightarrow> same_tables c c2"
  by (simp add: same_tables_def)

lemma same_tables_refl: "same_tables c c"
  by (simp add: same_tables_def)

lemma removed_id:
  assumes "removed_alloc c ip job" "same_tables c c'" "catalog_wf c'" "GetAllocationID c' ip job = Inr i"
    and "a \<in> set (allocations c)" "a_removed a \<noteq> 1"
  shows "a_alloc_id a \<noteq> i"
proof -
  have al: "allocations c' = allocations c" using assms(2) by (simp add: same_tables_def)
  obtain x where x: "x \<in> set (allocations c)" "a_worker_ip x = ip" "a_job x = job" "a_removed x = 1"
    using assms(1) unfolding removed_alloc_def by (elim bexE conjE)
  have "i = a_alloc_id x"
    using GetAllocationID_wf [OF assms(3), of x] x assms(4) al by simp
  moreover have "a_alloc_id a \<noteq> a_alloc_id x"
  proof
    assume "a_alloc_id a = a_alloc_id x"
    then have "a = x" using assms(3,5) x(1) al by (auto simp: catalog_wf_def distinct_map dest: inj_onD)
    with x(4) assms(6) show False by simp
  qed
  ultimately show ?thesis by simp
qed

lemma stop_rel_write:
  assumes "removed_alloc c ip job" "GetAllocationID (cat w) ip job = Inr i"
    and "same_tables (cat w) c'" "catalog_wf (cat w) \<Longrightarrow> catalog_wf c'"
    and "\<And>k. k \<noteq> i \<Longrightarrow> hash_of c' k = hash_of (cat w) k"
  shows "stop_rel c w (w\<lparr>cat := c'\<rparr>)"
  unfolding stop_rel_def
proof (intro conjI impI)
  assume wf: "same_tables c (cat w) \<and> catalog_wf (cat w)"
  then show "same_tables c (cat (w\<lparr>cat := c'\<rparr>))" using same_tables_trans assms(3) by auto
  show "catalog_wf (cat (w\<lparr>cat := c'\<rparr>))" using assms(4) wf by simp
  show "\<forall>a \<in> set (allocations c). a_removed a \<noteq> 1 \<longrightarrow>
      hash_of (cat (w\<lparr>cat := c'\<rparr>)) (a_alloc_id a) = hash_of (cat w) (a_alloc_id a)"
    using removed_id [OF assms(1) _ _ assms(2)] wf assms(5) by simp
qed simp_all

interpretation stop_frame: stop_relation "stop_rel c" "removed_alloc c" for c
proof
  fix u v w :: world and ev ip i job
  show "stop_rel c w w" by (simp add: stop_rel_def)
  show "stop_rel c u w" if "stop_rel c u v" "stop_rel c v w"
    using that by (auto simp: stop_rel_def)
  show "stop_rel c w (w\<lparr>trace := trace w @ [ev]\<rparr>)" by (simp add: stop_rel_def)
  assume gone: "removed_alloc c ip job" "GetAllocationID (cat w) ip job = Inr i"
  show "stop_rel c w (w\<lparr>cat := PromoteAllocationState i (cat w)\<rparr>)"
    by (rule stop_rel_write [OF gone same_tables_writes(1) wf_promote]) (simp_all add: promote.look_upd)
  show "stop_rel c w (w\<lparr>cat := RemoveAllocationHash i (cat w)\<rparr>)"
    by (rule stop_rel_write [OF gone same_tables_writes(3) wf_remove]) (simp_all add: hash_of_remove)
qed

lemma reconcile_keeps_live:
  "stop_rel (cat w) w (snd (reconcileRemovedAndDisabledAllocations e b flt force w))"
  by (rule stop_frame.R_reconcile) (auto simp: ListStoppedAllocations_def removed_alloc_def)

section \<open>The plan\<close>

definition has_plan :: "catalog \<Rightarrow> string \<Rightarrow> bool" where
  "has_plan c k = (case hash_of c k of None \<Rightarrow> False | Some h \<Rightarrow> pending_hash h \<noteq> None)"

lemma planned_iff: "planned c job \<longleftrightarrow> (\<forall>a \<in> set (allocations c). live_row job a \<longrightarrow> has_plan c (a_alloc_id a))"
  by (simp add: planned_def has_plan_def list_all_iff)

lemma find_snoc: "find P (xs @ [x]) = (case find P xs of None \<Rightarrow> if P x then Some x else None | Some y \<Rightarrow> Some y)"
  by (induction xs) auto

lemma hash_of_plan:
  "hash_of (UpdateAllocationPlan i hash p c) k =
     (if k \<noteq> i then hash_of c k
      else case hash_of c k of
        None \<Rightarrow> Some \<lparr>h_alloc_id = i, pending_hash = Some hash, applied_hash = None, applied_version = Some DefaultAllocationVersion\<rparr>
      | Some h \<Rightarrow> if ifnull (pending_hash h) [] = hash then Some h else Some (h\<lparr>pending_hash := Some hash\<rparr>))"
proof (cases "hash_of c i")
  case None
  have "hash_of (UpdateAllocationPlan i hash p c) k =
      hash_of (c\<lparr>allocation_hashes := allocation_hashes c @
        [\<lparr>h_alloc_id = i, pending_hash = Some hash, applied_hash = None, applied_version = Some DefaultAllocationVersion\<rparr>]\<rparr>) k"
    by (simp add: UpdateAllocationPlan_def None)
  also have "\<dots> = (case hash_of c k of None \<Rightarrow> if k = i then
        Some \<lparr>h_alloc_id = i, pending_hash = Some hash, applied_hash = None, applied_version = Some DefaultAllocationVersion\<rparr> else None
      | Some y \<Rightarrow> Some y)"
    by (auto simp: hash_of_def find_snoc split: option.split)
  finally show ?thesis using None by (auto split: option.split)
next
  case (Some h)
  show ?thesis
  proof (cases "ifnull (pending_hash h) [] = hash")
    case True
    then show ?thesis using Some by (simp add: UpdateAllocationPlan_def)
  next
    case False
    have "hash_of (UpdateAllocationPlan i hash p c) k =
        hash_of (c\<lparr>allocation_hashes := update_where (\<lambda>h. h_alloc_id h = i) (\<lambda>h. h\<lparr>pending_hash := Some hash\<rparr>)
          (allocation_hashes c)\<rparr>) k"
      using False Some by (simp add: UpdateAllocationPlan_def)
    also have "\<dots> = (if k = i then map_option (\<lambda>h. h\<lparr>pending_hash := Some hash\<rparr>) (hash_of c k) else hash_of c k)"
      by (rule hash_of_update) simp
    finally show ?thesis using False Some by auto
  qed
qed

lemma has_plan_update:
  "has_plan c k \<Longrightarrow> has_plan (UpdateAllocationPlan i hash p c) k"
  "hash \<noteq> [] \<Longrightarrow> has_plan (UpdateAllocationPlan i hash p c) i"
  by (auto simp: has_plan_def hash_of_plan ifnull_def split: option.splits)

definition plan_rel :: "world \<Rightarrow> world \<Rightarrow> bool" where
  "plan_rel w w' \<longleftrightarrow> same_tables (cat w) (cat w') \<and> (catalog_wf (cat w) \<longrightarrow> catalog_wf (cat w')) \<and>
     generation w' = generation w \<and> (\<exists>evs. trace w' = trace w @ evs) \<and> (\<forall>k. has_plan (cat w) k \<longrightarrow> has_plan (cat w') k)"

interpretation plan_effect: effect_relation plan_rel
proof
  fix u v w :: world and ev
  show "plan_rel w w" by (simp add: plan_rel_def same_tables_refl)
  show "plan_rel u w" if "plan_rel u v" "plan_rel v w"
    using that same_tables_trans by (auto simp: plan_rel_def)
  show "plan_rel w (w\<lparr>trace := trace w @ [ev]\<rparr>)" by (simp add: plan_rel_def same_tables_refl)
qed

lemma plan_rel_update: "plan_rel w (w\<lparr>cat := UpdateAllocationPlan i hash p (cat w)\<rparr>)"
  by (simp add: plan_rel_def same_tables_writes wf_plan has_plan_update)

definition plan_worker :: "deploy_env \<Rightarrow> string \<Rightarrow> string \<Rightarrow> unit deploy" where
  "plan_worker e job workerIP =
     bindD (query (\<lambda>c. GetAllocationID c workerIP job)) (\<lambda>allocID.
     bindD (\<lambda>w. (staged_tree e (trace w) workerIP job, w)) (\<lambda>tree.
     thenD (writeC (UpdateAllocationPlan allocID (fst tree) (snd tree)))
           (clearWorkerVersionKVKeys e job workerIP)))"

lemma updateJobAllocationHashes_eq:
  "updateJobAllocationHashes e job = bindD (readC (\<lambda>c. GetNonRemovedAllocations c job)) (forD (plan_worker e job))"
  by (simp add: updateJobAllocationHashes_def plan_worker_def [abs_def])

lemma plan_rel_worker: "plan_rel w (snd (plan_worker e job ip w))"
  unfolding plan_worker_def
  by (intro plan_effect.R_bind plan_effect.R_query plan_effect.R_then plan_effect.R_clear)
     (auto simp: act_simps plan_effect.R_refl plan_rel_update)

lemma plan_rel_refresh: "plan_rel w (snd (refreshPlanHashesForJobPlan e job w))"
  unfolding refreshPlanHashesForJobPlan_def RefreshPlanHashesForJobs_def updateAllocationHash_def updateJobAllocationHashes_eq
  by (auto intro!: plan_effect.R_then plan_effect.R_prepare_jobs plan_effect.R_bind plan_effect.R_readC
      plan_effect.R_for plan_rel_worker plan_effect.R_ret)

text \<open>
  What the plan phase relies on: the digest of a staged tree is not empty, and planning, which takes no
  context, never reports a cancelled context.
\<close>

definition plan_env :: "deploy_env \<Rightarrow> bool" where
  "plan_env e \<longleftrightarrow>
     (\<forall>tr ip job. case staged_tree e tr ip job of Inl x \<Rightarrow> x \<noteq> ErrCancelled | Inr t \<Rightarrow> fst t \<noteq> []) \<and>
     (\<forall>tr job ip. outcome e tr (PrepareJob job ip) \<noteq> Some ErrCancelled) \<and>
     (\<forall>tr ns k. outcome e tr (KvDelete ns k) \<noteq> Some ErrCancelled)"

lemma plan_env_tree:
  "plan_env e \<Longrightarrow> case staged_tree e tr ip job of Inl x \<Rightarrow> x \<noteq> ErrCancelled | Inr t \<Rightarrow> fst t \<noteq> []"
  by (simp add: plan_env_def)

lemma plan_worker_ok:
  assumes "plan_env e" "plan_worker e job ip w = (Inr u, w')"
  shows "\<exists>i. GetAllocationID (cat w) ip job = Inr i \<and> has_plan (cat w') i"
proof -
  from assms(2) obtain i t where it: "GetAllocationID (cat w) ip job = Inr i"
      "staged_tree e (trace w) ip job = Inr t"
      "clearWorkerVersionKVKeys e job ip (w\<lparr>cat := UpdateAllocationPlan i (fst t) (snd t) (cat w)\<rparr>) = (Inr u, w')"
    by (auto simp: plan_worker_def bindD_Inr thenD_Inr act_simps)
  from plan_env_tree [OF assms(1), of "trace w" ip job] it(2) have "fst t \<noteq> []" by simp
  then have "has_plan (cat w') i" using cat_clear [OF it(3)] by (simp add: has_plan_update)
  with it(1) show ?thesis by blast
qed

lemma plan_workers_ok:
  assumes "plan_env e" "forD (plan_worker e job) ips w = (Inr u, w')" "ip \<in> set ips"
    and "GetAllocationID (cat w) ip job = Inr i"
  shows "has_plan (cat w') i"
  using assms(2-)
proof (induction ips arbitrary: w)
  case (Cons x xs)
  from Cons.prems(1) obtain v w1 where x: "plan_worker e job x w = (Inr v, w1)"
      and rest: "forD (plan_worker e job) xs w1 = (Inr u, w')"
    by (auto simp: thenD_Inr)
  have r1: "plan_rel w w1" using plan_rel_worker [of w e job x] x by simp
  have r2: "plan_rel w1 w'"
    using plan_effect.R_for [where w = w1 and xs = xs and f = "plan_worker e job"] plan_rel_worker rest by simp
  show ?case
  proof (cases "ip = x")
    case True
    with plan_worker_ok [OF assms(1) x] Cons.prems(3) r2 show ?thesis by (auto simp: plan_rel_def)
  next
    case False
    moreover have "GetAllocationID (cat w1) ip job = Inr i"
      using r1 Cons.prems(3) GetAllocationID_alloc [of "cat w1" "cat w"] by (simp add: plan_rel_def same_tables_def)
    ultimately show ?thesis using Cons.IH [OF rest] Cons.prems(2) by simp
  qed
qed simp

lemma refresh_planned:
  assumes "plan_env e" "catalog_wf (cat w)" "refreshPlanHashesForJobPlan e job w = (Inr u, w')"
  shows "planned (cat w') job"
proof -
  from assms(3) obtain w1 v where w1: "prepareJobsFiles e [job] w = (Inr v, w1)"
      and up: "forD (plan_worker e job) (GetNonRemovedAllocations (cat w1) job) w1 = (Inr u, w')"
    by (auto simp: refreshPlanHashesForJobPlan_def RefreshPlanHashesForJobs_def updateAllocationHash_def
        updateJobAllocationHashes_eq thenD_Inr bindD_Inr act_simps)
  have c1: "cat w1 = cat w" using same_cat.R_prepare_jobs [where w = w and e = e and js = "[job]"] w1 by simp
  have al: "allocations (cat w') = allocations (cat w)"
    using plan_rel_refresh [of w e job] assms(3) by (simp add: plan_rel_def same_tables_def)
  show ?thesis
    unfolding planned_iff al
  proof (intro ballI impI)
    fix a
    assume a: "a \<in> set (allocations (cat w))" "live_row job a"
    then have "a_worker_ip a \<in> set (GetNonRemovedAllocations (cat w1) job)"
      by (auto simp: c1 GetNonRemovedAllocations_def live_row_def)
    moreover have "GetAllocationID (cat w1) (a_worker_ip a) job = Inr (a_alloc_id a)"
      using GetAllocationID_wf [OF assms(2) a(1)] a(2) by (simp add: c1 live_row_def)
    ultimately show "has_plan (cat w') (a_alloc_id a)" by (rule plan_workers_ok [OF assms(1) up])
  qed
qed

section \<open>When a job needs a rollout\<close>

definition row_needs :: "allocation_row \<Rightarrow> hash_row option \<Rightarrow> bool" where
  "row_needs a x = (case x of None \<Rightarrow> True
     | Some h \<Rightarrow> a_disabled a = 0 \<and> applied_hash h = None \<or> content_pending h \<or>
         ifnull (applied_version h) DefaultAllocationVersion \<noteq> ifnull (a_version a) DefaultAllocationVersion)"

lemma first_missing_eval:
  "(\<And>x. x \<in> set xs \<Longrightarrow> f x = Inr (g x)) \<Longrightarrow> first_missing f xs = Inr (\<exists>x \<in> set xs. g x)"
  by (induction xs) auto

lemma JobNeedsRollout_wf:
  assumes "catalog_wf c"
  shows "JobNeedsRollout c job =
    Inr (\<exists>a \<in> set (allocations c). live_row job a \<and> row_needs a (hash_of c (a_alloc_id a)))"
proof -
  let ?live = "{a \<in> set (allocations c). live_row job a}"
  define missing where "missing ip \<longleftrightarrow> (\<exists>a \<in> ?live. a_worker_ip a = ip \<and> hash_of c (a_alloc_id a) = None)" for ip
  have m: "hash_row_missing c job ip = Inr (missing ip)" if "ip \<in> set (GetNonRemovedAllocations c job)" for ip
  proof -
    from that obtain a where a: "a \<in> ?live" "ip = a_worker_ip a"
      by (auto simp: GetNonRemovedAllocations_def live_row_def)
    have "x = a" if "x \<in> ?live" "a_worker_ip x = ip" for x
      using alloc_of_wf [OF assms, of x] alloc_of_wf [OF assms, of a] that a by (simp add: live_row_def)
    with a have "missing ip \<longleftrightarrow> hash_of c (a_alloc_id a) = None" by (auto simp: missing_def)
    with hash_row_missing_wf [OF assms, of a] a show ?thesis by (simp add: live_row_def)
  qed
  have ips: "set (GetNonRemovedAllocations c job) = a_worker_ip ` ?live"
    by (auto simp: GetNonRemovedAllocations_def live_row_def)
  have new: "GetNewAllocations c job \<noteq> [] \<longleftrightarrow>
      (\<exists>a \<in> ?live. a_disabled a = 0 \<and> (\<exists>h. hash_of c (a_alloc_id a) = Some h \<and> applied_hash h = None))"
    by (auto simp: GetNewAllocations_def filter_empty_conv joined_hashes_iff [OF assms] active_row_def live_row_def)
  have upd: "GetUpdatedNonRemovedAllocations c job \<noteq> [] \<longleftrightarrow>
      (\<exists>a \<in> ?live. \<exists>h. hash_of c (a_alloc_id a) = Some h \<and> content_pending h)"
    by (auto simp: GetUpdatedNonRemovedAllocations_def filter_empty_conv joined_hashes_iff [OF assms])
  have ver: "GetVersionPendingNonRemovedAllocations c job \<noteq> [] \<longleftrightarrow>
      (\<exists>a \<in> ?live. ifnull (case hash_of c (a_alloc_id a) of None \<Rightarrow> None | Some h \<Rightarrow> applied_version h) DefaultAllocationVersion
         \<noteq> ifnull (a_version a) DefaultAllocationVersion)"
    by (auto simp: GetVersionPendingNonRemovedAllocations_def version_pending_rows_def applied_versions_wf [OF assms] filter_empty_conv)
  have first: "first_missing (hash_row_missing c job) (GetNonRemovedAllocations c job) =
      Inr (\<exists>ip \<in> set (GetNonRemovedAllocations c job). missing ip)"
    by (rule first_missing_eval) (rule m)
  have "((\<exists>ip \<in> set (GetNonRemovedAllocations c job). missing ip) \<or> GetNewAllocations c job \<noteq> [] \<or>
      GetUpdatedNonRemovedAllocations c job \<noteq> [] \<or> GetVersionPendingNonRemovedAllocations c job \<noteq> []) =
      (\<exists>a \<in> ?live. row_needs a (hash_of c (a_alloc_id a)))"
    unfolding ips new upd ver missing_def row_needs_def by (fastforce split: option.splits)
  also have "\<dots> = (\<exists>a \<in> set (allocations c). live_row job a \<and> row_needs a (hash_of c (a_alloc_id a)))" by auto
  finally show ?thesis
    by (simp only: JobNeedsRollout_def first rbind_Inr)
qed

lemma JobNeedsRollout_cong:
  assumes "catalog_wf c" "catalog_wf c'" "allocations c' = allocations c"
    and "\<And>a. a \<in> set (allocations c) \<Longrightarrow> live_row job a \<Longrightarrow> hash_of c' (a_alloc_id a) = hash_of c (a_alloc_id a)"
  shows "JobNeedsRollout c' job = JobNeedsRollout c job"
  unfolding JobNeedsRollout_wf [OF assms(1)] JobNeedsRollout_wf [OF assms(2)] assms(3)
  by (intro arg_cong [where f = Inr] bex_cong refl conj_cong) (simp add: assms(4))

lemma rollout_keeps_other_jobs:
  assumes "rollout_frame job w w'" "catalog_wf (cat w)" "job' \<noteq> job"
  shows "JobNeedsRollout (cat w') job' = JobNeedsRollout (cat w) job'"
proof (rule JobNeedsRollout_cong)
  show "catalog_wf (cat w)" by fact
  show "catalog_wf (cat w')" "allocations (cat w') = allocations (cat w)"
    using assms by (simp_all add: rollout_frame_def same_tables_def)
  fix a
  assume a: "a \<in> set (allocations (cat w))" "live_row job' a"
  have "a_alloc_id a \<notin> job_alloc_ids (cat w) job"
  proof
    assume "a_alloc_id a \<in> job_alloc_ids (cat w) job"
    then obtain x where x: "x \<in> set (allocations (cat w))" "a_job x = job" "a_alloc_id x = a_alloc_id a"
      unfolding job_alloc_ids_def by (elim imageE CollectE conjE) (rule that, simp_all)
    then have "x = a" using assms(2) a(1) by (auto simp: catalog_wf_def distinct_map dest: inj_onD)
    with x(2) a(2) assms(3) show False by (simp add: live_row_def)
  qed
  then have "\<exists>f \<in> {id}. hash_of (cat w') (a_alloc_id a) = map_option f (hash_of (cat w) (a_alloc_id a))"
    using assms(1) unfolding rollout_frame_def rows_follow_def by (metis (no_types, lifting))
  then show "hash_of (cat w') (a_alloc_id a) = hash_of (cat w) (a_alloc_id a)" by (simp add: option.map_id)
qed

section \<open>The rollout phase\<close>

definition ok_entry :: "DeployHistoryJob option \<Rightarrow> bool" where
  "ok_entry x = (case x of None \<Rightarrow> False
     | Some entry \<Rightarrow> hj_Outcome entry = DeployHistoryOutcomeDeployed \<or> hj_Outcome entry = DeployHistoryOutcomeSkipped)"

lemma allJobs_ok: "allJobsDeployedOrSkipped js outs \<longleftrightarrow> (\<forall>job \<in> set js. ok_entry (outs job))"
  by (simp add: allJobsDeployedOrSkipped_def ok_entry_def list_all_iff)

lemmas run_defs = recordJobOutcome_def add_failure_def abort_run_def

lemma ok_entry_job_entry:
  "ok_entry (Some (job_entry c job out reason)) \<longleftrightarrow> out = DeployHistoryOutcomeDeployed \<or> out = DeployHistoryOutcomeSkipped"
  by (simp add: ok_entry_def job_entry_def Let_def split: prod.splits)

lemma outcome_neq:
  "DeployHistoryOutcomeFailed \<noteq> DeployHistoryOutcomeDeployed" "DeployHistoryOutcomeFailed \<noteq> DeployHistoryOutcomeSkipped"
  "DeployHistoryOutcomeAborted \<noteq> DeployHistoryOutcomeDeployed" "DeployHistoryOutcomeAborted \<noteq> DeployHistoryOutcomeSkipped"
  by (simp_all add: DeployHistoryOutcomeFailed_def DeployHistoryOutcomeDeployed_def
      DeployHistoryOutcomeSkipped_def DeployHistoryOutcomeAborted_def)

text \<open>
  What the rollout of the jobs \<open>J\<close> leaves behind: jobs outside are untouched, a job recorded as deployed
  or skipped needs no rollout, and a job without such a record comes with a failure.
\<close>

definition phase_result :: "string set \<Rightarrow> run \<Rightarrow> world \<Rightarrow> run \<Rightarrow> world \<Rightarrow> bool" where
  "phase_result J r w r' w' \<longleftrightarrow> plan_rel w w' \<and> prepareFailed r' = prepareFailed r \<and>
     (\<exists>fs. failures r' = failures r @ fs) \<and>
     (\<forall>j. j \<notin> J \<longrightarrow> JobNeedsRollout (cat w') j = JobNeedsRollout (cat w) j \<and> outcomes r' j = outcomes r j) \<and>
     (\<forall>j \<in> J. ok_entry (outcomes r' j) \<longrightarrow> JobNeedsRollout (cat w') j = Inr False) \<and>
     (failures r' = [] \<longrightarrow> abortDeploy r' = abortDeploy r \<and> (\<forall>j \<in> J. ok_entry (outcomes r' j)))"

lemma phase_result_none: "phase_result {} r w r w"
  by (simp add: phase_result_def plan_effect.R_refl)

lemma phase_result_comp:
  assumes "phase_result J r w r1 w1" "phase_result K r1 w1 r' w'" "J \<inter> K = {}"
  shows "phase_result (J \<union> K) r w r' w'"
proof -
  have "plan_rel w w'" using assms(1,2) plan_effect.R_trans unfolding phase_result_def by blast
  moreover have "JobNeedsRollout (cat w') j = JobNeedsRollout (cat w) j \<and> outcomes r' j = outcomes r j"
    if "j \<notin> J \<union> K" for j using assms(1,2) that by (simp add: phase_result_def)
  moreover have "JobNeedsRollout (cat w') j = Inr False" if "j \<in> J \<union> K" "ok_entry (outcomes r' j)" for j
  proof (cases "j \<in> K")
    case True
    with assms(2) that(2) show ?thesis by (simp add: phase_result_def)
  next
    case False
    with assms(1,2) that show ?thesis by (simp add: phase_result_def)
  qed
  moreover have "abortDeploy r' = abortDeploy r \<and> (\<forall>j \<in> J \<union> K. ok_entry (outcomes r' j))" if "failures r' = []"
  proof -
    have f1: "failures r1 = []" using assms(2) that by (auto simp: phase_result_def)
    have "outcomes r' j = outcomes r1 j" if "j \<in> J" for j
      using assms(2,3) that by (auto simp: phase_result_def)
    with f1 that assms(1,2) show ?thesis by (auto simp: phase_result_def)
  qed
  moreover have "\<exists>fs. failures r' = failures r @ fs" "prepareFailed r' = prepareFailed r"
    using assms(1,2) by (auto simp: phase_result_def)
  ultimately show ?thesis by (simp add: phase_result_def)
qed

lemma phase_result_stop:
  assumes "phase_result J r w r' w'" "failures r' \<noteq> []" "\<And>j. j \<in> K \<Longrightarrow> \<not> ok_entry (outcomes r j)" "J \<inter> K = {}"
  shows "phase_result (J \<union> K) r w r' w'"
proof -
  have "\<not> ok_entry (outcomes r' j)" if "j \<in> K" for j
    using assms(1,4) assms(3) [OF that] that by (auto simp: phase_result_def)
  with assms(1,2) show ?thesis by (auto simp: phase_result_def)
qed

lemma rollout_frame_plan: "rollout_frame job w w' \<Longrightarrow> plan_rel w w'"
proof -
  assume f: "rollout_frame job w w'"
  have "has_plan (cat w') k" if p: "has_plan (cat w) k" for k
  proof -
    obtain g where g: "g \<in> (if k \<in> job_alloc_ids (cat w) job then row_states (cat w) k else {id})"
        "hash_of (cat w') k = map_option g (hash_of (cat w) k)"
      using f unfolding rollout_frame_def rows_follow_def by blast
    then have "pending_hash (g h) = pending_hash h" for h
      by (auto simp: row_states_def promoted_row_def health_failed_row_def split: if_splits)
    with g(2) p show ?thesis by (auto simp: has_plan_def split: option.splits)
  qed
  with f show "plan_rel w w'" by (simp add: plan_rel_def rollout_frame_def)
qed

lemma plan_rel_same_cat:
  "cat w' = cat w \<Longrightarrow> generation w' = generation w \<Longrightarrow> \<exists>evs. trace w' = trace w @ evs \<Longrightarrow> plan_rel w w'"
  by (simp add: plan_rel_def same_tables_refl)

lemma planned_plan_rel: "plan_rel w w' \<Longrightarrow> planned (cat w) job \<Longrightarrow> planned (cat w') job"
  by (auto simp: plan_rel_def planned_iff same_tables_def)

lemma collecting_fields:
  "collecting m r w = (r', w') \<Longrightarrow> outcomes r' = outcomes r \<and> prepareFailed r' = prepareFailed r \<and>
     abortDeploy r' = abortDeploy r \<and> (\<exists>fs. failures r' = failures r @ fs)"
  by (auto simp: collecting_def add_failure_def split: prod.splits sum.splits)

lemma collect_persist:
  assumes "collecting (persistHookKV e job) r w = (r', w')"
  shows "cat w' = cat w \<and> plan_rel w w'"
  using same_cat.R_collect_persist [where w = w and e = e and job = job and r = r]
    plan_effect.R_collect_persist [where w = w and e = e and job = job and r = r] assms by simp

lemma skipped_job:
  assumes "JobNeedsRollout (cat w) job = Inr False"
  shows "phase_result {job} r w (recordJobOutcome (cat w) job DeployHistoryOutcomeSkipped reason r) w"
  using assms by (simp add: phase_result_def plan_effect.R_refl recordJobOutcome_def ok_entry_job_entry)

lemma deployed_job:
  assumes "catalog_wf (cat w)" "planned (cat w) job" "deployJob e b job force w = (res, w1)"
    and "collecting (persistHookKV e job) r w1 = (r2, w2)"
  shows "phase_result {job} r w
    (case res of
       Inl x \<Rightarrow> abort_run (recordJobOutcome (cat w2) job
          (if isCancelled (JobError job x) then DeployHistoryOutcomeAborted else DeployHistoryOutcomeFailed) []
          (add_failure (JobError job x) r2))
     | Inr u \<Rightarrow> recordJobOutcome (cat w2) job DeployHistoryOutcomeDeployed [] r2) w2"
proof -
  have frame: "rollout_frame job w w1"
    using frame.R_deployJob [where job = job and w = w and e = e and b = b and force = force] assms(3) by simp
  have c2: "cat w2 = cat w1" and p12: "plan_rel w1 w2" using collect_persist [OF assms(4)] by simp_all
  have rel: "plan_rel w w2" using plan_effect.R_trans rollout_frame_plan [OF frame] p12 by blast
  have other: "JobNeedsRollout (cat w2) j = JobNeedsRollout (cat w) j" if "j \<noteq> job" for j
    using rollout_keeps_other_jobs [OF frame assms(1) that] c2 by simp
  note r2 = collecting_fields [OF assms(4)]
  show ?thesis
  proof (cases res)
    case (Inl x)
    with rel other r2 show ?thesis
      by (auto simp: phase_result_def run_defs ok_entry_job_entry outcome_neq)
  next
    case (Inr u)
    then have "JobNeedsRollout (cat w2) job = Inr False"
      using deployJob_settles [OF assms(1,2)] assms(3) c2 by simp
    with Inr rel other r2 show ?thesis
      by (auto simp: phase_result_def run_defs ok_entry_job_entry)
  qed
qed

text \<open>One job of the loop: either the loop goes on, or it stops with a failure.\<close>

lemma rollout_phase_step:
  assumes "catalog_wf (cat w)" "planned (cat w) job" "job \<notin> prepareFailed r"
  shows "\<exists>r1 w1. phase_result {job} r w r1 w1 \<and>
    (rollout_phase e b force (job # js) r w = rollout_phase e b force js r1 w1 \<or>
     failures r1 \<noteq> [] \<and> rollout_phase e b force (job # js) r w = (r1, w1))"
proof -
  obtain needs where needs: "JobNeedsRollout (cat w) job = Inr needs" using JobNeedsRollout_wf [OF assms(1)] by blast
  show ?thesis
  proof (cases "\<not> force \<and> \<not> needs")
    case True
    let ?r1 = "recordJobOutcome (cat w) job DeployHistoryOutcomeSkipped ''deploy_complete'' r"
    have "rollout_phase e b force (job # js) r w = rollout_phase e b force js ?r1 w"
      using True needs assms(3) by simp
    with skipped_job [of w job r "''deploy_complete''"] needs True show ?thesis
      by (intro exI [of _ ?r1] exI [of _ w]) simp
  next
    case deploy: False
    obtain res w1 where res: "deployJob e b job force w = (res, w1)" by (cases "deployJob e b job force w")
    obtain r2 w2 where r2: "collecting (persistHookKV e job) r w1 = (r2, w2)"
      by (cases "collecting (persistHookKV e job) r w1")
    note one = deployed_job [OF assms(1,2) res r2]
    show ?thesis
    proof (cases res)
      case (Inl x)
      let ?r1 = "abort_run (recordJobOutcome (cat w2) job
          (if isCancelled (JobError job x) then DeployHistoryOutcomeAborted else DeployHistoryOutcomeFailed) []
          (add_failure (JobError job x) r2))"
      have "rollout_phase e b force (job # js) r w = (?r1, w2)"
        using assms(3) needs deploy res r2 Inl by (auto simp: wrap_error_def)
      with one Inl show ?thesis by (intro exI [of _ ?r1] exI [of _ w2]) (simp add: run_defs)
    next
      case (Inr u)
      let ?r1 = "recordJobOutcome (cat w2) job DeployHistoryOutcomeDeployed [] r2"
      have "rollout_phase e b force (job # js) r w = rollout_phase e b force js ?r1 w2"
        using assms(3) needs deploy res r2 Inr by (auto simp: wrap_error_def)
      with one Inr show ?thesis by (intro exI [of _ ?r1] exI [of _ w2]) simp
    qed
  qed
qed

lemma rollout_phase_result:
  assumes "rollout_phase e b force js r w = (r', w')" "catalog_wf (cat w)" "distinct js"
    and "\<And>j. j \<in> set js - prepareFailed r \<Longrightarrow> planned (cat w) j \<and> \<not> ok_entry (outcomes r j)"
  shows "phase_result (set js - prepareFailed r) r w r' w'"
  using assms
proof (induction js arbitrary: r w)
  case Nil
  then show ?case by (simp add: phase_result_none)
next
  case (Cons job js)
  have ok: "\<And>j. j \<in> set js - prepareFailed r \<Longrightarrow> planned (cat w) j \<and> \<not> ok_entry (outcomes r j)"
    using Cons.prems(4) by auto
  show ?case
  proof (cases "job \<in> prepareFailed r")
    case True
    then show ?thesis using Cons.IH [OF _ Cons.prems(2) _ ok] Cons.prems(1,3) by simp
  next
    case False
    have split: "set (job # js) - prepareFailed r = {job} \<union> (set js - prepareFailed r)"
      and disj: "{job} \<inter> (set js - prepareFailed r) = {}" using False Cons.prems(3) by auto
    have "planned (cat w) job" using Cons.prems(4) False by simp
    from rollout_phase_step [OF Cons.prems(2) this False] obtain r1 w1
      where one: "phase_result {job} r w r1 w1"
        and next_step: "rollout_phase e b force js r1 w1 = (r', w') \<or> failures r1 \<noteq> [] \<and> (r', w') = (r1, w1)"
      using Cons.prems(1) by metis
    from next_step show ?thesis
    proof
      assume rest: "rollout_phase e b force js r1 w1 = (r', w')"
      have pf: "prepareFailed r1 = prepareFailed r" and rel: "plan_rel w w1"
        using one by (simp_all add: phase_result_def)
      have "planned (cat w1) j \<and> \<not> ok_entry (outcomes r1 j)" if "j \<in> set js - prepareFailed r1" for j
      proof -
        have "j \<in> set js - prepareFailed r" "j \<noteq> job" using that pf Cons.prems(3) by auto
        with ok [of j] one planned_plan_rel [OF rel] show ?thesis by (simp add: phase_result_def)
      qed
      moreover have "catalog_wf (cat w1)" using rel Cons.prems(2) by (simp add: plan_rel_def)
      ultimately have "phase_result (set js - prepareFailed r1) r1 w1 r' w'"
        using Cons.IH [OF rest] Cons.prems(3) by simp
      from phase_result_comp [OF one this] show ?thesis using disj unfolding split pf by simp
    next
      assume "failures r1 \<noteq> [] \<and> (r', w') = (r1, w1)"
      then show ?thesis unfolding split using phase_result_stop [OF one _ _ disj] ok by simp
    qed
  qed
qed

section \<open>The phases together\<close>

text \<open>An action that never reports a cancelled context.\<close>

definition uncancelled :: "unit deploy \<Rightarrow> bool" where
  "uncancelled m \<longleftrightarrow> (\<forall>w w'. m w \<noteq> (Inl ErrCancelled, w'))"

lemma uncancelled_rules:
  "uncancelled m \<Longrightarrow> uncancelled n \<Longrightarrow> uncancelled (thenD m n)"
  "(\<And>x. x \<in> set xs \<Longrightarrow> uncancelled (f x)) \<Longrightarrow> uncancelled (forD f xs)"
  "(\<And>tr. outcome e tr ev \<noteq> Some ErrCancelled) \<Longrightarrow> uncancelled (perform e ev)"
  "uncancelled m \<Longrightarrow> uncancelled (ignoring P m)"
  "(\<And>x. uncancelled (g x)) \<Longrightarrow> uncancelled (bindD (readC q) g)"
  "(\<And>c. h c \<noteq> Inl ErrCancelled) \<Longrightarrow> (\<And>x. uncancelled (g' x)) \<Longrightarrow> uncancelled (bindD (query h) g')"
proof -
  show then_rule: "uncancelled m \<Longrightarrow> uncancelled n \<Longrightarrow> uncancelled (thenD m n)" for m n
    unfolding uncancelled_def thenD_Inl by blast
  show "(\<And>x. x \<in> set xs \<Longrightarrow> uncancelled (f x)) \<Longrightarrow> uncancelled (forD f xs)"
  proof (induction xs)
    case Nil
    then show ?case by (simp add: uncancelled_def act_simps)
  next
    case (Cons x xs)
    then show ?case by (simp add: then_rule)
  qed
  show "(\<And>tr. outcome e tr ev \<noteq> Some ErrCancelled) \<Longrightarrow> uncancelled (perform e ev)"
    by (auto simp: uncancelled_def perform_def split: option.splits)
  show "uncancelled m \<Longrightarrow> uncancelled (ignoring P m)"
    by (auto simp: uncancelled_def ignoring_def split: prod.splits sum.splits if_splits)
  show "(\<And>x. uncancelled (g x)) \<Longrightarrow> uncancelled (bindD (readC q) g)"
    by (simp add: uncancelled_def bindD_def act_simps)
  show "(\<And>c. h c \<noteq> Inl ErrCancelled) \<Longrightarrow> (\<And>x. uncancelled (g' x)) \<Longrightarrow> uncancelled (bindD (query h) g')"
    by (auto simp: uncancelled_def bindD_def act_simps split: sum.splits)
qed

lemma uncancelled_ret: "uncancelled (ret u)"
  by (simp add: uncancelled_def act_simps)

lemma GetAllocationID_uncancelled: "GetAllocationID c ip job \<noteq> Inl ErrCancelled"
  by (auto simp: GetAllocationID_def alloc_of_def query_row_def rbind_def split: option.splits)

lemma refresh_uncancelled:
  assumes "plan_env e"
  shows "uncancelled (refreshPlanHashesForJobPlan e job)"
proof -
  have clear: "uncancelled (clearWorkerVersionKVKeys e job ip)" for ip
    unfolding clearWorkerVersionKVKeys_def using assms by (intro uncancelled_rules) (simp add: plan_env_def)
  have tree: "uncancelled (bindD (\<lambda>w. (staged_tree e (trace w) ip job, w)) g)" if "\<And>t. uncancelled (g t)" for ip g
    unfolding uncancelled_def
  proof (intro allI)
    fix w w'
    show "bindD (\<lambda>w. (staged_tree e (trace w) ip job, w)) g w \<noteq> (Inl ErrCancelled, w')"
      using plan_env_tree [OF assms, of "trace w" ip job] that
      by (cases "staged_tree e (trace w) ip job") (auto simp: uncancelled_def bindD_def)
  qed
  have "uncancelled (plan_worker e job ip)" for ip
    unfolding plan_worker_def
    by (intro uncancelled_rules tree GetAllocationID_uncancelled clear) (simp add: uncancelled_def act_simps)
  moreover have "uncancelled (perform e (PrepareJob job ip))" for ip
    using assms by (intro uncancelled_rules) (simp add: plan_env_def)
  ultimately show ?thesis
    unfolding refreshPlanHashesForJobPlan_def RefreshPlanHashesForJobs_def prepareJobsFiles_def
      updateAllocationHash_def updateJobAllocationHashes_eq
    by (auto intro!: uncancelled_rules(1,2,5) uncancelled_ret)
qed

definition plan_result :: "run \<Rightarrow> run \<Rightarrow> bool" where
  "plan_result r r' \<longleftrightarrow> prepareFailed r \<subseteq> prepareFailed r' \<and> (\<exists>fs. failures r' = failures r @ fs) \<and>
     abortDeploy r' = abortDeploy r \<and> (failures r' = [] \<longrightarrow> prepareFailed r' = prepareFailed r) \<and>
     (\<forall>j. outcomes r' j = outcomes r j \<or> \<not> ok_entry (outcomes r' j))"

lemma plan_result_refl: "plan_result r r"
  by (simp add: plan_result_def)

lemma plan_result_trans: "plan_result r r1 \<Longrightarrow> plan_result r1 r2 \<Longrightarrow> plan_result r r2"
  by (auto simp: plan_result_def) metis+

lemma plan_phase_result:
  assumes "plan_env e" "catalog_wf (cat w)" "plan_phase e js r w = (r', w')"
  shows "plan_rel w w' \<and> plan_result r r' \<and> (\<forall>j \<in> set js - prepareFailed r'. planned (cat w') j)"
  using assms(2,3)
proof (induction js arbitrary: r w)
  case Nil
  then show ?case by (simp add: plan_effect.R_refl plan_result_refl)
next
  case (Cons job js)
  obtain res w1 where res: "refreshPlanHashesForJobPlan e job w = (res, w1)"
    by (cases "refreshPlanHashesForJobPlan e job w")
  have rel: "plan_rel w w1" using plan_rel_refresh [of w e job] res by simp
  have wf: "catalog_wf (cat w1)" using rel Cons.prems(1) by (simp add: plan_rel_def)
  show ?case
  proof (cases res)
    case (Inr u)
    have rest: "plan_phase e js r w1 = (r', w')" using Cons.prems(2) res Inr by simp
    note IH = Cons.IH [OF wf rest]
    have "planned (cat w') job"
      using refresh_planned [OF assms(1) Cons.prems(1)] res Inr planned_plan_rel IH by blast
    with IH plan_effect.R_trans [OF rel] show ?thesis by auto
  next
    case (Inl x)
    have "x \<noteq> ErrCancelled" using refresh_uncancelled [OF assms(1), of job] res Inl by (auto simp: uncancelled_def)
    let ?r1 = "recordJobOutcome (cat w1) job DeployHistoryOutcomeFailed []
        (add_failure (JobError job x) (r\<lparr>prepareFailed := insert job (prepareFailed r)\<rparr>))"
    have rest: "plan_phase e js ?r1 w1 = (r', w')"
      using Cons.prems(2) res Inl \<open>x \<noteq> ErrCancelled\<close> by (simp add: isCancelled_def)
    note IH = Cons.IH [OF wf rest]
    have "plan_result r ?r1"
      by (auto simp: plan_result_def run_defs ok_entry_job_entry outcome_neq)
    moreover have "job \<in> prepareFailed r'" using IH by (auto simp: plan_result_def run_defs)
    ultimately show ?thesis using IH plan_effect.R_trans [OF rel] plan_result_trans by auto
  qed
qed

text \<open>The hook phases only add failures, and abort only with one.\<close>

definition hook_result :: "run \<Rightarrow> run \<Rightarrow> bool" where
  "hook_result r r' \<longleftrightarrow> outcomes r' = outcomes r \<and> prepareFailed r' = prepareFailed r \<and>
     (\<exists>fs. failures r' = failures r @ fs) \<and> (failures r' = [] \<longrightarrow> abortDeploy r' = abortDeploy r)"

lemma hook_result_rules:
  "hook_result r r" "hook_result r r1 \<Longrightarrow> hook_result r1 r2 \<Longrightarrow> hook_result r r2"
  "hook_result r (add_failure err r)" "hook_result r (abort_run (add_failure err r))"
  "collecting m r w = (r', w') \<Longrightarrow> hook_result r r'"
  by (auto simp: hook_result_def run_defs dest!: collecting_fields)

lemma pre_phase_result: "pre_phase e js r w = (r', w') \<Longrightarrow> hook_result r r'"
proof (induction js arbitrary: r w)
  case (Cons job js)
  then show ?case
    by (auto split: prod.splits sum.splits if_splits)
       (blast intro: hook_result_rules)+
qed (simp add: hook_result_rules)

lemma post_phase_result: "post_phase e js r w = (r', w') \<Longrightarrow> hook_result r r'"
proof (induction js arbitrary: r w)
  case (Cons job js)
  then show ?case
    by (auto split: prod.splits sum.splits if_splits)
       (blast intro: hook_result_rules)+
qed (simp add: hook_result_rules)

text \<open>A world that differs only in its trace.\<close>

definition same_state :: "world \<Rightarrow> world \<Rightarrow> bool" where
  "same_state w w' \<longleftrightarrow> cat w' = cat w \<and> generation w' = generation w"

interpretation quiet: effect_relation same_state
  by unfold_locales (simp_all add: same_state_def)

definition phases_result :: "string list \<Rightarrow> world \<Rightarrow> run \<Rightarrow> world \<Rightarrow> bool" where
  "phases_result js w r' w' \<longleftrightarrow> same_tables (cat w) (cat w') \<and> catalog_wf (cat w') \<and> generation w' = generation w \<and>
     (\<forall>j \<in> set js. ok_entry (outcomes r' j) \<longrightarrow> JobNeedsRollout (cat w') j = Inr False) \<and>
     (failures r' = [] \<longrightarrow> (\<forall>j \<in> set js. ok_entry (outcomes r' j)))"

lemma reconcile_planned:
  assumes "catalog_wf (cat w)" "reconcileRemovedAndDisabledAllocations e b flt force w = (res, w')"
  shows "same_tables (cat w) (cat w') \<and> catalog_wf (cat w') \<and> generation w' = generation w \<and>
    (planned (cat w) job \<longrightarrow> planned (cat w') job)"
proof -
  have rel: "stop_rel (cat w) w w'" using reconcile_keeps_live [of w e b flt force] assms(2) by simp
  then have wf: "same_tables (cat w) (cat w')" "catalog_wf (cat w')" "generation w' = generation w"
    and rows: "\<forall>a \<in> set (allocations (cat w)). a_removed a \<noteq> 1 \<longrightarrow>
        hash_of (cat w') (a_alloc_id a) = hash_of (cat w) (a_alloc_id a)"
    using assms(1) by (simp_all add: stop_rel_def same_tables_refl)
  have "planned (cat w') job" if "planned (cat w) job"
    using that rows wf(1) by (simp add: planned_iff same_tables_def has_plan_def live_row_def)
  with wf show ?thesis by simp
qed

lemma phases_result_aborted:
  assumes "same_tables (cat w) (cat w')" "catalog_wf (cat w')" "generation w' = generation w"
    and "failures r \<noteq> []" "\<And>j. \<not> ok_entry (outcomes r j)"
  shows "phases_result js w r w'"
  using assms by (simp add: phases_result_def)

lemma phases_result_hooks:
  assumes "phases_result js w r w1" "hook_result r r'" "same_state w1 w'"
  shows "phases_result js w r' w'"
  using assms by (auto simp: phases_result_def hook_result_def same_state_def)

text \<open>Everything up to the rollout: the plans are staged, or the run has failed.\<close>

lemma before_rollout:
  assumes "plan_env e" "catalog_wf (cat w)" "plan_phase e js new_run w = (r1, w1)"
    and "(if abortDeploy r1 then (r1, w1) else pre_phase e js r1 w1) = (r2, w2)"
    and "(if abortDeploy r2 then (r2, w2)
          else case reconcileRemovedAndDisabledAllocations e b flt force w2 of
            (Inl x, w') \<Rightarrow> (abort_run (add_failure (OtherError x) r2), w') | (Inr u, w') \<Rightarrow> (r2, w')) = (r3, w3)"
  shows "same_tables (cat w) (cat w3) \<and> catalog_wf (cat w3) \<and> generation w3 = generation w \<and>
    (\<forall>j. \<not> ok_entry (outcomes r3 j)) \<and> (failures r3 = [] \<longrightarrow> prepareFailed r3 = {} \<and> \<not> abortDeploy r3) \<and>
    (\<not> abortDeploy r3 \<longrightarrow> (\<forall>j \<in> set js - prepareFailed r3. planned (cat w3) j))"
proof -
  note plan = plan_phase_result [OF assms(1-3)]
  have none: "\<not> ok_entry None" by (simp add: ok_entry_def)
  have r1: "\<not> abortDeploy r1" "failures r1 = [] \<longrightarrow> prepareFailed r1 = {}"
    using plan by (auto simp: plan_result_def new_run_def)
  have r1_out: "\<not> ok_entry (outcomes r1 j)" for j
  proof -
    have "outcomes r1 j = None \<or> \<not> ok_entry (outcomes r1 j)" using plan by (simp add: plan_result_def new_run_def)
    with none show ?thesis by metis
  qed
  have pre: "pre_phase e js r1 w1 = (r2, w2)" using assms(4) r1(1) by simp
  have h: "hook_result r1 r2" by (rule pre_phase_result [OF pre])
  have w2: "cat w2 = cat w1" "generation w2 = generation w1"
    using quiet.R_pre_phase [where w = w1 and e = e and js = js and r = r1] pre by (simp_all add: same_state_def)
  have wf2: "catalog_wf (cat w2)" "same_tables (cat w) (cat w2)" "generation w2 = generation w"
    using plan w2 assms(2) by (simp_all add: plan_rel_def)
  have planned2: "planned (cat w2) j" if "j \<in> set js - prepareFailed r2" for j
    using plan h that w2 by (simp add: hook_result_def)
  show ?thesis
  proof (cases "abortDeploy r2")
    case True
    then have "r3 = r2" "w3 = w2" using assms(5) by simp_all
    moreover have "failures r2 \<noteq> []" using True h r1(1) by (auto simp: hook_result_def)
    ultimately show ?thesis using wf2 h r1_out True by (auto simp: hook_result_def)
  next
    case False
    obtain res w' where res: "reconcileRemovedAndDisabledAllocations e b flt force w2 = (res, w')"
      by (cases "reconcileRemovedAndDisabledAllocations e b flt force w2")
    note rec = reconcile_planned [OF wf2(1) res]
    have tables: "same_tables (cat w) (cat w')" using same_tables_trans [OF wf2(2)] rec by blast
    show ?thesis
    proof (cases res)
      case (Inl x)
      with False res assms(5) have "r3 = abort_run (add_failure (OtherError x) r2)" "w3 = w'" by simp_all
      with rec tables wf2(3) h r1_out show ?thesis by (simp add: run_defs hook_result_def)
    next
      case (Inr u)
      with False res assms(5) have "r3 = r2" "w3 = w'" by simp_all
      moreover have "failures r2 = [] \<longrightarrow> prepareFailed r2 = {}" using h r1(2) by (auto simp: hook_result_def)
      ultimately show ?thesis using rec tables wf2(3) h r1_out False planned2 by (simp add: hook_result_def)
    qed
  qed
qed

lemma run_phases_result:
  assumes "plan_env e" "catalog_wf (cat w)" "distinct js" "run_phases e b flt force ips js w = (r', w')"
  shows "phases_result js w r' w'"
proof -
  obtain r1 w1 where p1: "plan_phase e js new_run w = (r1, w1)" by (cases "plan_phase e js new_run w")
  obtain r2 w2 where p2: "(if abortDeploy r1 then (r1, w1) else pre_phase e js r1 w1) = (r2, w2)"
    by (cases "if abortDeploy r1 then (r1, w1) else pre_phase e js r1 w1")
  let ?rec = "if abortDeploy r2 then (r2, w2)
          else case reconcileRemovedAndDisabledAllocations e b flt force w2 of
            (Inl x, w') \<Rightarrow> (abort_run (add_failure (OtherError x) r2), w') | (Inr u, w') \<Rightarrow> (r2, w')"
  obtain r3 w3 where p3: "?rec = (r3, w3)" by (cases ?rec)
  obtain r4 w4 where p4: "(if abortDeploy r3 then (r3, w3) else rollout_phase e b force js r3 w3) = (r4, w4)"
    by (cases "if abortDeploy r3 then (r3, w3) else rollout_phase e b force js r3 w3")
  let ?sync = "wrap_error OtherError (finalSyncWorkerMetadata e ips (allJobsDeployedOrSkipped js (outcomes r4)))"
  obtain r5 w5 where p5: "collecting ?sync r4 w4 = (r5, w5)" by (cases "collecting ?sync r4 w4")
  have p6: "(if abortDeploy r5 then (r5, w5) else post_phase e js r5 w5) = (r', w')"
    using assms(4) by (simp add: run_phases_def p1 p2 p3 p4 p5)
  note b3 = before_rollout [OF assms(1,2) p1 p2 p3]
  have "phases_result js w r4 w4"
  proof (cases "abortDeploy r3")
    case True
    with b3 p4 show ?thesis by (intro phases_result_aborted) auto
  next
    case False
    then have "phase_result (set js - prepareFailed r3) r3 w3 r4 w4"
      using b3 p4 assms(3) by (intro rollout_phase_result) auto
    then show ?thesis
      using b3 same_tables_trans [of "cat w" "cat w3" "cat w4"]
      by (auto simp: phases_result_def phase_result_def plan_rel_def)
  qed
  moreover have "hook_result r4 r5" by (rule hook_result_rules(5) [OF p5])
  moreover have "same_state w4 (snd (collecting ?sync r4 w4))"
    by (rule quiet.R_collecting, rule quiet.R_wrap, rule quiet.R_final_sync)
  then have "same_state w4 w5" by (simp only: p5 snd_conv)
  ultimately have five: "phases_result js w r5 w5" by (rule phases_result_hooks)
  show ?thesis
  proof (cases "abortDeploy r5")
    case True
    with five p6 show ?thesis by simp
  next
    case False
    then have "post_phase e js r5 w5 = (r', w')" using p6 by simp
    with five show ?thesis
      using quiet.R_post_phase [where w = w5 and e = e and js = js and r = r5]
      by (intro phases_result_hooks [OF five post_phase_result]) simp_all
  qed
qed

lemma distinct_listDeployableJobs: "catalog_wf c \<Longrightarrow> distinct (listDeployableJobs c flt)"
proof -
  assume "catalog_wf c"
  then have "distinct (map j_name (jobs c))" by (simp add: catalog_wf_def)
  then have "distinct (map j_name (filter P (jobs c)))" for P by (rule distinct_map_filter)
  then have "distinct (map j_name (sort_key k (filter P (jobs c))))" for k :: "job_row \<Rightarrow> int \<times> string" and P
    by (simp add: distinct_map)
  then show ?thesis
    by (simp add: listDeployableJobs_def selectJobsForDeploy_eq GetDeployableJobsInOrder_def comp_def)
qed

lemma listDeployableJobs_normalize: "listDeployableJobs c (normalizeJobFilter flt) = listDeployableJobs c flt"
proof -
  have "jobInFilter job (normalizeJobFilter flt) = jobInFilter job flt" for job
    using set_Unique [of flt] by (cases "flt = []") (auto simp: normalizeJobFilter_def jobInFilter_def simp del: set_Unique)
  then show ?thesis by (simp add: listDeployableJobs_def selectJobsForDeploy_eq)
qed

lemma noteHealthCancel_Nil: "noteHealthCancel fs = [] \<longleftrightarrow> fs = []"
  by (auto simp: noteHealthCancel_def)

lemma perform_state: "perform e ev w = (r, w') \<Longrightarrow> cat w' = cat w \<and> generation w' = generation w"
  by (auto simp: perform_def)

text \<open>Commit or roll back: the two ways a run ends.\<close>

lemma insert_history_cases:
  assumes "insert_history e h r w = (r', w', written)"
  shows "cat w' = cat w \<and> generation w' = generation w \<and> (failures r' = [] \<longrightarrow> failures r = []) \<and>
    (written = None \<or> written = h)"
  using assms by (auto simp: insert_history_def add_failure_def split: option.splits prod.splits sum.splits dest: perform_state)

lemma commit_run_cases:
  assumes "commit_run e w r written w8 = (res, w')"
  shows "cat w' = cat w \<and> generation w' = generation w \<and> er_errors res \<noteq> [] \<and> er_history res = None \<or>
    cat w' = cat w8 \<and> generation w' = generation w8 \<and> (er_errors res = [] \<longrightarrow> failures r = []) \<and> er_history res = written"
proof -
  obtain cr w9 where com: "perform e Commit w8 = (cr, w9)" by (cases "perform e Commit w8")
  obtain vr w10 where vac: "perform e Vacuum w9 = (vr, w10)" by (cases "perform e Vacuum w9")
  have st: "cat w10 = cat w8" "generation w10 = generation w8"
    using perform_state [OF com] perform_state [OF vac] by simp_all
  have bk: "cat (snd (perform e Backup w10)) = cat w10" "generation (snd (perform e Backup w10)) = generation w10"
    by (simp_all add: perform_def)
  show ?thesis
    using assms st bk by (cases cr; cases vr) (auto simp: commit_run_def com vac early_return_def split: if_splits)
qed

lemma finish_run_cases:
  assumes "finish_run e runID flt force js w r6 w6 = (res, w')"
  shows "cat w' = cat w \<and> generation w' = generation w \<and> er_errors res \<noteq> [] \<and> er_history res = None \<or>
    cat w' = cat w6 \<and>
    generation w' = (if allJobsDeployedOrSkipped js (outcomes r6) then generation w6 else generation w) \<and>
    (er_errors res = [] \<longrightarrow> failures r6 = []) \<and>
    (case er_history res of None \<Rightarrow> True
     | Some h \<Rightarrow> dh_Generation h = generation w' \<and> dh_Jobs h = history_jobs (cat w') js (outcomes r6) \<and>
         dh_Status h = history_status (noteHealthCancel (failures r6)))"
proof -
  let ?r7 = "r6\<lparr>failures := noteHealthCancel (failures r6)\<rparr>"
  let ?w7 = "if allJobsDeployedOrSkipped js (outcomes r6) then w6 else revertGenerationForDeploy (generation w) w6"
  let ?h = "writeDeployHistory runID ?w7 flt force js ?r7"
  obtain r8 w8 written where ins: "insert_history e ?h ?r7 ?w7 = (r8, w8, written)"
    by (cases "insert_history e ?h ?r7 ?w7")
  have com: "commit_run e w r8 written w8 = (res, w')"
    using assms ins by (simp add: finish_run_def)
  have w7: "cat ?w7 = cat w6"
    "generation ?w7 = (if allJobsDeployedOrSkipped js (outcomes r6) then generation w6 else generation w)"
    by (simp_all add: revertGenerationForDeploy_def)
  have h: "?h = None \<or> ?h = Some \<lparr>dh_RunID = runID, dh_Generation = generation ?w7,
      dh_Status = history_status (noteHealthCancel (failures r6)), dh_JobsFilter = Join flt '','', dh_Force = force,
      dh_Jobs = history_jobs (cat w6) js (outcomes r6)\<rparr>"
    using w7(1) by (simp add: writeDeployHistory_def)
  show ?thesis
    using commit_run_cases [OF com] insert_history_cases [OF ins] w7 h
    by (elim disjE conjE) (simp_all add: noteHealthCancel_Nil)
qed

lemma execute_cases:
  assumes "plan_env e" "catalog_wf (cat w)" "execute e b runID flt force w = (res, w')"
  shows "cat w' = cat w \<and> generation w' = generation w \<and> er_errors res \<noteq> [] \<and> er_history res = None \<or>
    (\<exists>r6 w6. phases_result (listDeployableJobs (cat w) flt) w r6 (w6\<lparr>generation := generation w\<rparr>) \<and>
       generation w6 = generation w + 1 \<and>
       (\<exists>w2 ips. run_phases e b (normalizeJobFilter flt) force ips (listDeployableJobs (cat w) flt) w2 = (r6, w6)) \<and>
       finish_run e runID (normalizeJobFilter flt) force (listDeployableJobs (cat w) flt) w r6 w6 = (res, w'))"
proof -
  let ?ips = "GetWorkers (cat w) []"
  let ?js = "listDeployableJobs (cat w) flt"
  obtain pr w1 where pr: "perform e (Prerequisites ?ips) w = (pr, w1)" by (cases "perform e (Prerequisites ?ips) w")
  obtain wr w2 where wr: "prepareWorkersFiles e ?ips (bumpGenerationForDeploy w1) = (wr, w2)"
    by (cases "prepareWorkersFiles e ?ips (bumpGenerationForDeploy w1)")
  obtain r6 w6 where ph: "run_phases e b (normalizeJobFilter flt) force ?ips ?js w2 = (r6, w6)"
    by (cases "run_phases e b (normalizeJobFilter flt) force ?ips ?js w2")
  have w1: "cat w1 = cat w" "generation w1 = generation w" using perform_state [OF pr] by simp_all
  have w2: "cat w2 = cat w" "generation w2 = generation w + 1"
    using quiet.R_prepare_workers [where w = "bumpGenerationForDeploy w1" and e = e and ips = ?ips] wr w1
    by (simp_all add: same_state_def bumpGenerationForDeploy_def)
  have res: "phases_result ?js w2 r6 w6"
    using run_phases_result [OF assms(1) _ distinct_listDeployableJobs [OF assms(2)] ph] assms(2) w2(1) by simp
  then have "phases_result ?js w r6 (w6\<lparr>generation := generation w\<rparr>)" "generation w6 = generation w + 1"
    using w2 by (simp_all add: phases_result_def)
  with ph show ?thesis
    using assms(3) pr wr by (cases pr; cases wr) (auto simp: execute_def Let_def listDeployableJobs_normalize early_return_def)
qed

section \<open>Properties\<close>

text \<open>
  C1. What a deploy promises. The bucket generation moves by exactly one or not at all. It moves only
  when every selected job has been brought to its planned state: no selected job needs a rollout
  afterwards. A deploy that reports no error has moved it. And whatever fails, the well-formedness of
  the catalog and all tables but the hash tables survive.
\<close>
theorem deploy_generation_means_settled:
  assumes "catalog_wf (cat w)" "plan_env e" "execute e bucketID runID jobsFilter force w = (res, w')"
  shows "(generation w' = generation w \<or> generation w' = generation w + 1) \<and>
    (generation w' = generation w + 1 \<longrightarrow>
       (\<forall>job \<in> set (listDeployableJobs (cat w) jobsFilter). JobNeedsRollout (cat w') job = Inr False)) \<and>
    (er_errors res = [] \<longrightarrow> generation w' = generation w + 1) \<and>
    same_tables (cat w) (cat w') \<and> catalog_wf (cat w')"
  using execute_cases [OF assms(2,1,3)]
proof (elim disjE exE conjE)
  assume "cat w' = cat w" "generation w' = generation w" "er_errors res \<noteq> []"
  then show ?thesis using assms(1) by (simp add: same_tables_refl)
next
  fix r6 w6
  assume ph: "phases_result (listDeployableJobs (cat w) jobsFilter) w r6 (w6\<lparr>generation := generation w\<rparr>)"
    and g: "generation w6 = generation w + 1"
    and fin: "finish_run e runID (normalizeJobFilter jobsFilter) force (listDeployableJobs (cat w) jobsFilter) w r6 w6 = (res, w')"
  from finish_run_cases [OF fin] show ?thesis
  proof (elim disjE conjE)
    assume "cat w' = cat w" "generation w' = generation w" "er_errors res \<noteq> []"
    then show ?thesis using assms(1) by (simp add: same_tables_refl)
  next
    assume "cat w' = cat w6" "er_errors res = [] \<longrightarrow> failures r6 = []"
      "generation w' = (if allJobsDeployedOrSkipped (listDeployableJobs (cat w) jobsFilter) (outcomes r6)
         then generation w6 else generation w)"
    with ph g show ?thesis by (auto simp: phases_result_def allJobs_ok)
  qed
qed

lemma quiet_plan_env: "plan_env quiet_env"
  by (simp add: plan_env_def quiet_env_def)

theorem deploy_generation_means_settled_witness:
  "\<exists>res w'. execute quiet_env ''b'' ''run-1'' [] False (demo_world ''always'') = (res, w') \<and> er_errors res = [] \<and>
     listDeployableJobs (cat (demo_world ''always'')) [] = [''web''] \<and>
     generation w' = 8 \<and> JobNeedsRollout (cat w') ''web'' = Inr False"
proof -
  let ?x = "execute quiet_env ''b'' ''run-1'' [] False (demo_world ''always'')"
  have errs: "er_errors (fst ?x) = []" by code_simp
  have js: "listDeployableJobs (cat (demo_world ''always'')) [] = [''web'']" by code_simp
  have x: "?x = (fst ?x, snd ?x)" by simp
  note concl = deploy_generation_means_settled [OF demo_wf quiet_plan_env x]
  from concl errs have g: "generation (snd ?x) = generation (demo_world ''always'') + 1" by simp
  moreover from concl g js have "JobNeedsRollout (cat (snd ?x)) ''web'' = Inr False" by simp
  ultimately show ?thesis using errs js
    by (intro exI [of _ "fst ?x"] exI [of _ "snd ?x"]) (simp add: demo_world_def)
qed

text \<open>Recorded outcomes are recorded under the name of their job.\<close>

definition keyed :: "run \<Rightarrow> bool" where
  "keyed r \<longleftrightarrow> (\<forall>job entry. outcomes r job = Some entry \<longrightarrow> hj_Job entry = job)"

lemma keyed_rules:
  "keyed new_run" "keyed r \<Longrightarrow> keyed (recordJobOutcome c job out reason r)" "keyed r \<Longrightarrow> keyed (add_failure err r)"
  "keyed r \<Longrightarrow> keyed (abort_run r)" "keyed r \<Longrightarrow> keyed (r\<lparr>prepareFailed := X\<rparr>)" "hook_result r r' \<Longrightarrow> keyed r \<Longrightarrow> keyed r'"
  by (auto simp: keyed_def new_run_def run_defs job_entry_def hook_result_def Let_def split: prod.splits)

lemma keyed_plan: "keyed r \<Longrightarrow> keyed (fst (plan_phase e js r w))"
proof (induction js arbitrary: r w)
  case (Cons job js)
  from Cons.prems show ?case
    by (auto split: prod.splits sum.splits intro!: Cons.IH keyed_rules(2-5))
qed simp

lemma keyed_collect: "keyed r \<Longrightarrow> collecting m r w = (r', w') \<Longrightarrow> keyed r'"
  by (erule keyed_rules(6) [rotated]) (rule hook_result_rules(5))

lemma keyed_rollout: "keyed r \<Longrightarrow> keyed (fst (rollout_phase e b force js r w))"
proof (induction js arbitrary: r w force)
  case (Cons job js)
  from Cons.prems show ?case
    by (auto split: prod.splits sum.splits dest: keyed_collect [OF Cons.prems] intro!: Cons.IH keyed_rules(2-5))
qed simp

lemma keyed_run_phases:
  assumes "run_phases e b flt force ips js w = (r', w')"
  shows "keyed r'"
proof -
  obtain r1 w1 where p1: "plan_phase e js new_run w = (r1, w1)" by (cases "plan_phase e js new_run w")
  have k1: "keyed r1" using keyed_plan [OF keyed_rules(1), of e js w] p1 by simp
  obtain r2 w2 where p2: "(if abortDeploy r1 then (r1, w1) else pre_phase e js r1 w1) = (r2, w2)"
    by (cases "if abortDeploy r1 then (r1, w1) else pre_phase e js r1 w1")
  have k2: "keyed r2" using p2 k1 keyed_rules(6) [OF pre_phase_result] by (auto split: if_splits)
  let ?rec = "if abortDeploy r2 then (r2, w2)
          else case reconcileRemovedAndDisabledAllocations e b flt force w2 of
            (Inl x, w') \<Rightarrow> (abort_run (add_failure (OtherError x) r2), w') | (Inr u, w') \<Rightarrow> (r2, w')"
  obtain r3 w3 where p3: "?rec = (r3, w3)" by (cases ?rec)
  have k3: "keyed r3" using p3 k2 by (auto split: if_splits prod.splits sum.splits intro: keyed_rules)
  obtain r4 w4 where p4: "(if abortDeploy r3 then (r3, w3) else rollout_phase e b force js r3 w3) = (r4, w4)"
    by (cases "if abortDeploy r3 then (r3, w3) else rollout_phase e b force js r3 w3")
  have k4: "keyed r4" using p4 k3 keyed_rollout [OF k3, of e b force js w3] by (auto split: if_splits)
  let ?sync = "wrap_error OtherError (finalSyncWorkerMetadata e ips (allJobsDeployedOrSkipped js (outcomes r4)))"
  obtain r5 w5 where p5: "collecting ?sync r4 w4 = (r5, w5)" by (cases "collecting ?sync r4 w4")
  have k5: "keyed r5" by (rule keyed_collect [OF k4 p5])
  have "(if abortDeploy r5 then (r5, w5) else post_phase e js r5 w5) = (r', w')"
    using assms by (simp add: run_phases_def p1 p2 p3 p4 p5)
  then show ?thesis using k5 keyed_rules(6) [OF post_phase_result] by (auto split: if_splits)
qed

lemma history_jobs_names: "keyed r \<Longrightarrow> map hj_Job (history_jobs c js (outcomes r)) = js"
  by (auto simp: history_jobs_def keyed_def job_entry_def Let_def intro!: map_idI split: option.split prod.split)

lemma history_status_succeeded: "history_status fs = DeployHistoryStatusSucceeded \<longleftrightarrow> fs = []"
  by (auto simp: history_status_def DeployHistoryStatusSucceeded_def DeployHistoryStatusCancelled_def
      DeployHistoryStatusFailed_def)

text \<open>
  C10. The history row of a deploy is truthful. It lists every selected job exactly once in deployment
  order, carries the generation that was committed, and is marked succeeded only if every listed job was
  deployed or skipped and none of them needs a rollout any more; a job that was never reached is listed
  as aborted.
\<close>
theorem deploy_history_truthful:
  assumes "catalog_wf (cat w)" "plan_env e" "execute e bucketID runID jobsFilter force w = (res, w')"
    and "er_history res = Some h"
  shows "map hj_Job (dh_Jobs h) = listDeployableJobs (cat w) jobsFilter \<and> dh_Generation h = generation w' \<and>
    (dh_Status h = DeployHistoryStatusSucceeded \<longrightarrow>
       (\<forall>entry \<in> set (dh_Jobs h). hj_Outcome entry = DeployHistoryOutcomeDeployed \<or> hj_Outcome entry = DeployHistoryOutcomeSkipped) \<and>
       (\<forall>job \<in> set (listDeployableJobs (cat w) jobsFilter). JobNeedsRollout (cat w') job = Inr False))"
proof -
  let ?js = "listDeployableJobs (cat w) jobsFilter"
  from execute_cases [OF assms(2,1,3)] assms(4) obtain r6 w6 w2 ips
    where ph: "phases_result ?js w r6 (w6\<lparr>generation := generation w\<rparr>)"
      and runp: "run_phases e bucketID (normalizeJobFilter jobsFilter) force ips ?js w2 = (r6, w6)"
      and fin: "finish_run e runID (normalizeJobFilter jobsFilter) force ?js w r6 w6 = (res, w')"
    by (elim disjE exE conjE) simp_all
  have h: "dh_Generation h = generation w'" "dh_Jobs h = history_jobs (cat w') ?js (outcomes r6)"
      "dh_Status h = history_status (noteHealthCancel (failures r6))" and c: "cat w' = cat w6"
    using finish_run_cases [OF fin] assms(4) by (elim disjE conjE; simp)+
  have "(\<forall>entry \<in> set (dh_Jobs h). hj_Outcome entry = DeployHistoryOutcomeDeployed \<or> hj_Outcome entry = DeployHistoryOutcomeSkipped) \<and>
      (\<forall>job \<in> set ?js. JobNeedsRollout (cat w') job = Inr False)" if "dh_Status h = DeployHistoryStatusSucceeded"
  proof -
    have "failures r6 = []" using that h(3) by (simp add: history_status_succeeded noteHealthCancel_Nil)
    then have ok: "\<forall>j \<in> set ?js. ok_entry (outcomes r6 j)" using ph by (simp add: phases_result_def)
    have "hj_Outcome (case outcomes r6 j of Some entry \<Rightarrow> entry | None \<Rightarrow> x) = DeployHistoryOutcomeDeployed \<or>
        hj_Outcome (case outcomes r6 j of Some entry \<Rightarrow> entry | None \<Rightarrow> x) = DeployHistoryOutcomeSkipped" if "j \<in> set ?js" for j x
      using ok that by (auto simp: ok_entry_def split: option.splits)
    moreover have "\<forall>job \<in> set ?js. JobNeedsRollout (cat w') job = Inr False"
      using ph ok c by (simp add: phases_result_def)
    ultimately show ?thesis by (auto simp: h(2) history_jobs_def)
  qed
  moreover have "map hj_Job (dh_Jobs h) = ?js"
    unfolding h(2) by (rule history_jobs_names [OF keyed_run_phases [OF runp]])
  ultimately show ?thesis using h(1) by simp
qed

theorem deploy_history_truthful_witness:
  "\<exists>res w' h. execute quiet_env ''b'' ''run-1'' [] False (demo_world ''always'') = (res, w') \<and> er_history res = Some h \<and>
     dh_Status h = DeployHistoryStatusSucceeded \<and> map hj_Job (dh_Jobs h) = [''web''] \<and> dh_Generation h = generation w'"
proof -
  let ?x = "execute quiet_env ''b'' ''run-1'' [] False (demo_world ''always'')"
  have "er_history (fst ?x) \<noteq> None" by code_simp
  then obtain h where h: "er_history (fst ?x) = Some h" by blast
  have st: "dh_Status (the (er_history (fst ?x))) = DeployHistoryStatusSucceeded" by code_simp
  have js: "listDeployableJobs (cat (demo_world ''always'')) [] = [''web'']" by code_simp
  have x: "?x = (fst ?x, snd ?x)" by simp
  from deploy_history_truthful [OF demo_wf quiet_plan_env x h] js
  have "map hj_Job (dh_Jobs h) = [''web''] \<and> dh_Generation h = generation (snd ?x)" by simp
  with h st x show ?thesis by (intro exI [of _ "fst ?x"] exI [of _ "snd ?x"] exI [of _ h]) simp
qed

text \<open>A hash row that is gone stays gone through reconciliation.\<close>

definition stays_gone :: "string \<Rightarrow> world \<Rightarrow> world \<Rightarrow> bool" where
  "stays_gone k w w' \<longleftrightarrow> allocations (cat w') = allocations (cat w) \<and>
     (hash_of (cat w) k = None \<longrightarrow> hash_of (cat w') k = None)"

interpretation gone_rows: stop_relation "stays_gone k" "\<lambda>ip job. True" for k
  by unfold_locales (auto simp: stays_gone_def hash_of_remove promote.look_upd)

lemma ok_item_trivial:
  "item \<in> set (reconcile_items c (filter P (ListStoppedAllocations c)) job) \<Longrightarrow> gone_rows.ok_item job item"
  by (rule gone_rows.ok_reconcile_items) simp_all

lemma removeHashOf_ok:
  assumes "removeHashOf ip job w = (Inr u, w')" "GetAllocationID (cat w) ip job = Inr i"
  shows "hash_of (cat w') i = None"
proof -
  have "w' = w\<lparr>cat := RemoveAllocationHash i (cat w)\<rparr>"
    using assms by (auto simp: removeHashOf_def bindD_Inr act_simps)
  then show ?thesis by (simp add: hash_of_remove)
qed

lemma stays_gone_ids: "stays_gone k w w' \<Longrightarrow> GetAllocationID (cat w') = GetAllocationID (cat w)"
  by (rule GetAllocationID_alloc) (simp add: stays_gone_def)

lemma stop_items_removes:
  assumes "\<And>item. item \<in> set items \<Longrightarrow> gone_rows.ok_item job item" "stop_items job items w = (Inr kept, w')"
    and "item \<in> set items" "s_removed (ri_alloc item)" "item \<notin> set kept"
    and "GetAllocationID (cat w) (s_worker_ip (ri_alloc item)) job = Inr i"
  shows "hash_of (cat w') i = None"
  using assms
proof (induction items arbitrary: w kept)
  case (Cons x items)
  have ok: "\<And>item. item \<in> set items \<Longrightarrow> gone_rows.ok_item job item" using Cons.prems(1) by simp
  have jobx: "s_job (ri_alloc x) = job" using Cons.prems(1) [of x] by (simp add: gone_rows.ok_item_def)
  from Cons.prems(2) consider
      (keep) rest where "kept = x # rest" "stop_items job items w = (Inr rest, w')"
    | (drop) w1 v where "reconcileSkippedStopAllocation (ri_alloc x) w = (Inr v, w1)" "stop_items job items w1 = (Inr kept, w')"
    by (auto simp: bindD_Inr thenD_Inr act_simps split: if_splits)
  then show ?case
  proof cases
    case keep
    then show ?thesis using Cons.IH [OF ok, of w rest] Cons.prems by auto
  next
    case drop
    have same: "GetAllocationID (cat w1) = GetAllocationID (cat w)"
      using drop(1) GetAllocationID_alloc [of "cat w1" "cat w"]
      by (auto simp: reconcileSkippedStopAllocation_def removeHashOf_def bindD_Inr act_simps split: if_splits)
    show ?thesis
    proof (cases "item = x")
      case True
      then have "hash_of (cat w1) i = None"
        using drop(1) Cons.prems(4,6) jobx by (auto simp: reconcileSkippedStopAllocation_def intro: removeHashOf_ok)
      moreover have "stays_gone i w1 w'"
        using gone_rows.R_stop_items [where k = i and items = items and job = job and w = w1] ok drop(2) by simp
      ultimately show ?thesis by (simp add: stays_gone_def)
    next
      case False
      then show ?thesis using Cons.IH [OF ok drop(2)] Cons.prems same by auto
    qed
  qed
qed simp

lemma cleanup_removes:
  assumes "forD (cleanup_removed e b job) items w = (Inr u, w')" "item \<in> set items" "s_removed (ri_alloc item)"
    and "GetAllocationID (cat w) (s_worker_ip (ri_alloc item)) job = Inr i"
    and "\<And>item. item \<in> set items \<Longrightarrow> gone_rows.ok_item job item"
  shows "hash_of (cat w') i = None"
  using assms
proof (induction items arbitrary: w)
  case (Cons x items)
  from Cons.prems(1) obtain v w1 where x: "cleanup_removed e b job x w = (Inr v, w1)"
      and rest: "forD (cleanup_removed e b job) items w1 = (Inr u, w')"
    by (auto simp: thenD_Inr)
  have artifacts: "cat w2 = cat w" if "removeJobDeployArtifactsFromWorker e b ip job d w = (r, w2)" for ip d r w2
    using same_cat.R_remove_artifacts [where w = w and e = e and b = b and ip = ip and job = job and dead = d] that by simp
  have ids: "GetAllocationID (cat w1) = GetAllocationID (cat w)"
    using x GetAllocationID_alloc [of "cat w1" "cat w"]
    by (auto simp: cleanup_removed_def removeHashOf_def thenD_Inr bindD_Inr act_simps split: if_splits dest: artifacts)
  show ?case
  proof (cases "item = x")
    case True
    then have "hash_of (cat w1) i = None"
      using x Cons.prems(3,4) by (auto simp: cleanup_removed_def thenD_Inr dest: artifacts intro!: removeHashOf_ok)
    moreover have "stays_gone i w1 (snd (forD (cleanup_removed e b job) items w1))"
      by (rule gone_rows.R_for) (simp add: gone_rows.R_cleanup Cons.prems(5))
    ultimately show ?thesis using rest by (simp add: stays_gone_def)
  next
    case False
    then show ?thesis using Cons.IH [OF rest] Cons.prems ids by auto
  qed
qed simp

lemma reconcile_job_removes:
  assumes "reconcileStoppedAllocationsForJob e b job force items w = (Inr u, w')"
    and ok: "\<And>item. item \<in> set items \<Longrightarrow> gone_rows.ok_item job item"
    and item: "item \<in> set items" "s_removed (ri_alloc item)" "GetAllocationID (cat w) (s_worker_ip (ri_alloc item)) job = Inr i"
  shows "hash_of (cat w') i = None"
proof -
  obtain kept w1 where kept: "stop_items job items w = (Inr kept, w1)"
      and rest: "stop_and_clean e b job force kept w1 = (Inr u, w')"
    using assms(1) unfolding reconcileStoppedAllocationsForJob_def bindD_Inr by (elim exE conjE)
  have ok_kept: "gone_rows.ok_item job x" if "x \<in> set kept" for x
    using gone_rows.stop_items_subset [OF kept] ok that by blast
  show ?thesis
  proof (cases "item \<in> set kept")
    case False
    have "hash_of (cat w1) i = None" by (rule stop_items_removes [OF ok kept item(1,2) False item(3)])
    then show ?thesis
      using gone_rows.R_stop_and_clean [where k = i and kept = kept and job = job and w = w1 and e = e and b = b and force = force]
        ok_kept rest by (simp add: stays_gone_def)
  next
    case True
    then have "kept \<noteq> []" by auto
    with rest obtain rs n bs w2 w3 v where res: "ResolveRolloutOrder e job (map (\<lambda>item. s_worker_ip (ri_alloc item)) kept) w1 = (Inr rs, w2)"
        and batches: "forD (stopBatch e b job force kept rs n) (enumerate 0 (SplitWorkerBatches (Ordered rs) bs)) w2 = (Inr v, w3)"
        and clean: "forD (cleanup_removed e b job) kept w3 = (Inr u, w')"
      by (auto simp: stop_and_clean_def Let_def bindD_Inr thenD_Inr act_simps)
    have "stays_gone i w w1"
      using gone_rows.R_stop_items [where k = i and items = items and job = job and w = w] ok kept by simp
    moreover have "w2 = w1" by (rule resolve_state [OF res])
    moreover have "stays_gone i w2 w3"
      using gone_rows.R_stop_batches [where k = i and kept = kept and job = job and rs = rs and w = w2 and e = e and b = b
          and force = force and n = n and bs = bs] ok_kept resolve_set [OF res] batches by simp
    ultimately have "GetAllocationID (cat w3) (s_worker_ip (ri_alloc item)) job = Inr i"
      using item(3) by (simp add: stays_gone_ids)
    from cleanup_removes [OF clean True item(2) this ok_kept] show ?thesis .
  qed
qed

text \<open>Among the steps of a loop that succeeds, one for each element.\<close>

lemma for_step:
  assumes "forD f xs w = (Inr u, w')" "x \<in> set xs" "\<And>y w1. stays_gone k w1 (snd (f y w1))"
  shows "\<exists>w1 w2 v. stays_gone k w w1 \<and> f x w1 = (Inr v, w2) \<and> stays_gone k w2 w'"
  using assms(1,2)
proof (induction xs arbitrary: w)
  case (Cons y ys)
  then obtain v w1 where y: "f y w = (Inr v, w1)" and rest: "forD f ys w1 = (Inr u, w')" by (auto simp: thenD_Inr)
  have r1: "stays_gone k w w1" using assms(3) [of w y] y by simp
  show ?case
  proof (cases "x = y")
    case True
    have "stays_gone k w1 (snd (forD f ys w1))" by (rule gone_rows.R_for) (rule assms(3))
    then have "stays_gone k w1 w'" by (simp add: rest)
    with y True show ?thesis using gone_rows.R_refl [where k = k and w = w]
      by (intro exI [of _ w] exI [of _ w1] exI [of _ v]) simp
  next
    case False
    with Cons.prems(2) Cons.IH [OF rest] obtain w2 w3 v' where
      "stays_gone k w1 w2" "f x w2 = (Inr v', w3)" "stays_gone k w3 w'" by auto
    with gone_rows.R_trans [OF r1] show ?thesis by blast
  qed
qed simp

lemma stopped_item:
  assumes "a \<in> set (allocations c)" "a_removed a = 1" "jobInFilter (a_job a) flt"
  shows "\<exists>item \<in> set (reconcile_items c (filter (\<lambda>x. jobInFilter (s_job x) flt) (ListStoppedAllocations c)) (a_job a)).
    s_removed (ri_alloc item) \<and> s_worker_ip (ri_alloc item) = a_worker_ip a"
proof -
  let ?s = "\<lparr>s_worker_ip = a_worker_ip a, s_job = a_job a, s_removed = True, s_disabled = (a_disabled a = 1)\<rparr>"
  have "?s \<in> set (ListStoppedAllocations c)"
    unfolding ListStoppedAllocations_def using assms(1,2) by (auto intro!: image_eqI [of _ _ a])
  then show ?thesis
    using assms(3)
    by (intro bexI [of _ "\<lparr>ri_alloc = ?s, ri_assumeDead = StoppedAllocationAssumeDead ?s (LoadWorkerCatalog c)\<rparr>"])
       (auto simp: reconcile_items_def)
qed

text \<open>
  C9. Reconciliation of removed and disabled allocations touches nothing that lives. Whatever fails,
  the hash row of every allocation that is not removed is as it was, so no running allocation is
  promoted or forgotten; and when the phase succeeds, every removed allocation of the selected jobs has
  lost its hash rows, so it is never stopped or promoted again.
\<close>
theorem reconcile_only_removed:
  assumes "catalog_wf (cat w)"
    and "reconcileRemovedAndDisabledAllocations e bucketID jobsFilter force w = (res, w')"
  shows "(\<forall>a \<in> set (allocations (cat w)). a_removed a \<noteq> 1 \<longrightarrow>
      hash_of (cat w') (a_alloc_id a) = hash_of (cat w) (a_alloc_id a)) \<and>
    (res = Inr () \<longrightarrow> (\<forall>a \<in> set (allocations (cat w)). a_removed a = 1 \<longrightarrow> jobInFilter (a_job a) jobsFilter \<longrightarrow>
      hash_of (cat w') (a_alloc_id a) = None))"
proof (intro conjI impI)
  show "\<forall>a \<in> set (allocations (cat w)). a_removed a \<noteq> 1 \<longrightarrow>
      hash_of (cat w') (a_alloc_id a) = hash_of (cat w) (a_alloc_id a)"
    using reconcile_keeps_live [of w e bucketID jobsFilter force] assms by (simp add: stop_rel_def same_tables_refl)
  assume ok: "res = Inr ()"
  let ?stopped = "filter (\<lambda>x. jobInFilter (s_job x) jobsFilter) (ListStoppedAllocations (cat w))"
  let ?step = "\<lambda>job. reconcileStoppedAllocationsForJob e bucketID job force (reconcile_items (cat w) ?stopped job)"
  obtain gone v w1 where loop: "forD ?step (Unique (map s_job ?stopped)) w = (Inr v, w1)"
      and rest: "thenD (forD (removeWorkerBucketFromWorker e bucketID) gone) (purgeHookKVForInactiveJobs e ?stopped) w1 = (Inr (), w')"
    using assms(2) ok
    by (auto simp: reconcileRemovedAndDisabledAllocations_def Let_def bindD_Inr thenD_Inr [of "forD ?step _"] act_simps)
  show "\<forall>a \<in> set (allocations (cat w)). a_removed a = 1 \<longrightarrow> jobInFilter (a_job a) jobsFilter \<longrightarrow>
      hash_of (cat w') (a_alloc_id a) = None"
  proof (intro ballI impI)
    fix a
    assume a: "a \<in> set (allocations (cat w))" "a_removed a = 1" "jobInFilter (a_job a) jobsFilter"
    let ?k = "a_alloc_id a"
    obtain item where item: "item \<in> set (reconcile_items (cat w) ?stopped (a_job a))" "s_removed (ri_alloc item)"
        "s_worker_ip (ri_alloc item) = a_worker_ip a"
      using stopped_item [OF a] by (elim bexE conjE)
    then have job: "a_job a \<in> set (Unique (map s_job ?stopped))"
      by (auto simp: reconcile_items_def intro!: image_eqI [where x = "ri_alloc item"])
    have keeps: "stays_gone ?k w2 (snd (?step job w2))" for job w2
      by (rule gone_rows.R_reconcile_job) (rule ok_item_trivial)
    from for_step [OF loop job keeps] obtain w2 w3 x where
      w2: "stays_gone ?k w w2" "?step (a_job a) w2 = (Inr x, w3)" "stays_gone ?k w3 w1" by (elim exE conjE)
    have id: "GetAllocationID (cat w2) (s_worker_ip (ri_alloc item)) (a_job a) = Inr ?k"
      using GetAllocationID_wf [OF assms(1) a(1)] stays_gone_ids [OF w2(1)] item(3) by simp
    have "hash_of (cat w3) ?k = None"
      by (rule reconcile_job_removes [OF w2(2) ok_item_trivial item(1,2) id])
    moreover have "stays_gone ?k w1 (snd (thenD (forD (removeWorkerBucketFromWorker e bucketID) gone)
        (purgeHookKVForInactiveJobs e ?stopped) w1))"
      by (intro gone_rows.R_then gone_rows.R_for gone_rows.R_remove_bucket gone_rows.R_purge_kv)
    then have "stays_gone ?k w1 w'" by (simp only: rest snd_conv)
    ultimately show "hash_of (cat w') ?k = None" using w2(3) by (simp add: stays_gone_def)
  qed
qed

theorem reconcile_only_removed_witness:
  "\<exists>w'. reconcileRemovedAndDisabledAllocations quiet_env ''b'' [] False (demo_world ''always'') = (Inr (), w') \<and>
     hash_of (cat (demo_world ''always'')) ''a2'' \<noteq> None \<and> hash_of (cat w') ''a2'' = None \<and>
     hash_of (cat w') ''a1'' = hash_of (cat (demo_world ''always'')) ''a1''"
proof -
  let ?x = "reconcileRemovedAndDisabledAllocations quiet_env ''b'' [] False (demo_world ''always'')"
  have "isl (fst ?x) = False" by code_simp
  then obtain w' where x: "?x = (Inr (), w')" by (cases ?x; cases "fst ?x") auto
  have "jobInFilter j []" for j by (simp add: jobInFilter_def)
  moreover have "hash_of (cat (demo_world ''always'')) ''a2'' \<noteq> None" by code_simp
  ultimately show ?thesis
    using reconcile_only_removed [OF demo_wf x] x
    by (intro exI [of _ w']) (simp add: demo_world_def demo_catalog_def empty_catalog_def)
qed

end
