(* ===== verification/Semaphore.thy ===== *)
theory Semaphore
  imports Go_Strings
begin

text \<open>
  The semaphores of a hook session (\<^verbatim>\<open>hooks/runtime_semaphore.go\<close>): allocations of a job acquire and
  release named permits while their hooks run. The coordinator keeps, per scope key, a capacity, the
  set of holding allocations and the queue of waiters; a waiter blocks on a channel that is closed
  when it is granted. Every operation runs under one mutex, so the model has one step per critical
  section; the channels are numbered and \<open>closed\<close> is the set of those that were closed.
\<close>

section \<open>The coordinator\<close>

definition defaultSemaphoreCapacity :: int where "defaultSemaphoreCapacity = 1"

definition maxSemaphoreCapacity :: int where "maxSemaphoreCapacity = 64"

record semaphoreWaiter =
  allocationID :: string
  notify :: nat

record jobSemaphore =
  capacity :: int
  holders :: "string set"
  waiters :: "semaphoreWaiter list"

record semaphoreCoordinator =
  semaphores :: "string \<rightharpoonup> jobSemaphore"
  closed :: "nat set"
  next_channel :: nat

definition newSemaphoreCoordinator :: semaphoreCoordinator where
  "newSemaphoreCoordinator = \<lparr>semaphores = Map.empty, closed = {}, next_channel = 0\<rparr>"

definition put_sem :: "string \<Rightarrow> jobSemaphore \<Rightarrow> semaphoreCoordinator \<Rightarrow> semaphoreCoordinator" where
  "put_sem k sem c = c\<lparr>semaphores := (semaphores c)(k \<mapsto> sem)\<rparr>"

text \<open>The result is the channel to wait on, or \<open>None\<close> when the permit is held on return.\<close>

definition registerWait ::
  "semaphoreCoordinator \<Rightarrow> string \<Rightarrow> string \<Rightarrow> int \<Rightarrow> (nat option) result \<times> semaphoreCoordinator" where
  "registerWait c scopeKey alloc cap =
     (let sem = (case semaphores c scopeKey of
                   None \<Rightarrow> \<lparr>capacity = cap, holders = {}, waiters = []\<rparr> | Some s \<Rightarrow> s);
          c1 = put_sem scopeKey sem c
      in if capacity sem \<noteq> cap then (Inl ErrPlain, c)
         else if alloc \<in> holders sem then (Inr None, c1)
         else if int (card (holders sem)) < capacity sem then
           (Inr None, put_sem scopeKey (sem\<lparr>holders := insert alloc (holders sem)\<rparr>) c)
         else
           (let ch = next_channel c
            in (Inr (Some ch),
                (put_sem scopeKey (sem\<lparr>waiters := waiters sem @ [\<lparr>allocationID = alloc, notify = ch\<rparr>]\<rparr>) c)
                  \<lparr>next_channel := ch + 1\<rparr>)))"

definition cancelWait :: "semaphoreCoordinator \<Rightarrow> string \<Rightarrow> nat \<Rightarrow> semaphoreCoordinator" where
  "cancelWait c scopeKey notifyCh =
     (case semaphores c scopeKey of
        None \<Rightarrow> c
      | Some sem \<Rightarrow> put_sem scopeKey (sem\<lparr>waiters := filter (\<lambda>w. notify w \<noteq> notifyCh) (waiters sem)\<rparr>) c)"

text \<open>The loop of \<open>grantNextWaiterLocked\<close> over the queue; it returns the channels it closed.\<close>

fun grant_loop :: "int \<Rightarrow> string set \<Rightarrow> semaphoreWaiter list \<Rightarrow> string set \<times> semaphoreWaiter list \<times> nat set" where
  "grant_loop cap hs [] = (hs, [], {})"
| "grant_loop cap hs (w # ws) =
     (if int (card hs) < cap then
        (case grant_loop cap (insert (allocationID w) hs) ws of
           (hs', ws', chs) \<Rightarrow> (hs', ws', insert (notify w) chs))
      else (hs, w # ws, {}))"

definition grantNextWaiterLocked :: "jobSemaphore \<Rightarrow> jobSemaphore \<times> nat set" where
  "grantNextWaiterLocked sem =
     (case grant_loop (capacity sem) (holders sem) (waiters sem) of
        (hs, ws, chs) \<Rightarrow> (sem\<lparr>holders := hs, waiters := ws\<rparr>, chs))"

definition release :: "semaphoreCoordinator \<Rightarrow> string \<Rightarrow> string \<Rightarrow> unit result \<times> semaphoreCoordinator" where
  "release c scopeKey alloc =
     (case semaphores c scopeKey of
        None \<Rightarrow> (Inl ErrPlain, c)
      | Some sem \<Rightarrow>
          if alloc \<notin> holders sem then (Inl ErrPlain, c)
          else (case grantNextWaiterLocked (sem\<lparr>holders := holders sem - {alloc}\<rparr>) of
                  (sem', chs) \<Rightarrow> (Inr (), (put_sem scopeKey sem' c)\<lparr>closed := closed c \<union> chs\<rparr>)))"

record semaphoreStatusPayload =
  st_Name :: string
  st_Capacity :: int
  st_Holders :: "string set"
  st_Waiting :: nat
  st_Available :: int

definition status :: "semaphoreCoordinator \<Rightarrow> string \<Rightarrow> semaphoreStatusPayload \<times> bool" where
  "status c scopeKey =
     (case semaphores c scopeKey of
        None \<Rightarrow> (\<lparr>st_Name = scopeKey, st_Capacity = 0, st_Holders = {}, st_Waiting = 0, st_Available = 0\<rparr>, False)
      | Some sem \<Rightarrow> (\<lparr>st_Name = scopeKey, st_Capacity = capacity sem, st_Holders = holders sem, st_Waiting = length (waiters sem),
                       st_Available = capacity sem - int (card (holders sem))\<rparr>, True))"

text \<open>What the status route answers: an unknown semaphore is reported free at the default capacity.\<close>

definition semaphoreScopeKey :: "string \<Rightarrow> string \<Rightarrow> string \<Rightarrow> string" where
  "semaphoreScopeKey jobName event semaphoreName = jobName @ ''/'' @ event @ ''/'' @ semaphoreName"

definition serveSemaphoreStatus :: "semaphoreCoordinator \<Rightarrow> string \<Rightarrow> string \<Rightarrow> string \<Rightarrow> semaphoreStatusPayload" where
  "serveSemaphoreStatus c jobName event semaphoreName =
     (case status c (semaphoreScopeKey jobName event semaphoreName) of
        (st, found) \<Rightarrow>
          if found then st\<lparr>st_Name := semaphoreName\<rparr>
          else st\<lparr>st_Name := semaphoreName, st_Capacity := defaultSemaphoreCapacity,
                  st_Available := defaultSemaphoreCapacity\<rparr>)"

text \<open>Durations are nanoseconds in an \<open>int64\<close>; the product wraps.\<close>

definition defaultAcquireTimeout :: int where "defaultAcquireTimeout = 600 * 1000000000"

definition maxAcquireTimeout :: int where "maxAcquireTimeout = 3600 * 1000000000"

definition normalizeAcquireTimeout :: "int \<Rightarrow> int" where
  "normalizeAcquireTimeout seconds =
     (if seconds \<le> 0 then defaultAcquireTimeout
      else let timeout = wrap64 (seconds * 1000000000)
           in if timeout > maxAcquireTimeout then maxAcquireTimeout else timeout)"

section \<open>Sessions\<close>

text \<open>
  A session is the coordinator together with the \<open>acquire\<close> calls that block in their \<open>select\<close> and the
  returns of finished calls. A blocked call wakes when its channel is closed, or gives up when its
  context is done; when both hold, Go picks either branch.
\<close>

datatype sem_return = Acquired string string | AcquireFailed string string | Released string string

record sem_session =
  coord :: semaphoreCoordinator
  blocked :: "(nat \<times> string \<times> string) list"
  returns :: "sem_return list"

definition acquire_capacity :: "int \<Rightarrow> int" where
  "acquire_capacity cap = (if cap < 1 then defaultSemaphoreCapacity else cap)"

definition acquire :: "string \<Rightarrow> string \<Rightarrow> int \<Rightarrow> sem_session \<Rightarrow> sem_session" where
  "acquire scopeKey alloc cap s =
     (if acquire_capacity cap > maxSemaphoreCapacity then s\<lparr>returns := returns s @ [AcquireFailed scopeKey alloc]\<rparr>
      else case registerWait (coord s) scopeKey alloc (acquire_capacity cap) of
        (Inl e, c) \<Rightarrow> s\<lparr>coord := c, returns := returns s @ [AcquireFailed scopeKey alloc]\<rparr>
      | (Inr None, c) \<Rightarrow> s\<lparr>coord := c, returns := returns s @ [Acquired scopeKey alloc]\<rparr>
      | (Inr (Some ch), c) \<Rightarrow> s\<lparr>coord := c, blocked := blocked s @ [(ch, scopeKey, alloc)]\<rparr>)"

definition wake :: "nat \<times> string \<times> string \<Rightarrow> sem_session \<Rightarrow> sem_session" where
  "wake b s = s\<lparr>blocked := filter (\<lambda>x. x \<noteq> b) (blocked s),
                returns := returns s @ [Acquired (fst (snd b)) (snd (snd b))]\<rparr>"

definition give_up :: "nat \<times> string \<times> string \<Rightarrow> sem_session \<Rightarrow> sem_session" where
  "give_up b s = s\<lparr>coord := cancelWait (coord s) (fst (snd b)) (fst b),
                   blocked := filter (\<lambda>x. x \<noteq> b) (blocked s),
                   returns := returns s @ [AcquireFailed (fst (snd b)) (snd (snd b))]\<rparr>"

definition release_call :: "string \<Rightarrow> string \<Rightarrow> sem_session \<Rightarrow> sem_session" where
  "release_call scopeKey alloc s =
     (case release (coord s) scopeKey alloc of
        (Inl e, c) \<Rightarrow> s
      | (Inr _, c) \<Rightarrow> s\<lparr>coord := c, returns := returns s @ [Released scopeKey alloc]\<rparr>)"

inductive sem_step :: "sem_session \<Rightarrow> sem_session \<Rightarrow> bool" where
  sem_acquire: "sem_step s (acquire k a cap s)"
| sem_wake: "b \<in> set (blocked s) \<Longrightarrow> fst b \<in> closed (coord s) \<Longrightarrow> sem_step s (wake b s)"
| sem_give_up: "b \<in> set (blocked s) \<Longrightarrow> sem_step s (give_up b s)"
| sem_release: "sem_step s (release_call k a s)"

inductive_cases sem_stepE: "sem_step s t"

definition new_session :: sem_session where
  "new_session = \<lparr>coord = newSemaphoreCoordinator, blocked = [], returns = []\<rparr>"

definition sem_init :: "sem_session \<Rightarrow> bool" where
  "sem_init s = (s = new_session)"

section \<open>The invariant\<close>

text \<open>
  Every semaphore has a valid capacity and no more holders than it allows, and somebody waits only
  while all permits are held. Channels of waiters are open, used once, and known to a blocked call.
\<close>

definition sem_ok :: "jobSemaphore \<Rightarrow> bool" where
  "sem_ok sem = (1 \<le> capacity sem \<and> capacity sem \<le> maxSemaphoreCapacity \<and> finite (holders sem) \<and>
     int (card (holders sem)) \<le> capacity sem \<and>
     (waiters sem \<noteq> [] \<longrightarrow> int (card (holders sem)) = capacity sem))"

definition channels_ok :: "sem_session \<Rightarrow> bool" where
  "channels_ok s =
     ((\<forall>k sem w. semaphores (coord s) k = Some sem \<longrightarrow> w \<in> set (waiters sem) \<longrightarrow>
         (notify w, k, allocationID w) \<in> set (blocked s) \<and> notify w \<notin> closed (coord s)) \<and>
      (\<forall>b \<in> set (blocked s). fst b < next_channel (coord s)) \<and>
      (\<forall>ch \<in> closed (coord s). ch < next_channel (coord s)) \<and>
      distinct (map fst (blocked s)))"

definition waiters_distinct :: "sem_session \<Rightarrow> bool" where
  "waiters_distinct s = (\<forall>k sem. semaphores (coord s) k = Some sem \<longrightarrow> distinct (map notify (waiters sem)))"

definition sem_inv :: "sem_session \<Rightarrow> bool" where
  "sem_inv s = ((\<forall>k sem. semaphores (coord s) k = Some sem \<longrightarrow> sem_ok sem) \<and> channels_ok s \<and> waiters_distinct s)"

lemma grant_loop_spec:
  assumes "grant_loop cap hs ws = (hs', ws', chs)" "finite hs" "int (card hs) \<le> cap"
  shows "finite hs' \<and> int (card hs') \<le> cap \<and> (ws' \<noteq> [] \<longrightarrow> int (card hs') = cap) \<and>
    (\<exists>taken. ws = taken @ ws' \<and> chs = notify ` set taken \<and> hs' = hs \<union> allocationID ` set taken)"
  using assms
proof (induction cap hs ws arbitrary: hs' ws' chs rule: grant_loop.induct)
  case (1 cap hs)
  then show ?case by auto
next
  case (2 cap hs w ws)
  show ?case
  proof (cases "int (card hs) < cap")
    case True
    obtain h2 w2 c2 where g: "grant_loop cap (insert (allocationID w) hs) ws = (h2, w2, c2)"
      by (cases "grant_loop cap (insert (allocationID w) hs) ws")
    have r: "hs' = h2" "ws' = w2" "chs = insert (notify w) c2"
      using "2.prems"(1) True g by auto
    have "int (card (insert (allocationID w) hs)) \<le> cap"
      using True "2.prems"(2) by (auto simp: card_insert_if)
    from "2.IH" [OF True g _ this] "2.prems"(2) obtain taken where
      "finite h2" "int (card h2) \<le> cap" "w2 \<noteq> [] \<longrightarrow> int (card h2) = cap"
      "ws = taken @ w2" "c2 = notify ` set taken" "h2 = insert (allocationID w) hs \<union> allocationID ` set taken"
      by auto
    then show ?thesis unfolding r by (intro conjI exI [of _ "w # taken"]) auto
  next
    case False
    with 2 have "hs' = hs" "ws' = w # ws" "chs = {}" by auto
    with 2 False show ?thesis by auto
  qed
qed

lemma release_refused:
  "semaphores c k = None \<or> (\<exists>sem. semaphores c k = Some sem \<and> a \<notin> holders sem) \<Longrightarrow> release c k a = (Inl ErrPlain, c)"
  by (auto simp: release_def)

lemma release_granted:
  assumes "semaphores c k = Some sem" "sem_ok sem" "a \<in> holders sem"
  obtains hs ws taken where "waiters sem = taken @ ws" "hs = (holders sem - {a}) \<union> allocationID ` set taken"
    "sem_ok (sem\<lparr>holders := hs, waiters := ws\<rparr>)"
    "release c k a = (Inr (), (put_sem k (sem\<lparr>holders := hs, waiters := ws\<rparr>) c)
       \<lparr>closed := closed c \<union> notify ` set taken\<rparr>)"
    "waiters sem \<noteq> [] \<Longrightarrow> taken \<noteq> []"
proof -
  obtain hs ws chs where g: "grant_loop (capacity sem) (holders sem - {a}) (waiters sem) = (hs, ws, chs)"
    by (cases "grant_loop (capacity sem) (holders sem - {a}) (waiters sem)")
  have fin: "finite (holders sem - {a})" using assms(2) by (simp add: sem_ok_def)
  have less: "int (card (holders sem - {a})) < capacity sem"
    using assms(2,3) card_Diff1_less [of "holders sem" a] by (simp add: sem_ok_def)
  from grant_loop_spec [OF g fin less_imp_le [OF less]] obtain taken where t:
    "finite hs" "int (card hs) \<le> capacity sem" "ws \<noteq> [] \<longrightarrow> int (card hs) = capacity sem"
    "waiters sem = taken @ ws" "chs = notify ` set taken" "hs = (holders sem - {a}) \<union> allocationID ` set taken"
    by blast
  show thesis
  proof (rule that [OF t(4,6)])
    show "sem_ok (sem\<lparr>holders := hs, waiters := ws\<rparr>)" using t assms(2) by (simp add: sem_ok_def)
    show "release c k a = (Inr (), (put_sem k (sem\<lparr>holders := hs, waiters := ws\<rparr>) c)
       \<lparr>closed := closed c \<union> notify ` set taken\<rparr>)"
      using assms g t(5) by (simp add: release_def grantNextWaiterLocked_def)
    show "taken \<noteq> []" if "waiters sem \<noteq> []"
    proof
      assume "taken = []"
      with that t less show False by auto
    qed
  qed
qed

lemma semaphores_put [simp]: "semaphores (put_sem k sem c) = (semaphores c)(k \<mapsto> sem)"
  and closed_put [simp]: "closed (put_sem k sem c) = closed c"
  and next_put [simp]: "next_channel (put_sem k sem c) = next_channel c"
  by (simp_all add: put_sem_def)

text \<open>Replacing one semaphore: the invariant follows from that of the new value.\<close>

lemma inv_update:
  assumes "sem_inv s" "sem_ok sem" "distinct (map notify (waiters sem))"
    and "\<forall>w \<in> set (waiters sem). (notify w, k, allocationID w) \<in> set bl \<and> notify w \<notin> closed (coord s) \<union> chs"
    and "\<forall>k' sem' w. k' \<noteq> k \<longrightarrow> semaphores (coord s) k' = Some sem' \<longrightarrow> w \<in> set (waiters sem') \<longrightarrow>
           (notify w, k', allocationID w) \<in> set bl \<and> notify w \<notin> chs"
    and "\<forall>b \<in> set bl. fst b < n" "\<forall>ch \<in> closed (coord s) \<union> chs. ch < n" "distinct (map fst bl)"
  shows "sem_inv (s\<lparr>coord := (put_sem k sem (coord s))\<lparr>closed := closed (coord s) \<union> chs, next_channel := n\<rparr>,
                    blocked := bl, returns := rs\<rparr>)"
  using assms by (auto simp: sem_inv_def channels_ok_def waiters_distinct_def)

lemma sem_inv_sem: "sem_inv s \<Longrightarrow> semaphores (coord s) k = Some sem \<Longrightarrow>
    sem_ok sem \<and> distinct (map notify (waiters sem)) \<and>
    (\<forall>w \<in> set (waiters sem). (notify w, k, allocationID w) \<in> set (blocked s) \<and> notify w \<notin> closed (coord s))"
  by (auto simp: sem_inv_def channels_ok_def waiters_distinct_def)

lemma sem_inv_new: "sem_inv new_session"
  by (simp add: sem_inv_def channels_ok_def waiters_distinct_def new_session_def newSemaphoreCoordinator_def)

lemma inv_returns: "sem_inv s \<Longrightarrow> sem_inv (s\<lparr>returns := rs\<rparr>)"
  by (simp add: sem_inv_def channels_ok_def waiters_distinct_def)

lemma inv_acquire:
  assumes "sem_inv s"
  shows "sem_inv (acquire k a cap s)"
proof (cases "acquire_capacity cap > maxSemaphoreCapacity")
  case True
  then show ?thesis using inv_returns [OF assms] by (simp add: acquire_def)
next
  case False
  let ?cap = "acquire_capacity cap"
  let ?c = "coord s"
  let ?sem = "case semaphores ?c k of None \<Rightarrow> \<lparr>capacity = ?cap, holders = {}, waiters = []\<rparr> | Some x \<Rightarrow> x"
  have cap: "1 \<le> ?cap" "?cap \<le> maxSemaphoreCapacity"
    using False by (auto simp: acquire_capacity_def defaultSemaphoreCapacity_def)
  have ok: "sem_ok ?sem" "distinct (map notify (waiters ?sem))"
    "\<forall>w \<in> set (waiters ?sem). (notify w, k, allocationID w) \<in> set (blocked s) \<and> notify w \<notin> closed ?c"
    using sem_inv_sem [OF assms, of k] cap by (auto simp: sem_ok_def split: option.split)
  have other: "\<forall>k' sem' w. k' \<noteq> k \<longrightarrow> semaphores ?c k' = Some sem' \<longrightarrow> w \<in> set (waiters sem') \<longrightarrow>
      (notify w, k', allocationID w) \<in> set (blocked s)"
    using assms unfolding sem_inv_def channels_ok_def by blast
  have chan: "\<forall>b \<in> set (blocked s). fst b < next_channel ?c" "\<forall>ch \<in> closed ?c. ch < next_channel ?c"
    "distinct (map fst (blocked s))"
    using assms by (auto simp: sem_inv_def channels_ok_def)
  have upd: "sem_inv (s\<lparr>coord := put_sem k sem' ?c, returns := rs\<rparr>)"
    if "sem_ok sem'" "waiters sem' = waiters ?sem" for sem' rs
  proof -
    have "sem_inv (s\<lparr>coord := (put_sem k sem' ?c)\<lparr>closed := closed ?c \<union> {}, next_channel := next_channel ?c\<rparr>,
        blocked := blocked s, returns := rs\<rparr>)"
      by (rule inv_update [OF assms that(1)]) (use ok other chan that(2) in auto)
    then show ?thesis by (simp add: put_sem_def)
  qed
  consider (mismatch) "capacity ?sem \<noteq> ?cap"
    | (held) "capacity ?sem = ?cap" "a \<in> holders ?sem"
    | (free) "capacity ?sem = ?cap" "a \<notin> holders ?sem" "int (card (holders ?sem)) < capacity ?sem"
    | (wait) "capacity ?sem = ?cap" "a \<notin> holders ?sem" "\<not> int (card (holders ?sem)) < capacity ?sem"
    by blast
  then show ?thesis
  proof cases
    case mismatch
    then show ?thesis using False inv_returns [OF assms]
      by (simp add: acquire_def registerWait_def Let_def)
  next
    case held
    then show ?thesis using False upd [OF ok(1) refl] by (simp add: acquire_def registerWait_def Let_def)
  next
    case free
    have "sem_ok (?sem\<lparr>holders := insert a (holders ?sem)\<rparr>)"
      using ok(1) free unfolding sem_ok_def by (auto simp: card_insert_if)
    then show ?thesis using False free upd by (simp add: acquire_def registerWait_def Let_def)
  next
    case wait
    let ?ch = "next_channel ?c"
    let ?sem' = "?sem\<lparr>waiters := waiters ?sem @ [\<lparr>allocationID = a, notify = ?ch\<rparr>]\<rparr>"
    have "sem_inv (s\<lparr>coord := (put_sem k ?sem' ?c)\<lparr>closed := closed ?c \<union> {}, next_channel := ?ch + 1\<rparr>,
        blocked := blocked s @ [(?ch, k, a)], returns := returns s\<rparr>)"
    proof (rule inv_update [OF assms])
      show "sem_ok ?sem'" using ok(1) wait by (auto simp: sem_ok_def)
      show "distinct (map notify (waiters ?sem'))" using ok(2,3) chan(1) by fastforce
      show "\<forall>w \<in> set (waiters ?sem'). (notify w, k, allocationID w) \<in> set (blocked s @ [(?ch, k, a)]) \<and>
          notify w \<notin> closed ?c \<union> {}" using ok(3) chan(2) by auto
      show "distinct (map fst (blocked s @ [(?ch, k, a)]))" using chan by fastforce
    qed (use other chan in \<open>auto simp: less_Suc_eq\<close>)
    then show ?thesis using False wait
      by (simp add: acquire_def registerWait_def Let_def put_sem_def)
  qed
qed

lemma inv_wake:
  assumes "sem_inv s" "fst b \<in> closed (coord s)"
  shows "sem_inv (wake b s)"
proof -
  have "(notify w, k, allocationID w) \<in> set (filter (\<lambda>x. x \<noteq> b) (blocked s)) \<and> notify w \<notin> closed (coord s)"
    if "semaphores (coord s) k = Some sem" "w \<in> set (waiters sem)" for k sem w
    using sem_inv_sem [OF assms(1) that(1)] that(2) assms(2) by auto
  then show ?thesis
    using assms(1) by (auto simp: wake_def sem_inv_def channels_ok_def waiters_distinct_def distinct_map_filter)
qed

lemma inv_give_up:
  assumes "sem_inv s" "b \<in> set (blocked s)"
  shows "sem_inv (give_up b s)"
proof -
  obtain ch k a where b: "b = (ch, k, a)" by (cases b)
  have inj: "b' = b" if "b' \<in> set (blocked s)" "fst b' = ch" for b'
    using that assms b by (auto simp: sem_inv_def channels_ok_def distinct_map inj_on_def)
  have keep: "(notify w, k', allocationID w) \<in> set (filter (\<lambda>x. x \<noteq> b) (blocked s)) \<and> notify w \<notin> closed (coord s)"
    if "semaphores (coord s) k' = Some sem" "w \<in> set (waiters sem)" "notify w \<noteq> ch \<or> k' \<noteq> k" for k' sem w
    using sem_inv_sem [OF assms(1) that(1)] that(2,3) b by auto
  have other: "\<forall>k' sem' w. k' \<noteq> k \<longrightarrow> semaphores (coord s) k' = Some sem' \<longrightarrow> w \<in> set (waiters sem') \<longrightarrow>
      (notify w, k', allocationID w) \<in> set (filter (\<lambda>x. x \<noteq> b) (blocked s))"
    using keep by blast
  have chan: "\<forall>x \<in> set (blocked s). fst x < next_channel (coord s)" "\<forall>x \<in> closed (coord s). x < next_channel (coord s)"
    "distinct (map fst (blocked s))"
    using assms(1) by (auto simp: sem_inv_def channels_ok_def)
  show ?thesis
  proof (cases "semaphores (coord s) k")
    case None
    with other show ?thesis
      using assms(1) keep b
      by (auto simp: give_up_def cancelWait_def sem_inv_def channels_ok_def waiters_distinct_def distinct_map_filter)
  next
    case (Some sem)
    let ?sem = "sem\<lparr>waiters := filter (\<lambda>w. notify w \<noteq> ch) (waiters sem)\<rparr>"
    have "sem_inv (s\<lparr>coord := (put_sem k ?sem (coord s))\<lparr>closed := closed (coord s) \<union> {}, next_channel := next_channel (coord s)\<rparr>,
        blocked := filter (\<lambda>x. x \<noteq> b) (blocked s), returns := returns s @ [AcquireFailed k a]\<rparr>)"
    proof (rule inv_update [OF assms(1)])
      show "sem_ok ?sem" using sem_inv_sem [OF assms(1) Some] by (auto simp: sem_ok_def)
      show "distinct (map notify (waiters ?sem))" using sem_inv_sem [OF assms(1) Some] by (simp add: distinct_map_filter)
      show "\<forall>w \<in> set (waiters ?sem). (notify w, k, allocationID w) \<in> set (filter (\<lambda>x. x \<noteq> b) (blocked s)) \<and>
          notify w \<notin> closed (coord s) \<union> {}" using keep [OF Some] by simp
    qed (use other chan in \<open>auto simp: distinct_map_filter\<close>)
    with Some b show ?thesis by (simp add: give_up_def cancelWait_def put_sem_def)
  qed
qed

lemma inv_release:
  assumes "sem_inv s"
  shows "sem_inv (release_call k a s)"
proof (cases "\<exists>sem. semaphores (coord s) k = Some sem \<and> a \<in> holders sem")
  case False
  then have "release (coord s) k a = (Inl ErrPlain, coord s)"
    by (intro release_refused) (cases "semaphores (coord s) k"; auto)
  with assms show ?thesis by (simp add: release_call_def)
next
  case True
  then obtain sem where sem: "semaphores (coord s) k = Some sem" "a \<in> holders sem" by blast
  note ok = sem_inv_sem [OF assms sem(1)]
  obtain hs ws taken where r: "waiters sem = taken @ ws" "sem_ok (sem\<lparr>holders := hs, waiters := ws\<rparr>)"
    "release (coord s) k a = (Inr (), (put_sem k (sem\<lparr>holders := hs, waiters := ws\<rparr>) (coord s))
       \<lparr>closed := closed (coord s) \<union> notify ` set taken\<rparr>)"
    using release_granted [OF sem(1) conjunct1 [OF ok] sem(2)] by metis
  have uniq: "notify w \<notin> notify ` set taken"
    if "k' \<noteq> k" "semaphores (coord s) k' = Some sem'" "w \<in> set (waiters sem')" for k' sem' w
  proof
    assume "notify w \<in> notify ` set taken"
    then obtain t where t: "t \<in> set taken" "notify t = notify w" by auto
    have "(notify w, k', allocationID w) \<in> set (blocked s)" "(notify t, k, allocationID t) \<in> set (blocked s)"
      using sem_inv_sem [OF assms that(2)] that(3) ok r(1) t(1) by auto
    moreover have "inj_on fst (set (blocked s))"
      using assms by (simp add: sem_inv_def channels_ok_def distinct_map)
    ultimately show False using t(2) that(1) unfolding inj_on_def by fastforce
  qed
  have "sem_inv (s\<lparr>coord := (put_sem k (sem\<lparr>holders := hs, waiters := ws\<rparr>) (coord s))
        \<lparr>closed := closed (coord s) \<union> notify ` set taken, next_channel := next_channel (coord s)\<rparr>,
      blocked := blocked s, returns := returns s @ [Released k a]\<rparr>)"
  proof (rule inv_update [OF assms r(2)])
    show "\<forall>w \<in> set (waiters (sem\<lparr>holders := hs, waiters := ws\<rparr>)).
        (notify w, k, allocationID w) \<in> set (blocked s) \<and> notify w \<notin> closed (coord s) \<union> notify ` set taken"
      using ok r(1) by auto
    show "\<forall>ch \<in> closed (coord s) \<union> notify ` set taken. ch < next_channel (coord s)"
      using assms ok r(1) by (force simp: sem_inv_def channels_ok_def)
  qed (use assms ok r(1) uniq in \<open>auto simp: sem_inv_def channels_ok_def\<close>)
  with r(3) show ?thesis by (simp add: release_call_def put_sem_def)
qed

interpretation sem_machine: invariant_system sem_init sem_step sem_inv
proof
  show "sem_inv s" if "sem_init s" for s using that sem_inv_new by (simp add: sem_init_def)
  show "sem_inv t" if "sem_inv s" "sem_step s t" for s t
    using that(2,1) by cases (auto intro: inv_acquire inv_wake inv_give_up inv_release)
qed

section \<open>Properties\<close>

text \<open>
  C14. Mutual exclusion without idle permits: in every reachable state of a session, each semaphore
  has a capacity between 1 and 64 and at most that many holders, and a call waits on it only while
  all its permits are held.
\<close>

theorem semaphore_exclusion:
  assumes "reach sem_init sem_step s" "semaphores (coord s) k = Some sem"
  shows "1 \<le> capacity sem \<and> capacity sem \<le> maxSemaphoreCapacity \<and>
    int (card (holders sem)) \<le> capacity sem \<and>
    (waiters sem \<noteq> [] \<longrightarrow> int (card (holders sem)) = capacity sem)"
  using sem_inv_sem [OF sem_machine.reach_inv [OF assms(1)] assms(2)] by (simp add: sem_ok_def)

definition two_calls :: sem_session where
  "two_calls = acquire ''j/e/s'' ''a2'' 1 (acquire ''j/e/s'' ''a1'' 1 new_session)"

lemma reach_two_calls: "reach sem_init sem_step two_calls"
  unfolding two_calls_def
  by (rule reach_step, rule reach_step, rule reach_init, simp add: sem_init_def, rule sem_acquire, rule sem_acquire)

lemma two_calls_eq:
  "two_calls = \<lparr>coord = \<lparr>semaphores = [''j/e/s'' \<mapsto> \<lparr>capacity = 1, holders = {''a1''},
       waiters = [\<lparr>allocationID = ''a2'', notify = 0\<rparr>]\<rparr>], closed = {}, next_channel = 1\<rparr>,
     blocked = [(0, ''j/e/s'', ''a2'')], returns = [Acquired ''j/e/s'' ''a1'']\<rparr>"
  by (simp add: two_calls_def acquire_def acquire_capacity_def registerWait_def Let_def put_sem_def
      new_session_def newSemaphoreCoordinator_def maxSemaphoreCapacity_def)

theorem semaphore_exclusion_witness:
  "\<exists>sem. semaphores (coord two_calls) ''j/e/s'' = Some sem \<and> waiters sem \<noteq> [] \<and> int (card (holders sem)) = capacity sem"
proof -
  obtain sem where sem: "semaphores (coord two_calls) ''j/e/s'' = Some sem" "waiters sem \<noteq> []"
    by (simp add: two_calls_eq)
  with semaphore_exclusion [OF reach_two_calls sem(1)] show ?thesis by blast
qed

text \<open>
  A released permit is handed on in arrival order: when a holder releases while somebody waits,
  the first waiters in the queue, and at least one, become holders at once and their channels are
  closed, so their calls can return; the rest of the queue keeps its order.
\<close>

theorem release_hands_over:
  assumes "reach sem_init sem_step s" "semaphores (coord s) k = Some sem"
    and "a \<in> holders sem" "waiters sem \<noteq> []"
  shows "\<exists>c' sem' granted. release (coord s) k a = (Inr (), c') \<and> semaphores c' k = Some sem' \<and>
    granted \<noteq> [] \<and> waiters sem = granted @ waiters sem' \<and>
    holders sem' = holders sem - {a} \<union> allocationID ` set granted \<and>
    (\<forall>w \<in> set granted. notify w \<in> closed c' \<and> (notify w, k, allocationID w) \<in> set (blocked s))"
proof -
  note ok = sem_inv_sem [OF sem_machine.reach_inv [OF assms(1)] assms(2)]
  obtain hs ws taken where r: "waiters sem = taken @ ws" "hs = (holders sem - {a}) \<union> allocationID ` set taken"
    "release (coord s) k a = (Inr (), (put_sem k (sem\<lparr>holders := hs, waiters := ws\<rparr>) (coord s))
       \<lparr>closed := closed (coord s) \<union> notify ` set taken\<rparr>)" "taken \<noteq> []"
    using release_granted [OF assms(2) conjunct1 [OF ok] assms(3)] assms(4) by metis
  then show ?thesis using ok by (intro exI [of _ "snd (release (coord s) k a)"]) auto
qed

theorem release_hands_over_witness:
  "fst (release (coord two_calls) ''j/e/s'' ''a1'') = Inr ()"
proof -
  let ?sem = "\<lparr>capacity = 1, holders = {''a1''}, waiters = [\<lparr>allocationID = ''a2'', notify = 0\<rparr>]\<rparr>"
  have "semaphores (coord two_calls) ''j/e/s'' = Some ?sem" by (simp add: two_calls_eq)
  from release_hands_over [OF reach_two_calls this, of "''a1''"]
  have "\<exists>c'. release (coord two_calls) ''j/e/s'' ''a1'' = (Inr (), c')" by auto
  then show ?thesis by auto
qed

text \<open>
  C35. A permit can leak. A call whose context is done after its channel was closed, but before it
  left its \<open>select\<close>, may return the timeout error while its allocation stays a holder: the failed
  caller has no reason to release, and no later call gets the permit.
\<close>

theorem cancelled_acquire_leaks_permit:
  "\<exists>s sem. reach sem_init sem_step s \<and> semaphores (coord s) ''j/e/s'' = Some sem \<and>
     last (returns s) = AcquireFailed ''j/e/s'' ''a2'' \<and> Acquired ''j/e/s'' ''a2'' \<notin> set (returns s) \<and>
     holders sem = {''a2''} \<and> capacity sem = 1 \<and> blocked s = []"
proof -
  let ?s1 = "release_call ''j/e/s'' ''a1'' two_calls"
  let ?s2 = "give_up (0, ''j/e/s'', ''a2'') ?s1"
  have r1: "?s1 = two_calls\<lparr>coord := \<lparr>semaphores = [''j/e/s'' \<mapsto> \<lparr>capacity = 1, holders = {''a2''}, waiters = []\<rparr>],
      closed = {0}, next_channel = 1\<rparr>, returns := [Acquired ''j/e/s'' ''a1'', Released ''j/e/s'' ''a1'']\<rparr>"
    by (simp add: two_calls_eq release_call_def release_def grantNextWaiterLocked_def put_sem_def)
  have "(0, ''j/e/s'', ''a2'') \<in> set (blocked ?s1)" unfolding r1 by (simp add: two_calls_eq)
  then have st: "sem_step ?s1 ?s2" by (rule sem_give_up)
  have "reach sem_init sem_step ?s1"
    using reach_two_calls sem_release by (rule reach_step [where init = sem_init and step = sem_step])
  from this st have "reach sem_init sem_step ?s2" by (rule reach_step [where init = sem_init and step = sem_step])
  have r2: "?s2 = \<lparr>coord = \<lparr>semaphores = [''j/e/s'' \<mapsto> \<lparr>capacity = 1, holders = {''a2''}, waiters = []\<rparr>],
      closed = {0}, next_channel = 1\<rparr>, blocked = [],
      returns = [Acquired ''j/e/s'' ''a1'', Released ''j/e/s'' ''a1'', AcquireFailed ''j/e/s'' ''a2'']\<rparr>"
    unfolding r1 by (simp add: two_calls_eq give_up_def cancelWait_def put_sem_def)
  show ?thesis
  proof (intro exI conjI)
    show "reach sem_init sem_step ?s2" by fact
    show "semaphores (coord ?s2) ''j/e/s'' = Some \<lparr>capacity = 1, holders = {''a2''}, waiters = []\<rparr>"
      unfolding r2 by simp
  qed (simp_all add: r2)
qed



end
