(* ===== verification/Kv.thy ===== *)
theory Kv
  imports Batches "HOL-Library.AList"
begin

text \<open>
  The key-value store (\<^verbatim>\<open>kv/\<close>): the in-memory working set of one command, the versioned rows of the
  table \<open>key_value\<close> it is loaded from and written to, expiry, the purge of old versions, secrets, and
  the reader that templates use.

  The store is a map of maps; it is an association list of association lists here, so that the loops
  over it are loops over lists (Go visits maps in an unspecified order, and no result below depends
  on it). Version counters are integers that only grow by one.
\<close>

section \<open>The store\<close>

record Entry =
  e_Value :: string
  e_Version :: int
  e_TTL :: int
  e_Deleted :: int
  e_Changed :: bool
  e_LastModifiedTime :: int

type_synonym keys = "(string \<times> Entry) list"

type_synonym store = "(string \<times> keys) list"

definition NewStore :: store where "NewStore = []"

definition namespaceMap :: "store \<Rightarrow> string \<Rightarrow> keys" where
  "namespaceMap s ns = (case map_of s ns of None \<Rightarrow> [] | Some m \<Rightarrow> m)"

definition lookup :: "store \<Rightarrow> string \<Rightarrow> string \<Rightarrow> Entry option" where
  "lookup s ns key = map_of (namespaceMap s ns) key"

definition set_entry :: "string \<Rightarrow> string \<Rightarrow> Entry \<Rightarrow> store \<Rightarrow> store" where
  "set_entry ns key e s = AList.update ns (AList.update key e (namespaceMap s ns)) s"

definition put_entry :: "Entry option \<Rightarrow> string \<Rightarrow> int \<Rightarrow> Entry" where
  "put_entry old v ttl =
     (case old of
        None \<Rightarrow> \<lparr>e_Value = v, e_Version = 1, e_TTL = ttl, e_Deleted = 0, e_Changed = True, e_LastModifiedTime = 0\<rparr>
      | Some e \<Rightarrow>
          if e_Deleted e = 1 then
            e\<lparr>e_Value := v, e_TTL := ttl, e_Deleted := 0, e_Version := e_Version e + 1, e_Changed := True\<rparr>
          else if e_TTL e \<noteq> ttl \<or> e_Value e \<noteq> v then
            e\<lparr>e_Value := v, e_TTL := ttl, e_Version := e_Version e + 1, e_Changed := True\<rparr>
          else e)"

definition putValue :: "store \<Rightarrow> string \<Rightarrow> string \<Rightarrow> string \<Rightarrow> int \<Rightarrow> bool \<Rightarrow> store" where
  "putValue s ns key v ttl trimValue =
     set_entry ns key (put_entry (lookup s ns key) (if trimValue then TrimSpace v else v) ttl) s"

definition Put :: "store \<Rightarrow> string \<Rightarrow> string \<Rightarrow> string \<Rightarrow> int \<Rightarrow> store" where
  "Put s ns key v ttl = putValue s ns key v ttl True"

definition tombstone :: "Entry \<Rightarrow> Entry" where
  "tombstone e = e\<lparr>e_Deleted := 1, e_Changed := True, e_Version := e_Version e + 1\<rparr>"

definition Delete :: "store \<Rightarrow> string \<Rightarrow> string \<Rightarrow> unit result \<times> store" where
  "Delete s ns key =
     (case map_of s ns of
        None \<Rightarrow> (Inl KvErrNamespaceNotFound, s)
      | Some m \<Rightarrow>
          (case map_of m key of
             None \<Rightarrow> (Inl KvErrNotFound, s)
           | Some e \<Rightarrow> (Inr (), set_entry ns key (tombstone e) s)))"

definition Get :: "store \<Rightarrow> string \<Rightarrow> string \<Rightarrow> Entry result" where
  "Get s ns key =
     (case map_of s ns of
        None \<Rightarrow> Inl KvErrNotFound
      | Some m \<Rightarrow>
          (case map_of m key of
             None \<Rightarrow> Inl KvErrNotFound
           | Some e \<Rightarrow> if e_Deleted e = 1 then Inl KvErrNotFound else Inr e))"

definition GetKeys :: "store \<Rightarrow> string \<Rightarrow> string list" where
  "GetKeys s ns = map fst (filter (\<lambda>(k, e). e_Deleted e \<noteq> 1) (namespaceMap s ns))"

definition map_keys :: "(Entry \<Rightarrow> Entry) \<Rightarrow> keys \<Rightarrow> keys" where
  "map_keys f m = map (\<lambda>(k, e). (k, f e)) m"

definition PurgeNamespace :: "store \<Rightarrow> string \<Rightarrow> store" where
  "PurgeNamespace s ns =
     (case map_of s ns of
        None \<Rightarrow> s
      | Some m \<Rightarrow> AList.update ns (map_keys (\<lambda>e. if e_Deleted e = 1 then e else tombstone e) m) s)"

definition HasPendingChanges :: "store \<Rightarrow> bool" where
  "HasPendingChanges s = list_ex (\<lambda>(ns, m). list_ex (\<lambda>(k, e). e_Changed e) m) s"

definition ListNamespaces :: "store \<Rightarrow> string list" where
  "ListNamespaces s = map fst s"

section \<open>Expiry\<close>

text \<open>Sums of times are 64-bit and wrap.\<close>

definition EntryExpired :: "Entry \<Rightarrow> int \<Rightarrow> bool" where
  "EntryExpired e now =
     (if e_Deleted e = 1 \<or> e_TTL e \<le> 0 then False
      else wrap64 (e_LastModifiedTime e + e_TTL e) \<le> now)"

definition expire_entry :: "int \<Rightarrow> Entry \<Rightarrow> Entry" where
  "expire_entry now e =
     (if e_Deleted e = 1 \<or> e_Changed e \<or> e_TTL e \<le> 0 then e
      else if wrap64 (e_LastModifiedTime e + e_TTL e) > now then e
      else tombstone e)"

definition ExpireStaleEntries :: "int \<Rightarrow> store \<Rightarrow> store" where
  "ExpireStaleEntries now s = map (\<lambda>(ns, m). (ns, map_keys (expire_entry now) m)) s"

section \<open>The table\<close>

record kv_row =
  r_key :: string
  r_value :: string
  r_namespace :: string
  r_version :: int
  r_ttl :: int
  r_created :: int
  r_deleted :: int

definition same_key :: "kv_row \<Rightarrow> kv_row \<Rightarrow> bool" where
  "same_key r r' = (r_namespace r = r_namespace r' \<and> r_key r = r_key r')"

definition is_latest :: "kv_row list \<Rightarrow> kv_row \<Rightarrow> bool" where
  "is_latest rows r = list_all (\<lambda>r'. same_key r r' \<longrightarrow> r_version r' \<le> r_version r) rows"

definition entry_of_row :: "kv_row \<Rightarrow> Entry" where
  "entry_of_row r = \<lparr>e_Value = r_value r, e_Version = r_version r, e_TTL = r_ttl r, e_Deleted = r_deleted r,
     e_Changed = False, e_LastModifiedTime = r_created r\<rparr>"

definition LoadFromTransaction :: "kv_row list \<Rightarrow> store" where
  "LoadFromTransaction rows =
     foldl (\<lambda>s r. set_entry (r_namespace r) (r_key r) (entry_of_row r) s) NewStore (filter (is_latest rows) rows)"

definition row_of_entry :: "int \<Rightarrow> string \<Rightarrow> string \<Rightarrow> Entry \<Rightarrow> kv_row" where
  "row_of_entry createdAt ns key e =
     \<lparr>r_key = key, r_value = e_Value e, r_namespace = ns, r_version = e_Version e, r_ttl = e_TTL e,
      r_created = createdAt, r_deleted = e_Deleted e\<rparr>"

definition changed_rows :: "int \<Rightarrow> store \<Rightarrow> kv_row list" where
  "changed_rows createdAt s =
     concat (map (\<lambda>(ns, m). map (\<lambda>(k, e). row_of_entry createdAt ns k e) (filter (\<lambda>(k, e). e_Changed e) m)) s)"

definition persist_entry :: "int \<Rightarrow> Entry \<Rightarrow> Entry" where
  "persist_entry createdAt e =
     (if e_Changed e then e\<lparr>e_Changed := False, e_LastModifiedTime := createdAt\<rparr> else e)"

definition PersistToTransaction :: "int \<Rightarrow> store \<Rightarrow> kv_row list \<Rightarrow> store \<times> kv_row list" where
  "PersistToTransaction createdAt s rows =
     (map (\<lambda>(ns, m). (ns, map_keys (persist_entry createdAt) m)) s, rows @ changed_rows createdAt s)"

definition PersistToSessionTransaction :: "int \<Rightarrow> store option \<Rightarrow> kv_row list \<Rightarrow> (store \<times> kv_row list) result" where
  "PersistToSessionTransaction createdAt session rows =
     (case session of
        None \<Rightarrow> Inl KvErrStoreNotInitialized
      | Some s \<Rightarrow> Inr (if HasPendingChanges s then PersistToTransaction createdAt s rows else (s, rows)))"

definition MaxVersionsToKeep :: int where "MaxVersionsToKeep = 7"

text \<open>
  The aggregate \<open>MAX(version)\<close> fixes the row the bare columns \<open>deleted\<close> and \<open>created_date\<close> come from: the
  latest one.
\<close>

definition stale_row :: "int \<Rightarrow> int \<Rightarrow> kv_row list \<Rightarrow> kv_row \<Rightarrow> bool" where
  "stale_row now retainDays rows r =
     list_ex (\<lambda>l. same_key r l \<and> is_latest rows l \<and>
        (r_version r < r_version l - MaxVersionsToKeep \<or> r_deleted l = 1) \<and>
        r_created l < now - retainDays * 24 * 60 * 60) rows"

definition PurgeStaleVersions :: "int \<Rightarrow> int \<Rightarrow> kv_row list \<Rightarrow> kv_row list" where
  "PurgeStaleVersions now retainDays rows =
     filter (\<lambda>r. \<not> stale_row now (if retainDays < 0 then 0 else retainDays) rows r) rows"

section \<open>Secrets\<close>

definition encryptedValuePrefix :: string where "encryptedValuePrefix = ''enc:v1:''"

definition IsEncryptedValue :: "string \<Rightarrow> bool" where
  "IsEncryptedValue v = HasPrefix v encryptedValuePrefix"

definition SecretJobNamespace :: "string \<Rightarrow> string" where
  "SecretJobNamespace job = ''secrets/job/'' @ job"

definition IsSecretNamespace :: "string \<Rightarrow> bool" where
  "IsSecretNamespace ns = HasPrefix ns ''secrets/job/''"

text \<open>
  AES-GCM with the key of the bucket, then base64: \<open>seal\<close> and \<open>open_sealed\<close> are arguments, and so is
  the result of loading the key.
\<close>

definition EncryptPlaintext :: "(string \<Rightarrow> string \<Rightarrow> string) \<Rightarrow> string result \<Rightarrow> string \<Rightarrow> string result" where
  "EncryptPlaintext seal loadKey plaintext =
     rbind loadKey (\<lambda>key. Inr (encryptedValuePrefix @ seal key plaintext))"

definition DecryptStoredValue :: "(string \<Rightarrow> string \<Rightarrow> string option) \<Rightarrow> string result \<Rightarrow> string \<Rightarrow> string result" where
  "DecryptStoredValue open_sealed loadKey stored =
     (if \<not> IsEncryptedValue stored then Inl ErrPlain
      else rbind loadKey (\<lambda>key.
        case open_sealed key (TrimPrefix stored encryptedValuePrefix) of None \<Rightarrow> Inl ErrPlain | Some p \<Rightarrow> Inr p))"

definition PutSecret ::
  "(string \<Rightarrow> string \<Rightarrow> string) \<Rightarrow> string result \<Rightarrow> store \<Rightarrow> string \<Rightarrow> string \<Rightarrow> string \<Rightarrow> int \<Rightarrow> store result" where
  "PutSecret seal loadKey s ns key plaintext ttl =
     rbind (EncryptPlaintext seal loadKey plaintext) (\<lambda>encrypted. Inr (putValue s ns key encrypted ttl False))"

definition GetSecret ::
  "(string \<Rightarrow> string \<Rightarrow> string option) \<Rightarrow> string result \<Rightarrow> store \<Rightarrow> string \<Rightarrow> string \<Rightarrow> string result" where
  "GetSecret open_sealed loadKey s ns key =
     rbind (Get s ns key) (\<lambda>e. DecryptStoredValue open_sealed loadKey (e_Value e))"

section \<open>Namespaces and the template reader\<close>

definition JobCatalogNamespace :: "string \<Rightarrow> string" where
  "JobCatalogNamespace job = ''kive/job/'' @ job"

definition JobWorkerNamespace :: "string \<Rightarrow> string \<Rightarrow> string" where
  "JobWorkerNamespace job workerIP = ''kive/job/'' @ job @ ''/worker/'' @ workerIP"

definition WorkerCatalogNamespace :: "string \<Rightarrow> string" where
  "WorkerCatalogNamespace workerIP = ''kive/worker/'' @ workerIP"

definition BuildJobKVNamespaces :: "string \<Rightarrow> string list" where
  "BuildJobKVNamespaces job = [''kive/job/'' @ job, ''vars/bucket/job/'' @ job]"

definition HookKVNamespaces :: "string \<Rightarrow> string list" where
  "HookKVNamespaces job = [''vars/job/'' @ job, ''secrets/job/'' @ job]"

definition JobKVNamespaces :: "string \<Rightarrow> string list" where
  "JobKVNamespaces job = BuildJobKVNamespaces job @ HookKVNamespaces job"

record TemplateReader =
  tr_Store :: store
  tr_AllowedNamespaces :: "string list"
  tr_Job :: string
  tr_WorkerIP :: string

text \<open>The reader panics on an error; a panic is the error value here.\<close>

definition reader_get ::
  "(string \<Rightarrow> string \<Rightarrow> string option) \<Rightarrow> string result \<Rightarrow> TemplateReader \<Rightarrow> string \<Rightarrow> string \<Rightarrow> bool \<Rightarrow> string result" where
  "reader_get open_sealed loadKey r ns key optional =
     (if Difference [ns] (tr_AllowedNamespaces r) \<noteq> [] then Inl ErrPlain
      else let res = (if IsSecretNamespace ns then GetSecret open_sealed loadKey (tr_Store r) ns key
                      else rbind (Get (tr_Store r) ns key) (\<lambda>e. Inr (e_Value e)))
           in case res of
                Inl x \<Rightarrow> if optional \<and> x = KvErrNotFound then Inr [] else Inl x
              | Inr v \<Rightarrow> Inr v)"

definition resolveJobArgs :: "TemplateReader \<Rightarrow> string list \<Rightarrow> (string \<times> string) result" where
  "resolveJobArgs r args =
     (case args of [k] \<Rightarrow> Inr (tr_Job r, k) | [j, k] \<Rightarrow> Inr (j, k) | _ \<Rightarrow> Inl ErrPlain)"

definition GetJob ::
  "(string \<Rightarrow> string \<Rightarrow> string option) \<Rightarrow> string result \<Rightarrow> TemplateReader \<Rightarrow> string list \<Rightarrow> bool \<Rightarrow> string result" where
  "GetJob open_sealed loadKey r args optional =
     rbind (resolveJobArgs r args) (\<lambda>(j, k). reader_get open_sealed loadKey r (JobCatalogNamespace j) k optional)"

definition GetJobWorker ::
  "(string \<Rightarrow> string \<Rightarrow> string option) \<Rightarrow> string result \<Rightarrow> TemplateReader \<Rightarrow> string \<Rightarrow> bool \<Rightarrow> string result" where
  "GetJobWorker open_sealed loadKey r key optional =
     reader_get open_sealed loadKey r (JobWorkerNamespace (tr_Job r) (tr_WorkerIP r)) key optional"

definition GetWorker ::
  "(string \<Rightarrow> string \<Rightarrow> string option) \<Rightarrow> string result \<Rightarrow> TemplateReader \<Rightarrow> string \<Rightarrow> bool \<Rightarrow> string result" where
  "GetWorker open_sealed loadKey r key optional =
     reader_get open_sealed loadKey r (WorkerCatalogNamespace (tr_WorkerIP r)) key optional"

section \<open>What the operations do to a lookup\<close>

text \<open>
  Every operation of the store is one of two shapes: it replaces one entry, or it maps all entries of
  some namespaces. The lemmas below reduce them to \<^const>\<open>lookup\<close>.
\<close>

named_theorems lookup_simps \<open>the effect of the operations of the store on a lookup\<close>

definition map_store :: "(string \<Rightarrow> Entry \<Rightarrow> Entry) \<Rightarrow> store \<Rightarrow> store" where
  "map_store f s = map (\<lambda>(ns, m). (ns, map_keys (f ns) m)) s"

lemma lookup_NewStore [lookup_simps]: "lookup NewStore ns k = None"
  by (simp add: lookup_def NewStore_def namespaceMap_def)

lemma lookup_set_entry [lookup_simps]:
  "lookup (set_entry ns k e s) ns' k' = (if ns' = ns \<and> k' = k then Some e else lookup s ns' k')"
  by (simp add: lookup_def set_entry_def namespaceMap_def update_conv)

lemma map_of_map_keys: "map_of (map_keys f m) k = map_option f (map_of m k)"
  by (induction m) (auto simp: map_keys_def)

lemma map_of_map_store: "map_of (map_store f s) ns = map_option (map_keys (f ns)) (map_of s ns)"
  by (induction s) (auto simp: map_store_def)

lemma lookup_map_store [lookup_simps]:
  "lookup (map_store f s) ns k = map_option (f ns) (lookup s ns k)"
  by (auto simp: lookup_def namespaceMap_def map_of_map_store map_of_map_keys split: option.split)

lemma lookup_PurgeNamespace [lookup_simps]:
  "lookup (PurgeNamespace s ns) ns' k =
     (if ns' = ns then map_option (\<lambda>e. if e_Deleted e = 1 then e else tombstone e) (lookup s ns' k)
      else lookup s ns' k)"
  by (auto simp: lookup_def namespaceMap_def PurgeNamespace_def update_conv map_of_map_keys split: option.split)

lemma ExpireStaleEntries_map_store: "ExpireStaleEntries now s = map_store (\<lambda>_. expire_entry now) s"
  by (simp add: ExpireStaleEntries_def map_store_def)

lemma Get_lookup:
  "Get s ns k = (case lookup s ns k of None \<Rightarrow> Inl KvErrNotFound
     | Some e \<Rightarrow> if e_Deleted e = 1 then Inl KvErrNotFound else Inr e)"
  by (auto simp: Get_def lookup_def namespaceMap_def split: option.split)

lemma Delete_lookup:
  "snd (Delete s ns k) = (case lookup s ns k of None \<Rightarrow> s | Some e \<Rightarrow> set_entry ns k (tombstone e) s)"
  by (auto simp: Delete_def lookup_def namespaceMap_def split: option.split)

lemma Delete_ok_iff: "(\<exists>u. fst (Delete s ns k) = Inr u) \<longleftrightarrow> lookup s ns k \<noteq> None"
  by (auto simp: Delete_def lookup_def namespaceMap_def split: option.split)

section \<open>The abstract store\<close>

text \<open>
  What the store promises: a partial map from namespace and key to a value and its time to live. A
  tombstone is an absent key.
\<close>

type_synonym live_map = "string \<times> string \<Rightarrow> (string \<times> int) option"

definition live :: "store \<Rightarrow> live_map" where
  "live s = (\<lambda>(ns, k). case lookup s ns k of None \<Rightarrow> None
     | Some e \<Rightarrow> if e_Deleted e = 1 then None else Some (e_Value e, e_TTL e))"

locale value_store =
  fixes abs :: "'s \<Rightarrow> live_map"
    and put :: "'s \<Rightarrow> string \<Rightarrow> string \<Rightarrow> string \<Rightarrow> int \<Rightarrow> 's"
    and del :: "'s \<Rightarrow> string \<Rightarrow> string \<Rightarrow> 's"
    and purge :: "'s \<Rightarrow> string \<Rightarrow> 's"
    and get :: "'s \<Rightarrow> string \<Rightarrow> string \<Rightarrow> string option"
  assumes abs_put: "abs (put s ns k v ttl) = (abs s)((ns, k) \<mapsto> (v, ttl))"
    and abs_del: "abs (del s ns k) = (abs s)((ns, k) := None)"
    and abs_purge: "abs (purge s ns) = abs s |` {p. fst p \<noteq> ns}"
    and get_abs: "get s ns k = map_option fst (abs s (ns, k))"
begin

lemma get_put: "get (put s ns k v ttl) ns' k' = (if ns' = ns \<and> k' = k then Some v else get s ns' k')"
  by (simp add: get_abs abs_put)

lemma get_del: "get (del s ns k) ns' k' = (if ns' = ns \<and> k' = k then None else get s ns' k')"
  by (simp add: get_abs abs_del)

lemma get_purge: "get (purge s ns) ns' k' = (if ns' = ns then None else get s ns' k')"
  by (simp add: get_abs abs_purge restrict_map_def)

lemma put_overwrites: "abs (put (put s ns k v ttl) ns k v' ttl') = abs (put s ns k v' ttl')"
  by (simp add: abs_put)

lemma purge_forgets_writes: "abs (purge (put s ns k v ttl) ns) = abs (purge s ns)"
  by (auto simp: abs_put abs_purge restrict_map_def)

end

lemma put_entry_live:
  "e_Deleted (put_entry old v ttl) \<noteq> 1 \<and> e_Value (put_entry old v ttl) = v \<and> e_TTL (put_entry old v ttl) = ttl"
  by (auto simp: put_entry_def split: option.split)

lemma live_putValue:
  "live (putValue s ns k v ttl t) = (live s)((ns, k) \<mapsto> (if t then TrimSpace v else v, ttl))"
  by (auto simp: live_def putValue_def lookup_simps put_entry_live fun_eq_iff)

lemma live_Delete: "live (snd (Delete s ns k)) = (live s)((ns, k) := None)"
  by (auto simp: live_def Delete_lookup lookup_simps tombstone_def fun_eq_iff split: option.split)

lemma live_PurgeNamespace: "live (PurgeNamespace s ns) = live s |` {p. fst p \<noteq> ns}"
  by (auto simp: live_def lookup_simps tombstone_def restrict_map_def fun_eq_iff split: option.split)

lemma Get_live: "map_option e_Value (case Get s ns k of Inl x \<Rightarrow> None | Inr e \<Rightarrow> Some e) = map_option fst (live s (ns, k))"
  by (auto simp: live_def Get_lookup split: option.split)

interpretation raw_store: value_store live "\<lambda>s ns k v ttl. putValue s ns k v ttl False" "\<lambda>s ns k. snd (Delete s ns k)"
  PurgeNamespace "\<lambda>s ns k. map_option e_Value (case Get s ns k of Inl x \<Rightarrow> None | Inr e \<Rightarrow> Some e)"
  by unfold_locales (simp_all add: live_putValue live_Delete live_PurgeNamespace Get_live)

section \<open>The store and its table\<close>

text \<open>
  The store is a working copy of the table. An entry that is not marked changed is the latest row of its
  key (or a tombstone whose rows are gone); the version of a changed entry is above all rows of its key,
  so that writing it makes it the latest; a key without an entry has no rows.
\<close>

definition store_wf :: "store \<Rightarrow> bool" where
  "store_wf s \<longleftrightarrow> distinct (map fst s) \<and> (\<forall>m \<in> snd ` set s. distinct (map fst m))"

definition of_key :: "string \<Rightarrow> string \<Rightarrow> kv_row \<Rightarrow> bool" where
  "of_key ns k r \<longleftrightarrow> r_namespace r = ns \<and> r_key r = k"

definition row_id :: "kv_row \<Rightarrow> string \<times> string \<times> int" where
  "row_id r = (r_namespace r, r_key r, r_version r)"

definition latest_is :: "kv_row list \<Rightarrow> string \<Rightarrow> string \<Rightarrow> Entry \<Rightarrow> bool" where
  "latest_is rows ns k e \<longleftrightarrow> (\<exists>r \<in> set rows. of_key ns k r \<and> is_latest rows r \<and> entry_of_row r = e)"

definition no_rows :: "kv_row list \<Rightarrow> string \<Rightarrow> string \<Rightarrow> bool" where
  "no_rows rows ns k \<longleftrightarrow> (\<forall>r \<in> set rows. \<not> of_key ns k r)"

definition entry_sync :: "kv_row list \<Rightarrow> string \<Rightarrow> string \<Rightarrow> Entry option \<Rightarrow> bool" where
  "entry_sync rows ns k x = (case x of
       None \<Rightarrow> no_rows rows ns k
     | Some e \<Rightarrow> if e_Changed e then \<forall>r \<in> set rows. of_key ns k r \<longrightarrow> r_version r < e_Version e
         else latest_is rows ns k e \<or> e_Deleted e = 1 \<and> no_rows rows ns k)"

definition kv_sync :: "store \<times> kv_row list \<Rightarrow> bool" where
  "kv_sync c \<longleftrightarrow> store_wf (fst c) \<and> distinct (map row_id (snd c)) \<and>
     (\<forall>ns k. entry_sync (snd c) ns k (lookup (fst c) ns k))"

lemma same_key_of_key: "same_key r r' \<longleftrightarrow> of_key (r_namespace r) (r_key r) r'"
  by (auto simp: same_key_def of_key_def)

lemma latest_unique:
  assumes "distinct (map row_id rows)" and "r \<in> set rows" "r' \<in> set rows"
    and "is_latest rows r" "is_latest rows r'" and "same_key r r'"
  shows "r = r'"
proof -
  have "r_version r = r_version r'"
    using assms(2-) by (force simp: is_latest_def list_all_iff same_key_def)
  then have "row_id r = row_id r'"
    using assms(6) by (simp add: row_id_def same_key_def)
  with assms(1-3) show ?thesis by (auto simp: distinct_map inj_on_def)
qed

text \<open>A later version of a key, once in the store, never leaves the row of the key behind.\<close>

lemma entry_sync_above:
  assumes "entry_sync rows ns k (Some e)" and "e_Version e < e_Version e'" and "e_Changed e'"
  shows "entry_sync rows ns k (Some e')"
proof (cases "e_Changed e")
  case True
  with assms show ?thesis by (fastforce simp: entry_sync_def)
next
  case False
  have "r_version r \<le> e_Version e" if "r \<in> set rows" "of_key ns k r" "latest_is rows ns k e" for r
    using that by (auto simp: latest_is_def is_latest_def list_all_iff same_key_def of_key_def entry_of_row_def)
  with False assms show ?thesis
    by (force simp: entry_sync_def no_rows_def)
qed

lemma entry_sync_tombstone: "entry_sync rows ns k (Some e) \<Longrightarrow> entry_sync rows ns k (Some (tombstone e))"
  by (erule entry_sync_above) (simp_all add: tombstone_def)

lemma entry_sync_put: "entry_sync rows ns k old \<Longrightarrow> entry_sync rows ns k (Some (put_entry old v ttl))"
proof (cases old)
  case None
  then show "entry_sync rows ns k old \<Longrightarrow> ?thesis" by (simp add: entry_sync_def put_entry_def no_rows_def)
next
  case (Some e)
  assume s: "entry_sync rows ns k old"
  then show ?thesis
    using entry_sync_above [OF s [unfolded Some], of "put_entry old v ttl"]
    by (cases "put_entry old v ttl = e") (auto simp: Some put_entry_def split: if_splits)
qed

lemma entry_sync_expire: "entry_sync rows ns k (Some e) \<Longrightarrow> entry_sync rows ns k (Some (expire_entry now e))"
  by (simp add: expire_entry_def entry_sync_tombstone)

subsection \<open>Well-formed stores\<close>

lemma distinct_namespaceMap: "store_wf s \<Longrightarrow> distinct (map fst (namespaceMap s ns))"
  by (auto simp: namespaceMap_def store_wf_def split: option.split dest: map_of_SomeD)

lemma store_wf_update:
  assumes "store_wf s" and "distinct (map fst m)"
  shows "store_wf (AList.update ns m s)"
proof -
  have "snd ` set (AList.update ns m s) \<subseteq> insert m (snd ` set s)"
    by (induction s) auto
  with assms show ?thesis
    by (fastforce simp: store_wf_def intro: distinct_update)
qed

lemma store_wf_set_entry: "store_wf s \<Longrightarrow> store_wf (set_entry ns k e s)"
  unfolding set_entry_def by (intro store_wf_update distinct_update distinct_namespaceMap)

lemma map_fst_map_keys [simp]: "map fst (map_keys f m) = map fst m"
  by (induction m) (auto simp: map_keys_def)

lemma store_wf_map_store:
  assumes "store_wf s"
  shows "store_wf (map_store f s)"
proof -
  have "map fst (map_store f s) = map fst s" by (induction s) (auto simp: map_store_def)
  moreover have "\<forall>m \<in> snd ` set (map_store f s). distinct (map fst m)"
    using assms by (auto simp: store_wf_def map_store_def)
  ultimately show ?thesis using assms by (simp add: store_wf_def del: map_map)
qed

lemma store_wf_PurgeNamespace: "store_wf s \<Longrightarrow> store_wf (PurgeNamespace s ns)"
  using distinct_namespaceMap [of s ns]
  by (auto simp: PurgeNamespace_def namespaceMap_def split: option.splits intro: store_wf_update)

lemma store_wf_NewStore: "store_wf NewStore"
  by (simp add: store_wf_def NewStore_def)

subsection \<open>Loading\<close>

lemma lookup_load_fold:
  assumes "\<And>r r'. r \<in> set rs \<Longrightarrow> r' \<in> set rs \<Longrightarrow> same_key r r' \<Longrightarrow> r = r'"
  shows "lookup (foldl (\<lambda>s r. set_entry (r_namespace r) (r_key r) (entry_of_row r) s) s rs) ns k =
    (case find (of_key ns k) rs of None \<Rightarrow> lookup s ns k | Some r \<Rightarrow> Some (entry_of_row r))"
  using assms
proof (induction rs arbitrary: s)
  case Nil
  then show ?case by simp
next
  case (Cons r rs)
  have later: "find (of_key ns k) rs = None \<or> find (of_key ns k) rs = Some r" if "of_key ns k r"
  proof (cases "find (of_key ns k) rs")
    case (Some r')
    then have "r' \<in> set rs" "of_key ns k r'" by (auto dest: find_SomeD)
    then have "r = r'" using Cons.prems [of r r'] that by (simp add: same_key_def of_key_def)
    with Some show ?thesis by simp
  qed simp
  show ?case
  proof (cases "of_key ns k r")
    case True
    then have "r_namespace r = ns" "r_key r = k" by (auto simp: of_key_def)
    with later [OF True] True show ?thesis by (auto simp: Cons lookup_simps)
  next
    case False
    then show ?thesis by (auto simp: Cons lookup_simps of_key_def split: option.split)
  qed
qed

lemma lookup_LoadFromTransaction:
  assumes "distinct (map row_id rows)"
  shows "lookup (LoadFromTransaction rows) ns k =
    map_option entry_of_row (find (of_key ns k) (filter (is_latest rows) rows))"
proof -
  have "r = r'" if "r \<in> set (filter (is_latest rows) rows)" "r' \<in> set (filter (is_latest rows) rows)" "same_key r r'" for r r'
    using latest_unique [OF assms, of r r'] that by simp
  then have "lookup (LoadFromTransaction rows) ns k =
    (case find (of_key ns k) (filter (is_latest rows) rows) of None \<Rightarrow> lookup NewStore ns k
     | Some r \<Rightarrow> Some (entry_of_row r))"
    unfolding LoadFromTransaction_def by (rule lookup_load_fold)
  then show ?thesis by (simp add: lookup_simps split: option.split)
qed

lemma exists_latest:
  assumes "r \<in> set rows" and "of_key ns k r"
  shows "\<exists>l \<in> set rows. of_key ns k l \<and> is_latest rows l"
proof -
  let ?R = "filter (of_key ns k) rows"
  have "r \<in> set ?R" using assms by simp
  then have "Max (r_version ` set ?R) \<in> r_version ` set ?R" by (intro Max_in) auto
  then obtain l where l: "l \<in> set ?R" "r_version l = Max (r_version ` set ?R)" by fastforce
  have "r_version r' \<le> r_version l" if "r' \<in> set rows" "same_key l r'" for r'
  proof -
    have "r' \<in> set ?R" using that l(1) by (auto simp: same_key_def of_key_def)
    then show ?thesis unfolding l(2) by (intro Max_ge) auto
  qed
  with l(1) show ?thesis by (auto simp: is_latest_def list_all_iff)
qed

text \<open>What the table says of a key, loaded: an entry that is the latest row, or nothing and no rows.\<close>

lemma LoadFromTransaction_cases:
  assumes "distinct (map row_id rows)"
  shows "(case lookup (LoadFromTransaction rows) ns k of None \<Rightarrow> no_rows rows ns k
     | Some e \<Rightarrow> latest_is rows ns k e \<and> \<not> e_Changed e)"
proof (cases "find (of_key ns k) (filter (is_latest rows) rows)")
  case None
  then have "\<not> (\<exists>l \<in> set rows. of_key ns k l \<and> is_latest rows l)"
    by (auto simp: find_None_iff)
  then have "no_rows rows ns k"
    unfolding no_rows_def using exists_latest [of _ rows ns k] by (meson)
  then show ?thesis by (simp add: lookup_LoadFromTransaction assms None)
next
  case (Some r)
  then show ?thesis
    by (auto simp: lookup_LoadFromTransaction assms latest_is_def entry_of_row_def dest!: find_SomeD)
qed

lemma latest_is_functional:
  assumes "distinct (map row_id rows)" and "latest_is rows ns k e" and "latest_is rows ns k e'"
  shows "e = e'"
proof -
  obtain r where r: "r \<in> set rows" "of_key ns k r" "is_latest rows r" "entry_of_row r = e"
    using assms(2) unfolding latest_is_def by (elim bexE conjE)
  obtain r' where r': "r' \<in> set rows" "of_key ns k r'" "is_latest rows r'" "entry_of_row r' = e'"
    using assms(3) unfolding latest_is_def by (elim bexE conjE)
  have "r = r'" using latest_unique [OF assms(1) r(1) r'(1) r(3) r'(3)] r(2) r'(2)
    by (simp add: same_key_def of_key_def)
  with r(4) r'(4) show ?thesis by simp
qed

lemma store_wf_foldl_set_entry:
  "store_wf s \<Longrightarrow> store_wf (foldl (\<lambda>s r. set_entry (r_namespace r) (r_key r) (entry_of_row r) s) s rs)"
  by (induction rs arbitrary: s) (auto intro: store_wf_set_entry)

lemma kv_sync_load:
  assumes "distinct (map row_id rows)"
  shows "kv_sync (LoadFromTransaction rows, rows)"
proof -
  have "store_wf (LoadFromTransaction rows)"
    unfolding LoadFromTransaction_def by (intro store_wf_foldl_set_entry store_wf_NewStore)
  moreover have "entry_sync rows ns k (lookup (LoadFromTransaction rows) ns k)" for ns k
    using LoadFromTransaction_cases [OF assms, of ns k] by (auto simp: entry_sync_def split: option.splits)
  ultimately show ?thesis using assms by (simp add: kv_sync_def)
qed

subsection \<open>Writing\<close>

lemma Persist_store: "fst (PersistToTransaction t s rows) = map_store (\<lambda>_. persist_entry t) s"
  by (simp add: PersistToTransaction_def map_store_def)

lemma lookup_in_store:
  assumes "store_wf s"
  shows "lookup s ns k = Some e \<longleftrightarrow> (\<exists>m. (ns, m) \<in> set s \<and> (k, e) \<in> set m)"
proof
  assume "lookup s ns k = Some e"
  then show "\<exists>m. (ns, m) \<in> set s \<and> (k, e) \<in> set m"
    by (auto simp: lookup_def namespaceMap_def split: option.splits dest: map_of_SomeD)
next
  assume "\<exists>m. (ns, m) \<in> set s \<and> (k, e) \<in> set m"
  then obtain m where m: "(ns, m) \<in> set s" "(k, e) \<in> set m" by (elim exE conjE)
  then have "map_of s ns = Some m" "map_of m k = Some e"
    using assms by (auto simp: store_wf_def)
  then show "lookup s ns k = Some e" by (simp add: lookup_def namespaceMap_def)
qed

lemma changed_rows_set:
  assumes "store_wf s"
  shows "r \<in> set (changed_rows t s) \<longleftrightarrow>
    (\<exists>e. lookup s (r_namespace r) (r_key r) = Some e \<and> e_Changed e \<and> r = row_of_entry t (r_namespace r) (r_key r) e)"
  (is "?L \<longleftrightarrow> ?R")
proof
  assume ?L
  then obtain ns m k e where "(ns, m) \<in> set s" "(k, e) \<in> set m" "e_Changed e" "r = row_of_entry t ns k e"
    by (auto simp: changed_rows_def)
  moreover from this have "lookup s ns k = Some e" using lookup_in_store [OF assms] by blast
  moreover have "r_namespace r = ns" "r_key r = k" using calculation(4) by (simp_all add: row_of_entry_def)
  ultimately show ?R by (intro exI [of _ e]) simp
next
  assume ?R
  then obtain e where e: "lookup s (r_namespace r) (r_key r) = Some e" "e_Changed e"
      "r = row_of_entry t (r_namespace r) (r_key r) e" by (elim exE conjE)
  from e(1) obtain m where "(r_namespace r, m) \<in> set s" "(r_key r, e) \<in> set m"
    unfolding lookup_in_store [OF assms] by (elim exE conjE)
  with e(2) have "row_of_entry t (r_namespace r) (r_key r) e \<in> set (changed_rows t s)"
    by (force simp: changed_rows_def)
  with e(3) show ?L by simp
qed

definition key_pair :: "kv_row \<Rightarrow> string \<times> string" where
  "key_pair r = (r_namespace r, r_key r)"

lemma changed_rows_keys:
  assumes "store_wf s"
  shows "distinct (map key_pair (changed_rows t s))"
  using assms
proof (induction s)
  case Nil
  then show ?case by (simp add: changed_rows_def)
next
  case (Cons a s)
  obtain ns m where a: "a = (ns, m)" by (cases a)
  have wf: "store_wf s" "ns \<notin> fst ` set s" "distinct (map fst m)"
    using Cons.prems by (auto simp: store_wf_def a)
  let ?new = "map (\<lambda>(k, e). row_of_entry t ns k e) (filter (\<lambda>(k, e). e_Changed e) m)"
  have pairs: "map key_pair ?new = map (Pair ns) (map fst (filter (\<lambda>(k, e). e_Changed e) m))"
    by (simp add: key_pair_def row_of_entry_def split_beta)
  have pair_distinct: "distinct (map (Pair ns) xs)" if "distinct xs" for xs :: "string list"
    using that by (simp add: distinct_map inj_on_def)
  have "distinct (map key_pair ?new)"
    unfolding pairs by (intro pair_distinct distinct_map_filter wf(3))
  moreover have "key_pair ` set ?new \<inter> key_pair ` set (changed_rows t s) = {}"
  proof -
    have "fst p \<in> fst ` set s" if "p \<in> key_pair ` set (changed_rows t s)" for p
      using that by (force simp: changed_rows_def key_pair_def row_of_entry_def)
    moreover have "fst p = ns" if "p \<in> key_pair ` set ?new" for p
      using that by (auto simp: key_pair_def row_of_entry_def)
    ultimately show ?thesis using wf(2) by blast
  qed
  moreover have "changed_rows t (a # s) = ?new @ changed_rows t s"
    by (simp add: changed_rows_def a)
  ultimately show ?case using Cons.IH [OF wf(1)]
    by (simp only: map_append distinct_append set_map simp_thms)
qed

lemma row_id_key_pair: "row_id r = row_id r' \<Longrightarrow> key_pair r = key_pair r'"
  by (simp add: row_id_def key_pair_def)

lemma distinct_row_ids:
  assumes "distinct (map key_pair rs)"
  shows "distinct (map row_id rs)"
  using assms by (auto simp: distinct_map inj_on_def dest: row_id_key_pair)

lemma changed_row_above:
  assumes "kv_sync (s, rows)" and "r \<in> set (changed_rows t s)" and "r' \<in> set rows" and "same_key r r'"
  shows "r_version r' < r_version r"
proof -
  have wf: "store_wf s" using assms(1) by (simp add: kv_sync_def)
  obtain e where e: "lookup s (r_namespace r) (r_key r) = Some e" "e_Changed e"
      "r = row_of_entry t (r_namespace r) (r_key r) e"
    using assms(2) unfolding changed_rows_set [OF wf] by (elim exE conjE)
  have "entry_sync rows (r_namespace r) (r_key r) (Some e)"
    using assms(1) e(1) unfolding kv_sync_def by (metis fst_conv snd_conv)
  then have "r_version r' < e_Version e"
    using assms(3,4) e(2) by (auto simp: entry_sync_def of_key_def same_key_def)
  moreover have "r_version r = e_Version e" by (subst e(3)) (simp add: row_of_entry_def)
  ultimately show ?thesis by simp
qed

lemma persist_distinct:
  assumes "kv_sync (s, rows)"
  shows "distinct (map row_id (rows @ changed_rows t s))"
proof -
  have wf: "store_wf s" and d: "distinct (map row_id rows)" using assms by (simp_all add: kv_sync_def)
  have "row_id r \<noteq> row_id r'" if "r \<in> set rows" "r' \<in> set (changed_rows t s)" for r r'
    using changed_row_above [OF assms that(2,1)] by (auto simp: row_id_def same_key_def)
  then have "row_id ` set rows \<inter> row_id ` set (changed_rows t s) = {}" by blast
  then show ?thesis
    using d distinct_row_ids [OF changed_rows_keys [OF wf]] by (simp add: distinct_append)
qed

lemma latest_is_append:
  assumes "latest_is rows ns k e" and "no_rows rows' ns k"
  shows "latest_is (rows @ rows') ns k e"
proof -
  obtain r where r: "r \<in> set rows" "of_key ns k r" "is_latest rows r" "entry_of_row r = e"
    using assms(1) unfolding latest_is_def by (elim bexE conjE)
  have "is_latest (rows @ rows') r"
    using r(2,3) assms(2) by (auto simp: is_latest_def list_all_iff no_rows_def of_key_def same_key_def)
  with r show ?thesis unfolding latest_is_def by (intro bexI [of _ r]) auto
qed

lemma no_changed_rows:
  assumes "store_wf s" and "\<And>e. lookup s ns k = Some e \<Longrightarrow> \<not> e_Changed e"
  shows "no_rows (changed_rows t s) ns k"
  using assms(2) unfolding no_rows_def
  by (fastforce simp: changed_rows_set [OF assms(1)] of_key_def)

lemma changed_row_is_latest:
  assumes "kv_sync (s, rows)" and e: "lookup s ns k = Some e" "e_Changed e"
  shows "latest_is (rows @ changed_rows t s) ns k (persist_entry t e)"
proof -
  have wf: "store_wf s" using assms(1) by (simp add: kv_sync_def)
  let ?r = "row_of_entry t ns k e"
  have key: "r_namespace ?r = ns" "r_key ?r = k" by (simp_all add: row_of_entry_def)
  have new: "?r \<in> set (changed_rows t s)" by (simp add: changed_rows_set [OF wf] key e)
  have "r_version r \<le> r_version ?r" if r: "r \<in> set rows \<union> set (changed_rows t s)" "same_key ?r r" for r
  proof (cases "r \<in> set rows")
    case True
    then show ?thesis using changed_row_above [OF assms(1) new True r(2)] by simp
  next
    case False
    with r(1) have "r \<in> set (changed_rows t s)" by simp
    moreover have "key_pair ?r = key_pair r" using r(2) by (simp add: same_key_def key_pair_def)
    ultimately have "r = ?r"
      using changed_rows_keys [OF wf, of t] new by (auto simp: distinct_map inj_on_def)
    then show ?thesis by simp
  qed
  then have "is_latest (rows @ changed_rows t s) ?r" by (auto simp: is_latest_def list_all_iff)
  moreover have "entry_of_row ?r = persist_entry t e"
    using e(2) by (simp add: entry_of_row_def row_of_entry_def persist_entry_def)
  moreover have "of_key ns k ?r" by (simp add: of_key_def key)
  ultimately show ?thesis unfolding latest_is_def using new by (intro bexI [of _ ?r]) auto
qed

lemma persist_settles:
  assumes "kv_sync (s, rows)" and "lookup s ns k = Some e"
  shows "latest_is (rows @ changed_rows t s) ns k (persist_entry t e) \<or>
    e_Deleted (persist_entry t e) = 1 \<and> no_rows (rows @ changed_rows t s) ns k"
proof (cases "e_Changed e")
  case True
  then show ?thesis using changed_row_is_latest [OF assms] by simp
next
  case False
  have wf: "store_wf s" and sync: "entry_sync rows ns k (Some e)"
    using assms unfolding kv_sync_def by (simp, metis fst_conv snd_conv)
  have none: "no_rows (changed_rows t s) ns k"
    using no_changed_rows [OF wf] assms(2) False by (metis option.inject)
  have "latest_is rows ns k e \<or> e_Deleted e = 1 \<and> no_rows rows ns k"
    using sync False by (simp add: entry_sync_def)
  moreover have "persist_entry t e = e" using False by (simp add: persist_entry_def)
  ultimately show ?thesis using latest_is_append none by (auto simp: no_rows_def)
qed

lemma kv_sync_persist:
  assumes "kv_sync (s, rows)"
  shows "kv_sync (PersistToTransaction t s rows)"
proof -
  have wf: "store_wf s" using assms by (simp add: kv_sync_def)
  have rows': "snd (PersistToTransaction t s rows) = rows @ changed_rows t s"
    by (simp add: PersistToTransaction_def)
  have "entry_sync (rows @ changed_rows t s) ns k (map_option (persist_entry t) (lookup s ns k))" for ns k
  proof (cases "lookup s ns k")
    case None
    then have "entry_sync rows ns k None" using assms unfolding kv_sync_def by (metis fst_conv snd_conv)
    then show ?thesis
      using no_changed_rows [OF wf, of ns k t] None by (auto simp: entry_sync_def no_rows_def)
  next
    case (Some e)
    have "\<not> e_Changed (persist_entry t e)" by (simp add: persist_entry_def)
    with persist_settles [OF assms Some, of t] show ?thesis by (simp add: Some entry_sync_def)
  qed
  then show ?thesis
    using store_wf_map_store [OF wf] persist_distinct [OF assms]
    by (simp add: kv_sync_def Persist_store rows' lookup_simps)
qed

subsection \<open>Purging old versions\<close>

lemma stale_latest_deleted:
  assumes "distinct (map row_id rows)" and "r \<in> set rows" and "is_latest rows r"
    and "stale_row now d rows r" and "r' \<in> set rows" and "same_key r r'"
  shows "r_deleted r = 1 \<and> stale_row now d rows r'"
proof -
  obtain l where l: "l \<in> set rows" "same_key r l" "is_latest rows l"
      "r_version r < r_version l - MaxVersionsToKeep \<or> r_deleted l = 1" "r_created l < now - d * 24 * 60 * 60"
    using assms(4) unfolding stale_row_def list_ex_iff by (elim bexE conjE)
  have "r = l" using latest_unique [OF assms(1,2) l(1) assms(3) l(3,2)] .
  with l(4) have del: "r_deleted l = 1" by (simp add: MaxVersionsToKeep_def)
  have "same_key r' l" using l(2) assms(6) by (auto simp: same_key_def)
  with l del \<open>r = l\<close> show ?thesis unfolding stale_row_def list_ex_iff
    by (intro conjI bexI [of _ l]) simp_all
qed

lemma entry_sync_purge:
  assumes "distinct (map row_id rows)" and "entry_sync rows ns k x"
  shows "entry_sync (filter (\<lambda>r. \<not> stale_row now d rows r) rows) ns k x"
proof (cases "\<exists>e. x = Some e \<and> \<not> e_Changed e \<and> latest_is rows ns k e")
  case False
  with assms(2) show ?thesis by (auto simp: entry_sync_def no_rows_def split: option.splits if_splits)
next
  case True
  then obtain e where e: "x = Some e" "\<not> e_Changed e" "latest_is rows ns k e" by (elim exE conjE)
  from e(3) obtain r where r: "r \<in> set rows" "of_key ns k r" "is_latest rows r" "entry_of_row r = e"
    unfolding latest_is_def by (elim bexE conjE)
  show ?thesis
  proof (cases "stale_row now d rows r")
    case True
    have "r_deleted r = 1 \<and> stale_row now d rows r'" if "r' \<in> set rows" "of_key ns k r'" for r'
      using stale_latest_deleted [OF assms(1) r(1,3) True that(1)] that(2) r(2)
      by (simp add: of_key_def same_key_def)
    with r e show ?thesis by (auto simp: entry_sync_def no_rows_def entry_of_row_def)
  next
    case False
    have "is_latest (filter (\<lambda>r. \<not> stale_row now d rows r) rows) r"
      using r(3) by (simp add: is_latest_def list_all_iff)
    with r False have "latest_is (filter (\<lambda>r. \<not> stale_row now d rows r) rows) ns k e"
      unfolding latest_is_def by (intro bexI [of _ r]) simp_all
    with e(1,2) show ?thesis by (simp add: entry_sync_def)
  qed
qed

lemma kv_sync_purge:
  assumes "kv_sync (s, rows)"
  shows "kv_sync (s, PurgeStaleVersions now d rows)"
  using assms entry_sync_purge unfolding PurgeStaleVersions_def kv_sync_def
  by (simp add: distinct_map_filter)

section \<open>Sessions\<close>

text \<open>
  One command works on a pair of the loaded store and the table: it puts, deletes, purges and expires
  entries, writes pending changes, removes old rows, and the next command loads the table again.
\<close>

definition kv_init :: "store \<times> kv_row list \<Rightarrow> bool" where
  "kv_init c = (c = (LoadFromTransaction [], []))"

inductive kv_step :: "store \<times> kv_row list \<Rightarrow> store \<times> kv_row list \<Rightarrow> bool" where
  kv_put: "kv_step (s, rows) (putValue s ns k v ttl trim, rows)"
| kv_delete: "kv_step (s, rows) (snd (Delete s ns k), rows)"
| kv_purge: "kv_step (s, rows) (PurgeNamespace s ns, rows)"
| kv_expire: "kv_step (s, rows) (ExpireStaleEntries now s, rows)"
| kv_persist: "PersistToSessionTransaction t (Some s) rows = Inr c \<Longrightarrow> kv_step (s, rows) c"
| kv_gc: "kv_step (s, rows) (s, PurgeStaleVersions now d rows)"
| kv_load: "kv_step (s, rows) (LoadFromTransaction rows, rows)"

lemma kv_sync_entry: "kv_sync (s, rows) \<Longrightarrow> entry_sync rows ns k (lookup s ns k)"
  by (simp add: kv_sync_def)

lemma kv_sync_set_entry:
  assumes "kv_sync (s, rows)" and "entry_sync rows ns k (Some e)"
  shows "kv_sync (set_entry ns k e s, rows)"
  using assms by (simp add: kv_sync_def store_wf_set_entry lookup_simps)

lemma kv_sync_delete: "kv_sync (s, rows) \<Longrightarrow> kv_sync (snd (Delete s ns k), rows)"
  using kv_sync_entry [of s rows ns k] entry_sync_tombstone
  by (auto simp: Delete_lookup split: option.split intro: kv_sync_set_entry)

lemma kv_sync_purge_namespace:
  assumes "kv_sync (s, rows)"
  shows "kv_sync (PurgeNamespace s ns, rows)"
proof -
  have "entry_sync rows n k (lookup (PurgeNamespace s ns) n k)" for n k
    using kv_sync_entry [OF assms, of n k] entry_sync_tombstone
    by (auto simp: lookup_simps map_option_case split: option.split)
  then show ?thesis using assms by (simp add: kv_sync_def store_wf_PurgeNamespace)
qed

lemma kv_sync_expire:
  assumes "kv_sync (s, rows)"
  shows "kv_sync (ExpireStaleEntries now s, rows)"
proof -
  have "entry_sync rows n k (lookup (ExpireStaleEntries now s) n k)" for n k
    using kv_sync_entry [OF assms, of n k] entry_sync_expire
    by (auto simp: ExpireStaleEntries_map_store lookup_simps map_option_case split: option.split)
  then show ?thesis using assms by (simp add: kv_sync_def ExpireStaleEntries_map_store store_wf_map_store)
qed

interpretation kv_machine: invariant_system kv_init kv_step kv_sync
proof
  show "kv_sync c" if "kv_init c" for c
    using that kv_sync_load [of "[]"] by (simp add: kv_init_def)
  show "kv_sync c'" if "kv_sync c" "kv_step c c'" for c c'
    using that(2,1)
  proof cases
    case (kv_put s rows ns k v ttl trim)
    then show ?thesis using that(1) kv_sync_entry entry_sync_put
      by (simp add: putValue_def kv_sync_set_entry)
  next
    case (kv_persist t s rows)
    then have "c' = PersistToTransaction t s rows \<or> c' = (s, rows)"
      by (auto simp: PersistToSessionTransaction_def split: if_splits)
    then show ?thesis using kv_persist(1) that(1) kv_sync_persist by auto
  next
    case (kv_load s rows)
    then show ?thesis using that(1) kv_sync_load by (simp add: kv_sync_def)
  qed (use that(1) in \<open>simp_all add: kv_sync_delete kv_sync_purge_namespace kv_sync_expire kv_sync_purge\<close>)
qed

text \<open>A store whose changes are written holds what a fresh load of the table holds.\<close>

lemma settled_Get:
  assumes "kv_sync (s, rows)" and "\<And>ns k e. lookup s ns k = Some e \<Longrightarrow> \<not> e_Changed e"
  shows "Get (LoadFromTransaction rows) ns k = Get s ns k"
proof -
  have d: "distinct (map row_id rows)" using assms(1) by (simp add: kv_sync_def)
  note cases = LoadFromTransaction_cases [OF d, of ns k]
  have sync: "entry_sync rows ns k (lookup s ns k)" by (rule kv_sync_entry [OF assms(1)])
  show ?thesis
  proof (cases "lookup s ns k")
    case None
    then have "no_rows rows ns k" using sync by (simp add: entry_sync_def)
    then show ?thesis using cases None
      by (auto simp: Get_lookup latest_is_def no_rows_def split: option.splits)
  next
    case (Some e)
    then have "latest_is rows ns k e \<or> e_Deleted e = 1 \<and> no_rows rows ns k"
      using sync assms(2) by (auto simp: entry_sync_def)
    then show ?thesis
    proof
      assume l: "latest_is rows ns k e"
      then have "\<not> no_rows rows ns k" by (auto simp: latest_is_def no_rows_def)
      with cases obtain e' where "lookup (LoadFromTransaction rows) ns k = Some e'" "latest_is rows ns k e'"
        by (cases "lookup (LoadFromTransaction rows) ns k") auto
      with latest_is_functional [OF d l] Some show ?thesis by (simp add: Get_lookup)
    next
      assume n: "e_Deleted e = 1 \<and> no_rows rows ns k"
      then have "lookup (LoadFromTransaction rows) ns k = None"
        using cases by (auto simp: latest_is_def no_rows_def split: option.splits)
      with n Some show ?thesis by (simp add: Get_lookup)
    qed
  qed
qed

lemma live_of_Get: "live s (ns, k) = (case Get s ns k of Inl x \<Rightarrow> None | Inr e \<Rightarrow> Some (e_Value e, e_TTL e))"
  by (simp add: live_def Get_lookup split: option.split)

lemma live_cong: "(\<And>ns k. Get s ns k = Get s' ns k) \<Longrightarrow> live s = live s'"
  by (rule ext) (metis live_of_Get surj_pair)

lemma live_persist: "live (fst (PersistToTransaction t s rows)) = live s"
  by (auto simp: live_def Persist_store lookup_simps persist_entry_def fun_eq_iff split: option.split)

lemma e_Changed_persist [simp]: "\<not> e_Changed (persist_entry t e)"
  by (simp add: persist_entry_def)

lemma persist_unchanged:
  "lookup (fst (PersistToTransaction t s rows)) ns k = Some e \<Longrightarrow> \<not> e_Changed e"
  by (auto simp: Persist_store lookup_simps)

lemma HasPendingChanges_persist: "\<not> HasPendingChanges (fst (PersistToTransaction t s rows))"
  by (auto simp: HasPendingChanges_def Persist_store map_store_def map_keys_def list_ex_iff)

lemma live_map_option: "live s p = Some x \<longleftrightarrow> (\<exists>e. lookup s (fst p) (snd p) = Some e \<and> e_Deleted e \<noteq> 1 \<and> x = (e_Value e, e_TTL e))"
  by (cases p) (auto simp: live_def split: option.split)

section \<open>Properties\<close>

text \<open>
  C5. The store implements a partial map: putting sets one key to the trimmed value, deleting clears
  one key, purging clears exactly one namespace, expiry removes exactly the expired keys that the
  session has not changed, and Get returns what the map holds and \<open>ErrNotFound\<close> elsewhere.
\<close>
theorem store_refines_map:
  "live (Put s ns k v ttl) = (live s)((ns, k) \<mapsto> (TrimSpace v, ttl)) \<and>
   live (snd (Delete s ns k)) = (live s)((ns, k) := None) \<and>
   live (PurgeNamespace s ns) = live s |` {p. fst p \<noteq> ns} \<and>
   live (ExpireStaleEntries now s) =
     live s |` {(n, j). \<not> (\<exists>e. lookup s n j = Some e \<and> \<not> e_Changed e \<and> EntryExpired e now)} \<and>
   (case Get s ns k of Inl x \<Rightarrow> x = KvErrNotFound \<and> live s (ns, k) = None
      | Inr e \<Rightarrow> live s (ns, k) = Some (e_Value e, e_TTL e))"
proof (intro conjI)
  show "live (snd (Delete s ns k)) = (live s)((ns, k) := None)" by (rule raw_store.abs_del)
  show "live (PurgeNamespace s ns) = live s |` {p. fst p \<noteq> ns}" by (rule raw_store.abs_purge)
  show "live (Put s ns k v ttl) = (live s)((ns, k) \<mapsto> (TrimSpace v, ttl))" by (simp add: Put_def live_putValue)
  show "live (ExpireStaleEntries now s) =
     live s |` {(n, j). \<not> (\<exists>e. lookup s n j = Some e \<and> \<not> e_Changed e \<and> EntryExpired e now)}"
    by (auto simp: live_def ExpireStaleEntries_map_store lookup_simps expire_entry_def EntryExpired_def
        tombstone_def restrict_map_def fun_eq_iff split: option.split)
  show "case Get s ns k of Inl x \<Rightarrow> x = KvErrNotFound \<and> live s (ns, k) = None
      | Inr e \<Rightarrow> live s (ns, k) = Some (e_Value e, e_TTL e)"
    by (auto simp: live_of_Get Get_lookup split: option.split)
qed

text \<open>
  C19. In every session, writing the pending changes makes the table hold the store: a fresh load of
  the table answers every Get as the written store does, the live map is the one before the write, no
  change is left pending, and no two rows share namespace, key and version.
\<close>
theorem persist_load_roundtrip:
  assumes "reach kv_init kv_step (s, rows)" and "PersistToTransaction t s rows = (s', rows')"
  shows "Get (LoadFromTransaction rows') ns k = Get s' ns k \<and> live (LoadFromTransaction rows') = live s \<and>
    \<not> HasPendingChanges s' \<and> distinct (map row_id rows')"
proof -
  have sync: "kv_sync (s', rows')"
    using kv_sync_persist [OF kv_machine.reach_inv [OF assms(1)], of t] assms(2) by simp
  have s': "s' = fst (PersistToTransaction t s rows)" using assms(2) by simp
  have get: "Get (LoadFromTransaction rows') ns k = Get s' ns k" for ns k
    using settled_Get [OF sync] persist_unchanged s' by metis
  then have "live (LoadFromTransaction rows') = live s'" by (rule live_cong)
  then show ?thesis
    using get sync HasPendingChanges_persist live_persist by (simp add: s' kv_sync_def)
qed

definition demo_store :: store where
  "demo_store = PurgeNamespace (Put (Put (LoadFromTransaction []) ''a'' ''k'' '' v '' 0) ''b'' ''k'' ''w'' 0) ''b''"

lemma reach_demo_store: "reach kv_init kv_step (demo_store, [])"
proof -
  let ?s0 = "LoadFromTransaction []"
  let ?s1 = "Put ?s0 ''a'' ''k'' '' v '' 0"
  let ?s2 = "Put ?s1 ''b'' ''k'' ''w'' 0"
  have "reach kv_init kv_step (?s0, [])" by (rule reach_init) (simp add: kv_init_def)
  then have "reach kv_init kv_step (?s1, [])"
    unfolding Put_def by (rule reach_step [where init = kv_init and step = kv_step]) (rule kv_put)
  then have "reach kv_init kv_step (?s2, [])"
    unfolding Put_def by (rule reach_step [where init = kv_init and step = kv_step]) (rule kv_put)
  then show ?thesis
    unfolding demo_store_def by (rule reach_step [where init = kv_init and step = kv_step]) (rule kv_purge)
qed

theorem persist_load_roundtrip_witness:
  "live (LoadFromTransaction (snd (PersistToTransaction 9 demo_store []))) = live demo_store \<and>
   live demo_store (''a'', ''k'') = Some (''v'', 0) \<and> live demo_store (''b'', ''k'') = None \<and>
   length (snd (PersistToTransaction 9 demo_store [])) = 2"
proof -
  have "live (LoadFromTransaction (snd (PersistToTransaction 9 demo_store []))) = live demo_store"
    using persist_load_roundtrip [OF reach_demo_store, where t = 9] by (simp add: prod_eq_iff)
  moreover have "live demo_store (''a'', ''k'') = Some (''v'', 0)" by code_simp
  moreover have "live demo_store (''b'', ''k'') = None" by code_simp
  moreover have "length (snd (PersistToTransaction 9 demo_store [])) = 2" by code_simp
  ultimately show ?thesis by simp
qed

text \<open>
  C22. Removing old versions never changes a value: the live map loaded from the remaining rows is the
  one loaded before, and every removed row is either more than \<open>MaxVersionsToKeep\<close> versions behind the
  latest row of its key or belongs to a key whose latest row is a tombstone.
\<close>
theorem purge_keeps_live_values:
  assumes "reach kv_init kv_step (s, rows)"
  shows "live (LoadFromTransaction (PurgeStaleVersions now d rows)) = live (LoadFromTransaction rows) \<and>
    (\<forall>r \<in> set rows. r \<notin> set (PurgeStaleVersions now d rows) \<longrightarrow>
       (\<exists>l \<in> set rows. same_key r l \<and> is_latest rows l \<and>
          (r_version r + MaxVersionsToKeep < r_version l \<or> r_deleted l = 1)))"
proof -
  have d: "distinct (map row_id rows)"
    using kv_machine.reach_inv [OF assms] by (simp add: kv_sync_def)
  have "kv_sync (LoadFromTransaction rows, PurgeStaleVersions now d rows)"
    using kv_sync_purge kv_sync_load [OF d] by simp
  moreover have "\<not> e_Changed e" if "lookup (LoadFromTransaction rows) ns k = Some e" for ns k e
    using LoadFromTransaction_cases [OF d, of ns k] that by simp
  ultimately have "live (LoadFromTransaction (PurgeStaleVersions now d rows)) = live (LoadFromTransaction rows)"
    using settled_Get by (intro live_cong) metis
  moreover have "\<exists>l \<in> set rows. same_key r l \<and> is_latest rows l \<and>
          (r_version r + MaxVersionsToKeep < r_version l \<or> r_deleted l = 1)"
    if "r \<in> set rows" "r \<notin> set (PurgeStaleVersions now d rows)" for r
  proof -
    have "stale_row now (if d < 0 then 0 else d) rows r" using that by (simp add: PurgeStaleVersions_def)
    then obtain l where "l \<in> set rows" "same_key r l" "is_latest rows l"
        "r_version r < r_version l - MaxVersionsToKeep \<or> r_deleted l = 1"
      unfolding stale_row_def list_ex_iff by (elim bexE conjE)
    then show ?thesis by (intro bexI [of _ l]) auto
  qed
  ultimately show ?thesis by blast
qed

definition demo_rows :: "kv_row list" where
  "demo_rows = snd (PersistToTransaction 9 demo_store [])"

theorem purge_keeps_live_values_witness:
  "live (LoadFromTransaction (PurgeStaleVersions 1000000 1 demo_rows)) = live (LoadFromTransaction demo_rows) \<and>
   length demo_rows = 2 \<and> length (PurgeStaleVersions 1000000 1 demo_rows) = 1"
proof -
  have "PersistToSessionTransaction 9 (Some demo_store) [] = Inr (PersistToTransaction 9 demo_store [])"
    by code_simp
  then have "kv_step (demo_store, []) (PersistToTransaction 9 demo_store [])" by (rule kv_persist)
  with reach_demo_store have "reach kv_init kv_step (PersistToTransaction 9 demo_store [])"
    by (rule reach_step [where init = kv_init and step = kv_step])
  then have "reach kv_init kv_step (fst (PersistToTransaction 9 demo_store []), demo_rows)"
    by (simp add: demo_rows_def)
  from purge_keeps_live_values [OF this]
  have "live (LoadFromTransaction (PurgeStaleVersions 1000000 1 demo_rows)) = live (LoadFromTransaction demo_rows)"
    by (rule conjunct1)
  moreover have "length demo_rows = 2" by code_simp
  moreover have "length (PurgeStaleVersions 1000000 1 demo_rows) = 1" by code_simp
  ultimately show ?thesis by simp
qed

lemma IsEncryptedValue_prefix: "IsEncryptedValue (encryptedValuePrefix @ x)"
  by (simp add: IsEncryptedValue_def HasPrefix_def)

lemma TrimPrefix_encrypted: "TrimPrefix (encryptedValuePrefix @ x) encryptedValuePrefix = x"
  by (simp add: TrimPrefix_def HasPrefix_def)

lemma GetSecret_PutSecret:
  assumes "open_sealed key (seal key p) = Some p"
    and "PutSecret seal (Inr key) s ns k p ttl = Inr s'"
  shows "GetSecret open_sealed (Inr key) s' ns k = Inr p"
proof -
  let ?c = "encryptedValuePrefix @ seal key p"
  have s': "s' = putValue s ns k ?c ttl False"
    using assms(2) by (simp add: PutSecret_def EncryptPlaintext_def)
  obtain e where e: "lookup s' ns k = Some e" "e_Deleted e \<noteq> 1" "e_Value e = ?c"
    by (simp add: s' putValue_def lookup_simps put_entry_live)
  then show ?thesis
    using assms(1)
    by (simp add: GetSecret_def Get_lookup DecryptStoredValue_def IsEncryptedValue_prefix TrimPrefix_encrypted)
qed

lemma reader_denied:
  "ns \<notin> set (tr_AllowedNamespaces r) \<Longrightarrow> reader_get open_sealed loadKey r ns k optional = Inl ErrPlain"
  by (simp add: reader_get_def Difference_def)

text \<open>
  C23. A secret survives the store: when unsealing inverts sealing under the bucket's key, the reader of
  a job that is allowed the namespace reads back exactly the plaintext that was put (untrimmed), the
  stored value carries the prefix of an encrypted value, every other key is untouched, and a reader that
  is not allowed the namespace gets an error for every key, optional or not.
\<close>
theorem secret_roundtrip:
  assumes "open_sealed key (seal key p) = Some p"
    and "PutSecret seal (Inr key) s (SecretJobNamespace job) k p ttl = Inr s'"
    and "tr_Store r = s'"
  shows "(SecretJobNamespace job \<in> set (tr_AllowedNamespaces r) \<longrightarrow>
      reader_get open_sealed (Inr key) r (SecretJobNamespace job) k optional = Inr p) \<and>
    (SecretJobNamespace job \<notin> set (tr_AllowedNamespaces r) \<longrightarrow>
      reader_get open_sealed (Inr key) r (SecretJobNamespace job) k' optional = Inl ErrPlain) \<and>
    (\<exists>v. live s' (SecretJobNamespace job, k) = Some (v, ttl) \<and> IsEncryptedValue v \<and>
      live s' = (live s)((SecretJobNamespace job, k) \<mapsto> (v, ttl)))"
proof (intro conjI impI)
  let ?ns = "SecretJobNamespace job"
  have "IsSecretNamespace ?ns" by (simp add: IsSecretNamespace_def SecretJobNamespace_def HasPrefix_def)
  then show "reader_get open_sealed (Inr key) r ?ns k optional = Inr p"
    if "?ns \<in> set (tr_AllowedNamespaces r)"
    using that GetSecret_PutSecret [where open_sealed = open_sealed and seal = seal and key = key and p = p, OF assms(1,2)] assms(3) by (simp add: reader_get_def Difference_def)
  show "reader_get open_sealed (Inr key) r ?ns k' optional = Inl ErrPlain"
    if "?ns \<notin> set (tr_AllowedNamespaces r)"
    using that by (rule reader_denied)
  have "s' = putValue s ?ns k (encryptedValuePrefix @ seal key p) ttl False"
    using assms(2) by (simp add: PutSecret_def EncryptPlaintext_def)
  then show "\<exists>v. live s' (?ns, k) = Some (v, ttl) \<and> IsEncryptedValue v \<and> live s' = (live s)((?ns, k) \<mapsto> (v, ttl))"
    by (intro exI [of _ "encryptedValuePrefix @ seal key p"]) (simp add: live_putValue IsEncryptedValue_prefix)
qed

theorem secret_roundtrip_witness:
  "\<exists>s'. PutSecret (\<lambda>key p. key @ rev p) (Inr ''K'') NewStore (SecretJobNamespace ''db'') ''pw'' '' s3 '' 0 = Inr s' \<and>
     reader_get (\<lambda>key c. if HasPrefix c key then Some (rev (TrimPrefix c key)) else None) (Inr ''K'')
       \<lparr>tr_Store = s', tr_AllowedNamespaces = [SecretJobNamespace ''db''], tr_Job = ''db'', tr_WorkerIP = ''w''\<rparr>
       (SecretJobNamespace ''db'') ''pw'' False = Inr '' s3 ''"
proof -
  let ?seal = "\<lambda>key p. key @ rev p"
  let ?open = "\<lambda>key c. if HasPrefix c key then Some (rev (TrimPrefix c key)) else None"
  let ?s = "putValue NewStore (SecretJobNamespace ''db'') ''pw'' (encryptedValuePrefix @ ''K'' @ rev '' s3 '') 0 False"
  let ?r = "\<lparr>tr_Store = ?s, tr_AllowedNamespaces = [SecretJobNamespace ''db''], tr_Job = ''db'', tr_WorkerIP = ''w''\<rparr>"
  have put: "PutSecret ?seal (Inr ''K'') NewStore (SecretJobNamespace ''db'') ''pw'' '' s3 '' 0 = Inr ?s"
    by (simp add: PutSecret_def EncryptPlaintext_def)
  have "?open ''K'' (?seal ''K'' '' s3 '') = Some '' s3 ''" by code_simp
  from secret_roundtrip [where open_sealed = ?open and seal = ?seal and key = "''K''" and p = "'' s3 ''" and r = ?r, OF this put]
  have "reader_get ?open (Inr ''K'') ?r (SecretJobNamespace ''db'') ''pw'' False = Inr '' s3 ''" by simp
  with put show ?thesis by (intro exI [of _ ?s] conjI)
qed

end
