(* ===== verification/Conf.thy ===== *)
theory Conf
  imports Go_Strings
begin

text \<open>
  The configuration language (\<^verbatim>\<open>conf/\<close>): the lexer, the recursive-descent parser with its limits, the
  printer, and the accessors of the syntax tree.

  A source is a list of code points: the model starts after the decoding of UTF-8, and \<open>RuneLen\<close> gives
  back the bytes a code point takes. Which code points above ASCII are letters or digits is decided by
  Unicode tables that are arguments of the model. Positions, and the texts of diagnostics, are dropped;
  an error is a syntax error or an exceeded limit (\<open>errors.Is(err, ErrLimitExceeded)\<close>).
\<close>

section \<open>Code points\<close>

type_synonym rune = nat

record unicode =
  u_letter :: "rune \<Rightarrow> bool"
  u_digit :: "rune \<Rightarrow> bool"

definition RuneLen :: "rune \<Rightarrow> nat" where
  "RuneLen r = (if r < 128 then 1 else if r < 2048 then 2 else if r < 65536 then 3 else 4)"

definition byte_len :: "rune list \<Rightarrow> nat" where
  "byte_len rs = sum_list (map RuneLen rs)"

definition runes :: "string \<Rightarrow> rune list" where
  "runes s = map of_char s"

text \<open>The bytes of an ASCII text; other texts have no number in them for \<^verbatim>\<open>strconv\<close>.\<close>

definition ascii :: "rune list \<Rightarrow> string option" where
  "ascii rs = (if list_all (\<lambda>r. r < 128) rs then Some (map char_of rs) else None)"

definition IsDigit :: "unicode \<Rightarrow> rune \<Rightarrow> bool" where
  "IsDigit u r = (if r < 128 then 48 \<le> r \<and> r \<le> 57 else u_digit u r)"

definition IsLetter :: "unicode \<Rightarrow> rune \<Rightarrow> bool" where
  "IsLetter u r = (if r < 128 then 65 \<le> r \<and> r \<le> 90 \<or> 97 \<le> r \<and> r \<le> 122 else u_letter u r)"

definition isIdentStart :: "unicode \<Rightarrow> rune \<Rightarrow> bool" where
  "isIdentStart u r = (r = 95 \<or> IsLetter u r)"

definition isIdentPart :: "unicode \<Rightarrow> rune \<Rightarrow> bool" where
  "isIdentPart u r = (r = 95 \<or> IsLetter u r \<or> IsDigit u r)"

section \<open>Limits and errors\<close>

definition MaxSourceBytes :: nat where "MaxSourceBytes = 1048576"
definition MaxNestingDepth :: nat where "MaxNestingDepth = 32"
definition MaxStatements :: nat where "MaxStatements = 100000"
definition MaxArgs :: nat where "MaxArgs = 4096"
definition MaxStringBytes :: nat where "MaxStringBytes = 65536"
definition MaxIdentBytes :: nat where "MaxIdentBytes = 256"

text \<open>\<open>OutOfFuel\<close> belongs to the model only: the parser below never returns it.\<close>

datatype conf_error = SyntaxError | LimitExceeded | OutOfFuel

section \<open>The lexer\<close>

datatype token =
    TEOF | TIdent "rune list" | TString "rune list" | TNumber "rune list" | TTrue | TFalse
  | TLParen | TRParen | TLBrace | TRBrace | TComma | TSemicolon | TColon | TAtVersion

fun skipLineCommentRest :: "rune list \<Rightarrow> rune list" where
  "skipLineCommentRest [] = []"
| "skipLineCommentRest (r # rs) = (if r = 10 then r # rs else skipLineCommentRest rs)"

lemma skipLineCommentRest_length: "length (skipLineCommentRest rs) \<le> length rs"
  by (induction rs) auto

text \<open>Blanks are 32, 9, 13 and 10; a comment starts with \<open>#\<close> (35) or two slashes (47).\<close>

function skipSpaceAndComments :: "rune list \<Rightarrow> rune list" where
  "skipSpaceAndComments [] = []"
| "skipSpaceAndComments (r # rs) =
     (if r = 32 \<or> r = 9 \<or> r = 13 \<or> r = 10 then skipSpaceAndComments rs
      else if r = 35 then skipSpaceAndComments (skipLineCommentRest rs)
      else if r = 47 \<and> rs \<noteq> [] \<and> hd rs = 47 then skipSpaceAndComments (skipLineCommentRest (tl rs))
      else r # rs)"
  by pat_completeness auto
termination
proof (relation "measure length", goal_cases)
  case (3 r rs)
  then show ?case using skipLineCommentRest_length [of rs] by simp
next
  case (4 r rs)
  then show ?case using skipLineCommentRest_length [of "tl rs"] by (cases rs) auto
qed simp_all

fun scan_name :: "unicode \<Rightarrow> nat \<Rightarrow> rune list \<Rightarrow> conf_error + rune list \<times> rune list" where
  "scan_name u n [] = Inr ([], [])"
| "scan_name u n (r # rs) =
     (if \<not> isIdentPart u r then Inr ([], r # rs)
      else if n + RuneLen r > MaxIdentBytes then Inl LimitExceeded
      else rbind (scan_name u (n + RuneLen r) rs) (\<lambda>(name, rest). Inr (r # name, rest)))"

definition scanAt :: "unicode \<Rightarrow> rune list \<Rightarrow> conf_error + token \<times> rune list" where
  "scanAt u rs = rbind (scan_name u 0 rs) (\<lambda>(name, rest).
     if name \<noteq> runes ''version'' then Inl SyntaxError else Inr (TAtVersion, rest))"

definition scanIdent :: "unicode \<Rightarrow> rune list \<Rightarrow> conf_error + token \<times> rune list" where
  "scanIdent u rs = rbind (scan_name u 0 rs) (\<lambda>(name, rest).
     Inr (if name = runes ''true'' then TTrue else if name = runes ''false'' then TFalse else TIdent name, rest))"

definition scanNumber :: "unicode \<Rightarrow> rune list \<Rightarrow> conf_error + token \<times> rune list" where
  "scanNumber u rs0 =
     (let (sign, rs) = (if rs0 \<noteq> [] \<and> hd rs0 = 45 then ([45], tl rs0) else ([], rs0));
          digits = takeWhile (IsDigit u) rs;
          rest = dropWhile (IsDigit u) rs
      in if digits = [] then Inl SyntaxError
         else if rest \<noteq> [] \<and> hd rest = 46 then
           (let frac = takeWhile (IsDigit u) (tl rest)
            in if frac = [] then Inl SyntaxError
               else Inr (TNumber (sign @ digits @ 46 # frac), dropWhile (IsDigit u) (tl rest)))
         else Inr (TNumber (sign @ digits), rest))"

definition unescape :: "rune \<Rightarrow> rune option" where
  "unescape r =
     (if r = 34 \<or> r = 92 \<or> r = 47 then Some r
      else if r = 110 then Some 10 else if r = 116 then Some 9 else if r = 114 then Some 13 else None)"

fun scan_string :: "nat \<Rightarrow> rune list \<Rightarrow> conf_error + rune list \<times> rune list" where
  "scan_string n [] = Inl SyntaxError"
| "scan_string n (r # rs) =
     (if r = 0 then Inl LimitExceeded
      else if r = 10 then Inl SyntaxError
      else if r = 34 then Inr ([], rs)
      else if r = 92 then
        (case rs of
           [] \<Rightarrow> Inl SyntaxError
         | c # rs' \<Rightarrow>
             (case unescape c of
                None \<Rightarrow> Inl SyntaxError
              | Some out \<Rightarrow>
                  if n + RuneLen out > MaxStringBytes then Inl LimitExceeded
                  else rbind (scan_string (n + RuneLen out) rs') (\<lambda>(s, rest). Inr (out # s, rest))))
      else if n + RuneLen r > MaxStringBytes then Inl LimitExceeded
      else rbind (scan_string (n + RuneLen r) rs) (\<lambda>(s, rest). Inr (r # s, rest)))"

definition scanString :: "rune list \<Rightarrow> conf_error + token \<times> rune list" where
  "scanString rs = rbind (scan_string 0 rs) (\<lambda>(s, rest). Inr (TString s, rest))"

definition punctuation :: "rune \<Rightarrow> token option" where
  "punctuation r =
     (if r = 40 then Some TLParen else if r = 41 then Some TRParen else if r = 123 then Some TLBrace
      else if r = 125 then Some TRBrace else if r = 44 then Some TComma else if r = 59 then Some TSemicolon
      else if r = 58 then Some TColon else None)"

definition next_token :: "unicode \<Rightarrow> rune list \<Rightarrow> conf_error + token \<times> rune list" where
  "next_token u src =
     (case skipSpaceAndComments src of
        [] \<Rightarrow> Inr (TEOF, [])
      | r # rs \<Rightarrow>
          if r = 0 then Inl LimitExceeded
          else case punctuation r of
            Some t \<Rightarrow> Inr (t, rs)
          | None \<Rightarrow>
              if r = 64 then scanAt u rs
              else if r = 34 then scanString rs
              else if r = 45 \<or> IsDigit u r then scanNumber u (r # rs)
              else if isIdentStart u r then scanIdent u (r # rs)
              else Inl SyntaxError)"

lemma skipSpace_length: "length (skipSpaceAndComments rs) \<le> length rs"
proof (induction rs rule: skipSpaceAndComments.induct)
  case (2 r rs)
  then show ?case
    using skipLineCommentRest_length [of rs] skipLineCommentRest_length [of "tl rs"]
    by (auto intro: order_trans le_SucI)
qed simp

lemma scan_name_length: "scan_name u n rs = Inr (name, rest) \<Longrightarrow> length name + length rest = length rs"
  by (induction u n rs arbitrary: name rest rule: scan_name.induct)
     (auto simp: result_simps split: if_splits)

lemma scan_string_length: "scan_string n rs = Inr (s, rest) \<Longrightarrow> length rest < length rs"
proof (induction n rs arbitrary: s rest rule: scan_string.induct)
  case (2 n r rs)
  show ?case
  proof (cases "r = 92")
    case True
    with 2(3) obtain c rs' out s' where "rs = c # rs'" "unescape c = Some out" "\<not> n + RuneLen out > MaxStringBytes"
        "scan_string (n + RuneLen out) rs' = Inr (s', rest)"
      by (auto simp: result_simps split: list.splits option.splits if_splits)
    with 2(1) True show ?thesis by fastforce
  next
    case False
    with 2(3) 2(2) show ?thesis by (fastforce simp: result_simps split: if_splits)
  qed
qed simp

lemma scanNumber_length: "scanNumber u rs = Inr (t, rest) \<Longrightarrow> length rest < length rs"
proof -
  assume s: "scanNumber u rs = Inr (t, rest)"
  define ds where "ds = (if rs \<noteq> [] \<and> hd rs = 45 then tl rs else rs)"
  have len: "length ds \<le> length rs" by (simp add: ds_def)
  have split: "length (takeWhile (IsDigit u) xs) + length (dropWhile (IsDigit u) xs) = length xs" for xs
    by (metis length_append takeWhile_dropWhile_id)
  have "takeWhile (IsDigit u) ds \<noteq> []"
    using s by (auto simp: scanNumber_def ds_def Let_def split: if_splits)
  then have d: "length (dropWhile (IsDigit u) ds) < length ds" using split [of ds] by (cases "takeWhile (IsDigit u) ds") auto
  have "rest = dropWhile (IsDigit u) ds \<or> rest = dropWhile (IsDigit u) (tl (dropWhile (IsDigit u) ds))"
    using s by (auto simp: scanNumber_def ds_def Let_def split: if_splits)
  then have "length rest \<le> length (dropWhile (IsDigit u) ds)"
    using split [of "tl (dropWhile (IsDigit u) ds)"] by auto
  with d len show ?thesis by simp
qed

lemma isIdentStart_part: "isIdentStart u r \<Longrightarrow> isIdentPart u r"
  by (auto simp: isIdentStart_def isIdentPart_def)

lemma scanIdent_length:
  assumes "scanIdent u (r # rs) = Inr (t, rest)" "isIdentPart u r"
  shows "length rest < length (r # rs)"
proof -
  from assms(1) obtain name where n: "scan_name u 0 (r # rs) = Inr (name, rest)"
    by (auto simp: scanIdent_def result_simps)
  with assms(2) have "name \<noteq> []" by (auto simp: result_simps split: if_splits)
  with scan_name_length [OF n] show ?thesis by (cases name) auto
qed

lemma next_token_length:
  assumes "next_token u src = Inr (t, rest)" "t \<noteq> TEOF"
  shows "length rest < length src"
proof -
  obtain r rs where r: "skipSpaceAndComments src = r # rs"
    using assms by (cases "skipSpaceAndComments src") (auto simp: next_token_def)
  have "length rest < length (r # rs)"
    using assms(1) r
    by (auto simp: next_token_def scanAt_def scanString_def result_simps split: if_splits option.splits
        dest: scan_name_length scan_string_length scanNumber_length scanIdent_length [OF _ isIdentStart_part])
  with r skipSpace_length [of src] show ?thesis by simp
qed

text \<open>
  The tokens of a source, up to the end or the first lexical error. The program lexes one token ahead of
  the parser; an error that the parser never reaches does not count, as below.
\<close>

function lex :: "unicode \<Rightarrow> rune list \<Rightarrow> (conf_error + token) list" where
  "lex u src =
     (case next_token u src of
        Inl err \<Rightarrow> [Inl err]
      | Inr (t, rest) \<Rightarrow> if t = TEOF then [Inr TEOF] else Inr t # lex u rest)"
  by pat_completeness auto
termination
  by (relation "measure (\<lambda>(u, src). length src)") (auto dest: next_token_length)

declare lex.simps [simp del]

section \<open>The syntax tree\<close>

text \<open>
  A number keeps its text; \<open>Some n\<close> is the value of an integer, \<open>None\<close> marks a decimal, whose value as a
  float is fixed by the text.
\<close>

datatype Value =
    StringLit "rune list"
  | NumberLit "rune list" "int option"
  | BoolLit bool
  | IdentLit "rune list"
  | CallValue Call
and Call = Call (call_Name: "rune list") (call_Args: "Value list") (call_TrailingSem: bool)

datatype Stmt =
    Block "rune list" "rune list" "Stmt list"
  | CallStmt Call

record File =
  f_Version :: int
  f_Stmts :: "Stmt list"

text \<open>
  \<^verbatim>\<open>strconv.ParseFloat(text, 64)\<close> on a text of the lexer's form: it fails on digits outside ASCII and
  when the value rounds beyond the largest float.
\<close>

definition float_ok :: "string \<Rightarrow> bool" where
  "float_ok text =
     (let ds = (if HasPrefix text ''-'' then tl text else text);
          whole = takeWhile (\<lambda>c. c \<noteq> CHR ''.'') ds;
          frac = drop (length whole + 1) ds
      in list_all is_digit whole \<and> list_all is_digit frac \<and>
         digits_val (whole @ frac) < (2 ^ 1024 - 2 ^ 970) * 10 ^ length frac)"

definition parseNumberLit :: "rune list \<Rightarrow> Value option" where
  "parseNumberLit text =
     (case ascii text of
        None \<Rightarrow> None
      | Some s \<Rightarrow>
          if 46 \<in> set text then (if float_ok s then Some (NumberLit text None) else None)
          else (case Atoi s of None \<Rightarrow> None | Some n \<Rightarrow> Some (NumberLit text (Some n))))"

section \<open>The parser\<close>

text \<open>
  The state of the parser is the list of tokens from the current one on; the one after it has been lexed
  too, which is why an error there surfaces as soon as it becomes the next token. After the end of the
  source the lexer keeps returning the end.
\<close>

type_synonym tokens = "(conf_error + token) list"

definition cur :: "tokens \<Rightarrow> token" where
  "cur ts = (case ts of Inr t # _ \<Rightarrow> t | _ \<Rightarrow> TEOF)"

fun lookahead :: "tokens \<Rightarrow> conf_error + tokens" where
  "lookahead [] = Inr []"
| "lookahead [p] = Inr [p]"
| "lookahead (p # Inl err # ts) = Inl err"
| "lookahead (p # Inr t # ts) = Inr (p # Inr t # ts)"

fun advance :: "tokens \<Rightarrow> conf_error + tokens" where
  "advance [] = Inr []"
| "advance [c] = Inr [c]"
| "advance (c # p # ts) = lookahead (p # ts)"

text \<open>The nesting depth is an argument; the number of statements is threaded through.\<close>

fun parseValue :: "nat \<Rightarrow> nat \<Rightarrow> tokens \<Rightarrow> conf_error + Value \<times> tokens"
  and parseArgs :: "nat \<Rightarrow> nat \<Rightarrow> nat \<Rightarrow> tokens \<Rightarrow> conf_error + Value list \<times> tokens"
  and parseCallTail :: "nat \<Rightarrow> nat \<Rightarrow> rune list \<Rightarrow> bool \<Rightarrow> tokens \<Rightarrow> conf_error + Call \<times> tokens" where
  "parseValue 0 depth ts = Inl OutOfFuel"
| "parseValue (Suc n) depth ts =
     (case cur ts of
        TString s \<Rightarrow> rbind (advance ts) (\<lambda>ts1. Inr (StringLit s, ts1))
      | TNumber text \<Rightarrow>
          (case parseNumberLit text of
             None \<Rightarrow> Inl SyntaxError
           | Some v \<Rightarrow> rbind (advance ts) (\<lambda>ts1. Inr (v, ts1)))
      | TTrue \<Rightarrow> rbind (advance ts) (\<lambda>ts1. Inr (BoolLit True, ts1))
      | TFalse \<Rightarrow> rbind (advance ts) (\<lambda>ts1. Inr (BoolLit False, ts1))
      | TIdent name \<Rightarrow>
          rbind (advance ts) (\<lambda>ts1.
            if cur ts1 = TLParen then rbind (parseCallTail n depth name False ts1) (\<lambda>(c, ts2). Inr (CallValue c, ts2))
            else Inr (IdentLit name, ts1))
      | _ \<Rightarrow> Inl SyntaxError)"
| "parseArgs 0 depth k ts = Inl OutOfFuel"
| "parseArgs (Suc n) depth k ts =
     (if k \<ge> MaxArgs then Inl LimitExceeded
      else rbind (parseValue n depth ts) (\<lambda>(v, ts1).
        if cur ts1 = TComma then
          rbind (advance ts1) (\<lambda>ts2.
            if cur ts2 = TRParen then Inl SyntaxError
            else rbind (parseArgs n depth (k + 1) ts2) (\<lambda>(vs, ts3). Inr (v # vs, ts3)))
        else Inr ([v], ts1)))"
| "parseCallTail 0 depth name asStmt ts = Inl OutOfFuel"
| "parseCallTail (Suc n) depth name asStmt ts =
     (if cur ts \<noteq> TLParen then Inl SyntaxError
      else if depth + 1 > MaxNestingDepth then Inl LimitExceeded
      else rbind (advance ts) (\<lambda>ts1.
        rbind (if cur ts1 = TRParen then Inr ([], ts1) else parseArgs n (depth + 1) 0 ts1) (\<lambda>(args, ts2).
          if cur ts2 \<noteq> TRParen then Inl SyntaxError
          else rbind (advance ts2) (\<lambda>ts3.
            if asStmt \<and> cur ts3 = TSemicolon then rbind (advance ts3) (\<lambda>ts4. Inr (Call name args True, ts4))
            else Inr (Call name args False, ts3)))))"

fun parseStmt :: "nat \<Rightarrow> nat \<Rightarrow> nat \<Rightarrow> tokens \<Rightarrow> conf_error + Stmt \<times> nat \<times> tokens"
  and parseBlock :: "nat \<Rightarrow> nat \<Rightarrow> nat \<Rightarrow> rune list \<Rightarrow> rune list \<Rightarrow> tokens \<Rightarrow> conf_error + Stmt \<times> nat \<times> tokens"
  and parseBody :: "nat \<Rightarrow> nat \<Rightarrow> nat \<Rightarrow> tokens \<Rightarrow> conf_error + Stmt list \<times> nat \<times> tokens" where
  "parseStmt 0 depth stmts ts = Inl OutOfFuel"
| "parseStmt (Suc n) depth stmts ts =
     (case cur ts of
        TIdent name \<Rightarrow>
          if stmts + 1 > MaxStatements then Inl LimitExceeded
          else rbind (advance ts) (\<lambda>ts1.
            case cur ts1 of
              TLBrace \<Rightarrow> parseBlock n depth (stmts + 1) name [] ts1
            | TIdent ident \<Rightarrow>
                rbind (advance ts1) (\<lambda>ts2.
                  if cur ts2 \<noteq> TLBrace then Inl SyntaxError else parseBlock n depth (stmts + 1) name ident ts2)
            | TLParen \<Rightarrow>
                rbind (parseCallTail n depth name True ts1) (\<lambda>(c, ts2). Inr (CallStmt c, stmts + 1, ts2))
            | _ \<Rightarrow> Inl SyntaxError)
      | _ \<Rightarrow> Inl SyntaxError)"
| "parseBlock 0 depth stmts name ident ts = Inl OutOfFuel"
| "parseBlock (Suc n) depth stmts name ident ts =
     (if cur ts \<noteq> TLBrace then Inl SyntaxError
      else if depth + 1 > MaxNestingDepth then Inl LimitExceeded
      else rbind (advance ts) (\<lambda>ts1.
        rbind (parseBody n (depth + 1) stmts ts1) (\<lambda>(body, stmts', ts2).
          rbind (advance ts2) (\<lambda>ts3.
            if cur ts3 = TSemicolon then rbind (advance ts3) (\<lambda>ts4. Inr (Block name ident body, stmts', ts4))
            else Inr (Block name ident body, stmts', ts3)))))"
| "parseBody 0 depth stmts ts = Inl OutOfFuel"
| "parseBody (Suc n) depth stmts ts =
     (if cur ts = TRBrace then Inr ([], stmts, ts)
      else if cur ts = TEOF then Inl SyntaxError
      else rbind (parseStmt n depth stmts ts) (\<lambda>(s, stmts1, ts1).
        rbind (parseBody n depth stmts1 ts1) (\<lambda>(body, stmts2, ts2). Inr (s # body, stmts2, ts2))))"

fun parse_stmts :: "nat \<Rightarrow> nat \<Rightarrow> tokens \<Rightarrow> conf_error + Stmt list" where
  "parse_stmts 0 stmts ts = Inl OutOfFuel"
| "parse_stmts (Suc n) stmts ts =
     (if cur ts = TEOF then Inr []
      else rbind (parseStmt n 0 stmts ts) (\<lambda>(s, stmts1, ts1).
        rbind (parse_stmts n stmts1 ts1) (\<lambda>rest. Inr (s # rest))))"

definition parseVersion :: "tokens \<Rightarrow> conf_error + int \<times> tokens" where
  "parseVersion ts =
     rbind (advance ts) (\<lambda>ts1.
       if cur ts1 \<noteq> TColon then Inl SyntaxError
       else rbind (advance ts1) (\<lambda>ts2.
         case cur ts2 of
           TNumber text \<Rightarrow>
             (case Option.bind (ascii text) Atoi of
                None \<Rightarrow> Inl SyntaxError
              | Some n \<Rightarrow>
                  if n < 1 then Inl SyntaxError
                  else rbind (advance ts2) (\<lambda>ts3.
                    if cur ts3 = TSemicolon then rbind (advance ts3) (\<lambda>ts4. Inr (n, ts4)) else Inr (n, ts3)))
         | _ \<Rightarrow> Inl SyntaxError))"

text \<open>Enough fuel for every list of tokens; see \<open>Parse_terminates\<close>.\<close>

definition parse_fuel :: "tokens \<Rightarrow> nat" where
  "parse_fuel ts = 2 * length ts + 2"

definition parseFile :: "tokens \<Rightarrow> conf_error + File" where
  "parseFile ts =
     rbind (if cur ts = TAtVersion then parseVersion ts else Inr (0, ts)) (\<lambda>(ver, ts1).
       rbind (parse_stmts (parse_fuel ts1) 0 ts1) (\<lambda>stmts. Inr \<lparr>f_Version = ver, f_Stmts = stmts\<rparr>))"

definition Parse :: "unicode \<Rightarrow> rune list \<Rightarrow> conf_error + File" where
  "Parse u src =
     (if byte_len src > MaxSourceBytes then Inl LimitExceeded
      else if 0 \<in> set src then Inl LimitExceeded
      else case lex u src of
        Inl err # _ \<Rightarrow> Inl err
      | ts \<Rightarrow> rbind (lookahead ts) parseFile)"

section \<open>The printer\<close>

definition escape_rune :: "rune \<Rightarrow> rune list" where
  "escape_rune r =
     (if r = 34 then [92, 34] else if r = 92 then [92, 92] else if r = 10 then [92, 110]
      else if r = 9 then [92, 116] else if r = 13 then [92, 114] else [r])"

definition escapeString :: "rune list \<Rightarrow> rune list" where
  "escapeString s = concat (map escape_rune s)"

fun sep_by :: "rune list \<Rightarrow> rune list list \<Rightarrow> rune list" where
  "sep_by sep [] = []"
| "sep_by sep [x] = x"
| "sep_by sep (x # y # ys) = x @ sep @ sep_by sep (y # ys)"

primrec emitValue :: "Value \<Rightarrow> rune list" and emitCall :: "Call \<Rightarrow> rune list" where
  "emitValue (StringLit s) = 34 # escapeString s @ [34]"
| "emitValue (NumberLit text n) = text"
| "emitValue (BoolLit b) = runes (if b then ''true'' else ''false'')"
| "emitValue (IdentLit name) = name"
| "emitValue (CallValue c) = emitCall c"
| "emitCall (Call name args sem) = name @ 40 # sep_by [44, 32] (map emitValue args) @ [41]"

primrec emitStmt :: "rune list \<Rightarrow> nat \<Rightarrow> Stmt \<Rightarrow> rune list" where
  "emitStmt ind depth (Block name ident body) =
     concat (replicate depth ind) @ name @ (if ident \<noteq> [] then 32 # ident else []) @ [32, 123, 10] @
     concat (map (emitStmt ind (depth + 1)) body) @ concat (replicate depth ind) @ [125, 10]"
| "emitStmt ind depth (CallStmt c) = concat (replicate depth ind) @ emitCall c @ [10]"

definition is_block :: "Stmt \<Rightarrow> bool" where
  "is_block s = (case s of Block a b c \<Rightarrow> True | CallStmt c \<Rightarrow> False)"

fun emit_stmts :: "rune list \<Rightarrow> Stmt list \<Rightarrow> rune list" where
  "emit_stmts ind [] = []"
| "emit_stmts ind [s] = emitStmt ind 0 s"
| "emit_stmts ind (s # t # ss) =
     emitStmt ind 0 s @ (if is_block s \<and> is_block t then [10] else []) @ emit_stmts ind (t # ss)"

definition indent :: "rune list \<Rightarrow> rune list" where
  "indent opt = (if opt = [] then [32, 32] else opt)"

definition Emit :: "rune list \<Rightarrow> File \<Rightarrow> rune list" where
  "Emit opt f =
     (let out = (if f_Version f > 0 then runes (''@version: '' @ Itoa (f_Version f)) @ [10, 10] else []) @
                emit_stmts (indent opt) (f_Stmts f)
      in if out \<noteq> [] \<and> last out \<noteq> 10 then out @ [10] else out)"

section \<open>Reading values\<close>

text \<open>\<^verbatim>\<open>strings.TrimSpace\<close> on code points.\<close>

definition IsSpace :: "rune \<Rightarrow> bool" where
  "IsSpace r \<longleftrightarrow> r \<in> {9, 10, 11, 12, 13, 32, 133, 160, 5760, 8232, 8233, 8239, 8287, 12288} \<or> 8192 \<le> r \<and> r \<le> 8202"

definition trim_space :: "rune list \<Rightarrow> rune list" where
  "trim_space rs = rev (dropWhile IsSpace (rev (dropWhile IsSpace rs)))"

definition AsString :: "Value \<Rightarrow> conf_error + rune list" where
  "AsString v = (case v of StringLit s \<Rightarrow> Inr s | IdentLit name \<Rightarrow> Inr name | _ \<Rightarrow> Inl SyntaxError)"

definition AsBool :: "Value \<Rightarrow> conf_error + bool" where
  "AsBool v = (case v of BoolLit b \<Rightarrow> Inr b | _ \<Rightarrow> Inl SyntaxError)"

text \<open>
  \<^verbatim>\<open>int64(^int(0))\<close> is \<open>-1\<close>: the complement of zero, not the smallest integer. The comparison below is the
  code's.
\<close>

definition AsInt :: "Value \<Rightarrow> conf_error + int" where
  "AsInt v =
     (case v of
        NumberLit lit None \<Rightarrow> Inl SyntaxError
      | NumberLit lit (Some n) \<Rightarrow> if n > max_int64 \<or> n < - 1 then Inl SyntaxError else Inr n
      | StringLit s \<Rightarrow> (case Option.bind (ascii (trim_space s)) Atoi of None \<Rightarrow> Inl SyntaxError | Some n \<Rightarrow> Inr n)
      | _ \<Rightarrow> Inl SyntaxError)"

definition AsStrings :: "Call \<Rightarrow> conf_error + rune list list" where
  "AsStrings c = rmap AsString (call_Args c)"

definition SingleStringArg :: "Call \<Rightarrow> conf_error + rune list" where
  "SingleStringArg c = (if length (call_Args c) \<noteq> 1 then Inl SyntaxError else AsString (call_Args c ! 0))"

definition SingleBoolArg :: "Call \<Rightarrow> conf_error + bool" where
  "SingleBoolArg c = (if length (call_Args c) \<noteq> 1 then Inl SyntaxError else AsBool (call_Args c ! 0))"

definition SingleIntArg :: "Call \<Rightarrow> conf_error + int" where
  "SingleIntArg c = (if length (call_Args c) \<noteq> 1 then Inl SyntaxError else AsInt (call_Args c ! 0))"

definition NestedCall :: "Value \<Rightarrow> conf_error + Call" where
  "NestedCall v = (case v of CallValue c \<Rightarrow> Inr c | _ \<Rightarrow> Inl SyntaxError)"

definition Str :: "rune list \<Rightarrow> Value" where
  "Str s = StringLit s"

definition Int_lit :: "int \<Rightarrow> Value" where
  "Int_lit n = NumberLit (runes (Itoa n)) (Some n)"

definition call_stmts :: "Stmt list \<Rightarrow> Call list" where
  "call_stmts ss = List.map_filter (\<lambda>s. case s of CallStmt c \<Rightarrow> Some c | _ \<Rightarrow> None) ss"

definition block_stmts :: "Stmt list \<Rightarrow> Stmt list" where
  "block_stmts ss = filter is_block ss"

definition Calls :: "rune list \<Rightarrow> File \<Rightarrow> Call list" where
  "Calls name f = filter (\<lambda>c. call_Name c = name) (call_stmts (f_Stmts f))"

definition Blocks :: "rune list \<Rightarrow> File \<Rightarrow> Stmt list" where
  "Blocks name f = filter (\<lambda>s. case s of Block n i b \<Rightarrow> n = name | _ \<Rightarrow> False) (f_Stmts f)"

definition BodyCalls :: "Stmt \<Rightarrow> Call list" where
  "BodyCalls b = (case b of Block n i body \<Rightarrow> call_stmts body | _ \<Rightarrow> [])"

definition BodyBlocks :: "Stmt \<Rightarrow> Stmt list" where
  "BodyBlocks b = (case b of Block n i body \<Rightarrow> block_stmts body | _ \<Rightarrow> [])"

section \<open>Termination\<close>

text \<open>A token list the parser can stand on: current and next token lexed, closed by the end or an error.\<close>

definition ok :: "tokens \<Rightarrow> bool" where
  "ok ts \<longleftrightarrow> ts \<noteq> [] \<and> (last ts = Inr TEOF \<or> isl (last ts)) \<and> lookahead ts = Inr ts \<and> \<not> isl (hd ts) \<and>
     Inl OutOfFuel \<notin> set ts"

lemma lookahead_Inr: "lookahead ts = Inr ts' \<longleftrightarrow> ts' = ts \<and> (length ts \<ge> 2 \<longrightarrow> \<not> isl (ts ! 1))"
  by (cases ts rule: lookahead.cases) auto

lemma lookahead_Inl: "lookahead ts = Inl err \<Longrightarrow> Inl err \<in> set ts"
  by (cases ts rule: lookahead.cases) auto

lemma advance_ok:
  assumes "ok ts" "advance ts = Inr ts'"
  shows "ok ts' \<and> length ts' \<le> length ts \<and> (cur ts \<noteq> TEOF \<longrightarrow> length ts' < length ts)"
proof (cases ts rule: advance.cases)
  case (2 c)
  with assms have "cur ts = TEOF" by (cases c) (auto simp: ok_def cur_def)
  with 2 assms show ?thesis by simp
next
  case (3 c p rest)
  then have l: "lookahead (p # rest) = Inr ts'" "ts' = p # rest" using assms(2) by (auto simp: lookahead_Inr)
  have "\<not> isl p" using assms(1) 3 by (simp add: ok_def lookahead_Inr)
  with l 3 assms(1) show ?thesis by (auto simp: ok_def)
qed (use assms in \<open>simp add: ok_def\<close>)

lemma advance_fuel: "ok ts \<Longrightarrow> advance ts \<noteq> Inl OutOfFuel"
  using lookahead_Inl by (cases ts rule: advance.cases) (fastforce simp: ok_def)+

lemma parseValue_step:
  assumes "parseValue (Suc n) d ts = Inr (v, ts')"
  obtains ts1 where "advance ts = Inr ts1" "cur ts \<noteq> TEOF"
    "ts' = ts1 \<or> (\<exists>c name. parseCallTail n d name False ts1 = Inr (c, ts'))"
  using assms by (auto simp: result_simps split: token.splits option.splits if_splits)

lemma parseArgs_step:
  assumes "parseArgs (Suc n) d k ts = Inr (vs, ts')"
  obtains v ts1 where "parseValue n d ts = Inr (v, ts1)"
    "ts' = ts1 \<or> (\<exists>ts2 us. cur ts1 = TComma \<and> advance ts1 = Inr ts2 \<and> parseArgs n d (k + 1) ts2 = Inr (us, ts'))"
  using assms by (auto simp: result_simps split: if_splits)

lemma parseCallTail_step:
  assumes "parseCallTail (Suc n) d name b ts = Inr (c, ts')"
  obtains ts1 args ts2 ts3 where "cur ts = TLParen" "advance ts = Inr ts1"
    "ts2 = ts1 \<or> parseArgs n (d + 1) 0 ts1 = Inr (args, ts2)"
    "cur ts2 = TRParen" "advance ts2 = Inr ts3" "ts' = ts3 \<or> cur ts3 = TSemicolon \<and> advance ts3 = Inr ts'"
  using assms by (auto simp: result_simps split: if_splits)

definition moved :: "tokens \<Rightarrow> tokens \<Rightarrow> bool" where
  "moved ts ts' \<longleftrightarrow> (ok ts \<longrightarrow> ok ts' \<and> length ts' < length ts)"

lemma moved_trans: "moved ts ts1 \<Longrightarrow> moved ts1 ts2 \<Longrightarrow> moved ts ts2"
  by (auto simp: moved_def)

lemma moved_advance: "advance ts = Inr ts' \<Longrightarrow> cur ts \<noteq> TEOF \<Longrightarrow> moved ts ts'"
  using advance_ok by (auto simp: moved_def)

lemma parse_values_move:
  "(\<forall>d ts v ts'. parseValue n d ts = Inr (v, ts') \<longrightarrow> moved ts ts') \<and>
   (\<forall>d k ts vs ts'. parseArgs n d k ts = Inr (vs, ts') \<longrightarrow> moved ts ts') \<and>
   (\<forall>d name b ts c ts'. parseCallTail n d name b ts = Inr (c, ts') \<longrightarrow> moved ts ts')"
proof (induction n)
  case (Suc n)
  then have vals: "\<And>d ts v ts'. parseValue n d ts = Inr (v, ts') \<Longrightarrow> moved ts ts'"
    and args: "\<And>d k ts vs ts'. parseArgs n d k ts = Inr (vs, ts') \<Longrightarrow> moved ts ts'"
    and call: "\<And>d name b ts c ts'. parseCallTail n d name b ts = Inr (c, ts') \<Longrightarrow> moved ts ts'"
    by blast+
  have "moved ts ts'" if "parseValue (Suc n) d ts = Inr (v, ts')" for d ts v ts'
    using parseValue_step [OF that] by (metis moved_advance moved_trans call)
  moreover have "moved ts ts'" if "parseArgs (Suc n) d k ts = Inr (vs, ts')" for d k ts vs ts'
    using parseArgs_step [OF that] by (metis moved_advance moved_trans vals args token.distinct)
  moreover have "moved ts ts'" if "parseCallTail (Suc n) d name b ts = Inr (c, ts')" for d name b ts c ts'
  proof -
    from that obtain ts1 argl ts2 ts3 where s: "cur ts = TLParen" "advance ts = Inr ts1"
      "ts2 = ts1 \<or> parseArgs n (d + 1) 0 ts1 = Inr (argl, ts2)"
      "cur ts2 = TRParen" "advance ts2 = Inr ts3" "ts' = ts3 \<or> cur ts3 = TSemicolon \<and> advance ts3 = Inr ts'"
      by (rule parseCallTail_step)
    have "moved ts ts1" "moved ts2 ts3" using s by (auto intro: moved_advance)
    moreover have "ts2 = ts1 \<or> moved ts1 ts2" using s(3) args by auto
    moreover have "ts' = ts3 \<or> moved ts3 ts'" using s(6) by (auto intro: moved_advance)
    ultimately show ?thesis using moved_trans by metis
  qed
  ultimately show ?case by blast
qed simp

lemmas value_moves = parse_values_move [THEN conjunct1, rule_format]
lemmas args_move = parse_values_move [THEN conjunct2, THEN conjunct1, rule_format]
lemmas call_moves = parse_values_move [THEN conjunct2, THEN conjunct2, rule_format]

lemma parseStmt_step:
  assumes "parseStmt (Suc n) d k ts = Inr (s, k', ts')"
  obtains name ts1 where "cur ts = TIdent name" "advance ts = Inr ts1"
    "(\<exists>c. parseCallTail n d name True ts1 = Inr (c, ts')) \<or>
     (\<exists>ident ts2. (ts2 = ts1 \<or> cur ts1 \<noteq> TEOF \<and> advance ts1 = Inr ts2) \<and> parseBlock n d (k + 1) name ident ts2 = Inr (s, k', ts'))"
proof -
  from assms obtain name ts1 where a: "cur ts = TIdent name" "advance ts = Inr ts1"
    by (cases "cur ts"; cases "advance ts") (auto split: if_splits)
  from assms a have "(\<exists>c. parseCallTail n d name True ts1 = Inr (c, ts')) \<or>
     (\<exists>ident ts2. (ts2 = ts1 \<or> cur ts1 \<noteq> TEOF \<and> advance ts1 = Inr ts2) \<and> parseBlock n d (k + 1) name ident ts2 = Inr (s, k', ts'))"
    by (cases "cur ts1") (auto simp: result_simps split: if_splits)
  with a that show ?thesis by blast
qed

lemma parseBlock_step:
  assumes "parseBlock (Suc n) d k name ident ts = Inr (s, k', ts')"
  obtains ts1 body ts2 ts3 where "cur ts = TLBrace" "advance ts = Inr ts1"
    "parseBody n (d + 1) k ts1 = Inr (body, k', ts2)" "advance ts2 = Inr ts3"
    "ts' = ts3 \<or> cur ts3 = TSemicolon \<and> advance ts3 = Inr ts'"
  using assms by (auto simp: result_simps split: if_splits)

lemma parseBody_step:
  assumes "parseBody (Suc n) d k ts = Inr (body, k', ts')"
  obtains "cur ts = TRBrace" "ts' = ts"
  | s k1 ts1 rest where "parseStmt n d k ts = Inr (s, k1, ts1)" "parseBody n d k1 ts1 = Inr (rest, k', ts')"
  using assms by (auto simp: result_simps split: if_splits)

lemma parseBody_stops: "parseBody n d k ts = Inr (body, k', ts') \<Longrightarrow> cur ts' = TRBrace"
proof (induction n arbitrary: k ts body)
  case (Suc n)
  from Suc.prems show ?case by (rule parseBody_step) (auto intro: Suc.IH)
qed simp

lemma parse_stmts_move:
  "(\<forall>d k ts s k' ts'. parseStmt n d k ts = Inr (s, k', ts') \<longrightarrow> moved ts ts') \<and>
   (\<forall>d k name ident ts s k' ts'. parseBlock n d k name ident ts = Inr (s, k', ts') \<longrightarrow> moved ts ts') \<and>
   (\<forall>d k ts body k' ts'. parseBody n d k ts = Inr (body, k', ts') \<longrightarrow> ts' = ts \<or> moved ts ts')"
proof (induction n)
  case (Suc n)
  then have stmt: "\<And>d k ts s k' ts'. parseStmt n d k ts = Inr (s, k', ts') \<Longrightarrow> moved ts ts'"
    and block: "\<And>d k name ident ts s k' ts'. parseBlock n d k name ident ts = Inr (s, k', ts') \<Longrightarrow> moved ts ts'"
    and body: "\<And>d k ts body k' ts'. parseBody n d k ts = Inr (body, k', ts') \<Longrightarrow> ts' = ts \<or> moved ts ts'"
    by blast+
  have "moved ts ts'" if "parseStmt (Suc n) d k ts = Inr (s, k', ts')" for d k ts s k' ts'
  proof -
    from that obtain name ts1 where s: "cur ts = TIdent name" "advance ts = Inr ts1"
      "(\<exists>c. parseCallTail n d name True ts1 = Inr (c, ts')) \<or>
       (\<exists>ident ts2. (ts2 = ts1 \<or> cur ts1 \<noteq> TEOF \<and> advance ts1 = Inr ts2) \<and> parseBlock n d (k + 1) name ident ts2 = Inr (s, k', ts'))"
      by (rule parseStmt_step)
    have "moved ts ts1" using s by (auto intro: moved_advance)
    moreover have "moved ts1 ts'" using s(3) by (auto intro: call_moves block moved_trans [OF moved_advance])
    ultimately show ?thesis by (rule moved_trans)
  qed
  moreover have "moved ts ts'" if "parseBlock (Suc n) d k name ident ts = Inr (s, k', ts')" for d k name ident ts s k' ts'
  proof -
    from that obtain ts1 stmts ts2 ts3 where s: "cur ts = TLBrace" "advance ts = Inr ts1"
      "parseBody n (d + 1) k ts1 = Inr (stmts, k', ts2)" "advance ts2 = Inr ts3"
      "ts' = ts3 \<or> cur ts3 = TSemicolon \<and> advance ts3 = Inr ts'"
      by (rule parseBlock_step)
    have "moved ts ts1" "moved ts2 ts3" using s parseBody_stops [OF s(3)] by (auto intro: moved_advance)
    moreover have "ts2 = ts1 \<or> moved ts1 ts2" using s(3) by (rule body)
    moreover have "ts' = ts3 \<or> moved ts3 ts'" using s(5) by (auto intro: moved_advance)
    ultimately show ?thesis using moved_trans by metis
  qed
  moreover have "ts' = ts \<or> moved ts ts'" if "parseBody (Suc n) d k ts = Inr (stmts, k', ts')" for d k ts stmts k' ts'
    using that by (rule parseBody_step) (auto dest: stmt body intro: moved_trans)
  ultimately show ?case by blast
qed simp

lemmas stmt_moves = parse_stmts_move [THEN conjunct1, rule_format]
lemmas body_moves = parse_stmts_move [THEN conjunct2, THEN conjunct2, rule_format]

text \<open>A function that is given two units of fuel for each token never runs out of it.\<close>

lemma moved_bound: "moved ts ts' \<Longrightarrow> ok ts \<Longrightarrow> ok ts' \<and> Suc (length ts') \<le> length ts"
  by (auto simp: moved_def)

lemma ok_length: "ok ts \<Longrightarrow> 1 \<le> length ts"
  by (cases ts) (auto simp: ok_def)

lemma advance_bound: "advance ts = Inr ts' \<Longrightarrow> ok ts \<Longrightarrow> cur ts \<noteq> TEOF \<Longrightarrow> ok ts' \<and> Suc (length ts') \<le> length ts"
  using moved_bound [OF moved_advance] .

lemma parse_values_fuel:
  "(\<forall>d ts. ok ts \<and> 2 * length ts \<le> n \<longrightarrow> parseValue n d ts \<noteq> Inl OutOfFuel) \<and>
   (\<forall>d k ts. ok ts \<and> 2 * length ts + 1 \<le> n \<longrightarrow> parseArgs n d k ts \<noteq> Inl OutOfFuel) \<and>
   (\<forall>d name b ts. ok ts \<and> 2 * length ts \<le> n \<longrightarrow> parseCallTail n d name b ts \<noteq> Inl OutOfFuel)"
proof (induction n)
  case 0
  then show ?case by (auto dest: ok_length)
next
  case (Suc n)
  then have vals: "\<And>d ts. ok ts \<Longrightarrow> 2 * length ts \<le> n \<Longrightarrow> parseValue n d ts \<noteq> Inl OutOfFuel"
    and args: "\<And>d k ts. ok ts \<Longrightarrow> 2 * length ts + 1 \<le> n \<Longrightarrow> parseArgs n d k ts \<noteq> Inl OutOfFuel"
    and call: "\<And>d name b ts. ok ts \<Longrightarrow> 2 * length ts \<le> n \<Longrightarrow> parseCallTail n d name b ts \<noteq> Inl OutOfFuel"
    by blast+
  have "parseValue (Suc n) d ts \<noteq> Inl OutOfFuel" if o: "ok ts" "2 * length ts \<le> Suc n" for d ts
  proof -
    have *: "parseCallTail n d name False ts1 \<noteq> Inl OutOfFuel" if "advance ts = Inr ts1" "cur ts \<noteq> TEOF" for name ts1
      using advance_bound [OF that(1) o(1) that(2)] o(2) by (intro call) auto
    show ?thesis
      using advance_fuel [OF o(1)] * by (cases "cur ts") (auto simp: result_simps split: option.splits if_splits)
  qed
  moreover have "parseArgs (Suc n) d k ts \<noteq> Inl OutOfFuel" if o: "ok ts" "2 * length ts + 1 \<le> Suc n" for d k ts
  proof -
    have v: "parseValue n d ts \<noteq> Inl OutOfFuel" using o by (intro vals) auto
    have m: "ok ts1" "Suc (length ts1) \<le> length ts" if "parseValue n d ts = Inr (v, ts1)" for v ts1
      using moved_bound [OF value_moves [OF that] o(1)] by auto
    have *: "parseArgs n d (Suc k) ts2 \<noteq> Inl OutOfFuel"
      if "parseValue n d ts = Inr (v, ts1)" "cur ts1 = TComma" "advance ts1 = Inr ts2" for v ts1 ts2
      using advance_bound [OF that(3) m(1) [OF that(1)]] m(2) [OF that(1)] that(2) o(2) by (intro args) auto
    show ?thesis using v * m advance_fuel by (auto simp: result_simps split: if_splits)
  qed
  moreover have "parseCallTail (Suc n) d name b ts \<noteq> Inl OutOfFuel" if o: "ok ts" "2 * length ts \<le> Suc n" for d name b ts
  proof (cases "cur ts = TLParen")
    case True
    have a: "ok ts1" "Suc (length ts1) \<le> length ts" if "advance ts = Inr ts1" for ts1
      using advance_bound [OF that o(1)] True by auto
    have g: "parseArgs n (Suc d) 0 ts1 \<noteq> Inl OutOfFuel" if "advance ts = Inr ts1" for ts1
      using a [OF that] o(2) by (intro args) auto
    have m: "ok ts2" if "advance ts = Inr ts1" "parseArgs n (Suc d) 0 ts1 = Inr (vs, ts2)" for ts1 vs ts2
      using moved_bound [OF args_move [OF that(2)] a(1) [OF that(1)]] by simp
    have m2: "advance ts3 \<noteq> Inl OutOfFuel"
      if "advance ts = Inr ts1" "parseArgs n (Suc d) 0 ts1 = Inr (vs, ts2)" "advance ts2 = Inr ts3" for ts1 vs ts2 ts3
      using advance_ok [OF m [OF that(1,2)] that(3)] advance_fuel by simp
    have e: "advance ts3 \<noteq> Inl OutOfFuel" if "ok ts2" "advance ts2 = Inr ts3" for ts2 ts3
      using advance_ok [OF that] advance_fuel by simp
    show ?thesis
      using True g a m m2 e advance_fuel o(1) by (auto simp: result_simps split: if_splits)
  qed simp
  ultimately show ?case by blast
qed

lemmas call_fuel = parse_values_fuel [THEN conjunct2, THEN conjunct2, rule_format, OF conjI]

lemma parse_stmt_fuel:
  "(\<forall>d k ts. ok ts \<and> 2 * length ts \<le> n \<longrightarrow> parseStmt n d k ts \<noteq> Inl OutOfFuel) \<and>
   (\<forall>d k name ident ts. ok ts \<and> 2 * length ts \<le> n \<longrightarrow> parseBlock n d k name ident ts \<noteq> Inl OutOfFuel) \<and>
   (\<forall>d k ts. ok ts \<and> 2 * length ts + 1 \<le> n \<longrightarrow> parseBody n d k ts \<noteq> Inl OutOfFuel)"
proof (induction n)
  case 0
  then show ?case by (auto dest: ok_length)
next
  case (Suc n)
  then have stmt: "\<And>d k ts. ok ts \<Longrightarrow> 2 * length ts \<le> n \<Longrightarrow> parseStmt n d k ts \<noteq> Inl OutOfFuel"
    and block: "\<And>d k name ident ts. ok ts \<Longrightarrow> 2 * length ts \<le> n \<Longrightarrow> parseBlock n d k name ident ts \<noteq> Inl OutOfFuel"
    and body: "\<And>d k ts. ok ts \<Longrightarrow> 2 * length ts + 1 \<le> n \<Longrightarrow> parseBody n d k ts \<noteq> Inl OutOfFuel"
    by blast+
  have "parseStmt (Suc n) d k ts \<noteq> Inl OutOfFuel" if o: "ok ts" "2 * length ts \<le> Suc n" for d k ts
  proof -
    have a: "ok ts1" "2 * length ts1 \<le> n" if "advance ts = Inr ts1" "cur ts \<noteq> TEOF" for ts1
      using advance_bound [OF that(1) o(1) that(2)] o(2) by auto
    have *: "parseBlock n d (Suc k) name ident ts2 \<noteq> Inl OutOfFuel"
      if t: "ok ts1" "2 * length ts1 \<le> n" "advance ts1 = Inr ts2" for ts1 ts2 name ident
      using advance_ok [OF t(1,3)] t(2) by (intro block) auto
    show ?thesis
    proof (cases "cur ts")
      case (TIdent name)
      have "(case cur ts1 of
              TLBrace \<Rightarrow> parseBlock n d (k + 1) name [] ts1
            | TIdent ident \<Rightarrow>
                rbind (advance ts1) (\<lambda>ts2.
                  if cur ts2 \<noteq> TLBrace then Inl SyntaxError else parseBlock n d (k + 1) name ident ts2)
            | TLParen \<Rightarrow>
                rbind (parseCallTail n d name True ts1) (\<lambda>(c, ts2). Inr (CallStmt c, k + 1, ts2))
            | _ \<Rightarrow> Inl SyntaxError) \<noteq> Inl OutOfFuel" if "advance ts = Inr ts1" for ts1
        using a [OF that] TIdent * block call_fuel advance_fuel by (cases "cur ts1") (auto simp: result_simps split: if_splits)
      then show ?thesis using advance_fuel [OF o(1)] TIdent by (cases "advance ts") simp_all
    qed simp_all
  qed
  moreover have "parseBlock (Suc n) d k name ident ts \<noteq> Inl OutOfFuel" if o: "ok ts" "2 * length ts \<le> Suc n" for d k name ident ts
  proof (cases "cur ts = TLBrace")
    case True
    have a: "ok ts1" "Suc (length ts1) \<le> length ts" if "advance ts = Inr ts1" for ts1
      using advance_bound [OF that o(1)] True by auto
    have b: "parseBody n (Suc d) k ts1 \<noteq> Inl OutOfFuel" if "advance ts = Inr ts1" for ts1
      using a [OF that] o(2) by (intro body) auto
    have m: "ok ts2" if "advance ts = Inr ts1" "parseBody n (Suc d) k ts1 = Inr (ss, k', ts2)" for ts1 ss k' ts2
      using body_moves [OF that(2)] moved_bound a(1) [OF that(1)] by auto
    have m2: "advance ts3 \<noteq> Inl OutOfFuel"
      if "advance ts = Inr ts1" "parseBody n (Suc d) k ts1 = Inr (ss, k', ts2)" "advance ts2 = Inr ts3" for ts1 ss k' ts2 ts3
      using advance_ok [OF m [OF that(1,2)] that(3)] advance_fuel by simp
    show ?thesis using True b m m2 advance_fuel o(1) by (auto simp: result_simps split: if_splits)
  qed simp
  moreover have "parseBody (Suc n) d k ts \<noteq> Inl OutOfFuel" if o: "ok ts" "2 * length ts + 1 \<le> Suc n" for d k ts
  proof -
    have s: "parseStmt n d k ts \<noteq> Inl OutOfFuel" using o by (intro stmt) auto
    have *: "parseBody n d k1 ts1 \<noteq> Inl OutOfFuel" if "parseStmt n d k ts = Inr (s, k1, ts1)" for s k1 ts1
      using moved_bound [OF stmt_moves [OF that] o(1)] o(2) by (intro body) auto
    show ?thesis using s * by (auto simp: result_simps)
  qed
  ultimately show ?case by blast
qed

lemmas stmt_fuel = parse_stmt_fuel [THEN conjunct1, rule_format, OF conjI]

lemma file_stmts_fuel: "ok ts \<Longrightarrow> 2 * length ts + 1 \<le> n \<Longrightarrow> parse_stmts n k ts \<noteq> Inl OutOfFuel"
proof (induction n arbitrary: k ts)
  case (Suc n)
  have "parseStmt n 0 k ts \<noteq> Inl OutOfFuel" using Suc.prems by (intro stmt_fuel) auto
  moreover have "parse_stmts n k1 ts1 \<noteq> Inl OutOfFuel" if "parseStmt n 0 k ts = Inr (s, k1, ts1)" for s k1 ts1
    using moved_bound [OF stmt_moves [OF that] Suc.prems(1)] Suc.prems(2) by (intro Suc.IH) auto
  ultimately show ?case by (auto simp: result_simps)
qed simp

lemma advance_step: "ok ts \<Longrightarrow> advance ts = Inr ts' \<Longrightarrow> ok ts'"
  using advance_ok by blast

lemma advance_result:
  assumes "ok ts"
  obtains err where "advance ts = Inl err" "err \<noteq> OutOfFuel" | ts' where "advance ts = Inr ts'" "ok ts'"
  using assms advance_step advance_fuel by (cases "advance ts") auto

lemma parseVersion_ok:
  assumes "ok ts"
  shows "parseVersion ts \<noteq> Inl OutOfFuel \<and> (\<forall>v ts'. parseVersion ts = Inr (v, ts') \<longrightarrow> ok ts')"
proof (cases rule: advance_result [OF assms])
  case (2 ts1)
  note s1 = 2
  show ?thesis
  proof (cases rule: advance_result [OF s1(2)])
    case (2 ts2)
    note s2 = 2
    show ?thesis
    proof (cases rule: advance_result [OF s2(2)])
      case 1
      with s1 s2 show ?thesis by (cases "cur ts2") (auto simp: parseVersion_def split: option.splits)
    next
      case (2 ts3)
      then show ?thesis
        by (cases "cur ts2"; cases rule: advance_result [OF 2(2)])
           (use s1 s2 in \<open>auto simp: parseVersion_def split: option.splits\<close>)
    qed
  qed (use s1 in \<open>auto simp: parseVersion_def\<close>)
qed (auto simp: parseVersion_def)

lemma parseFile_fuel: "ok ts \<Longrightarrow> parseFile ts \<noteq> Inl OutOfFuel"
  using parseVersion_ok [of ts] file_stmts_fuel
  by (auto simp: parseFile_def parse_fuel_def result_simps simp del: parse_stmts.simps split: if_splits)

lemma scan_name_error: "scan_name u n rs = Inl err \<Longrightarrow> err = LimitExceeded"
  by (induction u n rs rule: scan_name.induct) (auto simp: result_simps split: if_splits)

lemma scan_string_error: "scan_string n rs = Inl err \<Longrightarrow> err \<noteq> OutOfFuel"
proof (induction n rs rule: scan_string.induct)
  case (2 n r rs)
  then show ?case by (cases rs) (auto simp: result_simps split: if_splits option.splits)
qed simp

lemma next_token_error: "next_token u src = Inl err \<Longrightarrow> err \<noteq> OutOfFuel"
  by (auto simp: next_token_def scanAt_def scanString_def scanIdent_def scanNumber_def Let_def result_simps
      split: list.splits if_splits option.splits dest: scan_name_error scan_string_error)

lemma lex_closed: "lex u src \<noteq> [] \<and> (last (lex u src) = Inr TEOF \<or> isl (last (lex u src))) \<and> Inl OutOfFuel \<notin> set (lex u src)"
proof (induction u src rule: lex.induct)
  case (1 u src)
  show ?case
  proof (cases "next_token u src")
    case (Inl err)
    then show ?thesis using next_token_error [OF Inl] by (simp add: lex.simps)
  next
    case (Inr p)
    obtain t rest where p: "p = (t, rest)" by (cases p)
    have "t \<noteq> TEOF \<Longrightarrow> lex u rest \<noteq> [] \<and> (last (lex u rest) = Inr TEOF \<or> isl (last (lex u rest))) \<and> Inl OutOfFuel \<notin> set (lex u rest)"
      using 1 Inr p by blast
    then show ?thesis using Inr p by (simp add: lex.simps [of u src])
  qed
qed

lemma lex_ok: "lookahead (lex u src) = Inr ts \<Longrightarrow> \<not> isl (hd (lex u src)) \<Longrightarrow> ok ts"
  using lex_closed [of u src] by (auto simp: ok_def lookahead_Inr)

text \<open>
  C20. The parser always returns: for every source, and whatever Unicode calls a letter or a digit, \<open>Parse\<close>
  yields a file, a syntax error or an exceeded limit; the fuel of the model is never what stops it.
\<close>

theorem Parse_terminates: "(\<exists>f. Parse u src = Inr f) \<or> Parse u src = Inl SyntaxError \<or> Parse u src = Inl LimitExceeded"
proof -
  have "Parse u src \<noteq> Inl OutOfFuel"
  proof (cases "lex u src")
    case (Cons p ts)
    have "lookahead (p # ts) \<noteq> Inl OutOfFuel" using lookahead_Inl lex_closed [of u src] Cons by metis
    moreover have "parseFile ts' \<noteq> Inl OutOfFuel" if "\<not> isl p" "lookahead (p # ts) = Inr ts'" for ts'
      using lex_ok [of u src ts'] Cons that by (intro parseFile_fuel) simp
    moreover have "p \<noteq> Inl OutOfFuel" using lex_closed [of u src] Cons by auto
    ultimately show ?thesis using Cons by (cases p) (auto simp: Parse_def result_simps)
  qed (use lex_closed [of u src] in simp)
  then show ?thesis
    by (cases "Parse u src") (auto intro: conf_error.exhaust)
qed

lemma trim_digits: "list_all is_digit ds \<Longrightarrow> trim_space (runes ds) = runes ds"
proof -
  assume "list_all is_digit ds"
  then have n: "\<not> IsSpace r" if "r \<in> set (runes ds)" for r
    using that by (auto simp: runes_def list_all_iff is_digit_def IsSpace_def)
  then have "dropWhile IsSpace (runes ds) = runes ds" by (cases "runes ds") auto
  moreover have "dropWhile IsSpace (rev (runes ds)) = rev (runes ds)"
    using n by (cases "rev (runes ds)") (auto simp: rev_eq_Cons_iff)
  ultimately show ?thesis by (simp add: trim_space_def)
qed

lemma runes_eq [simp]: "runes a = runes b \<longleftrightarrow> a = b"
  by (simp add: runes_def inj_map_eq_map inj_on_def)

lemma runes_Nil [simp]: "runes a = [] \<longleftrightarrow> a = []"
  by (simp add: runes_def)

lemma ascii_runes: "list_all (\<lambda>c. (of_char c :: nat) < 128) s \<Longrightarrow> ascii (runes s) = Some s"
  by (auto simp: ascii_def runes_def list_all_iff map_idI)

lemma ascii_digits: "list_all is_digit s \<Longrightarrow> ascii (runes s) = Some s"
  by (rule ascii_runes) (auto simp: is_digit_def list_all_iff)

text \<open>
  A number of the configuration reaches the program as an integer only from \<open>-1\<close> on: a literal below is
  called out of range although it fits, while the same digits between quotes are accepted when they are not
  negative; nothing outside the range of 64 bits is ever returned.
\<close>

theorem AsInt_range:
  assumes "in_int64 n"
  shows "AsInt (Int_lit n) = (if - 1 \<le> n then Inr n else Inl SyntaxError) \<and>
    (0 \<le> n \<longrightarrow> AsInt (Str (runes (Itoa n))) = Inr n) \<and>
    (\<forall>v m. parseNumberLit (runes (Itoa n)) = Some v \<and> AsInt v = Inr m \<longrightarrow> m = n)"
proof -
  have a: "AsInt (Int_lit n) = (if - 1 \<le> n then Inr n else Inl SyntaxError)"
    using assms by (auto simp: AsInt_def Int_lit_def in_int64_def)
  have "AsInt (Str (runes (Itoa n))) = Inr n" if "0 \<le> n"
    using that Atoi_Itoa [OF assms] show_nat_digits [of "nat n"]
    by (simp add: AsInt_def Str_def Itoa_def trim_digits ascii_digits)
  moreover have "m = n" if "parseNumberLit (runes (Itoa n)) = Some v" "AsInt v = Inr m" for v m
  proof -
    have *: "ascii (runes (Itoa n)) = Some s \<Longrightarrow> s = Itoa n" for s
      by (auto simp: ascii_def runes_def map_idI split: if_splits)
    show ?thesis
      using that Atoi_Itoa [OF assms]
      by (auto simp: parseNumberLit_def AsInt_def dest!: * split: option.splits if_splits)
  qed
  ultimately show ?thesis using a by blast
qed

theorem AsInt_range_witness:
  "AsInt (Int_lit (- 5)) = Inl SyntaxError \<and> AsInt (Int_lit 80) = Inr 80 \<and> AsInt (Str (runes (Itoa 80))) = Inr 80"
  using AsInt_range [of "- 5"] AsInt_range [of 80] by (simp add: in_int64_def min_int64_def max_int64_def)

end
