(* ===== verification/Conf_Roundtrip.thy ===== *)
theory Conf_Roundtrip
  imports Conf
begin

text \<open>
  What the parser of \<^verbatim>\<open>conf/\<close> accepts and what the printer writes fit together: every accepted file
  respects the limits of the language, and printing it and parsing the text again gives it back.

  The proof goes through the tokens of a syntax tree: the printed text lexes to them, and the parser
  rebuilds the tree from them.
\<close>

section \<open>Well-formed trees\<close>

definition ident_ok :: "unicode \<Rightarrow> rune list \<Rightarrow> bool" where
  "ident_ok u name \<longleftrightarrow>
     name \<noteq> [] \<and> isIdentStart u (hd name) \<and> \<not> IsDigit u (hd name) \<and> list_all (isIdentPart u) name \<and>
     byte_len name \<le> MaxIdentBytes \<and> name \<noteq> runes ''true'' \<and> name \<noteq> runes ''false''"

definition string_ok :: "rune list \<Rightarrow> bool" where
  "string_ok s \<longleftrightarrow> 0 \<notin> set s \<and> byte_len s \<le> MaxStringBytes"

definition number_ok :: "unicode \<Rightarrow> rune list \<Rightarrow> bool" where
  "number_ok u text \<longleftrightarrow>
     (\<exists>sign digits frac. text = sign @ digits @ frac \<and> sign \<in> {[], [45]} \<and> digits \<noteq> [] \<and> list_all (IsDigit u) digits \<and>
        (frac = [] \<or> frac \<noteq> [46] \<and> hd frac = 46 \<and> list_all (IsDigit u) (tl frac)))"

primrec value_ok :: "unicode \<Rightarrow> Value \<Rightarrow> bool" and call_ok :: "unicode \<Rightarrow> Call \<Rightarrow> bool" where
  "value_ok u (StringLit s) = string_ok s"
| "value_ok u (NumberLit text n) = (number_ok u text \<and> parseNumberLit text = Some (NumberLit text n))"
| "value_ok u (BoolLit b) = True"
| "value_ok u (IdentLit name) = ident_ok u name"
| "value_ok u (CallValue c) = (call_ok u c \<and> \<not> call_TrailingSem c)"
| "call_ok u (Call name args sem) = (ident_ok u name \<and> length args \<le> MaxArgs \<and> list_all (value_ok u) args)"

primrec value_depth :: "Value \<Rightarrow> nat" and call_depth :: "Call \<Rightarrow> nat" where
  "value_depth (StringLit s) = 0"
| "value_depth (NumberLit text n) = 0"
| "value_depth (BoolLit b) = 0"
| "value_depth (IdentLit name) = 0"
| "value_depth (CallValue c) = call_depth c"
| "call_depth (Call name args sem) = Suc (fold max (map value_depth args) 0)"

primrec stmt_ok :: "unicode \<Rightarrow> Stmt \<Rightarrow> bool" where
  "stmt_ok u (Block name ident body) = (ident_ok u name \<and> (ident = [] \<or> ident_ok u ident) \<and> list_all (stmt_ok u) body)"
| "stmt_ok u (CallStmt c) = call_ok u c"

primrec stmt_depth :: "Stmt \<Rightarrow> nat" where
  "stmt_depth (Block name ident body) = Suc (fold max (map stmt_depth body) 0)"
| "stmt_depth (CallStmt c) = call_depth c"

primrec stmt_count :: "Stmt \<Rightarrow> nat" where
  "stmt_count (Block name ident body) = Suc (sum_list (map stmt_count body))"
| "stmt_count (CallStmt c) = 1"

text \<open>Everything the language limits, of a whole file.\<close>

definition within_limits :: "unicode \<Rightarrow> File \<Rightarrow> bool" where
  "within_limits u f \<longleftrightarrow>
     0 \<le> f_Version f \<and> list_all (stmt_ok u) (f_Stmts f) \<and> list_all (\<lambda>s. stmt_depth s \<le> MaxNestingDepth) (f_Stmts f) \<and>
     sum_list (map stmt_count (f_Stmts f)) \<le> MaxStatements"

lemma fold_max_le: "fold max xs (a::nat) \<le> b \<longleftrightarrow> a \<le> b \<and> (\<forall>x\<in>set xs. x \<le> b)"
  by (induction xs arbitrary: a) auto

section \<open>What the lexer returns\<close>

definition token_ok :: "unicode \<Rightarrow> token \<Rightarrow> bool" where
  "token_ok u t =
     (case t of TIdent name \<Rightarrow> ident_ok u name | TString s \<Rightarrow> string_ok s | TNumber text \<Rightarrow> number_ok u text | _ \<Rightarrow> True)"

lemma byte_len_simps [simp]: "byte_len [] = 0" "byte_len (r # rs) = RuneLen r + byte_len rs"
  by (simp_all add: byte_len_def)

lemma scan_name_ok:
  "scan_name u n rs = Inr (name, rest) \<Longrightarrow> n \<le> MaxIdentBytes \<Longrightarrow> list_all (isIdentPart u) name \<and> n + byte_len name \<le> MaxIdentBytes"
  by (induction u n rs arbitrary: name rest rule: scan_name.induct) (fastforce simp: result_simps split: if_splits)+

lemma scan_string_ok:
  "scan_string n rs = Inr (s, rest) \<Longrightarrow> n \<le> MaxStringBytes \<Longrightarrow> 0 \<notin> set s \<and> n + byte_len s \<le> MaxStringBytes"
proof (induction n rs arbitrary: s rest rule: scan_string.induct)
  case (2 n r rs)
  show ?case
  proof (cases "r = 92")
    case True
    with 2(3) obtain c rs' out s' where c: "rs = c # rs'" "unescape c = Some out" "\<not> n + RuneLen out > MaxStringBytes"
        "scan_string (n + RuneLen out) rs' = Inr (s', rest)" "s = out # s'"
      by (auto simp: result_simps split: list.splits option.splits if_splits)
    moreover have "out \<noteq> 0" using c(2) by (auto simp: unescape_def split: if_splits)
    ultimately show ?thesis using 2(1) [of c rs' out s' rest] True by auto
  next
    case False
    with 2(3,4) show ?thesis using 2(2) by (fastforce simp: result_simps split: if_splits)
  qed
qed simp

lemma isIdentPart_nonzero: "list_all (isIdentPart u) name \<Longrightarrow> 0 \<notin> set name"
  by (auto simp: list_all_iff isIdentPart_def IsDigit_def IsLetter_def)

lemma IsDigit_nonzero: "list_all (IsDigit u) ds \<Longrightarrow> 0 \<notin> set ds"
  by (auto simp: list_all_iff IsDigit_def)

lemma scanIdent_ok:
  assumes "scanIdent u (r # rs) = Inr (t, rest)" "isIdentStart u r" "\<not> IsDigit u r"
  shows "token_ok u t"
proof -
  from assms(1) obtain name where n: "scan_name u 0 (r # rs) = Inr (name, rest)"
    and t: "t = (if name = runes ''true'' then TTrue else if name = runes ''false'' then TFalse else TIdent name)"
    by (auto simp: scanIdent_def result_simps)
  have "name \<noteq> [] \<and> hd name = r"
    using n isIdentStart_part [OF assms(2)] by (auto simp: result_simps split: if_splits)
  with scan_name_ok [OF n] assms t show ?thesis by (auto simp: token_ok_def ident_ok_def)
qed

lemma scanNumber_ok:
  assumes "scanNumber u rs = Inr (t, rest)"
  shows "token_ok u t"
proof -
  obtain sign ds where s: "(if rs \<noteq> [] \<and> hd rs = 45 then ([45], tl rs) else ([], rs)) = (sign :: rune list, ds)" "sign \<in> {[], [45]}"
    by (cases "rs \<noteq> [] \<and> hd rs = 45") auto
  let ?d = "takeWhile (IsDigit u) ds"
  let ?f = "takeWhile (IsDigit u) (tl (dropWhile (IsDigit u) ds))"
  have d: "list_all (IsDigit u) (takeWhile (IsDigit u) xs)" for xs by (auto simp: list_all_iff dest: set_takeWhileD)
  have t: "?d \<noteq> []" "t = TNumber (sign @ ?d @ []) \<or> ?f \<noteq> [] \<and> t = TNumber (sign @ ?d @ 46 # ?f)"
    using assms s(1) by (auto simp: scanNumber_def Let_def split: if_splits)
  have "number_ok u (sign @ ?d @ frac)" if "frac = [] \<or> frac \<noteq> [46] \<and> hd frac = 46 \<and> list_all (IsDigit u) (tl frac)" for frac
    unfolding number_ok_def using s(2) t(1) d that by blast
  from this [of "[]"] this [of "46 # ?f"] t(2) d show ?thesis by (auto simp: token_ok_def)
qed

lemma next_token_ok: "next_token u src = Inr (t, rest) \<Longrightarrow> token_ok u t"
proof -
  assume n: "next_token u src = Inr (t, rest)"
  show "token_ok u t"
  proof (cases "skipSpaceAndComments src")
    case Nil
    with n show ?thesis by (simp add: next_token_def token_ok_def)
  next
    case (Cons r rs)
    consider (p) "punctuation r = Some t" | (at) "scanAt u rs = Inr (t, rest)" | (str) "scanString rs = Inr (t, rest)"
      | (num) "scanNumber u (r # rs) = Inr (t, rest)"
      | (name) "scanIdent u (r # rs) = Inr (t, rest)" "isIdentStart u r" "\<not> IsDigit u r"
      using n Cons by (auto simp: next_token_def split: if_splits option.splits)
    then show ?thesis
    proof cases
      case p
      then show ?thesis by (auto simp: punctuation_def token_ok_def split: if_splits)
    next
      case at
      then show ?thesis by (auto simp: scanAt_def result_simps token_ok_def split: if_splits)
    next
      case str
      then show ?thesis using scan_string_ok [of 0 rs] by (auto simp: scanString_def result_simps token_ok_def string_ok_def)
    qed (auto intro: scanNumber_ok scanIdent_ok)
  qed
qed

lemma lex_token_ok: "Inr t \<in> set (lex u src) \<Longrightarrow> token_ok u t"
proof (induction u src rule: lex.induct)
  case (1 u src)
  show ?case
  proof (cases "next_token u src")
    case (Inl err)
    with 1(2) show ?thesis by (simp add: lex.simps [of u src])
  next
    case (Inr p)
    obtain t' rest where p: "p = (t', rest)" by (cases p)
    show ?thesis using 1 Inr p next_token_ok by (fastforce simp: lex.simps [of u src] split: if_splits)
  qed
qed

section \<open>What the parser returns\<close>

definition tokens_ok :: "unicode \<Rightarrow> tokens \<Rightarrow> bool" where
  "tokens_ok u ts \<longleftrightarrow> (\<forall>t. Inr t \<in> set ts \<longrightarrow> token_ok u t)"

lemma advance_tokens: "advance ts = Inr ts' \<Longrightarrow> tokens_ok u ts \<Longrightarrow> tokens_ok u ts'"
  by (cases ts rule: advance.cases) (auto simp: lookahead_Inr tokens_ok_def)

lemma cur_ok: "tokens_ok u ts \<Longrightarrow> token_ok u (cur ts)"
  by (auto simp: cur_def tokens_ok_def token_ok_def split: list.splits sum.splits)

lemma parseNumberLit_form: "parseNumberLit text = Some v \<Longrightarrow> \<exists>n. v = NumberLit text n"
  by (auto simp: parseNumberLit_def split: option.splits if_splits)

lemma parse_values_ok:
  "(\<forall>d ts v ts'. parseValue n d ts = Inr (v, ts') \<and> tokens_ok u ts \<and> d \<le> MaxNestingDepth \<longrightarrow>
      tokens_ok u ts' \<and> value_ok u v \<and> d + value_depth v \<le> MaxNestingDepth) \<and>
   (\<forall>d k ts vs ts'. parseArgs n d k ts = Inr (vs, ts') \<and> tokens_ok u ts \<and> d \<le> MaxNestingDepth \<longrightarrow>
      tokens_ok u ts' \<and> list_all (value_ok u) vs \<and> list_all (\<lambda>v. d + value_depth v \<le> MaxNestingDepth) vs \<and>
      k + length vs \<le> MaxArgs) \<and>
   (\<forall>d name b ts c ts'. parseCallTail n d name b ts = Inr (c, ts') \<and> tokens_ok u ts \<and> ident_ok u name \<longrightarrow>
      tokens_ok u ts' \<and> call_ok u c \<and> d + call_depth c \<le> MaxNestingDepth \<and> (b \<or> \<not> call_TrailingSem c))"
proof (induction n)
  case (Suc n)
  then have vals: "\<And>d ts v ts'. parseValue n d ts = Inr (v, ts') \<Longrightarrow> tokens_ok u ts \<Longrightarrow> d \<le> MaxNestingDepth \<Longrightarrow>
      tokens_ok u ts' \<and> value_ok u v \<and> d + value_depth v \<le> MaxNestingDepth"
    and args: "\<And>d k ts vs ts'. parseArgs n d k ts = Inr (vs, ts') \<Longrightarrow> tokens_ok u ts \<Longrightarrow> d \<le> MaxNestingDepth \<Longrightarrow>
      tokens_ok u ts' \<and> list_all (value_ok u) vs \<and> list_all (\<lambda>v. d + value_depth v \<le> MaxNestingDepth) vs \<and>
      k + length vs \<le> MaxArgs"
    and call: "\<And>d name b ts c ts'. parseCallTail n d name b ts = Inr (c, ts') \<Longrightarrow> tokens_ok u ts \<Longrightarrow> ident_ok u name \<Longrightarrow>
      tokens_ok u ts' \<and> call_ok u c \<and> d + call_depth c \<le> MaxNestingDepth \<and> (b \<or> \<not> call_TrailingSem c)"
    by blast+
  have "tokens_ok u ts' \<and> value_ok u v \<and> d + value_depth v \<le> MaxNestingDepth"
    if p: "parseValue (Suc n) d ts = Inr (v, ts')" and t: "tokens_ok u ts" "d \<le> MaxNestingDepth" for d ts v ts'
  proof -
    have c: "token_ok u (cur ts)" using t(1) by (rule cur_ok)
    show ?thesis
    proof (cases "cur ts")
      case (TNumber lit)
      with p obtain x where "parseNumberLit lit = Some (NumberLit lit x)" "v = NumberLit lit x" "advance ts = Inr ts'"
        by (auto simp: result_simps split: option.splits dest!: parseNumberLit_form)
      with TNumber c t show ?thesis by (auto simp: token_ok_def dest: advance_tokens)
    next
      case (TIdent name)
      with p obtain ts1 where "advance ts = Inr ts1" by (auto simp: result_simps)
      moreover have "ident_ok u name" using c TIdent by (simp add: token_ok_def)
      ultimately show ?thesis
        using p TIdent t advance_tokens [of ts ts1 u] call [of d name False ts1] by (fastforce split: if_splits simp: result_simps)
    qed (use p c t in \<open>auto simp: result_simps token_ok_def dest: advance_tokens\<close>)
  qed
  moreover have "tokens_ok u ts' \<and> list_all (value_ok u) vs \<and> list_all (\<lambda>v. d + value_depth v \<le> MaxNestingDepth) vs \<and>
      k + length vs \<le> MaxArgs"
    if p: "parseArgs (Suc n) d k ts = Inr (vs, ts')" and t: "tokens_ok u ts" "d \<le> MaxNestingDepth" for d k ts vs ts'
  proof -
    from p obtain v ts1 where v: "k < MaxArgs" "parseValue n d ts = Inr (v, ts1)"
      by (auto simp: result_simps split: if_splits)
    have v1: "tokens_ok u ts1" "value_ok u v" "d + value_depth v \<le> MaxNestingDepth" using vals [OF v(2) t] by auto
    from p v consider "vs = [v]" "ts' = ts1"
      | us ts2 where "advance ts1 = Inr ts2" "parseArgs n d (k + 1) ts2 = Inr (us, ts')" "vs = v # us"
      by (auto simp: result_simps split: if_splits)
    then show ?thesis
    proof cases
      case 2
      with args [OF 2(2) advance_tokens [OF 2(1) v1(1)] t(2)] v1 show ?thesis by auto
    qed (use v v1 in auto)
  qed
  moreover have "tokens_ok u ts' \<and> call_ok u c \<and> d + call_depth c \<le> MaxNestingDepth \<and> (b \<or> \<not> call_TrailingSem c)"
    if p: "parseCallTail (Suc n) d name b ts = Inr (c, ts')" and t: "tokens_ok u ts" "ident_ok u name" for d name b ts c ts'
  proof -
    from p obtain ts1 where a: "d + 1 \<le> MaxNestingDepth" "advance ts = Inr ts1" by (auto simp: result_simps split: if_splits)
    have t1: "tokens_ok u ts1" using a(2) t(1) by (rule advance_tokens)
    from p a obtain vs ts2 ts3 sem where r: "vs = [] \<and> ts2 = ts1 \<or> parseArgs n (d + 1) 0 ts1 = Inr (vs, ts2)"
      "advance ts2 = Inr ts3" "ts' = ts3 \<or> advance ts3 = Inr ts'" "c = Call name vs sem" "sem \<longrightarrow> b"
      by (auto simp: result_simps split: if_splits)
    have t2: "tokens_ok u ts2 \<and> list_all (value_ok u) vs \<and> list_all (\<lambda>v. d + 1 + value_depth v \<le> MaxNestingDepth) vs \<and> length vs \<le> MaxArgs"
      using r(1) args [of "d + 1" 0 ts1 vs ts2] t1 a(1) by auto
    then have "fold max (map value_depth vs) 0 \<le> MaxNestingDepth - (d + 1)"
      by (auto simp: fold_max_le list_all_iff)
    moreover have "tokens_ok u ts'" using t2 r(2,3) by (auto dest: advance_tokens)
    ultimately show ?thesis using t2 t a(1) r(4,5) by auto
  qed
  ultimately show ?case by blast
qed simp

lemmas call_parses_ok = parse_values_ok [THEN conjunct2, THEN conjunct2, rule_format, OF conjI, OF _ conjI]

lemma parse_stmts_ok:
  "(\<forall>d k ts s k' ts'. parseStmt n d k ts = Inr (s, k', ts') \<and> tokens_ok u ts \<longrightarrow>
      tokens_ok u ts' \<and> stmt_ok u s \<and> d + stmt_depth s \<le> MaxNestingDepth \<and> k' = k + stmt_count s \<and> k' \<le> MaxStatements) \<and>
   (\<forall>d k name ident ts s k' ts'. parseBlock n d k name ident ts = Inr (s, k', ts') \<and> tokens_ok u ts \<and> k \<le> MaxStatements \<and>
        ident_ok u name \<and> (ident = [] \<or> ident_ok u ident) \<longrightarrow>
      tokens_ok u ts' \<and> stmt_ok u s \<and> d + stmt_depth s \<le> MaxNestingDepth \<and> Suc k' = k + stmt_count s \<and> k' \<le> MaxStatements) \<and>
   (\<forall>d k ts ss k' ts'. parseBody n d k ts = Inr (ss, k', ts') \<and> tokens_ok u ts \<and> k \<le> MaxStatements \<longrightarrow>
      tokens_ok u ts' \<and> list_all (stmt_ok u) ss \<and> list_all (\<lambda>s. d + stmt_depth s \<le> MaxNestingDepth) ss \<and>
      k' = k + sum_list (map stmt_count ss) \<and> k' \<le> MaxStatements)"
proof (induction n)
  case (Suc n)
  then have stmt: "\<And>d k ts s k' ts'. parseStmt n d k ts = Inr (s, k', ts') \<Longrightarrow> tokens_ok u ts \<Longrightarrow>
      tokens_ok u ts' \<and> stmt_ok u s \<and> d + stmt_depth s \<le> MaxNestingDepth \<and> k' = k + stmt_count s \<and> k' \<le> MaxStatements"
    and block: "\<And>d k name ident ts s k' ts'. parseBlock n d k name ident ts = Inr (s, k', ts') \<Longrightarrow> tokens_ok u ts \<Longrightarrow>
        k \<le> MaxStatements \<Longrightarrow> ident_ok u name \<Longrightarrow> ident = [] \<or> ident_ok u ident \<Longrightarrow>
      tokens_ok u ts' \<and> stmt_ok u s \<and> d + stmt_depth s \<le> MaxNestingDepth \<and> Suc k' = k + stmt_count s \<and> k' \<le> MaxStatements"
    and body: "\<And>d k ts ss k' ts'. parseBody n d k ts = Inr (ss, k', ts') \<Longrightarrow> tokens_ok u ts \<Longrightarrow> k \<le> MaxStatements \<Longrightarrow>
      tokens_ok u ts' \<and> list_all (stmt_ok u) ss \<and> list_all (\<lambda>s. d + stmt_depth s \<le> MaxNestingDepth) ss \<and>
      k' = k + sum_list (map stmt_count ss) \<and> k' \<le> MaxStatements"
    by blast+
  have "tokens_ok u ts' \<and> stmt_ok u s \<and> d + stmt_depth s \<le> MaxNestingDepth \<and> k' = k + stmt_count s \<and> k' \<le> MaxStatements"
    if p: "parseStmt (Suc n) d k ts = Inr (s, k', ts')" and t: "tokens_ok u ts" for d k ts s k' ts'
  proof -
    from p obtain name ts1 where a: "cur ts = TIdent name" "k + 1 \<le> MaxStatements" "advance ts = Inr ts1"
      by (cases "cur ts"; cases "advance ts") (auto split: if_splits)
    have i: "ident_ok u name" using cur_ok [OF t] a(1) by (simp add: token_ok_def)
    have t1: "tokens_ok u ts1" using a(3) t by (rule advance_tokens)
    from p a consider (call) c where "parseCallTail n d name True ts1 = Inr (c, ts')" "s = CallStmt c" "k' = k + 1"
      | (plain) "parseBlock n d (k + 1) name [] ts1 = Inr (s, k', ts')"
      | (named) ident ts2 where "cur ts1 = TIdent ident" "advance ts1 = Inr ts2" "parseBlock n d (k + 1) name ident ts2 = Inr (s, k', ts')"
      by (cases "cur ts1") (auto simp: result_simps split: if_splits)
    then show ?thesis
    proof cases
      case call
      then show ?thesis using call_parses_ok [OF call(1) t1 i] a(2) by auto
    next
      case plain
      then show ?thesis using block [OF plain t1 a(2) i] by auto
    next
      case named
      have "ident_ok u ident" using cur_ok [OF t1] named(1) by (simp add: token_ok_def)
      then show ?thesis using block [OF named(3) advance_tokens [OF named(2) t1] a(2) i] by auto
    qed
  qed
  moreover have "tokens_ok u ts' \<and> stmt_ok u s \<and> d + stmt_depth s \<le> MaxNestingDepth \<and> Suc k' = k + stmt_count s \<and> k' \<le> MaxStatements"
    if p: "parseBlock (Suc n) d k name ident ts = Inr (s, k', ts')" and t: "tokens_ok u ts" "k \<le> MaxStatements"
      "ident_ok u name" "ident = [] \<or> ident_ok u ident" for d k name ident ts s k' ts'
  proof -
    from p obtain ts1 ss ts2 ts3 where r: "d + 1 \<le> MaxNestingDepth" "advance ts = Inr ts1"
      "parseBody n (d + 1) k ts1 = Inr (ss, k', ts2)" "advance ts2 = Inr ts3" "ts' = ts3 \<or> advance ts3 = Inr ts'" "s = Block name ident ss"
      by (auto simp: result_simps split: if_splits)
    have b: "tokens_ok u ts2 \<and> list_all (stmt_ok u) ss \<and> list_all (\<lambda>s. d + 1 + stmt_depth s \<le> MaxNestingDepth) ss \<and>
      k' = k + sum_list (map stmt_count ss) \<and> k' \<le> MaxStatements"
      using body [OF r(3) advance_tokens [OF r(2) t(1)] t(2)] .
    then have "fold max (map stmt_depth ss) 0 \<le> MaxNestingDepth - (d + 1)"
      by (auto simp: fold_max_le list_all_iff)
    moreover have "tokens_ok u ts'" using b r(4,5) by (auto dest: advance_tokens)
    ultimately show ?thesis using b t r(1,6) by auto
  qed
  moreover have "tokens_ok u ts' \<and> list_all (stmt_ok u) ss \<and> list_all (\<lambda>s. d + stmt_depth s \<le> MaxNestingDepth) ss \<and>
      k' = k + sum_list (map stmt_count ss) \<and> k' \<le> MaxStatements"
    if p: "parseBody (Suc n) d k ts = Inr (ss, k', ts')" and t: "tokens_ok u ts" "k \<le> MaxStatements" for d k ts ss k' ts'
  proof -
    from p consider "ss = []" "k' = k" "ts' = ts"
      | s k1 ts1 us where "parseStmt n d k ts = Inr (s, k1, ts1)" "parseBody n d k1 ts1 = Inr (us, k', ts')" "ss = s # us"
      by (auto simp: result_simps split: if_splits)
    then show ?thesis
    proof cases
      case 2
      have s: "tokens_ok u ts1 \<and> stmt_ok u s \<and> d + stmt_depth s \<le> MaxNestingDepth \<and> k1 = k + stmt_count s \<and> k1 \<le> MaxStatements"
        using stmt [OF 2(1) t(1)] .
      with body [OF 2(2)] 2(3) show ?thesis by auto
    qed (use t in auto)
  qed
  ultimately show ?case by blast
qed simp

lemmas stmt_parses_ok = parse_stmts_ok [THEN conjunct1, rule_format, OF conjI]

lemma file_stmts_ok:
  "parse_stmts n k ts = Inr ss \<Longrightarrow> tokens_ok u ts \<Longrightarrow> k \<le> MaxStatements \<Longrightarrow>
     list_all (stmt_ok u) ss \<and> list_all (\<lambda>s. stmt_depth s \<le> MaxNestingDepth) ss \<and> k + sum_list (map stmt_count ss) \<le> MaxStatements"
proof (induction n arbitrary: k ts ss)
  case (Suc n)
  from Suc.prems(1) consider "ss = []"
    | s k1 ts1 us where "parseStmt n 0 k ts = Inr (s, k1, ts1)" "parse_stmts n k1 ts1 = Inr us" "ss = s # us"
    by (auto simp: result_simps split: if_splits)
  then show ?case
  proof cases
    case 2
    have s: "tokens_ok u ts1 \<and> stmt_ok u s \<and> 0 + stmt_depth s \<le> MaxNestingDepth \<and> k1 = k + stmt_count s \<and> k1 \<le> MaxStatements"
      using stmt_parses_ok [OF 2(1) Suc.prems(2)] .
    with Suc.IH [OF 2(2)] 2(3) show ?thesis by auto
  qed (use Suc.prems in auto)
qed simp

lemma parseVersion_parsed:
  assumes "parseVersion ts = Inr (v, ts')" "tokens_ok u ts"
  shows "1 \<le> v \<and> in_int64 v \<and> tokens_ok u ts'"
proof -
  from assms(1) obtain ts1 ts2 where a: "advance ts = Inr ts1" "advance ts1 = Inr ts2"
    by (cases "advance ts"; cases "advance (projr (advance ts))") (auto simp: parseVersion_def split: if_splits)
  with assms(1) obtain lit where "cur ts2 = TNumber lit"
    by (cases "cur ts2") (auto simp: parseVersion_def split: if_splits)
  with a have r: "advance ts = Inr ts1" "advance ts1 = Inr ts2" "cur ts2 = TNumber lit" by simp_all
  with assms(1) obtain ts3 where n: "Option.bind (ascii lit) Atoi = Some v" "1 \<le> v" "advance ts2 = Inr ts3" "ts' = ts3 \<or> advance ts3 = Inr ts'"
    by (auto simp: parseVersion_def result_simps split: if_splits option.splits)
  have "in_int64 v" using n(1) by (auto simp: bind_eq_Some_conv dest: Atoi_in_int64)
  moreover have "tokens_ok u ts3" using r n(3) assms(2) by (auto dest!: advance_tokens)
  ultimately show ?thesis using n advance_tokens by blast
qed

lemma Parse_tokens:
  assumes "Parse u src = Inr f"
  obtains ts where "tokens_ok u ts" "parseFile ts = Inr f"
proof -
  obtain p rest where l: "lex u src = p # rest" "lookahead (p # rest) = Inr (p # rest)" "parseFile (p # rest) = Inr f"
    using assms lex_closed [of u src]
    by (cases "lex u src") (auto simp: Parse_def lookahead_Inr result_simps split: if_splits sum.splits)
  have "tokens_ok u (p # rest)" using lex_token_ok [of _ u src] by (auto simp: tokens_ok_def l(1))
  with l(3) that show ?thesis by blast
qed

lemma Parse_within:
  assumes "Parse u src = Inr f"
  shows "within_limits u f \<and> in_int64 (f_Version f)"
proof -
  from assms obtain ts where ts: "tokens_ok u ts" "parseFile ts = Inr f" by (rule Parse_tokens)
  then obtain v ts1 ss where r: "v = 0 \<and> ts1 = ts \<or> parseVersion ts = Inr (v, ts1)" "parse_stmts (parse_fuel ts1) 0 ts1 = Inr ss"
    "f = \<lparr>f_Version = v, f_Stmts = ss\<rparr>"
    by (auto simp: parseFile_def result_simps split: if_splits)
  have "0 \<le> v \<and> in_int64 v \<and> tokens_ok u ts1" using r(1) ts(1) parseVersion_parsed [of ts v ts1 u]
    by (auto simp: in_int64_def min_int64_def max_int64_def)
  with file_stmts_ok [OF r(2)] r(3) show ?thesis by (auto simp: within_limits_def)
qed

text \<open>A small configuration with a version, a block, nested calls, an escaped string and semicolons.\<close>

definition ascii_only :: unicode where
  "ascii_only = \<lparr>u_letter = (\<lambda>r. False), u_digit = (\<lambda>r. False)\<rparr>"

definition sample_conf :: "rune list" where
  "sample_conf = runes ''@version: 1; # settings'' @ [10] @ runes ''job web { image('' @ [34] @ runes ''nginx'' @ [92, 110, 34] @
     runes ''); ports(80, -1.5, p(true, x)) }''"

definition sample_file :: File where
  "sample_file = \<lparr>f_Version = 1, f_Stmts =
     [Block (runes ''job'') (runes ''web'')
        [CallStmt (Call (runes ''image'') [StringLit (runes ''nginx'' @ [10])] True),
         CallStmt (Call (runes ''ports'')
           [NumberLit (runes ''80'') (Some 80), NumberLit (runes ''-1.5'') None,
            CallValue (Call (runes ''p'') [BoolLit True, IdentLit (runes ''x'')] False)] False)]]\<rparr>"

definition sample_tokens :: "token list" where
  "sample_tokens =
     [TAtVersion, TColon, TNumber (runes ''1''), TSemicolon, TIdent (runes ''job''), TIdent (runes ''web''), TLBrace,
      TIdent (runes ''image''), TLParen, TString (runes ''nginx'' @ [10]), TRParen, TSemicolon,
      TIdent (runes ''ports''), TLParen, TNumber (runes ''80''), TComma, TNumber (runes ''-1.5''), TComma,
      TIdent (runes ''p''), TLParen, TTrue, TComma, TIdent (runes ''x''), TRParen, TRParen, TRBrace, TEOF]"

lemma ascii_only_class:
  "IsDigit ascii_only r \<longleftrightarrow> 48 \<le> r \<and> r \<le> 57" "IsLetter ascii_only r \<longleftrightarrow> 65 \<le> r \<and> r \<le> 90 \<or> 97 \<le> r \<and> r \<le> 122"
  by (auto simp: IsDigit_def IsLetter_def ascii_only_def)

lemma sample_lexes: "lex ascii_only sample_conf = map Inr sample_tokens"
  by (simp add: sample_conf_def sample_tokens_def runes_def lex.simps ascii_only_class isIdentPart_def isIdentStart_def RuneLen_def
      MaxIdentBytes_def MaxStringBytes_def next_token_def punctuation_def scanAt_def scanIdent_def scanString_def scanNumber_def unescape_def)

lemma sample_numbers: "parseNumberLit (runes ''80'') = Some (NumberLit (runes ''80'') (Some 80))"
  "parseNumberLit (runes ''-1.5'') = Some (NumberLit (runes ''-1.5'') None)" "ascii (runes ''1'') = Some ''1''" "Atoi ''1'' = Some 1"
proof -
  have "46 \<in> set (runes ''-1.5'')" "46 \<notin> set (runes ''80'')" by (simp_all add: runes_def)
  moreover have "Atoi ''80'' = Some 80" by (simp add: Atoi_def is_digit_def digits_val_def digit_val_def in_int64_def min_int64_def max_int64_def)
  moreover have "float_ok ''-1.5''" by (simp add: float_ok_def HasPrefix_def is_digit_def digits_val_def digit_val_def)
  ultimately show "parseNumberLit (runes ''80'') = Some (NumberLit (runes ''80'') (Some 80))"
    "parseNumberLit (runes ''-1.5'') = Some (NumberLit (runes ''-1.5'') None)"
    by (simp_all add: parseNumberLit_def ascii_runes)
qed (simp_all add: ascii_runes Atoi_def is_digit_def digits_val_def digit_val_def in_int64_def min_int64_def max_int64_def)
lemmas parse_numeral =
  parse_stmts.simps(2) [of "pred_numeral n" for n, folded numeral_eq_Suc]
  parseStmt.simps(2) [of "pred_numeral n" for n, folded numeral_eq_Suc]
  parseBlock.simps(2) [of "pred_numeral n" for n, folded numeral_eq_Suc]
  parseBody.simps(2) [of "pred_numeral n" for n, folded numeral_eq_Suc]
  parseCallTail.simps(2) [of "pred_numeral n" for n, folded numeral_eq_Suc]
  parseArgs.simps(2) [of "pred_numeral n" for n, folded numeral_eq_Suc]
  parseValue.simps(2) [of "pred_numeral n" for n, folded numeral_eq_Suc]

lemma cur_toks [simp]: "cur (Inr t # ts) = t"
  by (simp add: cur_def)

lemma rbind_weak_cong: "m = m' \<Longrightarrow> rbind m f = rbind m' f"
  by simp

lemma sample_parse_tokens: "parseFile (map Inr sample_tokens) = Inr sample_file"
  by (simp add: sample_tokens_def parseFile_def parse_fuel_def parseVersion_def sample_numbers sample_file_def
     MaxNestingDepth_def MaxStatements_def MaxArgs_def parse_numeral cong: rbind_weak_cong)

lemma sample_small: "byte_len sample_conf \<le> MaxSourceBytes" "0 \<notin> set sample_conf"
  by (simp_all add: sample_conf_def runes_def byte_len_def RuneLen_def MaxSourceBytes_def)

lemma sample_parses: "Parse ascii_only sample_conf = Inr sample_file"
proof -
  have "lookahead (map Inr sample_tokens) = Inr (map Inr sample_tokens)" by (simp add: sample_tokens_def)
  then show ?thesis
    using sample_small sample_parse_tokens by (simp add: Parse_def sample_lexes) (simp add: sample_tokens_def)
qed

lemma sample_prints: "byte_len (Emit [32] sample_file) \<le> MaxSourceBytes"
  by (simp add: Emit_def Let_def sample_file_def runes_def Itoa_def show_nat.simps byte_len_def escapeString_def escape_rune_def indent_def RuneLen_def MaxSourceBytes_def)

text \<open>
  C17. The limits of \<^verbatim>\<open>conf/limits.go\<close> hold of every file the parser accepts: at most 100000 statements at all
  levels together, blocks and calls nested at most 32 deep, at most 4096 arguments to each call, names of
  at most 256 bytes that are not keywords, strings of at most 65536 bytes without a null, and numbers
  \<^verbatim>\<open>strconv\<close> can read; and the text itself has at most one mebibyte.
\<close>

theorem Parse_limits:
  assumes "Parse u src = Inr f"
  shows "within_limits u f \<and> byte_len src \<le> MaxSourceBytes"
  using Parse_within [OF assms] assms by (auto simp: Parse_def split: if_splits)

theorem Parse_limits_witness: "within_limits ascii_only sample_file \<and> byte_len sample_conf \<le> MaxSourceBytes"
  using Parse_limits [OF sample_parses] .

section \<open>Lexing a printed text\<close>

definition blank :: "rune \<Rightarrow> bool" where
  "blank r \<longleftrightarrow> r = 32 \<or> r = 9 \<or> r = 13 \<or> r = 10"

text \<open>The characters that follow a name or a number in a printed text: blank, newline, parentheses, comma.\<close>

definition stops :: "rune list \<Rightarrow> bool" where
  "stops rest \<longleftrightarrow> rest \<noteq> [] \<and> (hd rest = 32 \<or> hd rest = 10 \<or> hd rest = 40 \<or> hd rest = 41 \<or> hd rest = 44)"

lemma lex_blank: "blank r \<Longrightarrow> lex u (r # rest) = lex u rest"
proof -
  assume "blank r"
  then have "next_token u (r # rest) = next_token u rest" by (auto simp: next_token_def blank_def)
  then show ?thesis by (simp add: lex.simps [of u "r # rest"] lex.simps [of u rest])
qed

lemma lex_blanks: "list_all blank ws \<Longrightarrow> lex u (ws @ rest) = lex u rest"
  by (induction ws) (auto simp: lex_blank)

lemma lex_token: "next_token u src = Inr (t, rest) \<Longrightarrow> t \<noteq> TEOF \<Longrightarrow> lex u src = Inr t # lex u rest"
  by (simp add: lex.simps [of u src])

lemma skip_solid: "\<not> blank r \<Longrightarrow> r \<noteq> 35 \<Longrightarrow> r \<noteq> 47 \<Longrightarrow> skipSpaceAndComments (r # rs) = r # rs"
  by (simp add: blank_def)

lemma lex_punct: "punctuation r = Some t \<Longrightarrow> lex u (r # rest) = Inr t # lex u rest"
  by (rule lex_token) (auto simp: punctuation_def next_token_def split: if_splits)

lemma ident_start_class:
  "isIdentStart u r \<Longrightarrow> \<not> blank r \<and> r \<noteq> 35 \<and> r \<noteq> 47 \<and> r \<noteq> 0 \<and> r \<noteq> 64 \<and> r \<noteq> 34 \<and> r \<noteq> 45 \<and> punctuation r = None"
  by (auto simp: isIdentStart_def IsLetter_def blank_def punctuation_def split: if_splits)

lemma digit_class:
  "IsDigit u r \<Longrightarrow> \<not> blank r \<and> r \<noteq> 35 \<and> r \<noteq> 47 \<and> r \<noteq> 0 \<and> r \<noteq> 64 \<and> r \<noteq> 34 \<and> r \<noteq> 45 \<and> r \<noteq> 46 \<and> punctuation r = None"
  by (auto simp: IsDigit_def blank_def punctuation_def split: if_splits)

lemma stops_class: "stops rest \<Longrightarrow> \<not> isIdentPart u (hd rest) \<and> \<not> IsDigit u (hd rest) \<and> hd rest \<noteq> 46"
  by (auto simp: stops_def isIdentPart_def IsLetter_def IsDigit_def)

lemma scan_name_run:
  "list_all (isIdentPart u) name \<Longrightarrow> stops rest \<Longrightarrow> n + byte_len name \<le> MaxIdentBytes \<Longrightarrow> scan_name u n (name @ rest) = Inr (name, rest)"
proof (induction name arbitrary: n)
  case Nil
  then show ?case using stops_class [of rest u] by (cases rest) (auto simp: stops_def)
qed auto

lemma lex_word:
  assumes "name \<noteq> []" "isIdentStart u (hd name)" "\<not> IsDigit u (hd name)" "list_all (isIdentPart u) name"
    "byte_len name \<le> MaxIdentBytes" "stops rest"
  shows "lex u (name @ rest) =
    Inr (if name = runes ''true'' then TTrue else if name = runes ''false'' then TFalse else TIdent name) # lex u rest"
proof (rule lex_token)
  have "scan_name u 0 (name @ rest) = Inr (name, rest)" using assms by (intro scan_name_run) auto
  then show "next_token u (name @ rest) =
    Inr (if name = runes ''true'' then TTrue else if name = runes ''false'' then TFalse else TIdent name, rest)"
    using assms ident_start_class [OF assms(2)]
    by (cases name) (auto simp: next_token_def skip_solid scanIdent_def simp del: skipSpaceAndComments.simps)
qed simp

lemma lex_name: "ident_ok u name \<Longrightarrow> stops rest \<Longrightarrow> lex u (name @ rest) = Inr (TIdent name) # lex u rest"
  using lex_word [of name u rest] by (auto simp: ident_ok_def)

lemma lex_bool:
  "stops rest \<Longrightarrow> lex u (runes (if b then ''true'' else ''false'') @ rest) = Inr (if b then TTrue else TFalse) # lex u rest"
  using lex_word [of "runes (if b then ''true'' else ''false'')" u rest]
  by (auto simp: runes_def isIdentStart_def isIdentPart_def IsLetter_def IsDigit_def RuneLen_def MaxIdentBytes_def)

lemma scan_string_run:
  "0 \<notin> set s \<Longrightarrow> n + byte_len s \<le> MaxStringBytes \<Longrightarrow> scan_string n (escapeString s @ 34 # rest) = Inr (s, rest)"
proof (induction s arbitrary: n)
  case (Cons r s)
  then have "scan_string (n + RuneLen r) (escapeString s @ 34 # rest) = Inr (s, rest)" by simp
  with Cons.prems show ?case by (auto simp: escapeString_def escape_rune_def unescape_def)
qed (simp add: escapeString_def)

lemma lex_string: "string_ok s \<Longrightarrow> lex u (34 # escapeString s @ 34 # rest) = Inr (TString s) # lex u rest"
  by (rule lex_token) (auto simp: next_token_def punctuation_def scanString_def string_ok_def scan_string_run)

lemma digits_run:
  assumes "list_all (IsDigit u) ds" "rest = [] \<or> \<not> IsDigit u (hd rest)"
  shows "takeWhile (IsDigit u) (ds @ rest) = ds" "dropWhile (IsDigit u) (ds @ rest) = rest"
  using assms by (auto simp: list_all_iff takeWhile_append dropWhile_append split: if_splits) (cases rest; auto)+

lemma scanNumber_run:
  assumes "number_ok u lit" "stops rest"
  shows "scanNumber u (lit @ rest) = Inr (TNumber lit, rest)"
proof -
  from assms(1) obtain sign digits frac where l: "lit = sign @ digits @ frac" "sign \<in> {[], [45]}" "digits \<noteq> []"
    "list_all (IsDigit u) digits" "frac = [] \<or> frac \<noteq> [46] \<and> hd frac = 46 \<and> list_all (IsDigit u) (tl frac)"
    unfolding number_ok_def by blast
  have d: "hd digits \<noteq> 45" using l(3,4) digit_class [of u "hd digits"] by (cases digits) auto
  have sg: "(if lit @ rest \<noteq> [] \<and> hd (lit @ rest) = 45 then ([45], tl (lit @ rest)) else ([], lit @ rest)) = (sign, digits @ frac @ rest)"
    using l(1,2) l(3) d by (cases digits; cases "sign = []") auto
  have stop: "\<not> IsDigit u (hd rest)" "hd rest \<noteq> 46" using stops_class [OF assms(2)] by auto
  show ?thesis
  proof (cases frac)
    case Nil
    then show ?thesis
      unfolding scanNumber_def sg Let_def prod.case
      using digits_run [of u digits rest] l(1,3,4) stop by simp
  next
    case (Cons c f)
    then have f: "c = 46" "f \<noteq> []" "list_all (IsDigit u) f" using l(5) by auto
    have "\<not> IsDigit u 46" by (simp add: IsDigit_def)
    then show ?thesis
      unfolding scanNumber_def sg Let_def prod.case
      using digits_run [of u digits "46 # f @ rest"] digits_run [of u f rest] l(1,3,4) stop f Cons by simp
  qed
qed

lemma lex_number:
  assumes "number_ok u lit" "stops rest"
  shows "lex u (lit @ rest) = Inr (TNumber lit) # lex u rest"
proof (rule lex_token)
  from assms(1) obtain sign digits frac where l: "lit = sign @ digits @ frac" "sign = [] \<or> sign = [45]" "digits \<noteq> []"
    "list_all (IsDigit u) digits"
    unfolding number_ok_def by blast
  have "lit \<noteq> [] \<and> (hd lit = 45 \<or> IsDigit u (hd lit))" using l by (cases digits) auto
  then obtain r rs where r: "lit = r # rs" "r = 45 \<or> IsDigit u r" by (cases lit) auto
  then have "skipSpaceAndComments (lit @ rest) = r # rs @ rest" "punctuation r = None" "r \<noteq> 0" "r \<noteq> 64" "r \<noteq> 34"
    using digit_class [of u r] skip_solid [of r "rs @ rest"] by (auto simp: blank_def punctuation_def)
  then show "next_token u (lit @ rest) = Inr (TNumber lit, rest)"
    using r scanNumber_run [OF assms] by (auto simp: next_token_def)
qed simp

section \<open>The tokens of a tree\<close>

fun comma_sep :: "token list list \<Rightarrow> token list" where
  "comma_sep [] = []"
| "comma_sep [x] = x"
| "comma_sep (x # y # ys) = x @ TComma # comma_sep (y # ys)"

primrec value_toks :: "Value \<Rightarrow> token list" and call_toks :: "Call \<Rightarrow> token list" where
  "value_toks (StringLit s) = [TString s]"
| "value_toks (NumberLit lit n) = [TNumber lit]"
| "value_toks (BoolLit b) = [if b then TTrue else TFalse]"
| "value_toks (IdentLit name) = [TIdent name]"
| "value_toks (CallValue c) = call_toks c"
| "call_toks (Call name args sem) = TIdent name # TLParen # comma_sep (map value_toks args) @ [TRParen]"

primrec stmt_toks :: "Stmt \<Rightarrow> token list" where
  "stmt_toks (Block name ident body) =
     TIdent name # (if ident \<noteq> [] then [TIdent ident] else []) @ TLBrace # concat (map stmt_toks body) @ [TRBrace]"
| "stmt_toks (CallStmt c) = call_toks c"

lemma stops_simps [simp]:
  "stops (32 # r)" "stops (10 # r)" "stops (40 # r)" "stops (41 # r)" "stops (44 # r)"
  by (simp_all add: stops_def)

lemma lex_puncts:
  "lex u (40 # r) = Inr TLParen # lex u r" "lex u (41 # r) = Inr TRParen # lex u r" "lex u (123 # r) = Inr TLBrace # lex u r"
  "lex u (125 # r) = Inr TRBrace # lex u r" "lex u (44 # r) = Inr TComma # lex u r" "lex u (58 # r) = Inr TColon # lex u r"
  by (simp_all add: lex_punct punctuation_def)

lemma lex_spaces: "lex u (32 # r) = lex u r" "lex u (10 # r) = lex u r"
  by (simp_all add: lex_blank blank_def)

lemma lex_args:
  assumes "\<And>a rest. a \<in> set args \<Longrightarrow> stops rest \<Longrightarrow> lex u (emitValue a @ rest) = map Inr (value_toks a) @ lex u rest"
  shows "stops rest \<Longrightarrow> lex u (sep_by [44, 32] (map emitValue args) @ rest) = map Inr (comma_sep (map value_toks args)) @ lex u rest"
  using assms
proof (induction args)
  case (Cons a args)
  show ?case
  proof (cases args)
    case Nil
    then show ?thesis using Cons.prems by simp
  next
    case (Cons b bs)
    then show ?thesis using Cons.IH Cons.prems by (simp add: lex_puncts lex_spaces)
  qed
qed simp

lemma lex_emit:
  "value_ok u v \<Longrightarrow> stops rest \<Longrightarrow> lex u (emitValue v @ rest) = map Inr (value_toks v) @ lex u rest"
  "call_ok u c \<Longrightarrow> lex u (emitCall c @ rest) = map Inr (call_toks c) @ lex u rest"
proof (induction v and c arbitrary: rest and rest rule: Value.induct Call.induct)
  case (StringLit s)
  then show ?case by (simp add: lex_string)
next
  case (NumberLit lit n)
  then show ?case by (simp add: lex_number)
next
  case (BoolLit b)
  then show ?case using lex_bool [of rest u b] by (cases b) simp_all
next
  case (IdentLit name)
  then show ?case by (simp add: lex_name)
next
  case (CallValue c)
  then show ?case by simp
next
  case (Call name args sem)
  then have "lex u (sep_by [44, 32] (map emitValue args) @ 41 # rest) = map Inr (comma_sep (map value_toks args)) @ lex u (41 # rest)"
    by (intro lex_args) (auto simp: list_all_iff)
  with Call.prems show ?case by (simp add: lex_name lex_puncts)
qed

lemma lex_indent: "list_all blank ind \<Longrightarrow> lex u (concat (replicate d ind) @ rest) = lex u rest"
  by (induction d) (simp_all add: lex_blanks)

lemma lex_emitStmt:
  "stmt_ok u s \<Longrightarrow> list_all blank ind \<Longrightarrow> lex u (emitStmt ind d s @ rest) = map Inr (stmt_toks s) @ lex u rest"
proof (induction s arbitrary: d rest)
  case (Block name ident body)
  have b: "lex u (concat (map (emitStmt ind (Suc d)) ss) @ rest) = map Inr (concat (map stmt_toks ss)) @ lex u rest"
    if "set ss \<subseteq> set body" for ss rest
    using that by (induction ss) (use Block in \<open>auto simp: list_all_iff\<close>)
  show ?case
  proof (cases "ident = []")
    case True
    with Block.prems b [of body] show ?thesis by (simp add: lex_name lex_puncts lex_spaces lex_indent)
  next
    case False
    with Block.prems b [of body] show ?thesis by (simp add: lex_name lex_puncts lex_spaces lex_indent)
  qed
next
  case (CallStmt c)
  then show ?case by (simp add: lex_emit lex_indent lex_spaces)
qed

lemma lex_emit_stmts:
  "list_all (stmt_ok u) ss \<Longrightarrow> list_all blank ind \<Longrightarrow> lex u (emit_stmts ind ss @ rest) = map Inr (concat (map stmt_toks ss)) @ lex u rest"
  by (induction ind ss rule: emit_stmts.induct) (simp_all add: lex_emitStmt lex_spaces)

section \<open>Parsing the tokens of a tree\<close>

lemma advance_toks: "rest \<noteq> [] \<Longrightarrow> advance (Inr t # map Inr rest) = Inr (map Inr rest)"
  by (cases rest rule: remdups_adj.cases) simp_all

lemma call_toks_length: "2 \<le> length (call_toks c)" "call_toks c \<noteq> []"
  by (cases c; simp)+

lemma value_toks_nonempty: "value_toks v \<noteq> []"
  by (cases v) (simp_all add: call_toks_length)

text \<open>A value never starts with a closing parenthesis, so the parser does not mistake it for the end of the arguments.\<close>

lemma value_toks_head: "hd (value_toks v @ rest) \<noteq> TRParen" "hd (value_toks v @ rest) \<noteq> TComma"
proof -
  have "hd (call_toks c @ rest) \<noteq> TRParen \<and> hd (call_toks c @ rest) \<noteq> TComma" for c by (cases c) simp
  then show "hd (value_toks v @ rest) \<noteq> TRParen" "hd (value_toks v @ rest) \<noteq> TComma" by (cases v; simp)+
qed

lemma cur_map: "xs \<noteq> [] \<Longrightarrow> cur (map Inr xs) = hd xs"
  by (cases xs) simp_all

lemma comma_sep_head: "args \<noteq> [] \<Longrightarrow> comma_sep (map value_toks args) \<noteq> [] \<and> hd (comma_sep (map value_toks args) @ rest) \<noteq> TRParen"
  using value_toks_nonempty value_toks_head
  by (cases args rule: remdups_adj.cases) (auto simp: hd_append)

lemma parse_args_toks:
  assumes "\<And>a n rest. a \<in> set args \<Longrightarrow> rest \<noteq> [] \<Longrightarrow> hd rest \<noteq> TLParen \<Longrightarrow> 2 * length (value_toks a) \<le> n \<Longrightarrow>
      parseValue n d (map Inr (value_toks a @ rest)) = Inr (a, map Inr rest)"
  shows "args \<noteq> [] \<Longrightarrow> k + length args \<le> MaxArgs \<Longrightarrow> 2 * length (comma_sep (map value_toks args)) + 1 \<le> n \<Longrightarrow>
      parseArgs n d k (map Inr (comma_sep (map value_toks args) @ TRParen # rest)) = Inr (args, map Inr (TRParen # rest))"
  using assms
proof (induction args arbitrary: n k)
  case (Cons a args)
  obtain m where n: "n = Suc m" using Cons.prems(3) by (cases n) auto
  show ?case
  proof (cases args)
    case Nil
    have "parseValue m d (map Inr (value_toks a @ TRParen # rest)) = Inr (a, map Inr (TRParen # rest))"
      using Cons.prems(3) Nil n by (intro Cons.prems(4)) auto
    then show ?thesis using Nil n Cons.prems(2) by simp
  next
    case c: (Cons b bs)
    let ?cs = "comma_sep (map value_toks args) @ TRParen # rest"
    have v: "parseValue m d (map Inr (value_toks a @ TComma # ?cs)) = Inr (a, map Inr (TComma # ?cs))"
      using Cons.prems(3) c n by (intro Cons.prems(4)) auto
    have r: "parseArgs m d (k + 1) (map Inr ?cs) = Inr (args, map Inr (TRParen # rest))"
      using Cons.prems c n by (intro Cons.IH) auto
    have "advance (map Inr (TComma # ?cs)) = Inr (map Inr ?cs)"
      using advance_toks [of ?cs TComma] by simp
    moreover have "cur (map Inr ?cs) \<noteq> TRParen"
      using comma_sep_head [of args "TRParen # rest"] c by (auto simp: cur_map hd_append simp del: map_append)
    moreover have "(map Inr (comma_sep (map value_toks (a # args)) @ TRParen # rest) :: tokens) = map Inr (value_toks a @ TComma # ?cs)"
      using c by simp
    ultimately show ?thesis using v r n Cons.prems(2) by (simp del: map_append)
  qed
qed simp

lemma parse_toks:
  "value_ok u v \<Longrightarrow> d + value_depth v \<le> MaxNestingDepth \<Longrightarrow> rest \<noteq> [] \<Longrightarrow> hd rest \<noteq> TLParen \<Longrightarrow> 2 * length (value_toks v) \<le> n \<Longrightarrow>
     parseValue n d (map Inr (value_toks v @ rest)) = Inr (v, map Inr rest)"
  "call_ok u c \<Longrightarrow> d + call_depth c \<le> MaxNestingDepth \<Longrightarrow> rest \<noteq> [] \<Longrightarrow> (b \<longrightarrow> hd rest \<noteq> TSemicolon) \<Longrightarrow> 2 * length (tl (call_toks c)) \<le> n \<Longrightarrow>
     parseCallTail n d (call_Name c) b (map Inr (tl (call_toks c) @ rest)) = Inr (Call (call_Name c) (call_Args c) False, map Inr rest)"
proof (induction v and c arbitrary: d rest n and d b rest n rule: Value.induct Call.induct)
  case (StringLit s)
  then show ?case using advance_toks [of rest] by (cases n) simp_all
next
  case (NumberLit lit x)
  then show ?case using advance_toks [of rest] by (cases n) simp_all
next
  case (BoolLit x)
  then show ?case using advance_toks [of rest] by (cases n) simp_all
next
  case (IdentLit name)
  then show ?case using advance_toks [of rest] cur_map [of rest] by (cases n) simp_all
next
  case (CallValue c)
  obtain m where n: "n = Suc m" using CallValue.prems(5) call_toks_length [of c] by (cases n) auto
  obtain name args where c: "c = Call name args False" using CallValue.prems(1) by (cases c) simp
  let ?ts = "TLParen # comma_sep (map value_toks args) @ TRParen # rest"
  have "parseCallTail m d name False (map Inr ?ts) = Inr (c, map Inr rest)"
    using CallValue.IH [of d rest False m] CallValue.prems n c by simp
  moreover have "advance (Inr (TIdent name) # map Inr ?ts) = Inr (map Inr ?ts)" by (rule advance_toks) simp
  moreover have "(map Inr (value_toks (CallValue c) @ rest) :: tokens) = Inr (TIdent name) # map Inr ?ts" using c by simp
  ultimately show ?case using n by (simp del: map_append)
next
  case (Call name args sem)
  obtain m where n: "n = Suc m" using Call.prems(5) by (cases n) auto
  let ?as = "comma_sep (map value_toks args)"
  have depth: "d + 1 \<le> MaxNestingDepth" "\<And>a. a \<in> set args \<Longrightarrow> d + 1 + value_depth a \<le> MaxNestingDepth"
    using Call.prems(2) fold_max_le [of "map value_depth args" 0 "fold max (map value_depth args) 0"] by fastforce+
  have args: "parseArgs m (d + 1) 0 (map Inr (?as @ TRParen # rest)) = Inr (args, map Inr (TRParen # rest))" if "args \<noteq> []"
  proof (rule parse_args_toks [OF _ that])
    show "parseValue k (d + 1) (map Inr (value_toks a @ more)) = Inr (a, map Inr more)"
      if "a \<in> set args" "more \<noteq> []" "hd more \<noteq> TLParen" "2 * length (value_toks a) \<le> k" for a k more
      using Call.prems(1) depth(2) [OF that(1)] that by (intro Call.IH) (auto simp: list_all_iff)
  qed (use Call.prems n in auto)
  have a1: "advance (Inr TLParen # map Inr (?as @ TRParen # rest)) = Inr (map Inr (?as @ TRParen # rest))"
    by (rule advance_toks) simp
  have a2: "advance (Inr TRParen # map Inr rest) = Inr (map Inr rest)" using Call.prems(3) by (rule advance_toks)
  have c1: "cur (map Inr (?as @ TRParen # rest)) = TRParen \<longleftrightarrow> args = []"
    using comma_sep_head [of args "TRParen # rest"] cur_map [of "?as @ TRParen # rest"] by (cases args) auto
  have c2: "b \<longrightarrow> cur (map Inr rest) \<noteq> TSemicolon" using Call.prems(3,4) cur_map [of rest] by simp
  show ?case
    using args a1 a2 c1 c2 depth(1) n by (cases "args = []") (auto simp del: map_append)
qed

text \<open>The parser records whether a call statement was closed by a semicolon; the printer never writes one.\<close>

primrec plain :: "Stmt \<Rightarrow> Stmt" where
  "plain (Block name ident body) = Block name ident (map plain body)"
| "plain (CallStmt c) = CallStmt (Call (call_Name c) (call_Args c) False)"

definition plain_file :: "File \<Rightarrow> File" where
  "plain_file f = f\<lparr>f_Stmts := map plain (f_Stmts f)\<rparr>"

lemma stmt_toks_head: "\<exists>name ts. stmt_toks s = TIdent name # ts"
proof (cases s)
  case (CallStmt c)
  then show ?thesis by (cases c) simp
qed simp

lemma stmts_toks_head:
  assumes "rest \<noteq> []" "hd rest \<noteq> TSemicolon"
  shows "concat (map stmt_toks ss) @ rest \<noteq> [] \<and> hd (concat (map stmt_toks ss) @ rest) \<noteq> TSemicolon"
proof (cases ss)
  case (Cons s us)
  then show ?thesis using stmt_toks_head [of s] by auto
qed (use assms in simp)

lemma parse_body_toks:
  assumes "\<And>s n k rest. s \<in> set ss \<Longrightarrow> k + stmt_count s \<le> MaxStatements \<Longrightarrow> rest \<noteq> [] \<Longrightarrow> hd rest \<noteq> TSemicolon \<Longrightarrow>
      2 * length (stmt_toks s) \<le> n \<Longrightarrow> parseStmt n d k (map Inr (stmt_toks s @ rest)) = Inr (plain s, k + stmt_count s, map Inr rest)"
  shows "k + sum_list (map stmt_count ss) \<le> MaxStatements \<Longrightarrow> 2 * length (concat (map stmt_toks ss)) + 1 \<le> n \<Longrightarrow>
      parseBody n d k (map Inr (concat (map stmt_toks ss) @ TRBrace # rest)) =
        Inr (map plain ss, k + sum_list (map stmt_count ss), map Inr (TRBrace # rest))"
  using assms
proof (induction ss arbitrary: n k)
  case Nil
  then show ?case by (cases n) simp_all
next
  case (Cons s ss)
  obtain m where n: "n = Suc m" using Cons.prems(2) by (cases n) auto
  obtain name ts where h: "stmt_toks s = TIdent name # ts" using stmt_toks_head by blast
  let ?more = "concat (map stmt_toks ss) @ TRBrace # rest"
  have "parseStmt m d k (map Inr (stmt_toks s @ ?more)) = Inr (plain s, k + stmt_count s, map Inr ?more)"
    using Cons.prems(1,2) n stmts_toks_head [of "TRBrace # rest" ss] by (intro Cons.prems(3)) auto
  moreover have "parseBody m d (k + stmt_count s) (map Inr ?more) =
      Inr (map plain ss, k + stmt_count s + sum_list (map stmt_count ss), map Inr (TRBrace # rest))"
    using Cons.prems n h by (intro Cons.IH) auto
  moreover have "cur (map Inr (stmt_toks s @ ?more)) = TIdent name" using h by simp
  ultimately show ?case using n by (simp add: add.assoc del: map_append)
qed

lemma parse_stmt_toks:
  "stmt_ok u s \<Longrightarrow> d + stmt_depth s \<le> MaxNestingDepth \<Longrightarrow> k + stmt_count s \<le> MaxStatements \<Longrightarrow> rest \<noteq> [] \<Longrightarrow> hd rest \<noteq> TSemicolon \<Longrightarrow>
     2 * length (stmt_toks s) \<le> n \<Longrightarrow> parseStmt n d k (map Inr (stmt_toks s @ rest)) = Inr (plain s, k + stmt_count s, map Inr rest)"
proof (induction s arbitrary: d k rest n)
  case (Block name ident body)
  obtain m where n: "n = Suc (Suc m)" using Block.prems(6) by (cases n; cases "n - 1") auto
  let ?more = "concat (map stmt_toks body) @ TRBrace # rest"
  have depth: "d + 1 \<le> MaxNestingDepth" "\<And>s. s \<in> set body \<Longrightarrow> d + 1 + stmt_depth s \<le> MaxNestingDepth"
    using Block.prems(2) fold_max_le [of "map stmt_depth body" 0 "fold max (map stmt_depth body) 0"] by fastforce+
  have b: "parseBody m (d + 1) (k + 1) (map Inr ?more) =
      Inr (map plain body, k + 1 + sum_list (map stmt_count body), map Inr (TRBrace # rest))"
  proof (rule parse_body_toks)
    show "parseStmt i (d + 1) j (map Inr (stmt_toks s @ r)) = Inr (plain s, j + stmt_count s, map Inr r)"
      if "s \<in> set body" "j + stmt_count s \<le> MaxStatements" "r \<noteq> []" "hd r \<noteq> TSemicolon" "2 * length (stmt_toks s) \<le> i" for s i j r
      using Block.prems(1) depth(2) [OF that(1)] that by (intro Block.IH) (auto simp: list_all_iff)
  qed (use Block.prems n in auto)
  have a: "advance (Inr TLBrace # map Inr ?more) = Inr (map Inr ?more)" "advance (Inr TRBrace # map Inr rest) = Inr (map Inr rest)"
    using Block.prems(4) by (auto simp del: map_append intro!: advance_toks)
  have "cur (map Inr rest) \<noteq> TSemicolon" using Block.prems(4,5) by (simp add: cur_map)
  then have block: "parseBlock (Suc m) d (k + 1) name ident (Inr TLBrace # map Inr ?more) =
      Inr (Block name ident (map plain body), k + 1 + sum_list (map stmt_count body), map Inr rest)"
    using a b depth(1) by (simp del: map_append)
  have count: "\<not> k + 1 > MaxStatements" using Block.prems(3) by simp
  show ?case
  proof (cases "ident = []")
    case True
    have "advance (map Inr (TIdent name # TLBrace # ?more)) = Inr (Inr TLBrace # map Inr ?more)"
      using advance_toks [of "TLBrace # ?more" "TIdent name"] by simp
    with True n block count show ?thesis by (simp del: parseBlock.simps)
  next
    case False
    have "advance (map Inr (TIdent name # TIdent ident # TLBrace # ?more)) = Inr (map Inr (TIdent ident # TLBrace # ?more))"
      "advance (map Inr (TIdent ident # TLBrace # ?more)) = Inr (Inr TLBrace # map Inr ?more)"
      using advance_toks [of "TIdent ident # TLBrace # ?more" "TIdent name"] advance_toks [of "TLBrace # ?more" "TIdent ident"] by simp_all
    with False n block count show ?thesis by (simp del: parseBlock.simps)
  qed
next
  case (CallStmt c)
  obtain name args sem where c: "c = Call name args sem" by (cases c)
  obtain m where n: "n = Suc m" using CallStmt.prems(6) c by (cases n) auto
  let ?ts = "TLParen # comma_sep (map value_toks args) @ TRParen # rest"
  have "parseCallTail m d name True (map Inr ?ts) = Inr (Call name args False, map Inr rest)"
    using parse_toks(2) [of u c d rest True m] CallStmt.prems n c by simp
  moreover have "advance (Inr (TIdent name) # map Inr ?ts) = Inr (map Inr ?ts)" by (rule advance_toks) simp
  moreover have "(map Inr (stmt_toks (CallStmt c) @ rest) :: tokens) = Inr (TIdent name) # map Inr ?ts" using c by simp
  ultimately show ?case using n c CallStmt.prems(3) by (simp del: map_append)
qed

section \<open>Printing and parsing a file\<close>

lemma parse_file_stmts:
  "list_all (stmt_ok u) ss \<Longrightarrow> list_all (\<lambda>s. stmt_depth s \<le> MaxNestingDepth) ss \<Longrightarrow> k + sum_list (map stmt_count ss) \<le> MaxStatements \<Longrightarrow>
     2 * length (concat (map stmt_toks ss)) + 1 \<le> n \<Longrightarrow> parse_stmts n k (map Inr (concat (map stmt_toks ss) @ [TEOF])) = Inr (map plain ss)"
proof (induction ss arbitrary: n k)
  case Nil
  then show ?case by (cases n) simp_all
next
  case (Cons s ss)
  obtain m where n: "n = Suc m" using Cons.prems(4) by (cases n) auto
  obtain name ts where h: "stmt_toks s = TIdent name # ts" using stmt_toks_head by blast
  let ?more = "concat (map stmt_toks ss) @ [TEOF]"
  have "parseStmt m 0 k (map Inr (stmt_toks s @ ?more)) = Inr (plain s, k + stmt_count s, map Inr ?more)"
    using Cons.prems n stmts_toks_head [of "[TEOF]" ss] by (intro parse_stmt_toks) auto
  moreover have "parse_stmts m (k + stmt_count s) (map Inr ?more) = Inr (map plain ss)"
    using Cons.prems n h by (intro Cons.IH) auto
  moreover have "cur (map Inr (stmt_toks s @ ?more)) = TIdent name" using h by simp
  ultimately show ?case using n by (simp del: map_append)
qed

lemma of_char_digit: "is_digit c \<Longrightarrow> IsDigit u (of_char c)"
  by (auto simp: is_digit_def IsDigit_def)

lemma show_nat_number: "number_ok u (runes (show_nat n))"
proof -
  have "list_all (IsDigit u) (runes (show_nat n))" "runes (show_nat n) \<noteq> []"
    using show_nat_digits [of n] by (auto simp: list_all_iff runes_def intro: of_char_digit)
  then show ?thesis unfolding number_ok_def by (intro exI [of _ "[]"] exI [of _ "runes (show_nat n)"]) simp
qed

definition version_toks :: "int \<Rightarrow> token list" where
  "version_toks v = (if v > 0 then [TAtVersion, TColon, TNumber (runes (Itoa v))] else [])"

lemma lex_version:
  assumes "v > 0"
  shows "lex u (runes (''@version: '' @ Itoa v) @ [10, 10] @ rest) = map Inr (version_toks v) @ lex u rest"
proof -
  have colon: "lex u (58 # 32 # runes (Itoa v) @ 10 # 10 # rest) = Inr TColon # Inr (TNumber (runes (Itoa v))) # lex u rest"
    using assms lex_number [OF show_nat_number, of "10 # 10 # rest" u "nat v"] by (simp add: lex_puncts lex_spaces Itoa_def)
  have "scan_name u 0 (runes ''version'' @ 58 # r) = Inr (runes ''version'', 58 # r)" for r
    by (simp add: runes_def isIdentPart_def IsLetter_def IsDigit_def RuneLen_def MaxIdentBytes_def)
  then have "next_token u (64 # runes ''version'' @ 58 # r) = Inr (TAtVersion, 58 # r)" for r
    by (simp add: next_token_def punctuation_def scanAt_def)
  from lex_token [OF this, of "32 # runes (Itoa v) @ 10 # 10 # rest"] colon assms show ?thesis
    by (simp add: version_toks_def runes_def)
qed

lemma parse_version_toks:
  assumes "v > 0" "in_int64 v" "rest \<noteq> []" "hd rest \<noteq> TSemicolon"
  shows "parseVersion (map Inr (version_toks v @ rest)) = Inr (v, map Inr rest)"
proof -
  have "Option.bind (ascii (runes (Itoa v))) Atoi = Some v"
    using assms(1,2) Atoi_Itoa [of v] show_nat_digits [of "nat v"] by (simp add: Itoa_def ascii_digits)
  moreover have "advance (Inr (TNumber (runes (Itoa v))) # map Inr rest) = Inr (map Inr rest)"
    using assms(3) by (rule advance_toks)
  moreover have "cur (map Inr rest) \<noteq> TSemicolon" using assms(3,4) by (simp add: cur_map)
  ultimately show ?thesis using assms(1,3) by (cases rest) (simp_all add: parseVersion_def version_toks_def)
qed

definition emit_body :: "rune list \<Rightarrow> File \<Rightarrow> rune list" where
  "emit_body opt f = (if f_Version f > 0 then runes (''@version: '' @ Itoa (f_Version f)) @ [10, 10] else []) @ emit_stmts (indent opt) (f_Stmts f)"

lemma emitStmt_newline: "emitStmt ind d s \<noteq> [] \<and> last (emitStmt ind d s) = 10"
  by (cases s) simp_all

lemma emit_stmts_newline: "ss \<noteq> [] \<Longrightarrow> emit_stmts ind ss \<noteq> [] \<and> last (emit_stmts ind ss) = 10"
  by (induction ind ss rule: emit_stmts.induct) (simp_all add: emitStmt_newline last_append)

lemma Emit_body: "Emit opt f = emit_body opt f"
proof (cases "f_Stmts f = []")
  case True
  then show ?thesis by (simp add: Emit_def emit_body_def Let_def)
next
  case False
  then show ?thesis using emit_stmts_newline [of "f_Stmts f" "indent opt"]
    by (simp add: Emit_def emit_body_def Let_def last_append)
qed

lemma lex_Emit:
  assumes "within_limits u f" "list_all blank opt"
  shows "lex u (Emit opt f) = map Inr (version_toks (f_Version f) @ concat (map stmt_toks (f_Stmts f)) @ [TEOF])"
proof -
  have b: "list_all blank (indent opt)" using assms(2) by (simp add: indent_def blank_def)
  have "lex u [] = [Inr TEOF]" by (simp add: lex.simps [of u "[]"] next_token_def)
  then have s: "lex u (emit_stmts (indent opt) (f_Stmts f)) = map Inr (concat (map stmt_toks (f_Stmts f)) @ [TEOF])"
    using lex_emit_stmts [of u "f_Stmts f" "indent opt" "[]"] assms(1) b by (simp add: within_limits_def)
  show ?thesis
  proof (cases "f_Version f > 0")
    case True
    then show ?thesis
      using lex_version [OF True, of u "emit_stmts (indent opt) (f_Stmts f)"] s by (simp add: Emit_body emit_body_def)
  next
    case False
    then show ?thesis using s by (simp add: Emit_body emit_body_def version_toks_def)
  qed
qed

lemma parseFile_toks:
  assumes "within_limits u f" "in_int64 (f_Version f)"
  shows "parseFile (map Inr (version_toks (f_Version f) @ concat (map stmt_toks (f_Stmts f)) @ [TEOF])) = Inr (plain_file f)"
proof -
  let ?ts = "concat (map stmt_toks (f_Stmts f)) @ [TEOF]"
  have p: "parse_stmts (parse_fuel (map Inr ?ts)) 0 (map Inr ?ts) = Inr (map plain (f_Stmts f))"
    using assms(1) by (intro parse_file_stmts) (auto simp: within_limits_def parse_fuel_def)
  have h: "?ts \<noteq> []" "hd ?ts \<noteq> TSemicolon" using stmts_toks_head [of "[TEOF]" "f_Stmts f"] by simp_all
  show ?thesis
  proof (cases "f_Version f > 0")
    case True
    have "cur (map Inr (version_toks (f_Version f) @ ?ts)) = TAtVersion" using True by (simp add: version_toks_def)
    then show ?thesis
      using parse_version_toks [OF True assms(2) h] p by (simp add: parseFile_def plain_file_def del: map_append)
  next
    case False
    with assms(1) have v: "f_Version f = 0" by (simp add: within_limits_def)
    have "cur (map Inr ?ts) \<noteq> TAtVersion"
    proof (cases "f_Stmts f")
      case (Cons s ss)
      then show ?thesis using stmt_toks_head [of s] by auto
    qed simp
    with p v show ?thesis by (simp add: parseFile_def plain_file_def version_toks_def del: map_append)
  qed
qed

text \<open>The printed text has no null in it, so the parser does not refuse it for that.\<close>

lemma escape_nonzero: "0 \<notin> set s \<Longrightarrow> 0 \<notin> set (escapeString s)"
  by (auto simp: escapeString_def escape_rune_def split: if_splits)

lemma ident_nonzero: "ident_ok u name \<Longrightarrow> 0 \<notin> set name"
  using isIdentPart_nonzero by (auto simp: ident_ok_def)

lemma number_nonzero: "number_ok u lit \<Longrightarrow> 0 \<notin> set lit"
proof -
  assume "number_ok u lit"
  then obtain sign digits frac where l: "lit = sign @ digits @ frac" "sign \<in> {[], [45]}" "list_all (IsDigit u) digits"
    "frac = [] \<or> frac \<noteq> [46] \<and> hd frac = 46 \<and> list_all (IsDigit u) (tl frac)"
    unfolding number_ok_def by blast
  then have "0 \<notin> set digits" "0 \<notin> set frac" using IsDigit_nonzero by (cases frac; fastforce)+
  with l(1,2) show ?thesis by auto
qed

lemma sep_by_set: "set (sep_by sep xs) \<subseteq> set sep \<union> \<Union> (set ` set xs)"
  by (induction sep xs rule: sep_by.induct) auto

lemma emit_nonzero:
  "value_ok u v \<Longrightarrow> 0 \<notin> set (emitValue v)"
  "call_ok u c \<Longrightarrow> 0 \<notin> set (emitCall c)"
proof (induction v and c rule: Value.induct Call.induct)
  case (StringLit s)
  then show ?case by (auto simp: string_ok_def dest: escape_nonzero)
next
  case (NumberLit lit n)
  then show ?case by (auto dest: number_nonzero)
next
  case (BoolLit b)
  then show ?case by (simp add: runes_def)
next
  case (IdentLit name)
  then show ?case by (auto dest: ident_nonzero)
next
  case (Call name args sem)
  then show ?case using sep_by_set [of "[44, 32]" "map emitValue args"] by (auto simp: list_all_iff dest: ident_nonzero)
qed simp

lemma emitStmt_nonzero: "stmt_ok u s \<Longrightarrow> 0 \<notin> set ind \<Longrightarrow> 0 \<notin> set (emitStmt ind d s)"
proof (induction s arbitrary: d)
  case (Block name ident body)
  then show ?case by (auto simp: list_all_iff dest: ident_nonzero)
next
  case (CallStmt c)
  then show ?case by (auto dest: emit_nonzero)
qed

lemma Emit_nonzero:
  assumes "within_limits u f" "list_all blank opt"
  shows "0 \<notin> set (Emit opt f)"
proof -
  have i: "0 \<notin> set (indent opt)" using assms(2) by (auto simp: indent_def blank_def list_all_iff)
  have "0 \<notin> set (emit_stmts (indent opt) ss)" if "list_all (stmt_ok u) ss" for ss
    using that i by (induction "indent opt" ss rule: emit_stmts.induct) (auto dest: emitStmt_nonzero)
  moreover have "0 \<notin> set (runes (''@version: '' @ Itoa (f_Version f)))" if "f_Version f > 0"
    using that show_nat_digits [of "nat (f_Version f)"]
    by (auto simp: Itoa_def runes_def list_all_iff is_digit_def)
  ultimately show ?thesis using assms(1) by (auto simp: Emit_body emit_body_def within_limits_def runes_def)
qed

lemma Parse_Emit:
  assumes "within_limits u f" "in_int64 (f_Version f)" "list_all blank opt" "byte_len (Emit opt f) \<le> MaxSourceBytes"
  shows "Parse u (Emit opt f) = Inr (plain_file f)"
proof -
  obtain t ts where l: "lex u (Emit opt f) = map Inr (t # ts)"
    using lex_Emit [OF assms(1,3)] by (cases "version_toks (f_Version f) @ concat (map stmt_toks (f_Stmts f)) @ [TEOF]") auto
  have "lookahead (map Inr (t # ts)) = Inr (map Inr (t # ts))" by (cases ts) simp_all
  moreover have "parseFile (map Inr (t # ts)) = Inr (plain_file f)"
    using parseFile_toks [OF assms(1,2)] lex_Emit [OF assms(1,3)] l by simp
  ultimately show ?thesis
    using l assms(4) Emit_nonzero [OF assms(1,3)] by (simp add: Parse_def)
qed

text \<open>
  A configuration file of the workspace: a reader of parsed files and a writer of records. When the
  reader takes back what the writer makes of the records it returned, so does parsing the printed text.
\<close>

locale conf_document =
  fixes lower :: "File \<Rightarrow> conf_error + 'a" and document :: "'a \<Rightarrow> File" and fits readable :: "'a \<Rightarrow> bool"
  assumes document_limits: "within_limits u f \<Longrightarrow> lower f = Inr x \<Longrightarrow> fits x \<Longrightarrow> within_limits u (document x)"
    and document_plain: "plain_file (document x) = document x" "f_Version (document x) = 0"
    and lower_document: "within_limits u f \<Longrightarrow> lower f = Inr x \<Longrightarrow>
      lower (document x) = (if readable x then Inr x else Inl SyntaxError)"
begin

definition read_document :: "unicode \<Rightarrow> rune list \<Rightarrow> conf_error + 'a" where
  "read_document u src = rbind (Parse u src) lower"

lemma document_roundtrip:
  assumes "read_document u src = Inr x" "fits x" "byte_len (Emit [] (document x)) \<le> MaxSourceBytes"
  shows "read_document u (Emit [] (document x)) = (if readable x then Inr x else Inl SyntaxError)"
proof -
  from assms(1) obtain f where f: "Parse u src = Inr f" "lower f = Inr x" by (auto simp: read_document_def result_simps)
  have limits: "within_limits u f" using Parse_within [OF f(1)] by simp
  have "Parse u (Emit [] (document x)) = Inr (document x)"
    using Parse_Emit [OF document_limits [OF limits f(2) assms(2)], of "[]"] assms(3)
    by (simp add: document_plain in_int64_def min_int64_def max_int64_def)
  then show ?thesis using lower_document [OF limits f(2)] by (simp add: read_document_def)
qed

end

lemma emit_plain: "emitStmt ind d (plain s) = emitStmt ind d s" "is_block (plain s) = is_block s"
proof (induction s arbitrary: d)
  case (Block name ident body)
  case 1
  show ?case using Block by (simp add: comp_def cong: map_cong)
next
  case (CallStmt c)
  case 1
  then show ?case by (cases c) simp
qed (simp_all add: is_block_def)

lemma emit_stmts_plain: "emit_stmts ind (map plain ss) = emit_stmts ind ss"
  by (induction ind ss rule: emit_stmts.induct) (simp_all add: emit_plain)

text \<open>
  C11. What the printer writes the parser reads back. A file that the parser accepted, printed with any
  indentation of blanks, parses to the same version and the same statements, up to the optional semicolons
  after calls, unless the printed text is beyond the size limit; and printing the result again gives the
  same text, so formatting is stable after one pass.
\<close>

theorem print_parse_roundtrip:
  assumes "Parse u src = Inr f" "list_all blank opt" "byte_len (Emit opt f) \<le> MaxSourceBytes"
  shows "Parse u (Emit opt f) = Inr (plain_file f) \<and> Emit opt (plain_file f) = Emit opt f"
  using Parse_Emit [of u f opt] Parse_within [OF assms(1)] assms(2,3)
  by (simp add: Emit_body emit_body_def plain_file_def emit_stmts_plain)


theorem print_parse_roundtrip_witness:
  "Parse ascii_only (Emit [32] sample_file) = Inr (plain_file sample_file) \<and> Emit [32] (plain_file sample_file) = Emit [32] sample_file"
  using print_parse_roundtrip [OF sample_parses _ sample_prints] by (simp add: blank_def)

end
