(* ===== verification/Workers_Conf.thy ===== *)
theory Workers_Conf
  imports Conf_Roundtrip "HOL-Library.AList"
begin

text \<open>
  The list of workers on disk (\<^verbatim>\<open>workspace/workers_conf.go\<close>): reading \<^verbatim>\<open>workers.conf\<close> into worker records and
  writing the records back, which \<^verbatim>\<open>kive worker collect\<close> does after it has measured memory and CPU.

  Texts are lists of code points, as in the theory of the configuration language. The map of tags is an
  association list sorted by key, the order in which the code prints it.
\<close>

section \<open>Records\<close>

record WorkerRecord =
  wr_Host :: "rune list"
  wr_Hostname :: "rune list"
  wr_Labels :: "rune list list"
  wr_Memory :: "rune list"
  wr_CPU :: "rune list"
  wr_Tags :: "(rune list \<times> rune list) list"
  wr_Position :: "int option"

definition empty_worker :: WorkerRecord where
  "empty_worker = \<lparr>wr_Host = [], wr_Hostname = [], wr_Labels = [], wr_Memory = [], wr_CPU = [], wr_Tags = [], wr_Position = None\<rparr>"

definition put_tag :: "rune list \<Rightarrow> 'v \<Rightarrow> (rune list \<times> 'v) list \<Rightarrow> (rune list \<times> 'v) list" where
  "put_tag k v tags = insort_key fst (k, v) (filter (\<lambda>p. fst p \<noteq> k) tags)"

definition isValidWorkerHost :: "rune list \<Rightarrow> bool" where
  "isValidWorkerHost host =
     (if host = [] \<or> byte_len host > 255 then False
      else list_all (\<lambda>r. 97 \<le> r \<and> r \<le> 122 \<or> 65 \<le> r \<and> r \<le> 90 \<or> 48 \<le> r \<and> r \<le> 57 \<or>
                         r = 46 \<or> r = 45 \<or> r = 95 \<or> r = 58) host)"

section \<open>Reading\<close>

definition lower_setting :: "WorkerRecord \<Rightarrow> Call \<Rightarrow> conf_error + WorkerRecord" where
  "lower_setting rec s =
     (if call_Name s = runes ''host'' then rbind (SingleStringArg s) (\<lambda>sv. Inr (rec\<lparr>wr_Host := sv\<rparr>))
      else if call_Name s = runes ''hostname'' then rbind (SingleStringArg s) (\<lambda>sv. Inr (rec\<lparr>wr_Hostname := sv\<rparr>))
      else if call_Name s = runes ''labels'' then rbind (AsStrings s) (\<lambda>sels. Inr (rec\<lparr>wr_Labels := sels\<rparr>))
      else if call_Name s = runes ''memory'' then rbind (SingleStringArg s) (\<lambda>sv. Inr (rec\<lparr>wr_Memory := sv\<rparr>))
      else if call_Name s = runes ''cpu'' then rbind (SingleStringArg s) (\<lambda>sv. Inr (rec\<lparr>wr_CPU := sv\<rparr>))
      else if call_Name s = runes ''position'' then rbind (SingleIntArg s) (\<lambda>n. Inr (rec\<lparr>wr_Position := Some n\<rparr>))
      else Inl SyntaxError)"

definition lower_tag :: "WorkerRecord \<Rightarrow> Stmt \<Rightarrow> conf_error + WorkerRecord" where
  "lower_tag rec s =
     (case s of
        Block n i b \<Rightarrow> Inl SyntaxError
      | CallStmt tc \<Rightarrow>
          rbind (SingleStringArg tc) (\<lambda>sv. Inr (rec\<lparr>wr_Tags := put_tag (call_Name tc) sv (wr_Tags rec)\<rparr>)))"

definition lower_stmt :: "WorkerRecord \<Rightarrow> Stmt \<Rightarrow> conf_error + WorkerRecord" where
  "lower_stmt rec s =
     (case s of
        CallStmt c \<Rightarrow> lower_setting rec c
      | Block name ident body \<Rightarrow>
          if name \<noteq> runes ''tags'' then Inl SyntaxError else rfold lower_tag rec body)"

definition lowerWorkerBlock :: "Stmt list \<Rightarrow> conf_error + WorkerRecord" where
  "lowerWorkerBlock body =
     rbind (rfold lower_stmt empty_worker body) (\<lambda>rec.
       if wr_Host rec = [] then Inl SyntaxError
       else if \<not> isValidWorkerHost (wr_Host rec) then Inl SyntaxError
       else if wr_Hostname rec \<noteq> [] \<and> \<not> isValidWorkerHost (wr_Hostname rec) then Inl SyntaxError
       else Inr rec)"

definition block_body :: "Stmt \<Rightarrow> Stmt list" where
  "block_body b = (case b of Block n i body \<Rightarrow> body | CallStmt c \<Rightarrow> [])"

definition lower_next :: "WorkerRecord list \<Rightarrow> Stmt \<Rightarrow> conf_error + WorkerRecord list" where
  "lower_next out b =
     rbind (lowerWorkerBlock (block_body b)) (\<lambda>rec.
       if wr_Host rec \<in> wr_Host ` set out then Inl SyntaxError else Inr (out @ [rec]))"

definition lower_workers :: "File \<Rightarrow> conf_error + WorkerRecord list" where
  "lower_workers f =
      (if list_ex (\<lambda>b. case b of Block n i body \<Rightarrow> n \<noteq> runes ''worker'' | _ \<Rightarrow> False) (block_stmts (f_Stmts f)) then Inl SyntaxError
       else if list_ex (\<lambda>s. \<not> is_block s) (f_Stmts f) then Inl SyntaxError
       else rfold lower_next [] (Blocks (runes ''worker'') f))"

definition ParseWorkersConf :: "unicode \<Rightarrow> rune list \<Rightarrow> conf_error + WorkerRecord list" where
  "ParseWorkersConf u src = rbind (Parse u src) lower_workers"

section \<open>Writing\<close>

definition string_call :: "string \<Rightarrow> rune list list \<Rightarrow> Stmt" where
  "string_call name args = CallStmt (Call (runes name) (map StringLit args) False)"

definition int_call :: "string \<Rightarrow> int \<Rightarrow> Stmt" where
  "int_call name n = CallStmt (Call (runes name) [Int_lit n] False)"

definition worker_body :: "WorkerRecord \<Rightarrow> Stmt list" where
  "worker_body w =
     [string_call ''host'' [wr_Host w]] @
     (if wr_Hostname w \<noteq> [] then [string_call ''hostname'' [wr_Hostname w]] else []) @
     (if wr_Labels w \<noteq> [] then [string_call ''labels'' (wr_Labels w)] else []) @
     (if wr_Memory w \<noteq> [] then [string_call ''memory'' [wr_Memory w]] else []) @
     (if wr_CPU w \<noteq> [] then [string_call ''cpu'' [wr_CPU w]] else []) @
     (case wr_Position w of None \<Rightarrow> [] | Some p \<Rightarrow> [int_call ''position'' p]) @
     (if wr_Tags w \<noteq> []
      then [Block (runes ''tags'') [] (map (\<lambda>p. CallStmt (Call (fst p) [StringLit (snd p)] False)) (sort_key fst (wr_Tags w)))]
      else [])"

definition workers_file :: "WorkerRecord list \<Rightarrow> File" where
  "workers_file ws = \<lparr>f_Version = 0, f_Stmts = map (\<lambda>w. Block (runes ''worker'') [] (worker_body w)) ws\<rparr>"

definition EmitWorkersConf :: "WorkerRecord list \<Rightarrow> rune list" where
  "EmitWorkersConf ws = Emit [] (workers_file ws)"

section \<open>What was read can be written\<close>

definition tags_ok :: "unicode \<Rightarrow> (rune list \<times> rune list) list \<Rightarrow> bool" where
  "tags_ok u tags \<longleftrightarrow> sorted (map fst tags) \<and> distinct (map fst tags) \<and> list_all (\<lambda>p. ident_ok u (fst p) \<and> string_ok (snd p)) tags"

definition worker_ok :: "unicode \<Rightarrow> WorkerRecord \<Rightarrow> bool" where
  "worker_ok u w \<longleftrightarrow>
     string_ok (wr_Host w) \<and> string_ok (wr_Hostname w) \<and> list_all string_ok (wr_Labels w) \<and> length (wr_Labels w) \<le> MaxArgs \<and>
     string_ok (wr_Memory w) \<and> string_ok (wr_CPU w) \<and> tags_ok u (wr_Tags w) \<and>
     (case wr_Position w of None \<Rightarrow> True | Some p \<Rightarrow> in_int64 p)"

lemma AsString_ok: "AsString v = Inr s \<Longrightarrow> value_ok u v \<Longrightarrow> string_ok s"
  by (cases v) (auto simp: AsString_def string_ok_def ident_ok_def MaxIdentBytes_def MaxStringBytes_def dest: isIdentPart_nonzero)

lemma SingleStringArg_ok: "SingleStringArg c = Inr s \<Longrightarrow> call_ok u c \<Longrightarrow> string_ok s"
  by (cases c; cases "call_Args c") (auto simp: SingleStringArg_def dest: AsString_ok split: if_splits)

lemma AsStrings_ok: "AsStrings c = Inr ss \<Longrightarrow> call_ok u c \<Longrightarrow> list_all string_ok ss \<and> length ss \<le> MaxArgs"
proof -
  assume a: "AsStrings c = Inr ss" "call_ok u c"
  have "list_all2 (\<lambda>v s. AsString v = Inr s) (call_Args c) ss" using a(1) by (simp add: AsStrings_def rmap_eq_Inr)
  moreover have "list_all (value_ok u) (call_Args c)" "length (call_Args c) \<le> MaxArgs" using a(2) by (cases c; simp)+
  moreover from calculation have "string_ok (ss ! i)" if "i < length ss" for i
    using that AsString_ok [of "call_Args c ! i" "ss ! i" u] by (simp add: list_all2_conv_all_nth list_all_length)
  ultimately show ?thesis by (simp add: list_all2_conv_all_nth list_all_length)
qed

lemma AsInt_ok: "AsInt v = Inr n \<Longrightarrow> value_ok u v \<Longrightarrow> in_int64 n"
  by (cases v) (auto simp: AsInt_def parseNumberLit_def bind_eq_Some_conv split: option.splits if_splits dest: Atoi_in_int64)

lemma SingleIntArg_ok: "SingleIntArg c = Inr n \<Longrightarrow> call_ok u c \<Longrightarrow> in_int64 n"
  by (cases c; cases "call_Args c") (auto simp: SingleIntArg_def dest: AsInt_ok split: if_splits)

lemma distinct_insort_keys: "distinct (map f (insort_key f x xs)) \<longleftrightarrow> f x \<notin> f ` set xs \<and> distinct (map f xs)"
  by (induction xs) (auto simp: set_insort_key)

lemma put_tag_ok: "tags_ok u tags \<Longrightarrow> ident_ok u k \<Longrightarrow> string_ok v \<Longrightarrow> tags_ok u (put_tag k v tags)"
proof -
  assume t: "tags_ok u tags" "ident_ok u k" "string_ok v"
  have "sorted (map fst (filter (\<lambda>p. fst p \<noteq> k) tags))" "distinct (map fst (filter (\<lambda>p. fst p \<noteq> k) tags))"
    using t(1) by (auto simp: tags_ok_def intro: sorted_filter distinct_map_filter)
  moreover have "k \<notin> fst ` set (filter (\<lambda>p. fst p \<noteq> k) tags)" by auto
  ultimately show ?thesis
    using t by (simp add: tags_ok_def put_tag_def sorted_insort_key set_insort_key list_all_iff distinct_insort_keys)
qed

lemma lower_tag_ok: "lower_tag w s = Inr w' \<Longrightarrow> stmt_ok u s \<Longrightarrow> worker_ok u w \<Longrightarrow> worker_ok u w'"
proof (cases s)
  case (CallStmt c)
  assume a: "lower_tag w s = Inr w'" "stmt_ok u s" "worker_ok u w"
  from a(1) CallStmt obtain sv where sv: "SingleStringArg c = Inr sv" "w' = w\<lparr>wr_Tags := put_tag (call_Name c) sv (wr_Tags w)\<rparr>"
    by (auto simp: lower_tag_def result_simps)
  have c: "call_ok u c" using a(2) CallStmt by simp
  then have "ident_ok u (call_Name c)" by (cases c) simp
  with sv put_tag_ok SingleStringArg_ok [OF sv(1) c] a(3) show ?thesis by (simp add: worker_ok_def)
qed (simp add: lower_tag_def)

lemma lower_setting_ok: "lower_setting w c = Inr w' \<Longrightarrow> call_ok u c \<Longrightarrow> worker_ok u w \<Longrightarrow> worker_ok u w'"
  by (auto simp: lower_setting_def worker_ok_def result_simps split: if_splits
      dest: SingleStringArg_ok AsStrings_ok SingleIntArg_ok)

lemma lower_stmt_ok:
  assumes "lower_stmt w s = Inr w'" "stmt_ok u s" "worker_ok u w"
  shows "worker_ok u w'"
proof (cases s)
  case (CallStmt c)
  with assms show ?thesis by (auto simp: lower_stmt_def intro: lower_setting_ok)
next
  case (Block name ident body)
  with assms have r: "rfold lower_tag w body = Inr w'" "list_all (stmt_ok u) body" by (auto simp: lower_stmt_def split: if_splits)
  show ?thesis
    by (rule rfold_invariant [OF r(1), where P = "worker_ok u"]) (use assms(3) r(2) lower_tag_ok in \<open>auto simp: list_all_iff\<close>)
qed

lemma lowerWorkerBlock_ok:
  assumes "lowerWorkerBlock body = Inr w" "list_all (stmt_ok u) body"
  shows "worker_ok u w \<and> isValidWorkerHost (wr_Host w) \<and> (wr_Hostname w = [] \<or> isValidWorkerHost (wr_Hostname w))"
proof -
  from assms(1) have r: "rfold lower_stmt empty_worker body = Inr w"
    "isValidWorkerHost (wr_Host w) \<and> (wr_Hostname w = [] \<or> isValidWorkerHost (wr_Hostname w))"
    by (auto simp: lowerWorkerBlock_def result_simps split: if_splits)
  have "worker_ok u empty_worker" by (simp add: worker_ok_def empty_worker_def string_ok_def tags_ok_def)
  then have "worker_ok u w"
    by (rule rfold_invariant [OF r(1)]) (use assms(2) lower_stmt_ok in \<open>auto simp: list_all_iff\<close>)
  with r(2) show ?thesis by simp
qed

text \<open>What a successful parse says of the records.\<close>

definition workers_ok :: "unicode \<Rightarrow> WorkerRecord list \<Rightarrow> bool" where
  "workers_ok u ws \<longleftrightarrow> distinct (map wr_Host ws) \<and>
     (\<forall>w \<in> set ws. worker_ok u w \<and> isValidWorkerHost (wr_Host w) \<and> (wr_Hostname w = [] \<or> isValidWorkerHost (wr_Hostname w)))"

lemma lower_workers_ok:
  assumes "lower_workers f = Inr ws" "within_limits u f"
  shows "workers_ok u ws"
proof -
  from assms(1) have f: "rfold lower_next [] (Blocks (runes ''worker'') f) = Inr ws"
    by (auto simp: lower_workers_def split: if_splits)
  have ok: "stmt_ok u b" if "b \<in> set (Blocks (runes ''worker'') f)" for b
    using that assms(2) by (auto simp: within_limits_def Blocks_def list_all_iff)
  show ?thesis
  proof (rule rfold_invariant [OF f, where P = "workers_ok u"])
    fix out b out'
    assume b: "b \<in> set (Blocks (runes ''worker'') f)" "workers_ok u out" "lower_next out b = Inr out'"
    then obtain w where w: "lowerWorkerBlock (block_body b) = Inr w" "wr_Host w \<notin> wr_Host ` set out" "out' = out @ [w]"
      by (auto simp: lower_next_def result_simps split: if_splits)
    have "list_all (stmt_ok u) (block_body b)" using ok [OF b(1)] by (cases b) (simp_all add: block_body_def)
    from lowerWorkerBlock_ok [OF w(1) this] w b(2) show "workers_ok u out'" by (auto simp: workers_ok_def)
  qed (simp add: workers_ok_def)
qed

section \<open>What was written can be read\<close>

lemma string_call_setting:
  "SingleStringArg (Call name [StringLit s] b) = Inr s" "AsStrings (Call name (map StringLit ss) b) = Inr ss"
proof -
  show "SingleStringArg (Call name [StringLit s] b) = Inr s" by (simp add: SingleStringArg_def AsString_def)
  have "rmap AsString (map StringLit ss) = Inr ss"
    by (induction ss) (simp_all add: AsString_def)
  then show "AsStrings (Call name (map StringLit ss) b) = Inr ss" by (simp add: AsStrings_def)
qed

lemma insort_last: "\<forall>p \<in> set acc. fst p < k \<Longrightarrow> insort_key fst (k, v) acc = acc @ [(k :: rune list, v)]"
  by (induction acc) auto

lemma put_tag_last:
  assumes "sorted (map fst (acc @ p # rest))" "distinct (map fst (acc @ p # rest))"
  shows "put_tag (fst p) (snd p) acc = acc @ [p]"
proof -
  have lt: "\<forall>q \<in> set acc. fst q < fst p"
  proof
    fix q
    assume q: "q \<in> set acc"
    have "fst p \<notin> fst ` set acc" using assms(2) by simp
    moreover have "fst q \<in> fst ` set acc" using q by (rule imageI)
    ultimately have "fst q \<noteq> fst p" by metis
    moreover have "fst q \<le> fst p" using q assms(1) by (simp add: sorted_append)
    ultimately show "fst q < fst p" by simp
  qed
  then have "filter (\<lambda>q. fst q \<noteq> fst p) acc = acc" by (auto simp: filter_id_conv)
  then show ?thesis using insort_last [OF lt, of "snd p"] by (simp add: put_tag_def)
qed

lemma lower_tags:
  "sorted (map fst (acc @ tags)) \<Longrightarrow> distinct (map fst (acc @ tags)) \<Longrightarrow>
     rfold lower_tag (w\<lparr>wr_Tags := acc\<rparr>) (map (\<lambda>p. CallStmt (Call (fst p) [StringLit (snd p)] False)) tags) = Inr (w\<lparr>wr_Tags := acc @ tags\<rparr>)"
proof (induction tags arbitrary: acc)
  case (Cons p tags)
  have "put_tag (fst p) (snd p) acc = acc @ [p]" using Cons.prems by (rule put_tag_last)
  then have "lower_tag (w\<lparr>wr_Tags := acc\<rparr>) (CallStmt (Call (fst p) [StringLit (snd p)] False)) = Inr (w\<lparr>wr_Tags := acc @ [p]\<rparr>)"
    by (simp add: lower_tag_def string_call_setting)
  moreover have "rfold lower_tag (w\<lparr>wr_Tags := acc @ [p]\<rparr>) (map (\<lambda>p. CallStmt (Call (fst p) [StringLit (snd p)] False)) tags) =
      Inr (w\<lparr>wr_Tags := (acc @ [p]) @ tags\<rparr>)"
    using Cons.prems by (intro Cons.IH) simp_all
  ultimately show ?case by simp
qed simp

definition position_readable :: "WorkerRecord \<Rightarrow> bool" where
  "position_readable w \<longleftrightarrow> (case wr_Position w of None \<Rightarrow> True | Some p \<Rightarrow> - 1 \<le> p)"

lemma int_call_setting:
  "in_int64 p \<Longrightarrow> SingleIntArg (Call name [Int_lit p] b) = (if - 1 \<le> p then Inr p else Inl SyntaxError)"
  by (auto simp: SingleIntArg_def AsInt_def Int_lit_def in_int64_def)

lemma lower_written:
  assumes "worker_ok u w"
  shows "rfold lower_stmt empty_worker (worker_body w) = (if position_readable w then Inr w else Inl SyntaxError)"
proof -
  have tags: "sorted (map fst (wr_Tags w))" "distinct (map fst (wr_Tags w))" "sort_key fst (wr_Tags w) = wr_Tags w"
    using assms by (auto simp: worker_ok_def tags_ok_def sort_key_id_if_sorted)
  have p: "wr_Position w = Some p \<Longrightarrow> in_int64 p" for p using assms by (simp add: worker_ok_def)
  define w0 where "w0 = w\<lparr>wr_Tags := [], wr_Position := None\<rparr>"
  let ?settings = "[string_call ''host'' [wr_Host w]] @
     (if wr_Hostname w \<noteq> [] then [string_call ''hostname'' [wr_Hostname w]] else []) @
     (if wr_Labels w \<noteq> [] then [string_call ''labels'' (wr_Labels w)] else []) @
     (if wr_Memory w \<noteq> [] then [string_call ''memory'' [wr_Memory w]] else []) @
     (if wr_CPU w \<noteq> [] then [string_call ''cpu'' [wr_CPU w]] else [])"
  have s: "rfold lower_stmt empty_worker ?settings = Inr w0"
    by (simp add: rfold_append lower_stmt_def string_call_def lower_setting_def string_call_setting empty_worker_def w0_def)
  let ?pos = "case wr_Position w of None \<Rightarrow> [] | Some p \<Rightarrow> [int_call ''position'' p]"
  have ps: "rfold lower_stmt w0 ?pos = (if position_readable w then Inr (w\<lparr>wr_Tags := []\<rparr>) else Inl SyntaxError)"
    using p by (auto simp: position_readable_def lower_stmt_def int_call_def lower_setting_def int_call_setting w0_def split: option.splits)
  let ?tags = "if wr_Tags w \<noteq> []
      then [Block (runes ''tags'') [] (map (\<lambda>p. CallStmt (Call (fst p) [StringLit (snd p)] False)) (sort_key fst (wr_Tags w)))] else []"
  have t: "rfold lower_stmt (w\<lparr>wr_Tags := []\<rparr>) ?tags = Inr w"
    using lower_tags [of "[]" "wr_Tags w" w] tags by (simp add: lower_stmt_def)
  have "worker_body w = ?settings @ ?pos @ ?tags" by (simp add: worker_body_def)
  then show ?thesis using s ps t by (simp only: rfold_append rbind_Inr) (simp only: if_distrib [of "\<lambda>r. rbind r f" for f] rbind_Inr rbind_Inl t)
qed

subsection \<open>The written file respects the limits of the language\<close>

lemma keyword_ident:
  "ident_ok u (runes ''worker'')" "ident_ok u (runes ''host'')" "ident_ok u (runes ''hostname'')" "ident_ok u (runes ''labels'')"
  "ident_ok u (runes ''memory'')" "ident_ok u (runes ''cpu'')" "ident_ok u (runes ''position'')" "ident_ok u (runes ''tags'')"
  by (simp_all add: ident_ok_def runes_def isIdentStart_def isIdentPart_def IsLetter_def IsDigit_def RuneLen_def MaxIdentBytes_def)

lemma Itoa_literal:
  assumes "in_int64 n"
  shows "value_ok u (Int_lit n)"
proof -
  define sign where "sign = (if n < 0 then ''-'' else [])"
  define m where "m = nat (abs n)"
  have s: "Itoa n = sign @ show_nat m" "sign \<in> {[], ''-''}" by (simp_all add: Itoa_def sign_def m_def)
  have d: "list_all (IsDigit u) (runes (show_nat m))" "runes (show_nat m) \<noteq> []"
    using show_nat_digits [of m] by (auto simp: list_all_iff runes_def intro: of_char_digit)
  have "runes (Itoa n) = runes sign @ runes (show_nat m) @ []" "runes sign \<in> {[], [45]}" using s by (auto simp: runes_def)
  with d have "number_ok u (runes (Itoa n))" unfolding number_ok_def by blast
  moreover have "ascii (runes (Itoa n)) = Some (Itoa n)"
    using s show_nat_digits [of m] by (intro ascii_runes) (auto simp: list_all_iff is_digit_def)
  moreover have "46 \<notin> set (runes (Itoa n))"
    using s show_nat_digits [of m] by (auto simp: list_all_iff is_digit_def runes_def)
  ultimately show ?thesis using Atoi_Itoa [OF assms] by (simp add: Int_lit_def parseNumberLit_def)
qed

definition stmt_fits :: "unicode \<Rightarrow> nat \<Rightarrow> Stmt \<Rightarrow> bool" where
  "stmt_fits u d s \<longleftrightarrow> stmt_ok u s \<and> stmt_depth s \<le> d \<and> plain s = s"

lemma string_call_fits:
  "ident_ok u name \<Longrightarrow> length args \<le> MaxArgs \<Longrightarrow> list_all string_ok args \<Longrightarrow>
     stmt_fits u 1 (CallStmt (Call name (map StringLit args) False))"
  by (simp add: stmt_fits_def list_all_iff fold_max_le [of _ 0 0, simplified])

lemma single_call_fits: "ident_ok u name \<Longrightarrow> string_ok s \<Longrightarrow> stmt_fits u 1 (CallStmt (Call name [StringLit s] False))"
  using string_call_fits [of u name "[s]"] by (simp add: MaxArgs_def)

lemma block_fits: "ident_ok u name \<Longrightarrow> list_all (stmt_fits u d) body \<Longrightarrow> stmt_fits u (Suc d) (Block name [] body)"
  by (simp add: stmt_fits_def list_all_iff fold_max_le map_idI)

lemma stmt_fits_mono: "stmt_fits u d s \<Longrightarrow> d \<le> d' \<Longrightarrow> stmt_fits u d' s"
  by (simp add: stmt_fits_def)

lemma tags_block_fits:
  assumes "tags_ok u tags"
  shows "stmt_fits u 2 (Block (runes ''tags'') [] (map (\<lambda>p. CallStmt (Call (fst p) [StringLit (snd p)] False)) (sort_key fst tags)))"
  using assms block_fits [OF keyword_ident(8), of u 1] single_call_fits
  by (simp add: tags_ok_def list_all_iff numeral_2_eq_2)

lemma worker_body_fits:
  assumes "worker_ok u w" "s \<in> set (worker_body w)"
  shows "stmt_fits u 2 s"
proof -
  have one: "stmt_fits u 1 s \<Longrightarrow> stmt_fits u 2 s" by (simp add: stmt_fits_def)
  have pos: "in_int64 p \<Longrightarrow> stmt_fits u 1 (int_call ''position'' p)" for p
    using Itoa_literal [of p u] keyword_ident(7) by (simp add: stmt_fits_def int_call_def MaxArgs_def Int_lit_def)
  note fits = string_call_fits [unfolded One_nat_def] single_call_fits [unfolded One_nat_def] keyword_ident
  from assms consider
      "s \<in> {string_call ''host'' [wr_Host w], string_call ''hostname'' [wr_Hostname w], string_call ''labels'' (wr_Labels w),
        string_call ''memory'' [wr_Memory w], string_call ''cpu'' [wr_CPU w]}"
    | p where "wr_Position w = Some p" "s = int_call ''position'' p"
    | "s = Block (runes ''tags'') [] (map (\<lambda>p. CallStmt (Call (fst p) [StringLit (snd p)] False)) (sort_key fst (wr_Tags w)))"
    by (cases "wr_Position w") (simp_all add: worker_body_def split: if_splits, blast+)
  then show ?thesis
  proof cases
    case 1
    with assms(1) show ?thesis by (intro one) (auto simp: worker_ok_def string_call_def intro!: fits)
  next
    case 2
    with assms(1) show ?thesis by (intro one) (simp add: worker_ok_def pos [unfolded One_nat_def])
  next
    case 3
    with assms(1) show ?thesis by (simp add: worker_ok_def tags_block_fits)
  qed
qed

lemma workers_file_fits:
  assumes "workers_ok u ws" "sum_list (map stmt_count (f_Stmts (workers_file ws))) \<le> MaxStatements"
  shows "within_limits u (workers_file ws)" "plain_file (workers_file ws) = workers_file ws"
proof -
  have "stmt_fits u 3 (Block (runes ''worker'') [] (worker_body w))" if "w \<in> set ws" for w
    using block_fits [OF keyword_ident(1), of u 2 "worker_body w"] worker_body_fits [of u w] that assms(1)
    by (simp add: workers_ok_def list_all_iff numeral_3_eq_3 numeral_2_eq_2)
  then have fits: "list_all (stmt_fits u 3) (f_Stmts (workers_file ws))" by (simp add: workers_file_def list_all_iff)
  then have "list_all (\<lambda>s. stmt_depth s \<le> MaxNestingDepth) (f_Stmts (workers_file ws))"
    by (auto simp: list_all_iff stmt_fits_def MaxNestingDepth_def)
  with fits assms(2) show "within_limits u (workers_file ws)"
    by (simp add: within_limits_def list_all_iff stmt_fits_def) (simp add: workers_file_def)
  show "plain_file (workers_file ws) = workers_file ws"
    using fits by (simp add: plain_file_def list_all_iff stmt_fits_def map_idI)
qed

subsection \<open>The written file has no more statements than the one that was read\<close>

lemma rfold_measure:
  fixes m :: "'a \<Rightarrow> nat"
  assumes "\<And>a x b. f a x = Inr b \<Longrightarrow> m b \<le> m a + c x"
  shows "rfold f a xs = Inr b \<Longrightarrow> m b \<le> m a + sum_list (map c xs)"
proof (induction xs arbitrary: a)
  case (Cons x xs)
  then obtain a' where "f a x = Inr a'" "rfold f a' xs = Inr b" by (auto simp: result_simps)
  with assms [of a x a'] Cons.IH [of a'] show ?case by simp
qed simp

definition settings_count :: "WorkerRecord \<Rightarrow> nat" where
  "settings_count w =
     of_bool (wr_Host w \<noteq> []) + of_bool (wr_Hostname w \<noteq> []) + of_bool (wr_Labels w \<noteq> []) + of_bool (wr_Memory w \<noteq> []) +
     of_bool (wr_CPU w \<noteq> []) + of_bool (wr_Position w \<noteq> None) + (if wr_Tags w = [] then 0 else Suc (length (wr_Tags w)))"

lemma settings_count_update:
  "settings_count (w\<lparr>wr_Host := s\<rparr>) \<le> settings_count w + 1" "settings_count (w\<lparr>wr_Hostname := s\<rparr>) \<le> settings_count w + 1"
  "settings_count (w\<lparr>wr_Labels := ss\<rparr>) \<le> settings_count w + 1" "settings_count (w\<lparr>wr_Memory := s\<rparr>) \<le> settings_count w + 1"
  "settings_count (w\<lparr>wr_CPU := s\<rparr>) \<le> settings_count w + 1" "settings_count (w\<lparr>wr_Position := p\<rparr>) \<le> settings_count w + 1"
  by (simp_all add: settings_count_def)

lemma put_tag_length: "length (put_tag k v tags) \<le> length tags + 1"
  by (simp add: put_tag_def)

lemma lower_tag_count:
  assumes "lower_tag w s = Inr w'"
  shows "length (wr_Tags w') \<le> length (wr_Tags w) + stmt_count s \<and> w'\<lparr>wr_Tags := []\<rparr> = w\<lparr>wr_Tags := []\<rparr>"
  using assms put_tag_length by (auto simp: lower_tag_def result_simps split: Stmt.splits)

lemma lower_setting_count: "lower_setting w c = Inr w' \<Longrightarrow> settings_count w' \<le> settings_count w + 1"
  by (auto simp: lower_setting_def result_simps intro: settings_count_update [simplified] split: if_splits)

lemma lower_stmt_count:
  assumes "lower_stmt w s = Inr w'"
  shows "settings_count w' \<le> settings_count w + stmt_count s"
proof (cases s)
  case (CallStmt c)
  with assms show ?thesis by (auto simp: lower_stmt_def dest: lower_setting_count)
next
  case (Block name ident body)
  with assms have r: "rfold lower_tag w body = Inr w'" by (auto simp: lower_stmt_def split: if_splits)
  have l: "length (wr_Tags w') \<le> length (wr_Tags w) + sum_list (map stmt_count body)"
    by (rule rfold_measure [OF _ r]) (simp add: lower_tag_count)
  have "w'\<lparr>wr_Tags := []\<rparr> = w\<lparr>wr_Tags := []\<rparr>"
    by (rule rfold_invariant [OF r, where P = "\<lambda>v. v\<lparr>wr_Tags := []\<rparr> = w\<lparr>wr_Tags := []\<rparr>"]) (simp_all add: lower_tag_count)
  then have "settings_count (w'\<lparr>wr_Tags := []\<rparr>) = settings_count (w\<lparr>wr_Tags := []\<rparr>)" by simp
  then show ?thesis using l Block by (cases "wr_Tags w = []"; cases "wr_Tags w' = []") (simp_all add: settings_count_def)
qed

lemma worker_body_count: "wr_Host w \<noteq> [] \<Longrightarrow> sum_list (map stmt_count (worker_body w)) = settings_count w"
  by (simp add: worker_body_def settings_count_def string_call_def int_call_def comp_def sum_list_triv split: option.splits)

lemma lowerWorkerBlock_count:
  assumes "lowerWorkerBlock body = Inr w"
  shows "sum_list (map stmt_count (worker_body w)) \<le> sum_list (map stmt_count body)"
proof -
  from assms have r: "rfold lower_stmt empty_worker body = Inr w" "wr_Host w \<noteq> []"
    by (auto simp: lowerWorkerBlock_def result_simps split: if_splits)
  have "settings_count empty_worker = 0" by (simp add: settings_count_def empty_worker_def)
  moreover have "settings_count w \<le> settings_count empty_worker + sum_list (map stmt_count body)"
    by (rule rfold_measure [OF _ r(1)]) (rule lower_stmt_count)
  ultimately show ?thesis using worker_body_count [OF r(2)] by simp
qed

definition block_count :: "WorkerRecord list \<Rightarrow> nat" where
  "block_count ws = sum_list (map stmt_count (f_Stmts (workers_file ws)))"

lemma lower_next_count:
  assumes "lower_next out b = Inr out'"
  shows "block_count out' \<le> block_count out + stmt_count b"
proof -
  from assms obtain w where w: "lowerWorkerBlock (block_body b) = Inr w" "out' = out @ [w]"
    by (auto simp: lower_next_def result_simps split: if_splits)
  have "wr_Host w \<noteq> []" using w(1) by (auto simp: lowerWorkerBlock_def result_simps split: if_splits)
  then have "block_body b \<noteq> []" using w(1) by (auto simp: lowerWorkerBlock_def empty_worker_def)
  then show ?thesis using lowerWorkerBlock_count [OF w(1)] w(2)
    by (cases b) (simp_all add: block_count_def workers_file_def block_body_def)
qed

lemma lower_workers_count:
  assumes "lower_workers f = Inr ws" "within_limits u f"
  shows "block_count ws \<le> MaxStatements"
proof -
  from assms(1) have f: "rfold lower_next [] (Blocks (runes ''worker'') f) = Inr ws"
    by (auto simp: lower_workers_def split: if_splits)
  have "block_count ws \<le> block_count [] + sum_list (map stmt_count (Blocks (runes ''worker'') f))"
    by (rule rfold_measure [OF _ f]) (rule lower_next_count)
  also have "\<dots> \<le> sum_list (map stmt_count (f_Stmts f))"
    by (simp add: block_count_def workers_file_def Blocks_def sum_list_filter_le_nat)
  also have "\<dots> \<le> MaxStatements" using assms(2) by (simp add: within_limits_def)
  finally show ?thesis .
qed

section \<open>The round trip\<close>

lemma lowerWorkerBlock_written:
  assumes "worker_ok u w" "isValidWorkerHost (wr_Host w)" "wr_Hostname w = [] \<or> isValidWorkerHost (wr_Hostname w)"
  shows "lowerWorkerBlock (worker_body w) = (if position_readable w then Inr w else Inl SyntaxError)"
proof -
  have "wr_Host w \<noteq> []" using assms(2) by (auto simp: isValidWorkerHost_def)
  with lower_written [OF assms(1)] assms(2,3) show ?thesis by (auto simp: lowerWorkerBlock_def)
qed

lemma lower_blocks_written:
  "workers_ok u (out @ ws) \<Longrightarrow>
     rfold lower_next out (map (\<lambda>w. Block (runes ''worker'') [] (worker_body w)) ws) =
       (if list_all position_readable ws then Inr (out @ ws) else Inl SyntaxError)"
proof (induction ws arbitrary: out)
  case (Cons w ws)
  have w: "lowerWorkerBlock (worker_body w) = (if position_readable w then Inr w else Inl SyntaxError)"
    using Cons.prems by (intro lowerWorkerBlock_written) (auto simp: workers_ok_def)
  have "wr_Host w \<notin> wr_Host ` set out" using Cons.prems by (simp add: workers_ok_def)
  then have "lower_next out (Block (runes ''worker'') [] (worker_body w)) = (if position_readable w then Inr (out @ [w]) else Inl SyntaxError)"
    using w by (simp add: lower_next_def block_body_def)
  then show ?case using Cons.IH [of "out @ [w]"] Cons.prems by simp
qed simp

interpretation workers_conf: conf_document lower_workers workers_file "\<lambda>_. True" "list_all position_readable"
proof
  fix u f x
  assume f: "within_limits u f" "lower_workers f = Inr x"
  note ok = lower_workers_ok [OF f(2,1)]
  show "within_limits u (workers_file x)"
    using workers_file_fits(1) [OF ok lower_workers_count [OF f(2,1), unfolded block_count_def]] .
  have "Blocks (runes ''worker'') (workers_file x) = f_Stmts (workers_file x)"
    "block_stmts (f_Stmts (workers_file x)) = f_Stmts (workers_file x)"
    by (simp_all add: Blocks_def block_stmts_def workers_file_def is_block_def filter_id_conv)
  then show "lower_workers (workers_file x) = (if list_all position_readable x then Inr x else Inl SyntaxError)"
    using lower_blocks_written [of u "[]" x] ok
    by (simp add: lower_workers_def list_ex_iff) (simp add: workers_file_def is_block_def)
next
  fix x
  show "plain_file (workers_file x) = workers_file x" "f_Version (workers_file x) = 0"
    by (simp_all add: plain_file_def workers_file_def worker_body_def string_call_def int_call_def split: option.split)
qed

text \<open>
  C38. Collecting facts keeps the list of workers. The records read from a file, written by
  \<^verbatim>\<open>EmitWorkersConf\<close> into a text within the size limit, are read back unchanged and in the same order,
  whatever the layout, the quoting and the order of settings in the original file were. The one
  exception is a position below minus one, which can be given as a quoted string: it is written as a number
  that the reader refuses, and then the whole file is refused.
\<close>

theorem workers_roundtrip:
  assumes "ParseWorkersConf u src = Inr ws" "byte_len (EmitWorkersConf ws) \<le> MaxSourceBytes"
  shows "ParseWorkersConf u (EmitWorkersConf ws) = (if list_all position_readable ws then Inr ws else Inl SyntaxError)"
  using workers_conf.document_roundtrip [of u src ws] assms
  by (simp add: workers_conf.read_document_def ParseWorkersConf_def EmitWorkersConf_def)

text \<open>Two files: one with every kind of setting, and one whose position is a quoted negative number.\<close>

definition sample_worker :: WorkerRecord where
  "sample_worker = \<lparr>wr_Host = runes ''10.0.0.1'', wr_Hostname = runes ''a1'', wr_Labels = [runes ''web'', runes ''db''], wr_Memory = runes ''4 GB'',
     wr_CPU = [], wr_Tags = [(runes ''rack'', runes ''7''), (runes ''zone'', runes ''x'')], wr_Position = Some 3\<rparr>"

definition sample_workers :: File where
  "sample_workers = \<lparr>f_Version = 0, f_Stmts =
     [Block (runes ''worker'') []
       [Block (runes ''tags'') [] [string_call ''zone'' [runes ''x''], string_call ''rack'' [runes ''7'']],
        int_call ''position'' 3, string_call ''memory'' [runes ''4 GB''], string_call ''labels'' [runes ''web'', runes ''db''],
        string_call ''host'' [runes ''10.0.0.1''], string_call ''hostname'' [runes ''a1'']]]\<rparr>"

definition negative_workers :: File where
  "negative_workers = \<lparr>f_Version = 0, f_Stmts =
     [Block (runes ''worker'') [] [string_call ''host'' [runes ''10.0.0.1''], string_call ''position'' [runes ''-5'']]]\<rparr>"

definition negative_worker :: WorkerRecord where
  "negative_worker = empty_worker\<lparr>wr_Host := runes ''10.0.0.1'', wr_Position := Some (- 5)\<rparr>"

lemmas sample_eval = runes_def ident_ok_def isIdentStart_def isIdentPart_def ascii_only_class RuneLen_def MaxIdentBytes_def MaxArgs_def
  MaxNestingDepth_def MaxStatements_def MaxStringBytes_def MaxSourceBytes_def string_ok_def byte_len_def string_call_def int_call_def
  Emit_body emit_body_def escapeString_def escape_rune_def indent_def in_int64_def min_int64_def max_int64_def

lemma sample_workers_parse:
  "Parse ascii_only (Emit [] sample_workers) = Inr sample_workers" "Parse ascii_only (Emit [] negative_workers) = Inr negative_workers"
proof -
  have "value_ok ascii_only (Int_lit 3)" by (rule Itoa_literal) (simp add: in_int64_def min_int64_def max_int64_def)
  then have "within_limits ascii_only sample_workers" "in_int64 (f_Version sample_workers)"
    by (simp_all add: within_limits_def sample_workers_def Int_lit_def sample_eval)
  moreover have "byte_len (Emit [] sample_workers) \<le> MaxSourceBytes"
    by (simp add: sample_workers_def Int_lit_def Itoa_def show_nat.simps sample_eval)
  moreover have "plain_file sample_workers = sample_workers" by (simp add: plain_file_def sample_workers_def string_call_def int_call_def)
  ultimately show "Parse ascii_only (Emit [] sample_workers) = Inr sample_workers"
    using Parse_Emit [of ascii_only sample_workers "[]"] by simp
  have "within_limits ascii_only negative_workers" "in_int64 (f_Version negative_workers)"
    by (simp_all add: within_limits_def negative_workers_def sample_eval)
  moreover have "byte_len (Emit [] negative_workers) \<le> MaxSourceBytes" by (simp add: negative_workers_def sample_eval)
  moreover have "plain_file negative_workers = negative_workers" by (simp add: plain_file_def negative_workers_def string_call_def)
  ultimately show "Parse ascii_only (Emit [] negative_workers) = Inr negative_workers"
    using Parse_Emit [of ascii_only negative_workers "[]"] by simp
qed

lemma sample_workers_lower:
  "ParseWorkersConf ascii_only (Emit [] sample_workers) = Inr [sample_worker]"
  "ParseWorkersConf ascii_only (Emit [] negative_workers) = Inr [negative_worker]"
proof -
  have h: "isValidWorkerHost (runes ''10.0.0.1'')" "isValidWorkerHost (runes ''a1'')"
    by (simp_all add: isValidWorkerHost_def runes_def RuneLen_def)
  have t: "put_tag (runes ''rack'') (runes ''7'') (put_tag (runes ''zone'') (runes ''x'') []) = [(runes ''rack'', runes ''7''), (runes ''zone'', runes ''x'')]"
    by (simp add: put_tag_def runes_def)
  have "rfold lower_stmt empty_worker (block_body (hd (f_Stmts sample_workers))) = Inr sample_worker"
    by (simp add: sample_workers_def block_body_def lower_stmt_def lower_tag_def lower_setting_def string_call_def int_call_def SingleStringArg_def
        AsString_def AsStrings_def int_call_setting in_int64_def min_int64_def max_int64_def empty_worker_def sample_worker_def t)
  then show "ParseWorkersConf ascii_only (Emit [] sample_workers) = Inr [sample_worker]"
    using h by (simp add: ParseWorkersConf_def lower_workers_def sample_workers_parse lowerWorkerBlock_def lower_next_def)
      (simp add: sample_workers_def Blocks_def block_stmts_def is_block_def lowerWorkerBlock_def lower_next_def sample_worker_def runes_def)
  have "trim_space (runes ''-5'') = runes ''-5''" by (simp add: trim_space_def runes_def IsSpace_def)
  moreover have "ascii (runes ''-5'') = Some ''-5''" by (rule ascii_runes) simp
  moreover have "Atoi ''-5'' = Some (- 5)"
    by (simp add: Atoi_def is_digit_def digits_val_def digit_val_def in_int64_def min_int64_def max_int64_def)
  ultimately have "rfold lower_stmt empty_worker (block_body (hd (f_Stmts negative_workers))) = Inr negative_worker"
    by (simp add: negative_workers_def block_body_def lower_stmt_def lower_setting_def string_call_def SingleStringArg_def
        AsString_def SingleIntArg_def AsInt_def negative_worker_def)
  then show "ParseWorkersConf ascii_only (Emit [] negative_workers) = Inr [negative_worker]"
    using h by (simp add: ParseWorkersConf_def lower_workers_def sample_workers_parse lowerWorkerBlock_def lower_next_def)
      (simp add: negative_workers_def Blocks_def block_stmts_def is_block_def lowerWorkerBlock_def lower_next_def negative_worker_def empty_worker_def runes_def)
qed

theorem workers_roundtrip_witness:
  "ParseWorkersConf ascii_only (EmitWorkersConf [sample_worker]) = Inr [sample_worker] \<and>
   ParseWorkersConf ascii_only (EmitWorkersConf [negative_worker]) = Inl SyntaxError"
proof -
  have "byte_len (EmitWorkersConf [sample_worker]) \<le> MaxSourceBytes" "byte_len (EmitWorkersConf [negative_worker]) \<le> MaxSourceBytes"
    by (simp_all add: EmitWorkersConf_def workers_file_def worker_body_def sample_worker_def negative_worker_def empty_worker_def
        Int_lit_def Itoa_def show_nat.simps sample_eval)
  with workers_roundtrip [OF sample_workers_lower(1)] workers_roundtrip [OF sample_workers_lower(2)] show ?thesis
    by (simp add: position_readable_def sample_worker_def negative_worker_def)
qed

end
