(* ===== verification/Disabled_Conf.thy ===== *)
theory Disabled_Conf
  imports Workers_Conf
begin

text \<open>
  The list of disabled jobs, allocations and workers on disk (\<^verbatim>\<open>workspace/disabled_conf.go\<close>): reading
  \<^verbatim>\<open>disabled.conf\<close> and writing it. A build disables what it lists (see the theory of placement). The map of
  jobs is an association list sorted by name, the order in which the code prints it.
\<close>

section \<open>Reading\<close>

record Disabled =
  dc_Jobs :: "(rune list \<times> rune list list) list"
  dc_Workers :: "rune list list"

definition no_disabled :: Disabled where
  "no_disabled = \<lparr>dc_Jobs = [], dc_Workers = []\<rparr>"

definition lower_allocations :: "rune list list \<Rightarrow> Stmt \<Rightarrow> conf_error + rune list list" where
  "lower_allocations entry s =
     (case s of
        Block n i b \<Rightarrow> Inl SyntaxError
      | CallStmt c \<Rightarrow>
          if call_Name c \<noteq> runes ''allocations'' then Inl SyntaxError
          else rbind (AsStrings c) (\<lambda>allocs. Inr (entry @ allocs)))"

definition lower_disabled_stmt :: "Disabled \<Rightarrow> Stmt \<Rightarrow> conf_error + Disabled" where
  "lower_disabled_stmt d s =
     (case s of
        Block name ident body \<Rightarrow>
          if name \<noteq> runes ''job'' then Inl SyntaxError
          else if ident = [] then Inl SyntaxError
          else rbind (rfold lower_allocations [] body) (\<lambda>entry. Inr (d\<lparr>dc_Jobs := put_tag ident entry (dc_Jobs d)\<rparr>))
      | CallStmt c \<Rightarrow>
          if call_Name c \<noteq> runes ''workers'' then Inl SyntaxError
          else rbind (AsStrings c) (\<lambda>ws. Inr (d\<lparr>dc_Workers := dc_Workers d @ ws\<rparr>)))"

definition lower_disabled :: "File \<Rightarrow> conf_error + Disabled" where
  "lower_disabled f =
     (let blocks = Blocks (runes ''disabled'') f
      in if blocks = [] then (if f_Stmts f = [] then Inr no_disabled else Inl SyntaxError)
         else if length blocks > 1 \<or> length (f_Stmts f) \<noteq> 1 then Inl SyntaxError
         else rfold lower_disabled_stmt no_disabled (block_body (hd blocks)))"

definition ParseDisabledConf :: "unicode \<Rightarrow> rune list \<Rightarrow> conf_error + Disabled" where
  "ParseDisabledConf u src = rbind (Parse u src) lower_disabled"

section \<open>Writing\<close>

definition job_block :: "rune list \<times> rune list list \<Rightarrow> Stmt" where
  "job_block p = Block (runes ''job'') (fst p) (if snd p \<noteq> [] then [string_call ''allocations'' (snd p)] else [])"

definition disabled_file :: "Disabled \<Rightarrow> File" where
  "disabled_file d = \<lparr>f_Version = 0, f_Stmts =
     [Block (runes ''disabled'') []
       (map job_block (sort_key fst (dc_Jobs d)) @ (if dc_Workers d \<noteq> [] then [string_call ''workers'' (dc_Workers d)] else []))]\<rparr>"

definition EmitDisabledConf :: "Disabled \<Rightarrow> rune list" where
  "EmitDisabledConf d = Emit [] (disabled_file d)"

section \<open>What was read can be written\<close>

definition disabled_ok :: "unicode \<Rightarrow> Disabled \<Rightarrow> bool" where
  "disabled_ok u d \<longleftrightarrow>
     sorted (map fst (dc_Jobs d)) \<and> distinct (map fst (dc_Jobs d)) \<and>
     list_all (\<lambda>p. ident_ok u (fst p) \<and> list_all string_ok (snd p)) (dc_Jobs d) \<and> list_all string_ok (dc_Workers d)"

text \<open>The reader joins the arguments of several calls; the writer makes one call of them.\<close>

definition disabled_fits :: "Disabled \<Rightarrow> bool" where
  "disabled_fits d \<longleftrightarrow> list_all (\<lambda>p. length (snd p) \<le> MaxArgs) (dc_Jobs d) \<and> length (dc_Workers d) \<le> MaxArgs"

lemma lower_allocations_ok:
  assumes "rfold lower_allocations [] body = Inr entry" "list_all (stmt_ok u) body"
  shows "list_all string_ok entry"
proof (rule rfold_invariant [OF assms(1), where P = "list_all string_ok"])
  fix entry s entry'
  assume "s \<in> set body" "list_all string_ok entry" "lower_allocations entry s = Inr entry'"
  moreover from this assms(2) have "stmt_ok u s" by (simp add: list_all_iff)
  ultimately show "list_all string_ok entry'"
    using AsStrings_ok by (auto simp: lower_allocations_def result_simps split: Stmt.splits if_splits)
qed simp

lemma put_tag_keys:
  assumes "sorted (map fst xs)" "distinct (map fst xs)"
  shows "sorted (map fst (put_tag k v xs)) \<and> distinct (map fst (put_tag k v xs)) \<and> set (put_tag k v xs) \<subseteq> insert (k, v) (set xs)"
proof -
  have "sorted (map fst (filter (\<lambda>p. fst p \<noteq> k) xs))" "distinct (map fst (filter (\<lambda>p. fst p \<noteq> k) xs))"
    using assms by (auto intro: sorted_filter distinct_map_filter)
  moreover have "k \<notin> fst ` set (filter (\<lambda>p. fst p \<noteq> k) xs)" by auto
  ultimately show ?thesis by (auto simp: put_tag_def sorted_insort_key set_insort_key distinct_insort_keys)
qed

lemma lower_disabled_stmt_ok:
  assumes "lower_disabled_stmt d s = Inr d'" "stmt_ok u s" "disabled_ok u d"
  shows "disabled_ok u d'"
proof (cases s)
  case (CallStmt c)
  with assms AsStrings_ok [of c _ u] show ?thesis
    by (auto simp: lower_disabled_stmt_def disabled_ok_def result_simps split: if_splits)
next
  case (Block name ident body)
  with assms(1) obtain entry where e: "rfold lower_allocations [] body = Inr entry" "ident \<noteq> []" "d' = d\<lparr>dc_Jobs := put_tag ident entry (dc_Jobs d)\<rparr>"
    by (auto simp: lower_disabled_stmt_def result_simps split: if_splits)
  have "ident_ok u ident" "list_all string_ok entry" using lower_allocations_ok [OF e(1)] assms(2) Block e(2) by auto
  with put_tag_keys [of "dc_Jobs d" ident entry] assms(3) e(3) show ?thesis by (auto simp: disabled_ok_def list_all_iff)
qed

text \<open>The two ways a file is accepted: it is empty, or one block makes the result.\<close>

lemma lower_disabled_cases:
  assumes "lower_disabled f = Inr d"
  obtains (empty) "f_Stmts f = []" "d = no_disabled"
  | (block) ident body where "f_Stmts f = [Block (runes ''disabled'') ident body]" "rfold lower_disabled_stmt no_disabled body = Inr d"
proof (cases "Blocks (runes ''disabled'') f = []")
  case True
  with assms empty show ?thesis by (auto simp: lower_disabled_def split: if_splits)
next
  case False
  with assms have f: "length (f_Stmts f) = 1" "rfold lower_disabled_stmt no_disabled (block_body (hd (Blocks (runes ''disabled'') f))) = Inr d"
    by (auto simp: lower_disabled_def Let_def split: if_splits)
  then obtain s where s: "f_Stmts f = [s]" by (auto simp: length_Suc_conv)
  with False obtain ident body where "s = Block (runes ''disabled'') ident body"
    by (cases s) (auto simp: Blocks_def split: if_splits)
  with f s block show ?thesis by (simp add: Blocks_def block_body_def)
qed

lemma lower_disabled_ok:
  assumes "lower_disabled f = Inr d" "within_limits u f"
  shows "disabled_ok u d"
  using assms(1)
proof (cases rule: lower_disabled_cases)
  case (block ident body)
  have "list_all (stmt_ok u) body" using assms(2) block(1) by (simp add: within_limits_def)
  then have body: "\<forall>s \<in> set body. stmt_ok u s" by (simp add: list_all_iff)
  have "disabled_ok u no_disabled" by (simp add: no_disabled_def disabled_ok_def)
  then show ?thesis by (rule rfold_invariant [OF block(2)]) (use body lower_disabled_stmt_ok in blast)
qed (simp add: no_disabled_def disabled_ok_def)

subsection \<open>Limits\<close>

definition entry_count :: "rune list \<times> rune list list \<Rightarrow> nat" where
  "entry_count p = Suc (of_bool (snd p \<noteq> []))"

definition disabled_count :: "Disabled \<Rightarrow> nat" where
  "disabled_count d = sum_list (map entry_count (dc_Jobs d)) + of_bool (dc_Workers d \<noteq> [])"

lemma sum_insort: "sum_list (map g (insort_key f x xs)) = g x + (sum_list (map g xs) :: nat)"
  by (induction xs) auto

lemma sum_put_tag: "sum_list (map g (put_tag k v xs)) \<le> g (k, v) + (sum_list (map g xs) :: nat)"
  by (simp add: put_tag_def sum_insort sum_list_filter_le_nat)

lemma lower_disabled_stmt_count:
  assumes "lower_disabled_stmt d s = Inr d'"
  shows "disabled_count d' \<le> disabled_count d + stmt_count s"
proof (cases s)
  case (CallStmt c)
  with assms show ?thesis by (auto simp: lower_disabled_stmt_def disabled_count_def result_simps split: if_splits)
next
  case (Block name ident body)
  with assms obtain entry where e: "rfold lower_allocations [] body = Inr entry" "d' = d\<lparr>dc_Jobs := put_tag ident entry (dc_Jobs d)\<rparr>"
    by (auto simp: lower_disabled_stmt_def result_simps split: if_splits)
  have "of_bool (entry \<noteq> []) \<le> sum_list (map stmt_count body)"
  proof (cases body)
    case (Cons s' ss)
    then show ?thesis by (cases s') simp_all
  qed (use e(1) in simp)
  then show ?thesis using sum_put_tag [of entry_count ident entry "dc_Jobs d"] Block e(2)
    by (simp add: disabled_count_def entry_count_def)
qed

lemma written_count:
  "sum_list (map stmt_count (f_Stmts (disabled_file d))) = Suc (disabled_count d)"
proof -
  have "sum_list (map entry_count (sort_key fst xs)) = sum_list (map entry_count xs)" for xs
    by (induction xs) (simp_all add: sum_insort)
  moreover have "stmt_count (job_block p) = entry_count p" for p by (simp add: job_block_def entry_count_def string_call_def)
  ultimately show ?thesis by (simp add: disabled_file_def disabled_count_def string_call_def comp_def)
qed

lemma lower_disabled_count:
  assumes "lower_disabled f = Inr d" "within_limits u f"
  shows "Suc (disabled_count d) \<le> MaxStatements"
  using assms(1)
proof (cases rule: lower_disabled_cases)
  case (block ident body)
  have "disabled_count d \<le> disabled_count no_disabled + sum_list (map stmt_count body)"
    by (rule rfold_measure [OF _ block(2)]) (rule lower_disabled_stmt_count)
  with assms(2) block(1) show ?thesis by (simp add: within_limits_def no_disabled_def disabled_count_def)
qed (simp add: no_disabled_def disabled_count_def MaxStatements_def)

lemma disabled_ident:
  "ident_ok u (runes ''disabled'')" "ident_ok u (runes ''job'')" "ident_ok u (runes ''allocations'')" "ident_ok u (runes ''workers'')"
  by (simp_all add: ident_ok_def runes_def isIdentStart_def isIdentPart_def IsLetter_def IsDigit_def RuneLen_def MaxIdentBytes_def)

lemma string_call_stmt_fits:
  "ident_ok u (runes name) \<Longrightarrow> length args \<le> MaxArgs \<Longrightarrow> list_all string_ok args \<Longrightarrow> stmt_fits u 1 (string_call name args)"
  using string_call_fits [of u "runes name" args] by (simp add: string_call_def)

lemma job_block_fits:
  assumes "ident_ok u (fst p)" "list_all string_ok (snd p)" "length (snd p) \<le> MaxArgs"
  shows "stmt_fits u 2 (job_block p)"
  using string_call_stmt_fits [OF disabled_ident(3) assms(3,2)] assms(1) disabled_ident(2) [of u]
  by (simp add: job_block_def stmt_fits_def)

lemma disabled_file_limits:
  assumes "disabled_ok u d" "disabled_fits d" "Suc (disabled_count d) \<le> MaxStatements"
  shows "within_limits u (disabled_file d)"
proof -
  have "stmt_fits u 2 s" if s: "s \<in> set (map job_block (sort_key fst (dc_Jobs d)) @ (if dc_Workers d \<noteq> [] then [string_call ''workers'' (dc_Workers d)] else []))" for s
  proof -
    consider p where "p \<in> set (dc_Jobs d)" "s = job_block p" | "s = string_call ''workers'' (dc_Workers d)"
      using s by (auto split: if_splits)
    then show ?thesis
    proof cases
      case (1 p)
      then show ?thesis using assms(1,2) by (intro job_block_fits [of u p, folded 1(2)]) (auto simp: disabled_ok_def disabled_fits_def list_all_iff)
    next
      case 2
      have "stmt_fits u 1 (string_call ''workers'' (dc_Workers d))"
        using assms(1,2) by (intro string_call_stmt_fits disabled_ident) (simp_all add: disabled_ok_def disabled_fits_def)
      with 2 show ?thesis by (auto intro: stmt_fits_mono)
    qed
  qed
  then have "list_all (stmt_fits u 3) (f_Stmts (disabled_file d))"
    using block_fits [OF disabled_ident(1), of u 2] by (simp add: disabled_file_def list_all_iff numeral_3_eq_3 numeral_2_eq_2)
  then have "list_all (stmt_ok u) (f_Stmts (disabled_file d))" "list_all (\<lambda>s. stmt_depth s \<le> MaxNestingDepth) (f_Stmts (disabled_file d))"
    by (auto simp: list_all_iff stmt_fits_def MaxNestingDepth_def)
  with written_count [of d] assms(3) show ?thesis by (simp add: within_limits_def) (simp add: disabled_file_def)
qed

subsection \<open>Reading again\<close>

lemma lower_job_blocks:
  "sorted (map fst (acc @ js)) \<Longrightarrow> distinct (map fst (acc @ js)) \<Longrightarrow> [] \<notin> fst ` set js \<Longrightarrow>
     rfold lower_disabled_stmt (d\<lparr>dc_Jobs := acc\<rparr>) (map job_block js) = Inr (d\<lparr>dc_Jobs := acc @ js\<rparr>)"
proof (induction js arbitrary: acc)
  case (Cons p js)
  have "put_tag (fst p) (snd p) acc = acc @ [p]" using Cons.prems(1,2) by (rule put_tag_last)
  moreover have "fst p \<noteq> []" using Cons.prems(3) by auto
  moreover have "rfold lower_allocations [] (if snd p \<noteq> [] then [string_call ''allocations'' (snd p)] else []) = Inr (snd p)"
    by (simp add: lower_allocations_def string_call_def string_call_setting)
  ultimately have "lower_disabled_stmt (d\<lparr>dc_Jobs := acc\<rparr>) (job_block p) = Inr (d\<lparr>dc_Jobs := acc @ [p]\<rparr>)"
    by (simp add: lower_disabled_stmt_def job_block_def)
  moreover have "rfold lower_disabled_stmt (d\<lparr>dc_Jobs := acc @ [p]\<rparr>) (map job_block js) = Inr (d\<lparr>dc_Jobs := (acc @ [p]) @ js\<rparr>)"
    using Cons.prems by (intro Cons.IH) simp_all
  ultimately show ?case by simp
qed simp

lemma lower_disabled_file:
  assumes "disabled_ok u d"
  shows "lower_disabled (disabled_file d) = Inr d"
proof -
  have jobs: "sorted (map fst (dc_Jobs d))" "distinct (map fst (dc_Jobs d))" "sort_key fst (dc_Jobs d) = dc_Jobs d" "[] \<notin> fst ` set (dc_Jobs d)"
    using assms by (auto simp: disabled_ok_def sort_key_id_if_sorted list_all_iff ident_ok_def)
  have "rfold lower_disabled_stmt no_disabled (map job_block (dc_Jobs d)) = Inr (no_disabled\<lparr>dc_Jobs := dc_Jobs d\<rparr>)"
    using lower_job_blocks [of "[]" "dc_Jobs d" no_disabled] jobs by (simp add: no_disabled_def)
  moreover have "rfold lower_disabled_stmt (no_disabled\<lparr>dc_Jobs := dc_Jobs d\<rparr>)
      (if dc_Workers d \<noteq> [] then [string_call ''workers'' (dc_Workers d)] else []) = Inr d"
    by (simp add: lower_disabled_stmt_def string_call_def string_call_setting no_disabled_def)
  ultimately show ?thesis
    by (simp add: lower_disabled_def disabled_file_def Blocks_def block_body_def rfold_append jobs(3) Let_def)
qed

interpretation disabled_conf: conf_document lower_disabled disabled_file disabled_fits "\<lambda>_. True"
proof
  fix u f x
  assume f: "within_limits u f" "lower_disabled f = Inr x"
  show "lower_disabled (disabled_file x) = (if True then Inr x else Inl SyntaxError)"
    using lower_disabled_file [OF lower_disabled_ok [OF f(2,1)]] by simp
  show "within_limits u (disabled_file x)" if "disabled_fits x"
    using lower_disabled_ok [OF f(2,1)] that lower_disabled_count [OF f(2,1)] by (rule disabled_file_limits)
next
  fix x
  show "plain_file (disabled_file x) = disabled_file x" "f_Version (disabled_file x) = 0"
    by (simp_all add: plain_file_def disabled_file_def job_block_def string_call_def)
qed

section \<open>The round trip\<close>

text \<open>
  Writing the list of disabled jobs and workers keeps it. What was read from a file, in whatever order
  and however many calls and blocks it was spread over, is read back from the text
  \<^verbatim>\<open>EmitDisabledConf\<close> writes, as long as no list is longer than one call may be and the text is
  within the size limit.
\<close>

theorem disabled_roundtrip:
  assumes "ParseDisabledConf u src = Inr d" "disabled_fits d" "byte_len (EmitDisabledConf d) \<le> MaxSourceBytes"
  shows "ParseDisabledConf u (EmitDisabledConf d) = Inr d"
  using disabled_conf.document_roundtrip [of u src d] assms
  by (simp add: disabled_conf.read_document_def ParseDisabledConf_def EmitDisabledConf_def)

definition sample_disabled_file :: File where
  "sample_disabled_file = \<lparr>f_Version = 0, f_Stmts =
     [Block (runes ''disabled'') []
       [string_call ''workers'' [runes ''a1''], Block (runes ''job'') (runes ''web'') [],
        Block (runes ''job'') (runes ''db'') [string_call ''allocations'' [runes ''b2''], string_call ''allocations'' [runes ''c3'']],
        string_call ''workers'' [runes ''d4'']]]\<rparr>"

definition sample_disabled :: Disabled where
  "sample_disabled = \<lparr>dc_Jobs = [(runes ''db'', [runes ''b2'', runes ''c3'']), (runes ''web'', [])], dc_Workers = [runes ''a1'', runes ''d4'']\<rparr>"

lemma sample_disabled_parse: "ParseDisabledConf ascii_only (Emit [] sample_disabled_file) = Inr sample_disabled"
proof -
  have "within_limits ascii_only sample_disabled_file" "in_int64 (f_Version sample_disabled_file)"
    "byte_len (Emit [] sample_disabled_file) \<le> MaxSourceBytes"
    by (simp_all add: within_limits_def sample_disabled_file_def sample_eval)
  moreover have "plain_file sample_disabled_file = sample_disabled_file"
    by (simp add: plain_file_def sample_disabled_file_def string_call_def)
  ultimately have "Parse ascii_only (Emit [] sample_disabled_file) = Inr sample_disabled_file"
    using Parse_Emit [of ascii_only sample_disabled_file "[]"] by simp
  moreover have "put_tag (runes ''db'') [runes ''b2'', runes ''c3''] (put_tag (runes ''web'') [] []) = dc_Jobs sample_disabled"
    by (simp add: put_tag_def sample_disabled_def runes_def)
  ultimately show ?thesis
    by (simp add: ParseDisabledConf_def lower_disabled_def Blocks_def Let_def sample_disabled_file_def block_body_def lower_disabled_stmt_def
        lower_allocations_def string_call_def AsStrings_def AsString_def no_disabled_def) (simp add: sample_disabled_def)
qed

theorem disabled_roundtrip_witness: "ParseDisabledConf ascii_only (EmitDisabledConf sample_disabled) = Inr sample_disabled"
proof -
  have "disabled_fits sample_disabled" by (simp add: disabled_fits_def sample_disabled_def MaxArgs_def)
  moreover have "byte_len (EmitDisabledConf sample_disabled) \<le> MaxSourceBytes"
    by (simp add: EmitDisabledConf_def disabled_file_def sample_disabled_def job_block_def sample_eval)
  ultimately show ?thesis using disabled_roundtrip [OF sample_disabled_parse] by simp
qed

end
