(* ===== verification/Placement.thy ===== *)
theory Placement
  imports Sequence
begin

text \<open>
  Placement (\<^verbatim>\<open>build/build_allocations.go\<close>, \<^verbatim>\<open>build/validate*.go\<close>, \<^verbatim>\<open>data/public_id.go\<close>): which jobs the
  build puts on which workers, under which identity, and the checks of versions and counts that follow.

  The tables of the catalog theory are joined by \<open>job_selectors\<close>. The bucket id, the content of
  \<^verbatim>\<open>disabled.conf\<close> and the manifests are arguments. SHA-256 is a function argument with no law: the
  identities are unique because the build checks them, not because the hash is good. The build runs in
  one transaction, so an error leaves the catalog as it was; the model returns the error alone.
\<close>

section \<open>Public identities\<close>

definition PublicIDLen :: nat where "PublicIDLen = 6"
definition publicIDMaxTries :: nat where "publicIDMaxTries = 64"
definition publicIDAlphabet :: string where "publicIDAlphabet = ''0123456789abcdefghijklmnopqrstuvwxyz''"

definition IsPublicID :: "string \<Rightarrow> bool" where
  "IsPublicID s \<longleftrightarrow>
     length s = PublicIDLen \<and> list_all (\<lambda>c. is_digit c \<or> 97 \<le> (of_char c :: nat) \<and> (of_char c :: nat) \<le> 122) s"

definition PublicIDFromString :: "(string \<Rightarrow> nat list) \<Rightarrow> string \<Rightarrow> string" where
  "PublicIDFromString sha256 s =
     map (\<lambda>i. publicIDAlphabet ! (sha256 s ! i mod length publicIDAlphabet)) [0..<PublicIDLen]"

fun mint_loop :: "(string \<Rightarrow> nat list) \<Rightarrow> string \<Rightarrow> (string \<Rightarrow> bool) \<Rightarrow> nat \<Rightarrow> nat \<Rightarrow> string result" where
  "mint_loop sha256 base accept 0 i = Inl ErrPlain"
| "mint_loop sha256 base accept (Suc n) i =
     (let candidate = PublicIDFromString sha256 (base @ '':'' @ Itoa (int (i + 1)))
      in if IsPublicID candidate \<and> accept candidate then Inr candidate else mint_loop sha256 base accept n (i + 1))"

text \<open>Every caller passes a nonempty base, so the branch that draws random identities is not reached.\<close>

definition MintUniquePublicID :: "(string \<Rightarrow> nat list) \<Rightarrow> string \<Rightarrow> (string \<Rightarrow> bool) \<Rightarrow> string result" where
  "MintUniquePublicID sha256 base accept =
     (let candidate = PublicIDFromString sha256 base
      in if IsPublicID candidate \<and> accept candidate then Inr candidate
         else mint_loop sha256 base accept publicIDMaxTries 0)"

section \<open>Allocations\<close>

record selector_row =
  js_job_id :: string
  js_selector :: string

record DisabledAllocations =
  dis_Jobs :: "(string \<times> string list) list"
  dis_Workers :: "string list"

definition selectors_of :: "selector_row list \<Rightarrow> string \<Rightarrow> string list" where
  "selectors_of sels jobID = remdups (map js_selector (filter (\<lambda>s. js_job_id s = jobID) sels))"

definition labels_on :: "catalog \<Rightarrow> string \<Rightarrow> string list" where
  "labels_on c workerIP =
     remdups (map l_label (filter
       (\<lambda>l. \<exists>w \<in> set (workers c). w_worker_id w = l_worker_id l \<and> w_worker_ip w = workerIP) (worker_labels c)))"

text \<open>
  The query: a job with a selector that some worker has as a label, and as many selectors as there are
  labels of this worker among them.
\<close>

definition matchingJobsByLabels :: "selector_row list \<Rightarrow> catalog \<Rightarrow> string \<Rightarrow> string list" where
  "matchingJobsByLabels sels c workerIP =
     remdups (map j_name (filter (\<lambda>j.
       (\<exists>s \<in> set sels. js_job_id s = j_job_id j \<and> (\<exists>l \<in> set (worker_labels c). l_label l = js_selector s)) \<and>
       length (selectors_of sels (j_job_id j)) =
         length (filter (\<lambda>l. l \<in> set (selectors_of sels (j_job_id j))) (labels_on c workerIP)))
       (jobs c)))"

text \<open>\<^verbatim>\<open>INSERT OR REPLACE\<close>: the rows in conflict with a unique key go, the new row comes last.\<close>

definition upsert_allocation :: "allocation_row \<Rightarrow> catalog \<Rightarrow> catalog" where
  "upsert_allocation a c =
     c\<lparr>allocations := delete_where
         (\<lambda>r. a_alloc_id r = a_alloc_id a \<or> a_worker_ip r = a_worker_ip a \<and> a_job r = a_job a) (allocations c) @ [a]\<rparr>"

definition set_removed :: "(allocation_row \<Rightarrow> bool) \<Rightarrow> catalog \<Rightarrow> catalog" where
  "set_removed P c = c\<lparr>allocations := update_where P (\<lambda>a. a\<lparr>a_removed := 1\<rparr>) (allocations c)\<rparr>"

definition set_disabled :: "(allocation_row \<Rightarrow> bool) \<Rightarrow> catalog \<Rightarrow> catalog" where
  "set_disabled P c = c\<lparr>allocations := update_where P (\<lambda>a. a\<lparr>a_disabled := 1\<rparr>) (allocations c)\<rparr>"

definition place_job :: "(string \<Rightarrow> nat list) \<Rightarrow> string \<Rightarrow> string \<Rightarrow> catalog \<Rightarrow> string \<Rightarrow> catalog result" where
  "place_job sha256 bucketID workerIP c jobName =
     (let known = (case GetAllocationID c workerIP jobName of Inl err \<Rightarrow> [] | Inr i \<Rightarrow> i)
      in rbind (if known = []
                then MintUniquePublicID sha256 (bucketID @ ''|'' @ jobName @ ''|'' @ workerIP)
                       (\<lambda>i. i \<notin> a_alloc_id ` set (allocations c))
                else Inr known) (\<lambda>allocationID.
         rbind (TargetJobVersion c jobName) (\<lambda>targetVersion.
           Inr (upsert_allocation
             \<lparr>a_alloc_id = allocationID, a_worker_ip = workerIP, a_job = jobName, a_disabled = 0, a_removed = 0,
              a_version = Some targetVersion\<rparr> c))))"

definition place_worker ::
  "(string \<Rightarrow> nat list) \<Rightarrow> string \<Rightarrow> selector_row list \<Rightarrow> catalog \<Rightarrow> string \<Rightarrow> catalog result" where
  "place_worker sha256 bucketID sels c workerIP =
     (let matched = matchingJobsByLabels sels c workerIP
      in rbind (rfold (place_job sha256 bucketID workerIP) c matched) (\<lambda>c1.
           Inr (fold (\<lambda>jobName. set_removed (\<lambda>a. a_job a = jobName \<and> a_worker_ip a = workerIP))
                  (Difference (GetAllocatedJobs c1 workerIP) matched) c1)))"

definition disable_job :: "string \<times> string list \<Rightarrow> catalog \<Rightarrow> catalog" where
  "disable_job spec c =
     (case spec of (jobName, ips) \<Rightarrow>
        if ips = [] then set_disabled (\<lambda>a. a_job a = jobName) c
        else fold (\<lambda>ip. set_disabled (\<lambda>a. a_job a = jobName \<and> a_worker_ip a = ip)) ips c)"

definition apply_disabled :: "DisabledAllocations \<Rightarrow> catalog \<Rightarrow> catalog" where
  "apply_disabled d c =
     fold disable_job (dis_Jobs d) (fold (\<lambda>ip. set_disabled (\<lambda>a. a_worker_ip a = ip)) (dis_Workers d) c)"

definition alloc_key :: "allocation_row \<Rightarrow> string" where
  "alloc_key a = a_worker_ip a @ ''|'' @ a_job a"

definition loadDisabledAllocations :: "catalog \<Rightarrow> string list" where
  "loadDisabledAllocations c = map alloc_key (filter (\<lambda>a. a_disabled a = 1 \<and> a_removed a = 0) (allocations c))"

definition markReenabledAllocations :: "string list \<Rightarrow> catalog \<Rightarrow> catalog" where
  "markReenabledAllocations disabledBefore c =
     (if disabledBefore = [] then c
      else fold MarkAllocationStartPending
        (map a_alloc_id (filter
          (\<lambda>a. a_disabled a = 0 \<and> a_removed a = 0 \<and> alloc_key a \<in> set disabledBefore) (allocations c))) c)"

definition BuildAllocations ::
  "(string \<Rightarrow> nat list) \<Rightarrow> string \<Rightarrow> selector_row list \<Rightarrow> DisabledAllocations \<Rightarrow> catalog \<Rightarrow> catalog result" where
  "BuildAllocations sha256 bucketID sels disableConfig c =
     (let disabledBefore = loadDisabledAllocations c
      in rbind (rfold (place_worker sha256 bucketID sels) c (GetWorkers c [])) (\<lambda>c1.
           let c2 = set_removed (\<lambda>a. a_worker_ip a \<notin> set (GetAllWorkers c1)) c1
           in Inr (markReenabledAllocations disabledBefore (apply_disabled disableConfig c2))))"

section \<open>Checks after placement\<close>

record build_manifest = manifest +
  m_Selectors :: "string list"
  m_AllowRollback :: bool
  m_BackwardCompatibilityFrom :: "string list"
  m_MinAllocationsCount :: int

definition PlacementSelectors :: "string \<Rightarrow> build_manifest \<Rightarrow> string list" where
  "PlacementSelectors jobName m =
     (if m_Selectors m \<noteq> [] then Unique (filter (\<lambda>s. s \<noteq> []) (m_Selectors m)) else [jobName])"

definition JobVersion :: "build_manifest \<Rightarrow> string" where
  "JobVersion m = (if m_version m = [] then ''0.0.0'' else m_version m)"

definition MinRequiredAllocations :: "build_manifest \<Rightarrow> int" where
  "MinRequiredAllocations m = (if m_MinAllocationsCount m < 0 then 0 else m_MinAllocationsCount m)"

text \<open>The rows of the left join; an allocation without a hash row has the empty applied version.\<close>

definition listAllocationAppliedVersions :: "catalog \<Rightarrow> string \<Rightarrow> (string \<times> string \<times> string) list" where
  "listAllocationAppliedVersions c jobName =
     map (\<lambda>a. (a_alloc_id a, a_worker_ip a,
               case hash_of c (a_alloc_id a) of None \<Rightarrow> [] | Some h \<Rightarrow> ifnull (applied_version h) []))
       (filter (\<lambda>a. a_job a = jobName \<and> a_removed a = 0) (allocations c))"

definition version_failures ::
  "(version \<Rightarrow> bool) \<Rightarrow> (string \<times> string \<times> string) list \<Rightarrow> (string \<times> string) list" where
  "version_failures fine allocs =
     concat (map (\<lambda>(allocID, workerIP, applied).
       let currentRaw = TrimSpace applied
       in if currentRaw = [] then []
          else case ParseVersion currentRaw of
            Inl err \<Rightarrow> [(allocID, workerIP)]
          | Inr current \<Rightarrow> if fine current then [] else [(allocID, workerIP)]) allocs)"

definition rollback_failures :: "catalog \<Rightarrow> string \<times> build_manifest \<Rightarrow> (string \<times> string) list result" where
  "rollback_failures c = (\<lambda>(jobName, m).
     if m_AllowRollback m then Inr []
     else case ParseVersion (NormalizeDeployVersion (JobVersion m)) of
       Inl err \<Rightarrow> Inl ErrInvalidJobVersion
     | Inr target \<Rightarrow>
         Inr (version_failures (\<lambda>current. Compare current target \<le> 0) (listAllocationAppliedVersions c jobName)))"

definition ValidateRollbackPolicy :: "catalog \<Rightarrow> (string \<times> build_manifest) list \<Rightarrow> unit result" where
  "ValidateRollbackPolicy c ms =
     rbind (rmap (rollback_failures c) ms) (\<lambda>failures.
       if concat failures \<noteq> [] then Inl ErrVersionRollbackNotAllowed else Inr ())"

definition compatibility_failures :: "catalog \<Rightarrow> string \<times> build_manifest \<Rightarrow> (string \<times> string) list result" where
  "compatibility_failures c = (\<lambda>(jobName, m).
     if m_BackwardCompatibilityFrom m = [] then Inr []
     else case ParseBackwardCompatibilityFrom (m_BackwardCompatibilityFrom m) of
       Inl err \<Rightarrow> Inl ErrInvalidManifest
     | Inr spec \<Rightarrow> Inr (version_failures (backward_Satisfies spec) (listAllocationAppliedVersions c jobName)))"

definition ValidateBackwardCompatibility :: "catalog \<Rightarrow> (string \<times> build_manifest) list \<Rightarrow> unit result" where
  "ValidateBackwardCompatibility c ms =
     rbind (rmap (compatibility_failures c) ms) (\<lambda>failures.
       if concat failures \<noteq> [] then Inl ErrBackwardCompatibility else Inr ())"

definition ValidateMinAllocationsCount :: "catalog \<Rightarrow> (string \<times> build_manifest) list \<Rightarrow> unit result" where
  "ValidateMinAllocationsCount c ms =
     (if list_ex (\<lambda>(jobName, m).
           let minCount = MinRequiredAllocations m; count = int (CountJobAllocations c jobName False)
           in minCount \<noteq> 0 \<and> count \<noteq> 0 \<and> count < minCount) ms
      then Inl ErrInsufficientAllocations else Inr ())"

section \<open>What placement does to the table\<close>

definition same_key :: "string \<Rightarrow> string \<Rightarrow> allocation_row \<Rightarrow> bool" where
  "same_key ip job a \<longleftrightarrow> a_worker_ip a = ip \<and> a_job a = job"

definition live_on :: "catalog \<Rightarrow> string \<Rightarrow> string \<Rightarrow> bool" where
  "live_on c ip job \<longleftrightarrow> (\<exists>a \<in> set (allocations c). same_key ip job a \<and> a_removed a = 0)"

text \<open>A step of placement changes the table of allocations only, and keeps every row's identity and key.\<close>

definition other_tables :: "catalog \<Rightarrow> catalog" where
  "other_tables c = c\<lparr>allocations := []\<rparr>"

definition ident :: "allocation_row \<Rightarrow> string \<times> string \<times> string" where
  "ident a = (a_alloc_id a, a_worker_ip a, a_job a)"

definition placement_step :: "catalog \<Rightarrow> catalog \<Rightarrow> bool" where
  "placement_step c c' \<longleftrightarrow>
     other_tables c' = other_tables c \<and> (catalog_wf c \<longrightarrow> catalog_wf c') \<and>
     ident ` set (allocations c) \<subseteq> ident ` set (allocations c')"

definition ids_nonempty :: "catalog \<Rightarrow> bool" where
  "ids_nonempty c \<longleftrightarrow> (\<forall>a \<in> set (allocations c). a_alloc_id a \<noteq> [])"

lemma other_tables_fields:
  assumes "other_tables c' = other_tables c"
  shows "jobs c' = jobs c" "workers c' = workers c" "worker_labels c' = worker_labels c"
    "allocation_hashes c' = allocation_hashes c" "allocation_file_hashes c' = allocation_file_hashes c"
  using arg_cong [OF assms, of jobs] arg_cong [OF assms, of workers] arg_cong [OF assms, of worker_labels]
    arg_cong [OF assms, of allocation_hashes] arg_cong [OF assms, of allocation_file_hashes]
  by (simp_all add: other_tables_def)

lemma placement_tables:
  assumes "placement_step c c'"
  shows "jobs c' = jobs c" "workers c' = workers c" "worker_labels c' = worker_labels c"
    "allocation_hashes c' = allocation_hashes c" "allocation_file_hashes c' = allocation_file_hashes c"
  using assms other_tables_fields [of c' c] by (simp_all add: placement_step_def)

lemma placement_refl: "placement_step c c"
  by (simp add: placement_step_def)

lemma placement_trans: "placement_step a b \<Longrightarrow> placement_step b c \<Longrightarrow> placement_step a c"
  unfolding placement_step_def by (elim conjE) (intro conjI, simp, simp, rule order_trans)

text \<open>An update of flags keeps identities and keys.\<close>

lemma update_step:
  assumes "\<And>a. ident (f a) = ident a"
  shows "placement_step c (c\<lparr>allocations := update_where P f (allocations c)\<rparr>)"
proof -
  have i: "map ident (update_where P f (allocations c)) = map ident (allocations c)"
    using assms by (auto simp: update_where_def)
  have "map a_alloc_id (update_where P f (allocations c)) = map a_alloc_id (allocations c)"
    using arg_cong [OF i, of "map fst"] by (simp add: comp_def ident_def)
  moreover have "map (\<lambda>a. (a_worker_ip a, a_job a)) (update_where P f (allocations c)) = map (\<lambda>a. (a_worker_ip a, a_job a)) (allocations c)"
    using arg_cong [OF i, of "map snd"] by (simp add: comp_def ident_def)
  ultimately show ?thesis
    using arg_cong [OF i, of set] by (simp add: placement_step_def catalog_wf_def other_tables_def)
qed

lemma set_removed_step: "placement_step c (set_removed P c)"
  unfolding set_removed_def by (rule update_step) (simp add: ident_def)

lemma set_disabled_step: "placement_step c (set_disabled P c)"
  unfolding set_disabled_def by (rule update_step) (simp add: ident_def)

lemma fold_step:
  assumes "\<And>x c. placement_step c (f x c)"
  shows "placement_step c (fold f xs c)"
  by (induction xs arbitrary: c) (auto intro: placement_refl placement_trans assms)

lemma apply_disabled_step: "placement_step c (apply_disabled d c)"
proof -
  have "placement_step c (disable_job spec c)" for spec c
    by (cases spec) (auto simp: disable_job_def intro!: set_disabled_step fold_step)
  then show ?thesis
    unfolding apply_disabled_def by (intro placement_trans [OF fold_step fold_step] set_disabled_step) auto
qed

subsection \<open>One job\<close>

lemma mint_loop_Inr: "mint_loop sha256 base accept n k = Inr i \<Longrightarrow> IsPublicID i \<and> accept i"
  by (induction n arbitrary: k) (auto simp: Let_def split: if_splits)

lemma MintUnique_Inr:
  assumes "MintUniquePublicID sha256 base accept = Inr i"
  shows "IsPublicID i \<and> accept i \<and> i \<noteq> []"
proof -
  have "IsPublicID i \<and> accept i"
    using assms by (auto simp: MintUniquePublicID_def Let_def split: if_splits dest: mint_loop_Inr)
  then show ?thesis by (auto simp: IsPublicID_def PublicIDLen_def)
qed

lemma alloc_key_unique:
  "catalog_wf c \<Longrightarrow> a \<in> set (allocations c) \<Longrightarrow> b \<in> set (allocations c) \<Longrightarrow> a_worker_ip a = a_worker_ip b \<Longrightarrow> a_job a = a_job b \<Longrightarrow> a = b"
  by (auto simp: catalog_wf_def distinct_map inj_on_def)

lemma alloc_id_unique:
  "catalog_wf c \<Longrightarrow> a \<in> set (allocations c) \<Longrightarrow> b \<in> set (allocations c) \<Longrightarrow> a_alloc_id a = a_alloc_id b \<Longrightarrow> a = b"
  by (auto simp: catalog_wf_def distinct_map inj_on_def)

text \<open>The row that comes in replaces the row with its key, if there is one, and no other.\<close>

definition id_fits :: "catalog \<Rightarrow> allocation_row \<Rightarrow> bool" where
  "id_fits c a \<longleftrightarrow>
     (\<forall>r \<in> set (allocations c). a_alloc_id r = a_alloc_id a \<longleftrightarrow> a_worker_ip r = a_worker_ip a \<and> a_job r = a_job a)"

lemma upsert_rows:
  assumes "id_fits c a"
  shows "set (allocations (upsert_allocation a c)) = {r \<in> set (allocations c). \<not> same_key (a_worker_ip a) (a_job a) r} \<union> {a}"
  using assms by (auto simp: upsert_allocation_def delete_where_def same_key_def id_fits_def)

lemma upsert_step:
  assumes "id_fits c a"
  shows "placement_step c (upsert_allocation a c)"
proof -
  have "catalog_wf (upsert_allocation a c)" if "catalog_wf c"
    using that by (auto simp: catalog_wf_def upsert_allocation_def delete_where_def distinct_map inj_on_def)
  moreover have "ident x \<in> ident ` set (allocations (upsert_allocation a c))" if "x \<in> set (allocations c)" for x
  proof (cases "same_key (a_worker_ip a) (a_job a) x")
    case True
    then have "ident x = ident a" using assms that by (auto simp: ident_def same_key_def id_fits_def)
    then show ?thesis by (simp add: upsert_rows [OF assms])
  qed (use that in \<open>simp add: upsert_rows [OF assms]\<close>)
  moreover have "other_tables (upsert_allocation a c) = other_tables c"
    by (simp add: upsert_allocation_def other_tables_def)
  ultimately show ?thesis unfolding placement_step_def by blast
qed

lemma place_job_Inr:
  assumes "place_job sha256 bucketID ip c job = Inr c'" "catalog_wf c" "ids_nonempty c"
  obtains a where "c' = upsert_allocation a c" "id_fits c a" "a_worker_ip a = ip" "a_job a = job" "a_disabled a = 0" "a_removed a = 0"
    "a_alloc_id a \<noteq> []"
proof -
  from assms(1) obtain i v where i: "c' = upsert_allocation
      \<lparr>a_alloc_id = i, a_worker_ip = ip, a_job = job, a_disabled = 0, a_removed = 0, a_version = Some v\<rparr> c"
    "(case GetAllocationID c ip job of Inl err \<Rightarrow> [] | Inr k \<Rightarrow> k) = i \<and> i \<noteq> [] \<or>
     (case GetAllocationID c ip job of Inl err \<Rightarrow> [] | Inr k \<Rightarrow> k) = [] \<and> i \<noteq> [] \<and> i \<notin> a_alloc_id ` set (allocations c)"
    by (auto simp: place_job_def Let_def result_simps split: if_splits dest!: MintUnique_Inr)
  let ?a = "\<lparr>a_alloc_id = i, a_worker_ip = ip, a_job = job, a_disabled = 0, a_removed = 0, a_version = Some v\<rparr>"
  have "id_fits c ?a"
  proof (cases "GetAllocationID c ip job")
    case (Inl err)
    have "\<not> (a_worker_ip r = ip \<and> a_job r = job)" if "r \<in> set (allocations c)" for r
      using GetAllocationID_wf [OF assms(2) that] Inl by auto
    moreover have "i \<notin> a_alloc_id ` set (allocations c)" using i(2) Inl by auto
    ultimately show ?thesis by (auto simp: id_fits_def)
  next
    case (Inr k)
    then obtain r where r: "r \<in> set (allocations c)" "a_worker_ip r = ip" "a_job r = job" "a_alloc_id r = k"
      by (rule GetAllocationID_Inr)
    have "k \<noteq> []" using assms(3) r by (auto simp: ids_nonempty_def)
    then have "i = k" using i(2) Inr by auto
    have "a_alloc_id x = k \<longleftrightarrow> a_worker_ip x = ip \<and> a_job x = job" if x: "x \<in> set (allocations c)" for x
    proof
      assume "a_alloc_id x = k"
      then have "x = r" using alloc_id_unique [OF assms(2) x r(1)] r(4) by simp
      with r show "a_worker_ip x = ip \<and> a_job x = job" by simp
    next
      assume "a_worker_ip x = ip \<and> a_job x = job"
      then have "x = r" using alloc_key_unique [OF assms(2) x r(1)] r(2,3) by simp
      with r show "a_alloc_id x = k" by simp
    qed
    with \<open>i = k\<close> show ?thesis by (simp add: id_fits_def)
  qed
  from that [OF i(1) this] i(2) show thesis by auto
qed

subsection \<open>One worker\<close>

text \<open>The counting query selects the jobs whose selectors are all labels of the worker.\<close>

definition selects :: "selector_row list \<Rightarrow> catalog \<Rightarrow> string \<Rightarrow> string \<Rightarrow> bool" where
  "selects sels c ip job \<longleftrightarrow>
     (\<exists>j \<in> set (jobs c). j_name j = job \<and> selectors_of sels (j_job_id j) \<noteq> [] \<and>
        set (selectors_of sels (j_job_id j)) \<subseteq> set (labels_on c ip))"

lemma count_subset:
  assumes "distinct xs" "distinct ys"
  shows "length xs = length (filter (\<lambda>y. y \<in> set xs) ys) \<longleftrightarrow> set xs \<subseteq> set ys"
proof -
  have "length (filter (\<lambda>y. y \<in> set xs) ys) = card (set xs \<inter> set ys)"
    using assms(2) by (metis Int_commute distinct_card distinct_filter set_filter inter_set_filter)
  moreover have "length xs = card (set xs)" using assms(1) by (simp add: distinct_card)
  moreover have "card (set xs) = card (set xs \<inter> set ys) \<longleftrightarrow> set xs \<inter> set ys = set xs"
    using card_subset_eq [of "set xs" "set xs \<inter> set ys"] by auto
  ultimately show ?thesis by (simp add: inf.absorb_iff1)
qed

lemma matching_iff: "job \<in> set (matchingJobsByLabels sels c ip) \<longleftrightarrow> selects sels c ip job"
proof -
  have sub: "length (selectors_of sels i) = length (filter (\<lambda>l. l \<in> set (selectors_of sels i)) (labels_on c ip)) \<longleftrightarrow>
      set (selectors_of sels i) \<subseteq> set (labels_on c ip)" for i
    by (rule count_subset) (simp_all add: selectors_of_def labels_on_def)
  have labels: "l \<in> set (labels_on c ip) \<Longrightarrow> \<exists>r \<in> set (worker_labels c). l_label r = l" for l
    by (auto simp: labels_on_def)
  have "(\<exists>s \<in> set sels. js_job_id s = i \<and> (\<exists>l \<in> set (worker_labels c). l_label l = js_selector s)) \<longleftrightarrow> selectors_of sels i \<noteq> []"
    if "set (selectors_of sels i) \<subseteq> set (labels_on c ip)" for i
  proof
    assume "selectors_of sels i \<noteq> []"
    then obtain s where s: "s \<in> set sels" "js_job_id s = i" by (auto simp: selectors_of_def filter_empty_conv)
    then have "js_selector s \<in> set (labels_on c ip)" using that by (auto simp: selectors_of_def)
    with s labels show "\<exists>s \<in> set sels. js_job_id s = i \<and> (\<exists>l \<in> set (worker_labels c). l_label l = js_selector s)" by blast
  qed (auto simp: selectors_of_def filter_empty_conv)
  then show ?thesis by (auto simp: matchingJobsByLabels_def selects_def sub)
qed

lemma selects_frame: "placement_step c c' \<Longrightarrow> selects sels c' ip job = selects sels c ip job"
  using placement_tables [of c c'] by (simp add: selects_def labels_on_def)

definition enabled_live :: "allocation_row \<Rightarrow> bool" where
  "enabled_live r \<longleftrightarrow> a_removed r = 0 \<and> a_disabled r = 0"

definition ready :: "catalog \<Rightarrow> bool" where
  "ready c \<longleftrightarrow> catalog_wf c \<and> ids_nonempty c"

lemma place_job_spec:
  assumes "place_job sha256 b ip c job = Inr c'" "ready c"
  shows "placement_step c c' \<and> ready c' \<and>
    (\<forall>r. \<not> same_key ip job r \<longrightarrow> (r \<in> set (allocations c') \<longleftrightarrow> r \<in> set (allocations c))) \<and>
    (\<exists>r \<in> set (allocations c'). same_key ip job r) \<and> (\<forall>r \<in> set (allocations c'). same_key ip job r \<longrightarrow> enabled_live r)"
proof -
  from assms obtain a where a: "c' = upsert_allocation a c" "id_fits c a" "a_worker_ip a = ip" "a_job a = job" "a_disabled a = 0" "a_removed a = 0"
    "a_alloc_id a \<noteq> []" unfolding ready_def by (elim conjE) (rule place_job_Inr)
  have step: "placement_step c c'" using upsert_step [OF a(2)] a(1) by simp
  have rows: "set (allocations c') = {r \<in> set (allocations c). \<not> same_key ip job r} \<union> {a}"
    using upsert_rows [OF a(2)] a(1,3,4) by simp
  have "ready c'" using step assms(2) rows a(7) by (auto simp: ready_def placement_step_def ids_nonempty_def)
  with step rows a(3-6) show ?thesis by (auto simp: same_key_def enabled_live_def)
qed

lemma place_jobs_spec:
  "rfold (place_job sha256 b ip) c js = Inr c' \<Longrightarrow> ready c \<Longrightarrow>
    placement_step c c' \<and> ready c' \<and>
    (\<forall>r. \<not> (a_worker_ip r = ip \<and> a_job r \<in> set js) \<longrightarrow> (r \<in> set (allocations c') \<longleftrightarrow> r \<in> set (allocations c))) \<and>
    (\<forall>job \<in> set js. \<exists>r \<in> set (allocations c'). same_key ip job r) \<and>
    (\<forall>r \<in> set (allocations c'). a_worker_ip r = ip \<and> a_job r \<in> set js \<longrightarrow> enabled_live r)"
proof (induction js arbitrary: c)
  case Nil
  then show ?case by (simp add: placement_refl)
next
  case (Cons j js)
  from Cons.prems(1) obtain c1 where c1: "place_job sha256 b ip c j = Inr c1" "rfold (place_job sha256 b ip) c1 js = Inr c'"
    by (auto simp: result_simps)
  have s1: "placement_step c c1" "ready c1" "\<And>r. \<not> same_key ip j r \<Longrightarrow> r \<in> set (allocations c1) \<longleftrightarrow> r \<in> set (allocations c)"
    "\<exists>r \<in> set (allocations c1). same_key ip j r" "\<And>r. r \<in> set (allocations c1) \<Longrightarrow> same_key ip j r \<Longrightarrow> enabled_live r"
    using place_job_spec [OF c1(1) Cons.prems(2)] by blast+
  have s2: "placement_step c1 c'" "ready c'"
    "\<And>r. \<not> (a_worker_ip r = ip \<and> a_job r \<in> set js) \<Longrightarrow> r \<in> set (allocations c') \<longleftrightarrow> r \<in> set (allocations c1)"
    "\<And>job. job \<in> set js \<Longrightarrow> \<exists>r \<in> set (allocations c'). same_key ip job r"
    "\<And>r. r \<in> set (allocations c') \<Longrightarrow> a_worker_ip r = ip \<Longrightarrow> a_job r \<in> set js \<Longrightarrow> enabled_live r"
    using Cons.IH [OF c1(2) s1(2)] by blast+
  have "placement_step c c'" using s1(1) s2(1) by (rule placement_trans)
  moreover have "r \<in> set (allocations c') \<longleftrightarrow> r \<in> set (allocations c)" if "\<not> (a_worker_ip r = ip \<and> a_job r \<in> set (j # js))" for r
    using s2(3) [of r] s1(3) [of r] that by (simp add: same_key_def)
  moreover have "\<exists>r \<in> set (allocations c'). same_key ip job r" if "job \<in> set (j # js)" for job
  proof (cases "job \<in> set js")
    case False
    with that have "job = j" by simp
    moreover obtain r where "r \<in> set (allocations c1)" "same_key ip j r" using s1(4) by blast
    ultimately show ?thesis using s2(3) [of r] False by (auto simp: same_key_def)
  qed (rule s2(4))
  moreover have "enabled_live r" if "r \<in> set (allocations c')" "a_worker_ip r = ip" "a_job r \<in> set (j # js)" for r
  proof (cases "a_job r \<in> set js")
    case False
    then show ?thesis using s2(3) [of r] s1(5) [of r] that by (simp add: same_key_def)
  qed (use s2(5) that in blast)
  ultimately show ?case using s2(2) by blast
qed

text \<open>A series of flag updates is one update.\<close>

lemma update_fold:
  assumes "\<And>a. f (f a) = f a" "\<And>x a. P x (f a) = P x a"
  shows "fold (\<lambda>x c. c\<lparr>allocations := update_where (P x) f (allocations c)\<rparr>) xs c =
    c\<lparr>allocations := update_where (\<lambda>a. \<exists>x \<in> set xs. P x a) f (allocations c)\<rparr>"
proof (induction xs arbitrary: c)
  case Nil
  then show ?case by (simp add: update_where_def)
next
  case (Cons x xs)
  have "update_where (\<lambda>a. \<exists>x \<in> set xs. P x a) f (update_where (P x) f rows) = update_where (\<lambda>a. \<exists>y \<in> set (x # xs). P y a) f rows" for rows
    using assms by (auto simp: update_where_def)
  then show ?case by (simp add: Cons.IH del: list.set)
qed

lemma remove_fold:
  "fold (\<lambda>job. set_removed (\<lambda>a. a_job a = job \<and> a_worker_ip a = ip)) js c = set_removed (\<lambda>a. a_job a \<in> set js \<and> a_worker_ip a = ip) c"
  using update_fold [where P = "\<lambda>job a. a_job a = job \<and> a_worker_ip a = ip" and f = "\<lambda>a. a\<lparr>a_removed := 1\<rparr>" and xs = js and c = c]
  by (simp add: set_removed_def [abs_def] conj_commute)

lemma place_worker_spec:
  assumes "place_worker sha256 b sels c ip = Inr c'" "ready c"
  shows "placement_step c c' \<and> ready c' \<and>
    (\<forall>r. a_worker_ip r \<noteq> ip \<longrightarrow> (r \<in> set (allocations c') \<longleftrightarrow> r \<in> set (allocations c))) \<and>
    (\<forall>job. live_on c' ip job \<longleftrightarrow> selects sels c ip job) \<and>
    (\<forall>r \<in> set (allocations c'). a_worker_ip r = ip \<and> a_removed r = 0 \<longrightarrow> a_disabled r = 0)"
proof -
  let ?m = "matchingJobsByLabels sels c ip"
  from assms(1) obtain c1 where c1: "rfold (place_job sha256 b ip) c ?m = Inr c1"
    "c' = set_removed (\<lambda>a. a_job a \<in> set (Difference (GetAllocatedJobs c1 ip) ?m) \<and> a_worker_ip a = ip) c1"
    by (auto simp: place_worker_def Let_def result_simps remove_fold)
  note s = place_jobs_spec [OF c1(1) assms(2)]
  have step: "placement_step c c'" using s set_removed_step c1(2) placement_trans by blast
  let ?f = "\<lambda>r. if a_worker_ip r = ip \<and> a_job r \<notin> set ?m then r\<lparr>a_removed := 1\<rparr> else r"
  have rows: "set (allocations c') = ?f ` set (allocations c1)"
    by (auto simp: c1(2) set_removed_def update_where_def GetAllocatedJobs_def intro!: image_cong)
  have ready: "ready c'" using s rows step assms(2) by (auto simp: ready_def ids_nonempty_def placement_step_def)
  have "r \<in> set (allocations c') \<longleftrightarrow> r \<in> set (allocations c)" if "a_worker_ip r \<noteq> ip" for r
  proof -
    have "r \<in> set (allocations c') \<longleftrightarrow> r \<in> set (allocations c1)" using that by (auto simp: rows image_iff split: if_splits)
    then show ?thesis using s that by blast
  qed
  moreover have "live_on c' ip job \<longleftrightarrow> job \<in> set ?m" for job
  proof
    assume "live_on c' ip job"
    then obtain r where r: "r \<in> set (allocations c1)" "same_key ip job (?f r)" "a_removed (?f r) = 0"
      unfolding live_on_def rows by blast
    then show "job \<in> set ?m" by (simp add: same_key_def split: if_splits)
  next
    assume m: "job \<in> set ?m"
    with s obtain r where r: "r \<in> set (allocations c1)" "same_key ip job r" by blast
    then have "enabled_live r" using s m by (simp add: same_key_def)
    then have "?f r \<in> set (allocations c') \<and> same_key ip job (?f r) \<and> a_removed (?f r) = 0"
      using r m by (simp add: rows same_key_def enabled_live_def)
    then show "live_on c' ip job" unfolding live_on_def by blast
  qed
  moreover have "a_disabled r = 0" if "r \<in> set (allocations c')" "a_worker_ip r = ip" "a_removed r = 0" for r
  proof -
    obtain r1 where r1: "r1 \<in> set (allocations c1)" "r = ?f r1" using \<open>r \<in> set (allocations c')\<close> unfolding rows by blast
    with that have "a_job r1 \<in> set ?m" "a_worker_ip r1 = ip" "r = r1" by (simp_all split: if_splits)
    then have "enabled_live r1" using s r1(1) by blast
    with \<open>r = r1\<close> show ?thesis by (simp add: enabled_live_def)
  qed
  ultimately show ?thesis using step ready by (simp add: matching_iff)
qed

subsection \<open>All workers\<close>

lemma live_on_cong:
  assumes "\<And>r. a_worker_ip r = ip \<Longrightarrow> r \<in> set (allocations c') \<longleftrightarrow> r \<in> set (allocations c)"
  shows "live_on c' ip job = live_on c ip job"
  unfolding live_on_def same_key_def using assms by blast

lemma place_workers_spec:
  "rfold (place_worker sha256 b sels) c ips = Inr c' \<Longrightarrow> ready c \<Longrightarrow>
    placement_step c c' \<and> ready c' \<and>
    (\<forall>r. a_worker_ip r \<notin> set ips \<longrightarrow> (r \<in> set (allocations c') \<longleftrightarrow> r \<in> set (allocations c))) \<and>
    (\<forall>ip \<in> set ips. \<forall>job. live_on c' ip job \<longleftrightarrow> selects sels c ip job) \<and>
    (\<forall>r \<in> set (allocations c'). a_worker_ip r \<in> set ips \<and> a_removed r = 0 \<longrightarrow> a_disabled r = 0)"
proof (induction ips arbitrary: c)
  case Nil
  then show ?case by (simp add: placement_refl)
next
  case (Cons i ips)
  from Cons.prems(1) obtain c1 where c1: "place_worker sha256 b sels c i = Inr c1" "rfold (place_worker sha256 b sels) c1 ips = Inr c'"
    by (auto simp: result_simps)
  have s1: "placement_step c c1" "ready c1" "\<And>r. a_worker_ip r \<noteq> i \<Longrightarrow> r \<in> set (allocations c1) \<longleftrightarrow> r \<in> set (allocations c)"
    "\<And>job. live_on c1 i job \<longleftrightarrow> selects sels c i job"
    "\<And>r. r \<in> set (allocations c1) \<Longrightarrow> a_worker_ip r = i \<Longrightarrow> a_removed r = 0 \<Longrightarrow> a_disabled r = 0"
    using place_worker_spec [OF c1(1) Cons.prems(2)] by blast+
  have s2: "placement_step c1 c'" "ready c'"
    "\<And>r. a_worker_ip r \<notin> set ips \<Longrightarrow> r \<in> set (allocations c') \<longleftrightarrow> r \<in> set (allocations c1)"
    "\<And>ip job. ip \<in> set ips \<Longrightarrow> live_on c' ip job \<longleftrightarrow> selects sels c1 ip job"
    "\<And>r. r \<in> set (allocations c') \<Longrightarrow> a_worker_ip r \<in> set ips \<Longrightarrow> a_removed r = 0 \<Longrightarrow> a_disabled r = 0"
    using Cons.IH [OF c1(2) s1(2)] by blast+
  have "live_on c' ip job \<longleftrightarrow> selects sels c ip job" if "ip \<in> set (i # ips)" for ip job
  proof (cases "ip \<in> set ips")
    case True
    then show ?thesis using s2(4) selects_frame [OF s1(1)] by simp
  next
    case False
    with that have "ip = i" by simp
    have "live_on c' ip job = live_on c1 ip job" using s2(3) False by (intro live_on_cong) blast
    then show ?thesis using s1(4) \<open>ip = i\<close> by simp
  qed
  moreover have "a_disabled r = 0" if "r \<in> set (allocations c')" "a_worker_ip r \<in> set (i # ips)" "a_removed r = 0" for r
  proof (cases "a_worker_ip r \<in> set ips")
    case False
    then show ?thesis using s2(3) [of r] s1(5) [of r] that by simp
  qed (use s2(5) that in blast)
  moreover have "r \<in> set (allocations c') \<longleftrightarrow> r \<in> set (allocations c)" if "a_worker_ip r \<notin> set (i # ips)" for r
    using s2(3) [of r] s1(3) [of r] that by simp
  ultimately show ?case using placement_trans [OF s1(1) s2(1)] s2(2) by blast
qed

definition is_disabled :: "DisabledAllocations \<Rightarrow> string \<Rightarrow> string \<Rightarrow> bool" where
  "is_disabled d ip job \<longleftrightarrow>
     ip \<in> set (dis_Workers d) \<or> (\<exists>spec \<in> set (dis_Jobs d). job = fst spec \<and> (snd spec = [] \<or> ip \<in> set (snd spec)))"

lemma disable_fold:
  assumes "\<And>x a. P x (a\<lparr>a_disabled := 1\<rparr>) = P x a"
  shows "fold (\<lambda>x. set_disabled (P x)) xs c = set_disabled (\<lambda>a. \<exists>x \<in> set xs. P x a) c"
  using update_fold [where P = P and f = "\<lambda>a. a\<lparr>a_disabled := 1\<rparr>" and xs = xs and c = c] assms
  by (simp add: set_disabled_def [abs_def])

lemma disable_job_alt:
  "disable_job spec = set_disabled (\<lambda>a. a_job a = fst spec \<and> (snd spec = [] \<or> a_worker_ip a \<in> set (snd spec)))"
proof
  fix c
  obtain job ips where s: "spec = (job, ips)" by (cases spec)
  have "fold (\<lambda>ip. set_disabled (\<lambda>a. a_job a = job \<and> a_worker_ip a = ip)) ips c =
      set_disabled (\<lambda>a. \<exists>ip \<in> set ips. a_job a = job \<and> a_worker_ip a = ip) c"
    by (rule disable_fold) simp
  then show "disable_job spec c = set_disabled (\<lambda>a. a_job a = fst spec \<and> (snd spec = [] \<or> a_worker_ip a \<in> set (snd spec))) c"
    by (auto simp: s disable_job_def intro: arg_cong [of _ _ "\<lambda>P. set_disabled P c"])
qed

lemma apply_disabled_alt: "apply_disabled d c = set_disabled (\<lambda>a. is_disabled d (a_worker_ip a) (a_job a)) c"
proof -
  have w: "fold (\<lambda>ip. set_disabled (\<lambda>a. a_worker_ip a = ip)) (dis_Workers d) c = set_disabled (\<lambda>a. a_worker_ip a \<in> set (dis_Workers d)) c"
    using disable_fold [where P = "\<lambda>ip a. a_worker_ip a = ip" and xs = "dis_Workers d" and c = c] by simp
  have j: "fold disable_job (dis_Jobs d) c2 =
      set_disabled (\<lambda>a. \<exists>spec \<in> set (dis_Jobs d). a_job a = fst spec \<and> (snd spec = [] \<or> a_worker_ip a \<in> set (snd spec))) c2" for c2
    unfolding disable_job_alt by (rule disable_fold) simp
  have "update_where (\<lambda>a. Q a) g (update_where R g rows) = update_where (\<lambda>a. Q a \<or> R a) g rows"
    if "\<And>a. g (g a) = g a" "\<And>a. Q (g a) = Q a" for Q R g and rows :: "allocation_row list"
    using that by (auto simp: update_where_def)
  then have "set_disabled Q (set_disabled R c) = set_disabled (\<lambda>a. Q a \<or> R a) c" if "\<And>a. Q (a\<lparr>a_disabled := 1\<rparr>) = Q a" for Q R
    using that by (simp add: set_disabled_def)
  note comp = this
  have "(\<lambda>a :: allocation_row. (\<exists>spec \<in> set (dis_Jobs d). a_job a = fst spec \<and> (snd spec = [] \<or> a_worker_ip a \<in> set (snd spec))) \<or> a_worker_ip a \<in> set (dis_Workers d)) =
      (\<lambda>a. is_disabled d (a_worker_ip a) (a_job a))"
    by (rule ext) (simp add: is_disabled_def disj_commute)
  then show ?thesis
    unfolding apply_disabled_def w j by (subst comp) simp_all
qed

lemma workers_listed: "set (GetWorkers c []) = set (GetAllWorkers c)"
  by (simp add: GetWorkers_def GetAllWorkers_def)

lemma markReenabled_rows: "allocations (markReenabledAllocations before c) = allocations c"
proof -
  have "allocations (fold MarkAllocationStartPending xs c) = allocations c" for xs c
    by (induction xs arbitrary: c) simp_all
  then show ?thesis by (simp add: markReenabledAllocations_def)
qed

definition built_row :: "DisabledAllocations \<Rightarrow> string set \<Rightarrow> allocation_row \<Rightarrow> allocation_row" where
  "built_row d ips r =
     (let r1 = (if a_worker_ip r \<notin> ips then r\<lparr>a_removed := 1\<rparr> else r)
      in if is_disabled d (a_worker_ip r) (a_job r) then r1\<lparr>a_disabled := 1\<rparr> else r1)"

text \<open>The table a successful build leaves, before the hashes of re-enabled allocations are cleared.\<close>

lemma BuildAllocations_rows:
  assumes "BuildAllocations sha256 b sels d c = Inr c'" "ready c"
  obtains c1 c3 where "c' = markReenabledAllocations (loadDisabledAllocations c) c3" "placement_step c c3"
    "placement_step c c1"
    "\<And>r. a_worker_ip r \<notin> set (GetAllWorkers c) \<Longrightarrow> r \<in> set (allocations c1) \<longleftrightarrow> r \<in> set (allocations c)"
    "\<And>ip job. ip \<in> set (GetAllWorkers c) \<Longrightarrow> live_on c1 ip job \<longleftrightarrow> selects sels c ip job"
    "\<And>r. r \<in> set (allocations c1) \<Longrightarrow> a_worker_ip r \<in> set (GetAllWorkers c) \<Longrightarrow> a_removed r = 0 \<Longrightarrow> a_disabled r = 0"
    "allocations c3 = map (built_row d (set (GetAllWorkers c))) (allocations c1)"
proof -
  from assms(1) obtain c1 where c1: "rfold (place_worker sha256 b sels) c (GetWorkers c []) = Inr c1"
    "c' = markReenabledAllocations (loadDisabledAllocations c) (apply_disabled d (set_removed (\<lambda>a. a_worker_ip a \<notin> set (GetAllWorkers c1)) c1))"
    by (auto simp: BuildAllocations_def Let_def result_simps)
  have s: "placement_step c c1"
    "\<And>r. a_worker_ip r \<notin> set (GetAllWorkers c) \<Longrightarrow> r \<in> set (allocations c1) \<longleftrightarrow> r \<in> set (allocations c)"
    "\<And>ip job. ip \<in> set (GetAllWorkers c) \<Longrightarrow> live_on c1 ip job \<longleftrightarrow> selects sels c ip job"
    "\<And>r. r \<in> set (allocations c1) \<Longrightarrow> a_worker_ip r \<in> set (GetAllWorkers c) \<Longrightarrow> a_removed r = 0 \<Longrightarrow> a_disabled r = 0"
    using place_workers_spec [OF c1(1) assms(2)] unfolding workers_listed by blast+
  have w: "GetAllWorkers c1 = GetAllWorkers c" using placement_tables [OF s(1)] by (simp add: GetAllWorkers_def)
  let ?c3 = "apply_disabled d (set_removed (\<lambda>a. a_worker_ip a \<notin> set (GetAllWorkers c)) c1)"
  have "placement_step c ?c3"
    using placement_trans [OF s(1) placement_trans [OF set_removed_step apply_disabled_step]] .
  moreover have "allocations ?c3 = map (built_row d (set (GetAllWorkers c))) (allocations c1)"
    by (auto simp: apply_disabled_alt set_disabled_def set_removed_def update_where_def built_row_def Let_def)
  ultimately show thesis using that [of ?c3 c1] s c1(2) w by simp
qed

text \<open>
  C4. The build places every job exactly where its selectors ask for it: after \<open>BuildAllocations\<close> a job has an
  allocation that is not removed on a worker if and only if the worker is in the catalog, the job has
  selectors, and all of them are labels of that worker. Such an allocation is disabled exactly when
  \<^verbatim>\<open>disabled.conf\<close> names the worker, the job, or both together, whatever it was before. No two allocations
  share an identity or a pair of worker and job.
\<close>

theorem placement_exact:
  assumes "BuildAllocations sha256 bucketID sels d c = Inr c'" "ready c"
  shows "(\<forall>ip job. live_on c' ip job \<longleftrightarrow> ip \<in> set (GetAllWorkers c) \<and> selects sels c ip job) \<and>
    (\<forall>a \<in> set (allocations c'). a_removed a = 0 \<longrightarrow>
       a_disabled a = (if is_disabled d (a_worker_ip a) (a_job a) then 1 else 0)) \<and> catalog_wf c'"
proof -
  let ?W = "set (GetAllWorkers c)"
  obtain c1 c3 where b: "c' = markReenabledAllocations (loadDisabledAllocations c) c3" "placement_step c c3"
    and "placement_step c c1" "\<And>r. a_worker_ip r \<notin> ?W \<Longrightarrow> r \<in> set (allocations c1) \<longleftrightarrow> r \<in> set (allocations c)"
    and b2: "\<And>ip job. ip \<in> ?W \<Longrightarrow> live_on c1 ip job \<longleftrightarrow> selects sels c ip job"
    "\<And>r. r \<in> set (allocations c1) \<Longrightarrow> a_worker_ip r \<in> ?W \<Longrightarrow> a_removed r = 0 \<Longrightarrow> a_disabled r = 0"
    "allocations c3 = map (built_row d ?W) (allocations c1)"
    by (rule BuildAllocations_rows [OF assms]) blast
  have rows: "allocations c' = map (built_row d ?W) (allocations c1)" by (simp add: b(1) b2(3) markReenabled_rows)
  have built: "a_worker_ip (built_row d ?W r) = a_worker_ip r" "a_job (built_row d ?W r) = a_job r"
    "a_removed (built_row d ?W r) = (if a_worker_ip r \<in> ?W then a_removed r else 1)"
    "a_disabled (built_row d ?W r) = (if is_disabled d (a_worker_ip r) (a_job r) then 1 else a_disabled r)" for r
    by (simp_all add: built_row_def Let_def)
  have live: "live_on c' ip job \<longleftrightarrow> ip \<in> ?W \<and> live_on c1 ip job" for ip job
    by (auto simp: live_on_def rows same_key_def built split: if_splits)
  have "a_disabled a = (if is_disabled d (a_worker_ip a) (a_job a) then 1 else 0)"
    if a: "a \<in> set (allocations c')" "a_removed a = 0" for a
  proof -
    obtain r where r: "r \<in> set (allocations c1)" "a = built_row d ?W r" using a(1) unfolding rows set_map by blast
    with a(2) have "a_worker_ip r \<in> ?W" "a_removed r = 0" by (simp_all add: built split: if_splits)
    with b2(2) [OF r(1)] r(2) show ?thesis by (simp add: built)
  qed
  moreover have "catalog_wf c'"
  proof -
    have wf: "catalog_wf c3" using b(2) assms(2) by (simp add: placement_step_def ready_def)
    have "catalog_wf (fold MarkAllocationStartPending ks c3)" for ks
    proof -
      have "catalog_step\<^sup>*\<^sup>* x (fold MarkAllocationStartPending ks x)" for x
        by (induction ks arbitrary: x) (auto intro: converse_rtranclp_into_rtranclp step_start_pending)
      then show ?thesis using wf by (rule catalog_machine.steps_inv)
    qed
    then show ?thesis using wf by (simp add: b(1) markReenabledAllocations_def)
  qed
  ultimately show ?thesis using live b2(1) by blast
qed

lemma alloc_key_inj:
  assumes "alloc_key a = alloc_key b" "CHR ''|'' \<notin> set (a_worker_ip a)" "CHR ''|'' \<notin> set (a_worker_ip b)"
  shows "a_worker_ip a = a_worker_ip b \<and> a_job a = a_job b"
proof -
  have t: "takeWhile (\<lambda>x. x \<noteq> CHR ''|'') (alloc_key r) = a_worker_ip r" if "CHR ''|'' \<notin> set (a_worker_ip r)" for r
    using that by (auto simp: alloc_key_def takeWhile_append)
  have "a_worker_ip a = a_worker_ip b" using t [of a] t [of b] assms by simp
  with assms(1) show ?thesis by (simp add: alloc_key_def)
qed

lemma row_address:
  assumes "placement_step c c1" "\<And>r. a_worker_ip r \<notin> set (GetAllWorkers c) \<Longrightarrow> r \<in> set (allocations c1) \<longleftrightarrow> r \<in> set (allocations c)"
    "\<forall>ip \<in> set (GetAllWorkers c) \<union> a_worker_ip ` set (allocations c). CHR ''|'' \<notin> set ip"
    "allocations c3 = map (built_row d (set (GetAllWorkers c))) (allocations c1)" "a \<in> set (allocations c3)"
  shows "CHR ''|'' \<notin> set (a_worker_ip a)"
proof -
  obtain r where r: "r \<in> set (allocations c1)" "a = built_row d (set (GetAllWorkers c)) r"
    using assms(5) unfolding assms(4) set_map by blast
  have "a_worker_ip a = a_worker_ip r" by (simp add: r(2) built_row_def Let_def)
  moreover have "a_worker_ip r \<in> set (GetAllWorkers c) \<or> r \<in> set (allocations c)" using assms(2) [of r] r(1) by blast
  ultimately show ?thesis using assms(3) by auto
qed

text \<open>
  C8. A build keeps what is already running. Every allocation keeps its identity across a build, also when it
  is removed, so its hashes still belong to it; and the applied hash of an allocation is cleared exactly
  when the build enables it again, that is, when it was disabled before and is neither disabled nor
  removed now. (Worker addresses contain no vertical bar, which the code uses as separator.)
\<close>

theorem placement_stable:
  assumes "BuildAllocations sha256 bucketID sels d c = Inr c'" "ready c"
    "\<forall>ip \<in> set (GetAllWorkers c) \<union> a_worker_ip ` set (allocations c). CHR ''|'' \<notin> set ip"
  shows "ident ` set (allocations c) \<subseteq> ident ` set (allocations c') \<and>
    (\<forall>a \<in> set (allocations c').
       hash_of c' (a_alloc_id a) =
         (if a_disabled a = 0 \<and> a_removed a = 0 \<and>
             (\<exists>b \<in> set (allocations c). same_key (a_worker_ip a) (a_job a) b \<and> a_disabled b = 1 \<and> a_removed b = 0)
          then map_option (\<lambda>h. h\<lparr>applied_hash := None\<rparr>) (hash_of c (a_alloc_id a)) else hash_of c (a_alloc_id a)))"
proof -
  let ?W = "set (GetAllWorkers c)"
  let ?was = "\<lambda>a. \<exists>b \<in> set (allocations c). same_key (a_worker_ip a) (a_job a) b \<and> a_disabled b = 1 \<and> a_removed b = 0"
  obtain c1 c3 where b: "c' = markReenabledAllocations (loadDisabledAllocations c) c3" "placement_step c c3"
    and c1: "placement_step c c1" "\<And>r. a_worker_ip r \<notin> ?W \<Longrightarrow> r \<in> set (allocations c1) \<longleftrightarrow> r \<in> set (allocations c)"
    and b2: "allocations c3 = map (built_row d ?W) (allocations c1)"
    by (rule BuildAllocations_rows [OF assms(1,2)]) blast
  have rows: "allocations c' = allocations c3" by (simp add: b(1) markReenabled_rows)
  have h3: "hash_of c3 = hash_of c" using placement_tables [OF b(2)] by (simp add: hash_of_def fun_eq_iff)
  have key: "alloc_key a \<in> set (loadDisabledAllocations c) \<longleftrightarrow> ?was a" if a: "a \<in> set (allocations c3)" for a
  proof
    assume "alloc_key a \<in> set (loadDisabledAllocations c)"
    then obtain x where x: "x \<in> set (allocations c)" "a_disabled x = 1" "a_removed x = 0" "alloc_key a = alloc_key x"
      unfolding loadDisabledAllocations_def set_map set_filter by blast
    have "CHR ''|'' \<notin> set (a_worker_ip a)" using row_address [OF c1 assms(3) b2 a] by blast
    moreover have "CHR ''|'' \<notin> set (a_worker_ip x)" by (rule bspec [OF assms(3) UnI2 [OF imageI [OF x(1)]]])
    ultimately have "a_worker_ip a = a_worker_ip x \<and> a_job a = a_job x" using x(4) by (intro alloc_key_inj)
    with x show "?was a" unfolding same_key_def by (intro bexI [of _ x]) simp_all
  next
    assume "?was a"
    then obtain x where x: "x \<in> set (allocations c)" "same_key (a_worker_ip a) (a_job a) x" "a_disabled x = 1" "a_removed x = 0" by blast
    then have "alloc_key a = alloc_key x" by (simp add: alloc_key_def same_key_def)
    with x show "alloc_key a \<in> set (loadDisabledAllocations c)" by (simp add: loadDisabledAllocations_def)
  qed
  have wf: "catalog_wf c3" using b(2) assms(2) by (simp add: placement_step_def ready_def)
  let ?re = "map a_alloc_id (filter (\<lambda>a. a_disabled a = 0 \<and> a_removed a = 0 \<and> alloc_key a \<in> set (loadDisabledAllocations c)) (allocations c3))"
  have "hash_of c' (a_alloc_id a) =
      (if a_disabled a = 0 \<and> a_removed a = 0 \<and> ?was a
       then map_option (\<lambda>h. h\<lparr>applied_hash := None\<rparr>) (hash_of c (a_alloc_id a)) else hash_of c (a_alloc_id a))"
    if a: "a \<in> set (allocations c3)" for a
  proof -
    have mem: "a_alloc_id a \<in> set ?re \<longleftrightarrow> a_disabled a = 0 \<and> a_removed a = 0 \<and> ?was a"
    proof
      assume "a_alloc_id a \<in> set ?re"
      then obtain x where x: "x \<in> set (allocations c3)" "a_alloc_id x = a_alloc_id a" "a_disabled x = 0" "a_removed x = 0"
        "alloc_key x \<in> set (loadDisabledAllocations c)" unfolding set_map set_filter by (elim imageE CollectE conjE) metis
      then have "x = a" using alloc_id_unique [OF wf x(1) a] by simp
      with x key [OF a] show "a_disabled a = 0 \<and> a_removed a = 0 \<and> ?was a" by simp
    next
      assume "a_disabled a = 0 \<and> a_removed a = 0 \<and> ?was a"
      then show "a_alloc_id a \<in> set ?re" using key [OF a] a unfolding set_map set_filter by (intro imageI CollectI) simp
    qed
    have "hash_of c' (a_alloc_id a) =
      (if a_alloc_id a \<in> set ?re then map_option (\<lambda>h. h\<lparr>applied_hash := None\<rparr>) (hash_of c3 (a_alloc_id a)) else hash_of c3 (a_alloc_id a))"
      unfolding b(1) markReenabledAllocations_def using start_pending.look_fold [of ?re c3 "a_alloc_id a"] by simp
    then show ?thesis unfolding mem h3 .
  qed
  moreover have "ident ` set (allocations c) \<subseteq> ident ` set (allocations c')" using b(2) rows by (simp add: placement_step_def)
  ultimately show ?thesis unfolding rows by blast
qed

section \<open>Versions that may not go back\<close>

definition applied_on :: "catalog \<Rightarrow> allocation_row \<Rightarrow> string" where
  "applied_on c a = TrimSpace (case hash_of c (a_alloc_id a) of None \<Rightarrow> [] | Some h \<Rightarrow> ifnull (applied_version h) [])"

lemma no_failures_iff:
  "version_failures fine (listAllocationAppliedVersions c job) = [] \<longleftrightarrow>
     (\<forall>a \<in> set (allocations c). a_job a = job \<and> a_removed a = 0 \<and> applied_on c a \<noteq> [] \<longrightarrow>
        (\<exists>v. ParseVersion (applied_on c a) = Inr v \<and> fine v))"
proof -
  let ?f = "\<lambda>a. let currentRaw = applied_on c a in if currentRaw = [] then []
     else case ParseVersion currentRaw of Inl err \<Rightarrow> [(a_alloc_id a, a_worker_ip a)]
       | Inr current \<Rightarrow> if fine current then [] else [(a_alloc_id a, a_worker_ip a)]"
  have "version_failures fine (listAllocationAppliedVersions c job) = concat (map ?f (filter (\<lambda>a. a_job a = job \<and> a_removed a = 0) (allocations c)))"
    by (simp add: version_failures_def listAllocationAppliedVersions_def applied_on_def comp_def)
  moreover have "?f a = [] \<longleftrightarrow> (applied_on c a \<noteq> [] \<longrightarrow> (\<exists>v. ParseVersion (applied_on c a) = Inr v \<and> fine v))" for a
    by (auto simp: Let_def split: sum.splits)
  ultimately show ?thesis by auto
qed

text \<open>
  C37. The build refuses to go back. When the rollback check passes, every version it read as target is valid,
  and no allocation that is not removed of a job without \<^verbatim>\<open>allow_rollback\<close> runs a version above the
  target of the job, nor one that cannot be read; when the check fails on readable targets, such an
  allocation exists.
\<close>

theorem rollback_policy_sound:
  assumes "\<And>job m. (job, m) \<in> set ms \<Longrightarrow> \<not> m_AllowRollback m \<Longrightarrow> ParseVersion (NormalizeDeployVersion (JobVersion m)) = Inr (target job m)"
  shows "ValidateRollbackPolicy c ms =
    (if \<forall>(job, m) \<in> set ms. \<not> m_AllowRollback m \<longrightarrow> (\<forall>a \<in> set (allocations c).
          a_job a = job \<and> a_removed a = 0 \<and> applied_on c a \<noteq> [] \<longrightarrow>
          (\<exists>v. ParseVersion (applied_on c a) = Inr v \<and> v \<le> target job m))
     then Inr () else Inl ErrVersionRollbackNotAllowed)"
proof -
  let ?g = "\<lambda>(job, m). if m_AllowRollback m then []
     else version_failures (\<lambda>v. Compare v (target job m) \<le> 0) (listAllocationAppliedVersions c job)"
  have "rmap (rollback_failures c) ms = Inr (map ?g ms)"
    using assms by (intro rmap_all_Inr) (auto simp: rollback_failures_def)
  then have "ValidateRollbackPolicy c ms = (if \<forall>x \<in> set ms. ?g x = [] then Inr () else Inl ErrVersionRollbackNotAllowed)"
    by (simp add: ValidateRollbackPolicy_def)
  moreover have "?g (job, m) = [] \<longleftrightarrow> (\<not> m_AllowRollback m \<longrightarrow> (\<forall>a \<in> set (allocations c).
          a_job a = job \<and> a_removed a = 0 \<and> applied_on c a \<noteq> [] \<longrightarrow>
          (\<exists>v. ParseVersion (applied_on c a) = Inr v \<and> v \<le> target job m)))" for job m
    by (simp add: no_failures_iff Compare_order)
  ultimately show ?thesis by (simp only: split_paired_all [symmetric] case_prod_conv Ball_def split_paired_All)
qed

section \<open>An example\<close>

text \<open>Two workers, a job for both and a job for the one with a GPU, which is disabled; the first job was disabled before.\<close>

definition demo_job :: "string \<Rightarrow> string \<Rightarrow> job_row" where
  "demo_job i name = \<lparr>j_job_id = i, j_name = name, j_version = ''1.2.0'', deployment_priority = 0, deployment_order = 0,
     deployment_seq = 0, max_concurrent_restarts = 1, max_concurrent_starts = 0, max_concurrent_stops = 0,
     restart_policy = ''always'', restart_globs = [], reload_globs = []\<rparr>"

definition demo_placement :: catalog where
  "demo_placement = \<lparr>
     allocations = [\<lparr>a_alloc_id = ''abc123'', a_worker_ip = ''10.0.0.1'', a_job = ''api'', a_disabled = 1, a_removed = 0, a_version = None\<rparr>],
     allocation_hashes = [\<lparr>h_alloc_id = ''abc123'', pending_hash = Some ''h'', applied_hash = Some ''h'', applied_version = Some ''1.3.0''\<rparr>],
     allocation_file_hashes = [], jobs = [demo_job ''j1'' ''api'', demo_job ''j2'' ''train''],
     workers = [\<lparr>w_worker_id = ''w1'', w_worker_ip = ''10.0.0.1'', w_position = 0\<rparr>, \<lparr>w_worker_id = ''w2'', w_worker_ip = ''10.0.0.2'', w_position = 1\<rparr>],
     worker_labels = [\<lparr>l_worker_id = ''w1'', l_label = ''web''\<rparr>, \<lparr>l_worker_id = ''w1'', l_label = ''gpu''\<rparr>, \<lparr>l_worker_id = ''w2'', l_label = ''web''\<rparr>],
     hooks = [], build_hashes = []\<rparr>"

definition demo_selectors :: "selector_row list" where
  "demo_selectors = [\<lparr>js_job_id = ''j1'', js_selector = ''web''\<rparr>, \<lparr>js_job_id = ''j2'', js_selector = ''web''\<rparr>, \<lparr>js_job_id = ''j2'', js_selector = ''gpu''\<rparr>]"

definition demo_disabled :: DisabledAllocations where
  "demo_disabled = \<lparr>dis_Jobs = [(''train'', [])], dis_Workers = []\<rparr>"

text \<open>Any function will do as hash; this one makes the first candidates collide.\<close>

definition demo_hash :: "string \<Rightarrow> nat list" where
  "demo_hash s = replicate 32 (if CHR '':'' \<in> set s then length s else 0)"

definition demo_built :: catalog where
  "demo_built = projr (BuildAllocations demo_hash ''bucket'' demo_selectors demo_disabled demo_placement)"

lemma demo_builds: "BuildAllocations demo_hash ''bucket'' demo_selectors demo_disabled demo_placement = Inr demo_built"
proof -
  have "\<not> isl (BuildAllocations demo_hash ''bucket'' demo_selectors demo_disabled demo_placement)" by code_simp
  then show ?thesis by (simp add: demo_built_def)
qed

lemma demo_ready: "ready demo_placement"
  by (simp add: ready_def catalog_wf_def ids_nonempty_def demo_placement_def demo_job_def)

theorem placement_exact_witness:
  "live_on demo_built ''10.0.0.1'' ''train'' \<and> \<not> live_on demo_built ''10.0.0.2'' ''train'' \<and> live_on demo_built ''10.0.0.2'' ''api''"
proof -
  have "selects demo_selectors demo_placement ''10.0.0.1'' ''train''" "\<not> selects demo_selectors demo_placement ''10.0.0.2'' ''train''"
    "selects demo_selectors demo_placement ''10.0.0.2'' ''api''" "set (GetAllWorkers demo_placement) = {''10.0.0.1'', ''10.0.0.2''}"
    by code_simp+
  then show ?thesis using placement_exact [OF demo_builds demo_ready] by simp
qed

theorem placement_stable_witness:
  "ident ` set (allocations demo_placement) \<subseteq> ident ` set (allocations demo_built) \<and> hash_of demo_built ''abc123'' =
     Some \<lparr>h_alloc_id = ''abc123'', pending_hash = Some ''h'', applied_hash = None, applied_version = Some ''1.3.0''\<rparr>"
proof -
  have bar: "\<forall>ip \<in> set (GetAllWorkers demo_placement) \<union> a_worker_ip ` set (allocations demo_placement). CHR ''|'' \<notin> set ip"
    by (simp add: GetAllWorkers_def demo_placement_def)
  have "\<exists>a \<in> set (allocations demo_built). a_alloc_id a = ''abc123'' \<and> a_disabled a = 0 \<and> a_removed a = 0 \<and>
      a_worker_ip a = ''10.0.0.1'' \<and> a_job a = ''api''"
    by code_simp
  then obtain a where a: "a \<in> set (allocations demo_built)" "a_alloc_id a = ''abc123''" "a_disabled a = 0" "a_removed a = 0"
      "a_worker_ip a = ''10.0.0.1''" "a_job a = ''api''" by (elim bexE conjE)
  have was: "\<exists>b \<in> set (allocations demo_placement). same_key ''10.0.0.1'' ''api'' b \<and> a_disabled b = 1 \<and> a_removed b = 0"
    by (simp add: demo_placement_def same_key_def)
  have "hash_of demo_placement ''abc123'' =
     Some \<lparr>h_alloc_id = ''abc123'', pending_hash = Some ''h'', applied_hash = Some ''h'', applied_version = Some ''1.3.0''\<rparr>"
    by (simp add: hash_of_def demo_placement_def)
  moreover note s = placement_stable [OF demo_builds demo_ready bar]
  have "hash_of demo_built (a_alloc_id a) = map_option (\<lambda>h. h\<lparr>applied_hash := None\<rparr>) (hash_of demo_placement (a_alloc_id a))"
    using bspec [OF conjunct2 [OF s] a(1)] a was by simp
  ultimately show ?thesis using s a(2) by simp
qed

definition demo_manifest :: build_manifest where
  "demo_manifest = \<lparr>m_version = ''1.2.0'', m_priority = 0, m_hooks = [], m_Selectors = [''web''], m_AllowRollback = False,
     m_BackwardCompatibilityFrom = [], m_MinAllocationsCount = 0\<rparr>"

theorem rollback_policy_sound_witness:
  "ValidateRollbackPolicy demo_placement [(''api'', demo_manifest)] = Inl ErrVersionRollbackNotAllowed"
proof -
  have t: "ParseVersion (NormalizeDeployVersion (JobVersion demo_manifest)) = Inr (Version 1 2 0 [])" by code_simp
  let ?a = "hd (allocations demo_placement)"
  have a: "?a \<in> set (allocations demo_placement)" "a_job ?a = ''api''" "a_removed ?a = 0" by (simp_all add: demo_placement_def)
  have v: "applied_on demo_placement ?a \<noteq> []" "ParseVersion (applied_on demo_placement ?a) = Inr (Version 1 3 0 [])"
    "\<not> Version 1 3 0 [] \<le> Version 1 2 0 []" by code_simp+
  have r: "ValidateRollbackPolicy demo_placement [(''api'', demo_manifest)] =
    (if \<forall>(job, m) \<in> set [(''api'', demo_manifest)]. \<not> m_AllowRollback m \<longrightarrow> (\<forall>a \<in> set (allocations demo_placement).
          a_job a = job \<and> a_removed a = 0 \<and> applied_on demo_placement a \<noteq> [] \<longrightarrow>
          (\<exists>v. ParseVersion (applied_on demo_placement a) = Inr v \<and> v \<le> Version 1 2 0 []))
     then Inr () else Inl ErrVersionRollbackNotAllowed)"
    using t by (intro rollback_policy_sound) auto
  have "\<not> (\<forall>a \<in> set (allocations demo_placement). a_job a = ''api'' \<and> a_removed a = 0 \<and> applied_on demo_placement a \<noteq> [] \<longrightarrow>
          (\<exists>v. ParseVersion (applied_on demo_placement a) = Inr v \<and> v \<le> Version 1 2 0 []))"
    using a v by (metis sum.inject(2))
  then show ?thesis unfolding r by (simp add: demo_manifest_def)
qed

end
