(* ===== verification/Revisions.thy ===== *)
theory Revisions
  imports Batches "HOL-Library.Product_Lexorder"
begin

text \<open>
  What a bucket remembers of its past and how much of it is kept: the source revisions that were pushed
  (\<^verbatim>\<open>sourcerevision/\<close>), the markers other buckets leave when they promote from this one, the promotion state
  (\<^verbatim>\<open>data/promotion_state.go\<close>), the rows of the deploy history (\<^verbatim>\<open>data/deploy_history.go\<close>), and the pruning
  of all of them by the garbage collector (\<^verbatim>\<open>gc/history.go\<close>).

  Times are kept as the texts the code stores and compares. The files are fields of one record; reading
  or writing one of them can fail at each place where the code does it, which an environment decides. A
  revision is named by its push hash, a file name without a slash.
\<close>

section \<open>State\<close>

record RevisionEntry =
  re_PushHash :: string
  re_ProducerBuildHash :: string
  re_BundleVersion :: int
  re_Label :: string
  re_CreatedAt :: string
  re_BuildResult :: string
  re_Kind :: string

record RevisionState =
  rs_Current :: string
  rs_LastSuccessful :: string
  rs_Revisions :: "RevisionEntry list"

record MarkerEntry =
  me_SourceRevision :: string
  me_SourceRunID :: string
  me_PromoteRunID :: string
  me_PromotedAt :: string

record MarkerFile =
  mf_ConsumerBucketID :: string
  mf_Selection :: string
  mf_Entries :: "MarkerEntry list"

record PromotionHistoryEntry =
  ph_RunID :: string
  ph_SourceBucketID :: string
  ph_SourceRevision :: string
  ph_SourceRevisionLabel :: string
  ph_SourceRunID :: string
  ph_Force :: bool
  ph_Status :: string
  ph_StartedAt :: string
  ph_EndedAt :: string
  ph_Error :: string

record PromotionState =
  ps_LastSourceRevision :: string
  ps_LastSourceRevisionLabel :: string
  ps_LastSourceRunID :: string
  ps_LastAttemptAt :: string
  ps_LastSuccessAt :: string
  ps_LastStatus :: string
  ps_LastError :: string
  ps_History :: "PromotionHistoryEntry list"

record deploy_history_row =
  dr_run_id :: string
  dr_generation :: int
  dr_started_at :: string
  dr_ended_at :: string
  dr_status :: string
  dr_source_revision :: string
  dr_build_git_hash :: string
  dr_jobs_filter :: string
  dr_force :: int
  dr_changed :: int
  dr_error :: string

record deploy_history_job_row =
  dj_run_id :: string
  dj_job :: string
  dj_outcome :: string
  dj_reason :: string
  dj_version :: string
  dj_deployment_order :: int

record history_tables =
  ht_runs :: "deploy_history_row list"
  ht_jobs :: "deploy_history_job_row list"

text \<open>
  The directory \<^verbatim>\<open>.kive\<close> of a bucket: \<^verbatim>\<open>state.json\<close>, the directories beside it, the marker files and
  \<^verbatim>\<open>promotion-state.json\<close>.
\<close>

record bucket_files =
  bf_State :: RevisionState
  bf_Dirs :: "string list"
  bf_Markers :: "MarkerFile list"
  bf_Promotion :: PromotionState

datatype io_site = ForPins | ForFifo | ForAny | ForPrune | AfterPrune

datatype io_op =
    LoadPromotionFile io_site
  | SavePromotionFile
  | ReadMarkersDir io_site
  | ReadMarkerFile io_site string
  | LoadStateFile io_site
  | ReadRevisionsDir
  | SaveStateFile
  | RemoveDir string

type_synonym io_env = "io_op \<Rightarrow> bool"

definition io_call :: "io_env \<Rightarrow> io_op \<Rightarrow> 'a \<Rightarrow> 'a result" where
  "io_call ok x v = (if ok x then Inr v else Inl ErrPlain)"

definition RetentionCount :: int where "RetentionCount = 50"
definition PromotionMarkerRetention :: nat where "PromotionMarkerRetention = 50"
definition PromotionHistoryRetention :: int where "PromotionHistoryRetention = 50"
definition DeployHistoryRetention :: int where "DeployHistoryRetention = 50"
definition MaxLabelLen :: nat where "MaxLabelLen = 128"

section \<open>Collecting hashes\<close>

text \<open>The loop that trims hashes and keeps the first occurrence of each that is not empty.\<close>

definition collect_hashes :: "string list \<Rightarrow> string list" where
  "collect_hashes hs = Unique (filter (\<lambda>h. h \<noteq> []) (map TrimSpace hs))"

definition MergeSourceRevisionPins :: "string list list \<Rightarrow> string list" where
  "MergeSourceRevisionPins groups = Unique (filter (\<lambda>h. h \<noteq> []) (concat groups))"

text \<open>A stable sort with the largest keys first.\<close>

definition sort_desc :: "('a \<Rightarrow> 'k::linorder) \<Rightarrow> 'a list \<Rightarrow> 'a list" where
  "sort_desc f xs = rev (sort_key f (rev xs))"

section \<open>Source revisions\<close>

definition newestRevisionHashes :: "RevisionEntry list \<Rightarrow> int \<Rightarrow> string list" where
  "newestRevisionHashes entries n =
     (if n \<le> 0 \<or> entries = [] then []
      else take (nat n) (collect_hashes (map re_PushHash (sort_desc re_CreatedAt entries))))"

record PruneOptions =
  po_ExtraPins :: "string list"
  po_KeepNewest :: int

definition keep_hashes :: "RevisionState \<Rightarrow> PruneOptions \<Rightarrow> string list" where
  "keep_hashes st opts =
     (if rs_Current st \<noteq> [] then [rs_Current st] else []) @
     (if rs_LastSuccessful st \<noteq> [] then [rs_LastSuccessful st] else []) @
     filter (\<lambda>h. h \<noteq> []) (map TrimSpace (po_ExtraPins opts)) @
     (if po_KeepNewest opts > 0 then newestRevisionHashes (rs_Revisions st) (po_KeepNewest opts) else [])"

text \<open>
  Removing the directory of a hash, whose error is ignored. Joining the empty name or a dot to the path
  of the revisions directory gives that directory itself, and then all revisions and markers are gone.
\<close>

definition RemoveAll :: "io_env \<Rightarrow> string \<Rightarrow> bucket_files \<Rightarrow> bucket_files" where
  "RemoveAll ok hash fs =
     (if \<not> ok (RemoveDir hash) then fs
      else if hash = [] \<or> hash = ''.'' then fs\<lparr>bf_Dirs := [], bf_Markers := []\<rparr>
      else fs\<lparr>bf_Dirs := filter (\<lambda>d. d \<noteq> hash) (bf_Dirs fs)\<rparr>)"

fun prune_entries ::
  "io_env \<Rightarrow> string list \<Rightarrow> string list \<Rightarrow> RevisionEntry list \<Rightarrow> bucket_files \<Rightarrow> RevisionEntry list \<times> bucket_files" where
  "prune_entries ok keep seen [] fs = ([], fs)"
| "prune_entries ok keep seen (entry # es) fs =
     (if re_PushHash entry \<notin> set keep then prune_entries ok keep seen es (RemoveAll ok (re_PushHash entry) fs)
      else if re_PushHash entry \<in> set seen then prune_entries ok keep seen es fs
      else (let (order, fs') = prune_entries ok keep (re_PushHash entry # seen) es fs in (entry # order, fs')))"

definition orphan_dir :: "string list \<Rightarrow> string \<Rightarrow> bool" where
  "orphan_dir keep name \<longleftrightarrow>
     name \<noteq> ''state.json'' \<and> name \<noteq> ''markers'' \<and> \<not> HasSuffix name ''.tmp'' \<and> name \<notin> set keep"

definition removeOrphanDirs :: "io_env \<Rightarrow> string list \<Rightarrow> bucket_files \<Rightarrow> bucket_files result" where
  "removeOrphanDirs ok keep fs =
     rbind (io_call ok ReadRevisionsDir (bf_Dirs fs)) (\<lambda>entries.
       Inr (foldl (\<lambda>fs name. RemoveAll ok name fs) fs (filter (orphan_dir keep) entries)))"

text \<open>The result and the files after it: what was removed stays removed when a later step fails.\<close>

definition Prune :: "io_env \<Rightarrow> PruneOptions \<Rightarrow> bucket_files \<Rightarrow> unit result \<times> bucket_files" where
  "Prune ok opts fs =
     (case io_call ok (LoadStateFile ForPrune) (bf_State fs) of
        Inl e \<Rightarrow> (Inl e, fs)
      | Inr st \<Rightarrow>
          let keep = keep_hashes st opts;
              (order, fs1) = prune_entries ok keep [] (rs_Revisions st) fs
          in case removeOrphanDirs ok keep fs1 of
               Inl e \<Rightarrow> (Inl e, fs1)
             | Inr fs2 \<Rightarrow>
                 (case io_call ok SaveStateFile () of
                    Inl e \<Rightarrow> (Inl e, fs2)
                  | Inr u \<Rightarrow> (Inr (), fs2\<lparr>bf_State := st\<lparr>rs_Revisions := order\<rparr>\<rparr>)))"

definition RetainedHashes :: "io_env \<Rightarrow> bucket_files \<Rightarrow> string list result" where
  "RetainedHashes ok fs =
     rbind (io_call ok (LoadStateFile AfterPrune) (bf_State fs)) (\<lambda>st. Inr (collect_hashes (map re_PushHash (rs_Revisions st))))"

definition NormalizeLabel :: "string \<Rightarrow> string" where
  "NormalizeLabel label = TrimSpace label"

text \<open>Bytes below 32 and the byte 127 are the control characters the check rejects.\<close>

definition ValidateLabel :: "string \<Rightarrow> unit result" where
  "ValidateLabel label =
     (if label = [] then Inr ()
      else if length label > MaxLabelLen then Inl ErrPlain
      else if list_ex (\<lambda>c. (of_char c :: nat) < 32 \<or> (of_char c :: nat) = 127) label then Inl ErrPlain
      else Inr ())"

definition LabelInUse :: "RevisionState \<Rightarrow> string \<Rightarrow> string \<Rightarrow> bool" where
  "LabelInUse st label excludeHash =
     (NormalizeLabel label \<noteq> [] \<and>
      list_ex (\<lambda>e. re_PushHash e \<noteq> TrimSpace excludeHash \<and> NormalizeLabel (re_Label e) = NormalizeLabel label) (rs_Revisions st))"

definition LabelForRevision :: "RevisionState \<Rightarrow> string \<Rightarrow> string" where
  "LabelForRevision st hash =
     (if TrimSpace hash = [] then []
      else case find (\<lambda>e. re_PushHash e = TrimSpace hash) (rs_Revisions st) of
             None \<Rightarrow> [] | Some e \<Rightarrow> NormalizeLabel (re_Label e))"

definition LabelMap :: "RevisionState \<Rightarrow> string \<rightharpoonup> string" where
  "LabelMap st = map_of (rev (map (\<lambda>e. (re_PushHash e, NormalizeLabel (re_Label e)))
     (filter (\<lambda>e. NormalizeLabel (re_Label e) \<noteq> []) (rs_Revisions st))))"

section \<open>Markers\<close>

definition marker_of :: "bucket_files \<Rightarrow> string \<Rightarrow> MarkerFile option" where
  "marker_of fs bid = find (\<lambda>m. mf_ConsumerBucketID m = bid) (bf_Markers fs)"

definition LoadMarker :: "io_env \<Rightarrow> io_site \<Rightarrow> bucket_files \<Rightarrow> string \<Rightarrow> MarkerFile result" where
  "LoadMarker ok site fs consumerBucketID =
     (let bid = TrimSpace consumerBucketID
      in if bid = [] then Inl ErrPlain
         else io_call ok (ReadMarkerFile site bid)
           (case marker_of fs bid of
              None \<Rightarrow> \<lparr>mf_ConsumerBucketID = bid, mf_Selection = [], mf_Entries = []\<rparr>
            | Some m \<Rightarrow> m))"

definition SaveMarker :: "MarkerFile \<Rightarrow> bucket_files \<Rightarrow> bucket_files result" where
  "SaveMarker m fs =
     (let bid = TrimSpace (mf_ConsumerBucketID m)
      in if bid = [] then Inl ErrPlain
         else Inr (fs\<lparr>bf_Markers := m\<lparr>mf_ConsumerBucketID := bid\<rparr> # filter (\<lambda>x. mf_ConsumerBucketID x \<noteq> bid) (bf_Markers fs)\<rparr>))"

definition DeleteMarker :: "string \<Rightarrow> bucket_files \<Rightarrow> bucket_files result" where
  "DeleteMarker consumerBucketID fs =
     (let bid = TrimSpace consumerBucketID
      in if bid = [] then Inl ErrPlain
         else Inr (fs\<lparr>bf_Markers := filter (\<lambda>x. mf_ConsumerBucketID x \<noteq> bid) (bf_Markers fs)\<rparr>))"

definition AppendMarkerEntry ::
  "io_env \<Rightarrow> string \<Rightarrow> string \<Rightarrow> MarkerEntry \<Rightarrow> bucket_files \<Rightarrow> bucket_files result" where
  "AppendMarkerEntry ok consumerBucketID selection entry fs =
     rbind (LoadMarker ok ForPins fs consumerBucketID) (\<lambda>file.
       let file1 = (if TrimSpace selection \<noteq> [] then file\<lparr>mf_Selection := TrimSpace selection\<rparr> else file)
       in SaveMarker (file1\<lparr>mf_Entries := take PromotionMarkerRetention (entry # mf_Entries file1)\<rparr>) fs)"

definition ListMarkers :: "io_env \<Rightarrow> io_site \<Rightarrow> bucket_files \<Rightarrow> string list result" where
  "ListMarkers ok site fs = io_call ok (ReadMarkersDir site) (map mf_ConsumerBucketID (bf_Markers fs))"

definition HasAnyMarkers :: "io_env \<Rightarrow> bucket_files \<Rightarrow> bool result" where
  "HasAnyMarkers ok fs = rbind (ListMarkers ok ForAny fs) (\<lambda>ids. Inr (ids \<noteq> []))"

fun fifo_loop :: "io_env \<Rightarrow> bucket_files \<Rightarrow> string list \<Rightarrow> bool result" where
  "fifo_loop ok fs [] = Inr False"
| "fifo_loop ok fs (bid # ids) =
     rbind (LoadMarker ok ForFifo fs bid) (\<lambda>file.
       if EqualFold (TrimSpace (mf_Selection file)) ''fifo'' then Inr True else fifo_loop ok fs ids)"

definition HasFifoMarker :: "io_env \<Rightarrow> bucket_files \<Rightarrow> bool result" where
  "HasFifoMarker ok fs = rbind (ListMarkers ok ForFifo fs) (fifo_loop ok fs)"

definition MarkerSourceRevisions :: "io_env \<Rightarrow> bucket_files \<Rightarrow> string list result" where
  "MarkerSourceRevisions ok fs =
     rbind (ListMarkers ok ForPins fs) (\<lambda>ids.
       rbind (rmap (LoadMarker ok ForPins fs) ids) (\<lambda>files.
         Inr (collect_hashes (concat (map (\<lambda>m. map me_SourceRevision (mf_Entries m)) files)))))"

section \<open>Promotion state\<close>

definition TrimPromotionHistory :: "PromotionHistoryEntry list \<Rightarrow> PromotionHistoryEntry list" where
  "TrimPromotionHistory entries =
     (if int (length entries) \<le> PromotionHistoryRetention then entries else take (nat PromotionHistoryRetention) entries)"

fun trim_history_loop :: "string list \<Rightarrow> int \<Rightarrow> PromotionHistoryEntry list \<Rightarrow> PromotionHistoryEntry list" where
  "trim_history_loop keepSet emptyKept [] = []"
| "trim_history_loop keepSet emptyKept (entry # es) =
     (let hash = TrimSpace (ph_SourceRevision entry)
      in if hash = [] then
           (if emptyKept \<ge> PromotionHistoryRetention then trim_history_loop keepSet emptyKept es
            else entry # trim_history_loop keepSet (emptyKept + 1) es)
         else if hash \<in> set keepSet then entry # trim_history_loop keepSet emptyKept es
         else trim_history_loop keepSet emptyKept es)"

definition TrimPromotionHistoryKeepingRevisions ::
  "PromotionHistoryEntry list \<Rightarrow> string \<Rightarrow> string list \<Rightarrow> PromotionHistoryEntry list" where
  "TrimPromotionHistoryKeepingRevisions entries lastSourceRevision keep =
     trim_history_loop (collect_hashes keep @ collect_hashes [lastSourceRevision]) 0 entries"

definition PromotionHistorySourceRevisions :: "PromotionState \<Rightarrow> string list" where
  "PromotionHistorySourceRevisions st = collect_hashes (ps_LastSourceRevision st # map ph_SourceRevision (ps_History st))"

definition SourceRevisionPinsFromPeerPromotion :: "PromotionState list \<Rightarrow> string \<Rightarrow> string list" where
  "SourceRevisionPinsFromPeerPromotion peers sourceBucketID =
     (let bid = TrimSpace sourceBucketID
      in if bid = [] then []
         else collect_hashes (concat (map (\<lambda>st. map ph_SourceRevision
           (filter (\<lambda>entry. EqualFold (TrimSpace (ph_SourceBucketID entry)) bid) (ps_History st))) peers)))"

definition PrunePromotionStateKeepingRevisions :: "io_env \<Rightarrow> string list \<Rightarrow> bucket_files \<Rightarrow> bucket_files result" where
  "PrunePromotionStateKeepingRevisions ok keep fs =
     rbind (io_call ok (LoadPromotionFile ForPrune) (bf_Promotion fs)) (\<lambda>st.
       rbind (io_call ok SavePromotionFile ()) (\<lambda>u.
         Inr (fs\<lparr>bf_Promotion := st\<lparr>ps_History :=
           TrimPromotionHistoryKeepingRevisions (ps_History st) (ps_LastSourceRevision st) keep\<rparr>\<rparr>)))"

section \<open>Deploy history\<close>

text \<open>
  \<^verbatim>\<open>ORDER BY ended_at DESC, generation DESC\<close>. SQL leaves the order of rows with equal keys open; the
  model keeps table order among them. SQL's \<^verbatim>\<open>trim\<close> removes spaces only.
\<close>

definition newest_first :: "deploy_history_row list \<Rightarrow> deploy_history_row list" where
  "newest_first rows = sort_desc (\<lambda>r. (dr_ended_at r, dr_generation r)) rows"

definition sql_trim :: "string \<Rightarrow> string" where
  "sql_trim s = rev (dropWhile (\<lambda>c. c = CHR '' '') (rev (dropWhile (\<lambda>c. c = CHR '' '') s)))"

definition normalizeHistoryJobFilter :: "string list \<Rightarrow> string list" where
  "normalizeHistoryJobFilter jobs = collect_hashes jobs"

record DeployHistoryEntry =
  he_Row :: deploy_history_row
  he_Jobs :: "deploy_history_job_row list"

definition loadDeployHistoryJobs :: "history_tables \<Rightarrow> string list \<Rightarrow> string \<Rightarrow> deploy_history_job_row list" where
  "loadDeployHistoryJobs t jobsFilter runID =
     sort_key (\<lambda>j. (dj_deployment_order j, dj_job j))
       (filter (\<lambda>j. dj_run_id j = runID \<and> (jobsFilter = [] \<or> dj_job j \<in> set jobsFilter)) (ht_jobs t))"

definition collectDeployHistoryEntries ::
  "history_tables \<Rightarrow> deploy_history_row list \<Rightarrow> int \<Rightarrow> string list \<Rightarrow> DeployHistoryEntry list" where
  "collectDeployHistoryEntries t rows limit jobsFilter =
     take (nat limit)
       (filter (\<lambda>e. \<not> (jobsFilter \<noteq> [] \<and> he_Jobs e = []))
         (map (\<lambda>r. \<lparr>he_Row = r, he_Jobs = loadDeployHistoryJobs t jobsFilter (dr_run_id r)\<rparr>) rows))"

definition ListDeployHistory :: "history_tables \<Rightarrow> int \<Rightarrow> string list \<Rightarrow> DeployHistoryEntry list" where
  "ListDeployHistory t limit jobsFilter =
     (let n = (if limit \<le> 0 then DeployHistoryRetention else limit)
      in collectDeployHistoryEntries t (take (nat (n * 4)) (newest_first (ht_runs t))) n (normalizeHistoryJobFilter jobsFilter))"

definition promotable :: "deploy_history_row \<Rightarrow> bool" where
  "promotable r \<longleftrightarrow> dr_status r = ''succeeded'' \<and> dr_changed r = 1 \<and> sql_trim (dr_source_revision r) \<noteq> []"

definition ListPromotableDeployHistory :: "history_tables \<Rightarrow> int \<Rightarrow> DeployHistoryEntry list" where
  "ListPromotableDeployHistory t limit =
     (let n = (if limit \<le> 0 then DeployHistoryRetention else limit)
      in collectDeployHistoryEntries t (take (nat n) (newest_first (filter promotable (ht_runs t)))) n [])"

definition NewestPromotableDeployMark :: "history_tables \<Rightarrow> string \<Rightarrow> (string \<times> int) option" where
  "NewestPromotableDeployMark t sourceRevision =
     (let rv = TrimSpace sourceRevision
      in if rv = [] then None
         else case newest_first (filter (\<lambda>r. dr_status r = ''succeeded'' \<and> dr_changed r = 1 \<and>
                     sql_trim (dr_source_revision r) = rv) (ht_runs t)) of
                [] \<Rightarrow> None | r # rs \<Rightarrow> Some (dr_ended_at r, dr_generation r))"

definition PromotableSourceRevisions :: "history_tables \<Rightarrow> string list" where
  "PromotableSourceRevisions t =
     filter (\<lambda>h. h \<noteq> []) (map TrimSpace (Unique (map dr_source_revision (filter promotable (ht_runs t)))))"

definition DeployHistorySourceRevisions :: "history_tables \<Rightarrow> string list" where
  "DeployHistorySourceRevisions t =
     filter (\<lambda>h. h \<noteq> []) (map TrimSpace (Unique (map dr_source_revision
       (filter (\<lambda>r. sql_trim (dr_source_revision r) \<noteq> []) (ht_runs t)))))"

definition deleteDeployHistoryRuns :: "string list \<Rightarrow> history_tables \<Rightarrow> history_tables" where
  "deleteDeployHistoryRuns runIDs t =
     foldl (\<lambda>t runID. if TrimSpace runID = [] then t
        else \<lparr>ht_runs = filter (\<lambda>r. dr_run_id r \<noteq> runID) (ht_runs t), ht_jobs = filter (\<lambda>j. dj_run_id j \<noteq> runID) (ht_jobs t)\<rparr>)
       t runIDs"

definition PruneDeployHistoryKeepingRevisions :: "string list \<Rightarrow> int \<Rightarrow> history_tables \<Rightarrow> history_tables" where
  "PruneDeployHistoryKeepingRevisions keep keepNewestOrphan t =
     (let keepSet = collect_hashes keep;
          drop_ids = map dr_run_id (filter (\<lambda>r. TrimSpace (dr_source_revision r) \<noteq> [] \<and>
            TrimSpace (dr_source_revision r) \<notin> set keepSet) (ht_runs t));
          orphanIDs = map dr_run_id (filter (\<lambda>r. TrimSpace (dr_source_revision r) = []) (ht_runs t));
          n = (if keepNewestOrphan < 1 then DeployHistoryRetention else keepNewestOrphan);
          ordered = map dr_run_id (newest_first (filter (\<lambda>r. sql_trim (dr_source_revision r) = []) (ht_runs t)))
      in deleteDeployHistoryRuns
           (drop_ids @ (if int (length orphanIDs) > n \<and> int (length ordered) > n then drop (nat n) ordered else [])) t)"

section \<open>The prune of the garbage collector\<close>

definition promotionHistoryPinRevisions :: "PromotionState \<Rightarrow> int \<Rightarrow> string list" where
  "promotionHistoryPinRevisions st newest =
     (let limit = (if newest < 1 then PromotionHistoryRetention else newest)
      in collect_hashes (ps_LastSourceRevision st # map ph_SourceRevision (take (nat limit) (ps_History st))))"

definition deployHistoryPinRevisions :: "history_tables \<Rightarrow> int \<Rightarrow> string list" where
  "deployHistoryPinRevisions t newest =
     (let n = (if newest < 1 then DeployHistoryRetention else newest)
      in collect_hashes (map (\<lambda>e. dr_source_revision (he_Row e)) (ListDeployHistory t n [])))"

definition CollectSourceRevisionHistoryPins ::
  "io_env \<Rightarrow> history_tables \<Rightarrow> bucket_files \<Rightarrow> string list \<Rightarrow> string list result" where
  "CollectSourceRevisionHistoryPins ok t fs peerPins =
     rbind (io_call ok (LoadPromotionFile ForPins) (bf_Promotion fs)) (\<lambda>st.
     rbind (MarkerSourceRevisions ok fs) (\<lambda>markerPins.
     rbind (HasFifoMarker ok fs) (\<lambda>hasFifo.
       let pins = MergeSourceRevisionPins
             [promotionHistoryPinRevisions st RetentionCount, deployHistoryPinRevisions t RetentionCount, peerPins, markerPins]
       in Inr (if hasFifo then MergeSourceRevisionPins [pins, PromotableSourceRevisions t] else pins))))"

definition PruneSourceRevisionsAndHistory ::
  "io_env \<Rightarrow> string list \<Rightarrow> history_tables \<Rightarrow> bucket_files \<Rightarrow> unit result \<times> history_tables \<times> bucket_files" where
  "PruneSourceRevisionsAndHistory ok peerPins t fs =
     (case rbind (CollectSourceRevisionHistoryPins ok t fs peerPins) (\<lambda>pins.
           rbind (HasAnyMarkers ok fs) (\<lambda>hasMarkers. Inr (pins, hasMarkers))) of
        Inl e \<Rightarrow> (Inl e, t, fs)
      | Inr (pins, hasMarkers) \<Rightarrow>
          (case Prune ok \<lparr>po_ExtraPins = pins, po_KeepNewest = (if hasMarkers then 0 else RetentionCount)\<rparr> fs of
             (Inl e, fs1) \<Rightarrow> (Inl e, t, fs1)
           | (Inr u, fs1) \<Rightarrow>
               (case RetainedHashes ok fs1 of
                  Inl e \<Rightarrow> (Inl e, t, fs1)
                | Inr kept \<Rightarrow>
                    let t1 = PruneDeployHistoryKeepingRevisions kept DeployHistoryRetention t
                    in case PrunePromotionStateKeepingRevisions ok kept fs1 of
                         Inl e \<Rightarrow> (Inl e, t1, fs1)
                       | Inr fs2 \<Rightarrow> (Inr (), t1, fs2))))"

section \<open>Lemmas\<close>

lemma set_collect_hashes: "set (collect_hashes hs) = TrimSpace ` set hs - {[]}"
  by (auto simp: collect_hashes_def)

lemma set_MergeSourceRevisionPins: "set (MergeSourceRevisionPins groups) = \<Union> (set ` set groups) - {[]}"
  by (auto simp: MergeSourceRevisionPins_def)

lemma set_sort_desc [simp]: "set (sort_desc f xs) = set xs"
  by (simp add: sort_desc_def)

lemma length_sort_desc [simp]: "length (sort_desc f xs) = length xs"
  by (simp add: sort_desc_def)

lemma distinct_map_sort_desc: "distinct (map g xs) \<Longrightarrow> distinct (map g (sort_desc f xs))"
  by (simp add: sort_desc_def distinct_map rev_map [symmetric])

definition push_hashes :: "bucket_files \<Rightarrow> string set" where
  "push_hashes fs = re_PushHash ` set (rs_Revisions (bf_State fs))"

text \<open>The names the code gives revisions: not empty, not a dot, without blanks around.\<close>

definition plain_hash :: "string \<Rightarrow> bool" where
  "plain_hash h \<longleftrightarrow> h \<noteq> [] \<and> h \<noteq> ''.'' \<and> TrimSpace h = h"

definition files_wf :: "bucket_files \<Rightarrow> bool" where
  "files_wf fs \<longleftrightarrow> (\<forall>h \<in> push_hashes fs. plain_hash h) \<and> [] \<notin> set (bf_Dirs fs) \<and> ''.'' \<notin> set (bf_Dirs fs) \<and>
     distinct (map mf_ConsumerBucketID (bf_Markers fs)) \<and>
     (\<forall>m \<in> set (bf_Markers fs). mf_ConsumerBucketID m \<noteq> [] \<and> TrimSpace (mf_ConsumerBucketID m) = mf_ConsumerBucketID m)"

text \<open>What removing directories outside a set of hashes leaves alone.\<close>

definition dirs_kept :: "string list \<Rightarrow> bucket_files \<Rightarrow> bucket_files \<Rightarrow> bool" where
  "dirs_kept keep fs fs' \<longleftrightarrow>
     bf_State fs' = bf_State fs \<and> bf_Promotion fs' = bf_Promotion fs \<and> bf_Markers fs' = bf_Markers fs \<and>
     set (bf_Dirs fs') \<subseteq> set (bf_Dirs fs) \<and> (\<forall>d \<in> set (bf_Dirs fs). d \<in> set keep \<longrightarrow> d \<in> set (bf_Dirs fs'))"

lemma dirs_kept_refl: "dirs_kept keep fs fs"
  by (simp add: dirs_kept_def)

lemma dirs_kept_trans: "dirs_kept keep fs fs' \<Longrightarrow> dirs_kept keep fs' fs'' \<Longrightarrow> dirs_kept keep fs fs''"
  by (auto simp: dirs_kept_def)

lemma RemoveAll_kept: "h \<noteq> [] \<Longrightarrow> h \<noteq> ''.'' \<Longrightarrow> h \<notin> set keep \<Longrightarrow> dirs_kept keep fs (RemoveAll ok h fs)"
  by (auto simp: dirs_kept_def RemoveAll_def)

lemma prune_entries_kept:
  "\<forall>e \<in> set es. plain_hash (re_PushHash e) \<Longrightarrow> prune_entries ok keep seen es fs = (order, fs') \<Longrightarrow>
     dirs_kept keep fs fs' \<and> set order \<subseteq> set es \<and> re_PushHash ` set order = re_PushHash ` set es \<inter> set keep - set seen"
proof (induction es arbitrary: seen fs order fs')
  case Nil
  then show ?case by (simp add: dirs_kept_refl)
next
  case (Cons e es)
  let ?h = "re_PushHash e"
  have plain: "\<forall>e \<in> set es. plain_hash (re_PushHash e)" "?h \<noteq> []" "?h \<noteq> ''.''" using Cons.prems(1) by (auto simp: plain_hash_def)
  consider (gone) "?h \<notin> set keep" | (again) "?h \<in> set keep" "?h \<in> set seen" | (first) "?h \<in> set keep" "?h \<notin> set seen" by blast
  then show ?case
  proof cases
    case gone
    with Cons.prems(2) have r: "prune_entries ok keep seen es (RemoveAll ok ?h fs) = (order, fs')" by simp
    have "dirs_kept keep fs (RemoveAll ok ?h fs)" using plain(2,3) gone by (rule RemoveAll_kept)
    with Cons.IH [OF plain(1) r] gone show ?thesis by (auto intro: dirs_kept_trans)
  next
    case again
    with Cons.prems(2) have r: "prune_entries ok keep seen es fs = (order, fs')" by simp
    from Cons.IH [OF plain(1) r] again show ?thesis by auto
  next
    case first
    with Cons.prems(2) obtain rest where r: "prune_entries ok keep (?h # seen) es fs = (rest, fs')" "order = e # rest"
      by (auto split: prod.splits)
    from Cons.IH [OF plain(1) r(1)] first r(2) show ?thesis by auto
  qed
qed

lemma removeOrphanDirs_kept:
  assumes "removeOrphanDirs ok keep fs = Inr fs'" "[] \<notin> set (bf_Dirs fs)" "''.'' \<notin> set (bf_Dirs fs)"
  shows "dirs_kept keep fs fs'"
proof -
  have "dirs_kept keep fs (foldl (\<lambda>fs name. RemoveAll ok name fs) fs names)"
    if "\<forall>n \<in> set names. n \<noteq> [] \<and> n \<noteq> ''.'' \<and> n \<notin> set keep" for names fs
    using that
  proof (induction names arbitrary: fs)
    case (Cons n names)
    then have "dirs_kept keep fs (RemoveAll ok n fs)" by (intro RemoveAll_kept) auto
    with Cons show ?case by (auto intro: dirs_kept_trans)
  qed (simp add: dirs_kept_refl)
  moreover have "\<forall>n \<in> set (filter (orphan_dir keep) (bf_Dirs fs)). n \<noteq> [] \<and> n \<noteq> ''.'' \<and> n \<notin> set keep"
    using assms(2,3) by (auto simp: orphan_dir_def)
  ultimately show ?thesis using assms(1) by (auto simp: removeOrphanDirs_def io_call_def split: if_splits)
qed

lemma files_wf_entries: "files_wf fs \<Longrightarrow> \<forall>e \<in> set (rs_Revisions (bf_State fs)). plain_hash (re_PushHash e)"
  by (auto simp: files_wf_def push_hashes_def)

text \<open>
  The prune, on every path: directories and entries of kept hashes stay, whatever fails; when it succeeds,
  the entries that are left are exactly those of kept hashes.
\<close>

lemma Prune_kept:
  assumes "Prune ok opts fs = (r, fs')" "files_wf fs"
  defines "keep \<equiv> keep_hashes (bf_State fs) opts"
  shows "bf_Promotion fs' = bf_Promotion fs \<and> bf_Markers fs' = bf_Markers fs \<and>
    (\<forall>d \<in> set (bf_Dirs fs). d \<in> set keep \<longrightarrow> d \<in> set (bf_Dirs fs')) \<and>
    push_hashes fs \<inter> set keep \<subseteq> push_hashes fs' \<and> push_hashes fs' \<subseteq> push_hashes fs \<and>
    (r = Inr () \<longrightarrow> push_hashes fs' = push_hashes fs \<inter> set keep)"
proof (cases "ok (LoadStateFile ForPrune)")
  case False
  with assms(1) show ?thesis by (auto simp: Prune_def io_call_def)
next
  case True
  obtain order fs1 where p: "prune_entries ok keep [] (rs_Revisions (bf_State fs)) fs = (order, fs1)" by fastforce
  have k: "dirs_kept keep fs fs1" "re_PushHash ` set order = push_hashes fs \<inter> set keep"
    using prune_entries_kept [OF files_wf_entries [OF assms(2)] p] by (auto simp: push_hashes_def)
  have wf1: "[] \<notin> set (bf_Dirs fs1)" "''.'' \<notin> set (bf_Dirs fs1)" using assms(2) k(1) by (auto simp: files_wf_def dirs_kept_def)
  consider (dirs) e where "removeOrphanDirs ok keep fs1 = Inl e" "fs' = fs1" "r = Inl e"
    | (save) fs2 where "removeOrphanDirs ok keep fs1 = Inr fs2" "fs' = fs2" "r = Inl ErrPlain"
    | (saved) fs2 where "removeOrphanDirs ok keep fs1 = Inr fs2" "fs' = fs2\<lparr>bf_State := bf_State fs\<lparr>rs_Revisions := order\<rparr>\<rparr>" "r = Inr ()"
    using assms(1) True p by (auto simp: Prune_def io_call_def keep_def Let_def split: sum.splits if_splits)
  then show ?thesis
  proof cases
    case dirs
    with k(1) show ?thesis by (auto simp: dirs_kept_def push_hashes_def)
  next
    case save
    with dirs_kept_trans [OF k(1) removeOrphanDirs_kept [OF save(1) wf1]] show ?thesis by (auto simp: dirs_kept_def push_hashes_def)
  next
    case saved
    have "push_hashes fs' = push_hashes fs \<inter> set keep" using saved(2) k(2) by (simp add: push_hashes_def)
    with saved dirs_kept_trans [OF k(1) removeOrphanDirs_kept [OF saved(1) wf1]] show ?thesis by (auto simp: dirs_kept_def)
  qed
qed

subsection \<open>Pins\<close>

definition fifo_marker :: "MarkerFile \<Rightarrow> bool" where
  "fifo_marker m \<longleftrightarrow> EqualFold (TrimSpace (mf_Selection m)) ''fifo''"

definition pinned :: "history_tables \<Rightarrow> bucket_files \<Rightarrow> string list \<Rightarrow> string \<Rightarrow> bool" where
  "pinned t fs peers h \<longleftrightarrow>
     h = rs_Current (bf_State fs) \<or> h = rs_LastSuccessful (bf_State fs) \<or> h \<in> set peers \<or>
     (\<exists>m \<in> set (bf_Markers fs). h \<in> me_SourceRevision ` set (mf_Entries m)) \<or>
     h = ps_LastSourceRevision (bf_Promotion fs) \<or> h \<in> ph_SourceRevision ` set (take 50 (ps_History (bf_Promotion fs))) \<or>
     h \<in> dr_source_revision ` set (take 50 (newest_first (ht_runs t))) \<or>
     bf_Markers fs = [] \<and> h \<in> set (newestRevisionHashes (rs_Revisions (bf_State fs)) 50) \<or>
     list_ex fifo_marker (bf_Markers fs) \<and> h \<in> set (PromotableSourceRevisions t)"

lemma marker_of_self: "files_wf fs \<Longrightarrow> m \<in> set (bf_Markers fs) \<Longrightarrow> marker_of fs (mf_ConsumerBucketID m) = Some m"
proof -
  assume "files_wf fs" "m \<in> set (bf_Markers fs)"
  moreover have "distinct (map mf_ConsumerBucketID ms) \<Longrightarrow> m \<in> set ms \<Longrightarrow>
      find (\<lambda>x. mf_ConsumerBucketID x = mf_ConsumerBucketID m) ms = Some m" for ms
    by (induction ms) auto
  ultimately show ?thesis by (simp add: files_wf_def marker_of_def)
qed

lemma LoadMarker_listed:
  "files_wf fs \<Longrightarrow> m \<in> set (bf_Markers fs) \<Longrightarrow> LoadMarker ok site fs (mf_ConsumerBucketID m) =
     io_call ok (ReadMarkerFile site (mf_ConsumerBucketID m)) m"
  using marker_of_self [of fs m] by (simp add: LoadMarker_def files_wf_def Let_def)

lemma MarkerSourceRevisions_Inr:
  assumes "MarkerSourceRevisions ok fs = Inr pins" "files_wf fs"
  shows "pins = collect_hashes (concat (map (\<lambda>m. map me_SourceRevision (mf_Entries m)) (bf_Markers fs)))"
proof -
  from assms(1) obtain files where files: "rmap (LoadMarker ok ForPins fs) (map mf_ConsumerBucketID (bf_Markers fs)) = Inr files"
    "pins = collect_hashes (concat (map (\<lambda>m. map me_SourceRevision (mf_Entries m)) files))"
    by (auto simp: MarkerSourceRevisions_def ListMarkers_def io_call_def result_simps split: if_splits)
  have "list_all2 (\<lambda>m f. f = m) (bf_Markers fs) files"
    using files(1) LoadMarker_listed [OF assms(2)]
    by (auto simp: rmap_eq_Inr list_all2_map1 io_call_def list_all2_conv_all_nth split: if_splits)
  then have "files = bf_Markers fs" by (simp add: list_all2_conv_all_nth list_eq_iff_nth_eq)
  with files(2) show ?thesis by simp
qed

lemma HasFifoMarker_Inr:
  assumes "HasFifoMarker ok fs = Inr b" "files_wf fs"
  shows "b = list_ex fifo_marker (bf_Markers fs)"
proof -
  have "fifo_loop ok fs (map mf_ConsumerBucketID ms) = Inr b \<Longrightarrow> set ms \<subseteq> set (bf_Markers fs) \<Longrightarrow> b = list_ex fifo_marker ms" for ms
  proof (induction ms)
    case (Cons m ms)
    then have "m \<in> set (bf_Markers fs)" by simp
    with Cons LoadMarker_listed [OF assms(2) this, of ok ForFifo] show ?case
      by (auto simp: io_call_def fifo_marker_def split: if_splits)
  qed simp
  then show ?thesis using assms(1) by (auto simp: HasFifoMarker_def ListMarkers_def io_call_def split: if_splits)
qed

lemma deploy_pins: "set (deployHistoryPinRevisions t 50) = TrimSpace ` dr_source_revision ` set (take 50 (newest_first (ht_runs t))) - {[]}"
proof -
  have "normalizeHistoryJobFilter [] = []" by (simp add: normalizeHistoryJobFilter_def collect_hashes_def)
  then show ?thesis
    by (simp add: deployHistoryPinRevisions_def ListDeployHistory_def collectDeployHistoryEntries_def set_collect_hashes image_image
        take_map)
qed

lemma CollectPins_pinned:
  assumes "CollectSourceRevisionHistoryPins ok t fs peers = Inr pins" "HasAnyMarkers ok fs = Inr has" "files_wf fs"
    and "plain_hash h" "pinned t fs peers h"
  shows "h \<in> set (keep_hashes (bf_State fs) \<lparr>po_ExtraPins = pins, po_KeepNewest = (if has then 0 else RetentionCount)\<rparr>)"
proof -
  from assms(1) obtain markerPins b where c: "MarkerSourceRevisions ok fs = Inr markerPins" "HasFifoMarker ok fs = Inr b"
    "pins = (let p = MergeSourceRevisionPins [promotionHistoryPinRevisions (bf_Promotion fs) 50, deployHistoryPinRevisions t 50, peers, markerPins]
             in if b then MergeSourceRevisionPins [p, PromotableSourceRevisions t] else p)"
    by (auto simp: CollectSourceRevisionHistoryPins_def io_call_def result_simps RetentionCount_def Let_def split: if_splits)
  have has: "has \<longleftrightarrow> bf_Markers fs \<noteq> []" using assms(2) by (auto simp: HasAnyMarkers_def ListMarkers_def io_call_def split: if_splits)
  note b = HasFifoMarker_Inr [OF c(2) assms(3)] and m = MarkerSourceRevisions_Inr [OF c(1) assms(3)]
  have h: "h \<noteq> []" "TrimSpace h = h" using assms(4) by (auto simp: plain_hash_def)
  have trimmed: "h \<in> A \<Longrightarrow> h \<in> TrimSpace ` A - {[]}" for A using h by (metis DiffI image_eqI singletonD)
  have pin: "h \<in> set pins \<Longrightarrow> ?thesis" using h trimmed [of "set pins"] by (simp add: keep_hashes_def image_def)
  have "set (promotionHistoryPinRevisions (bf_Promotion fs) 50) =
      TrimSpace ` (insert (ps_LastSourceRevision (bf_Promotion fs)) (ph_SourceRevision ` set (take 50 (ps_History (bf_Promotion fs))))) - {[]}"
    by (simp add: promotionHistoryPinRevisions_def set_collect_hashes)
  then have pins: "h \<in> set pins" if "h \<in> set peers \<or> (\<exists>m \<in> set (bf_Markers fs). h \<in> me_SourceRevision ` set (mf_Entries m)) \<or>
     h = ps_LastSourceRevision (bf_Promotion fs) \<or> h \<in> ph_SourceRevision ` set (take 50 (ps_History (bf_Promotion fs))) \<or>
     h \<in> dr_source_revision ` set (take 50 (newest_first (ht_runs t))) \<or> list_ex fifo_marker (bf_Markers fs) \<and> h \<in> set (PromotableSourceRevisions t)"
    using that h trimmed [of "insert (ps_LastSourceRevision (bf_Promotion fs)) (ph_SourceRevision ` set (take 50 (ps_History (bf_Promotion fs))))"]
      trimmed [of "dr_source_revision ` set (take 50 (newest_first (ht_runs t)))"]
      trimmed [of "\<Union>m \<in> set (bf_Markers fs). me_SourceRevision ` set (mf_Entries m)"]
    by (auto simp: c(3) b m Let_def set_MergeSourceRevisionPins set_collect_hashes deploy_pins)
  from assms(5) consider "h = rs_Current (bf_State fs)" | "h = rs_LastSuccessful (bf_State fs)" | "h \<in> set pins"
    | "bf_Markers fs = []" "h \<in> set (newestRevisionHashes (rs_Revisions (bf_State fs)) 50)"
    unfolding pinned_def using pins by blast
  then show ?thesis
  proof cases
    case 4
    then show ?thesis using has by (simp add: keep_hashes_def RetentionCount_def)
  qed (use h pin in \<open>auto simp: keep_hashes_def\<close>)
qed

subsection \<open>The history that is left\<close>

text \<open>What inserting a run guarantees: an identity that is not blank and a trimmed revision.\<close>

definition history_wf :: "history_tables \<Rightarrow> bool" where
  "history_wf t \<longleftrightarrow>
     distinct (map dr_run_id (ht_runs t)) \<and>
     (\<forall>r \<in> set (ht_runs t). TrimSpace (dr_run_id r) \<noteq> [] \<and> TrimSpace (dr_source_revision r) = dr_source_revision r) \<and>
     (\<forall>j \<in> set (ht_jobs t). dj_run_id j \<in> dr_run_id ` set (ht_runs t))"

definition orphan_run :: "deploy_history_row \<Rightarrow> bool" where
  "orphan_run r \<longleftrightarrow> dr_source_revision r = []"

lemma deleteDeployHistoryRuns_eq:
  "deleteDeployHistoryRuns ids t =
     \<lparr>ht_runs = filter (\<lambda>r. \<not> (dr_run_id r \<in> set ids \<and> TrimSpace (dr_run_id r) \<noteq> [])) (ht_runs t),
      ht_jobs = filter (\<lambda>j. \<not> (dj_run_id j \<in> set ids \<and> TrimSpace (dj_run_id j) \<noteq> [])) (ht_jobs t)\<rparr>"
proof (induction ids arbitrary: t)
  case (Cons i ids)
  then show ?case
    by (auto simp: deleteDeployHistoryRuns_def intro!: filter_cong)
qed (simp add: deleteDeployHistoryRuns_def)

lemma strip_all: "rev (dropWhile P (rev (dropWhile P s))) = [] \<Longrightarrow> \<forall>x \<in> set s. P x"
proof -
  assume "rev (dropWhile P (rev (dropWhile P s))) = []"
  then have "\<forall>x \<in> set (dropWhile P s). P x" by (simp add: dropWhile_eq_Nil_conv)
  then have "dropWhile P s = []" using hd_dropWhile [of P s] hd_in_set [of "dropWhile P s"] by blast
  then show ?thesis by (simp add: dropWhile_eq_Nil_conv)
qed

lemma sql_trim_blank: "TrimSpace s = s \<Longrightarrow> sql_trim s = [] \<longleftrightarrow> s = []"
proof -
  assume t: "TrimSpace s = s"
  have "s = []" if "sql_trim s = []"
  proof (cases s)
    case (Cons c s')
    have "c = CHR '' ''" using bspec [OF strip_all [OF that [unfolded sql_trim_def]], of c] Cons by simp
    then have "drop_first_seq space_seqs s \<noteq> None" using Cons by (simp add: space_seqs_def HasPrefix_def)
    with t show ?thesis by (simp add: TrimSpace_id_iff)
  qed
  then show ?thesis by (auto simp: sql_trim_def)
qed

text \<open>The rows without a revision, newest first, and the cut after the fiftieth.\<close>

definition orphans :: "history_tables \<Rightarrow> string list" where
  "orphans t = map dr_run_id (newest_first (filter orphan_run (ht_runs t)))"

lemma distinct_orphans: "history_wf t \<Longrightarrow> distinct (orphans t)"
  by (simp add: orphans_def newest_first_def history_wf_def distinct_map_sort_desc distinct_map_filter)

lemma PruneDeployHistory_eq:
  assumes "history_wf t"
  shows "PruneDeployHistoryKeepingRevisions keep DeployHistoryRetention t =
    deleteDeployHistoryRuns
      (map dr_run_id (filter (\<lambda>r. \<not> orphan_run r \<and> dr_source_revision r \<notin> set (collect_hashes keep)) (ht_runs t)) @ drop 50 (orphans t)) t"
proof -
  have f: "filter (\<lambda>r. TrimSpace (dr_source_revision r) \<noteq> [] \<and> TrimSpace (dr_source_revision r) \<notin> set (collect_hashes keep)) (ht_runs t) =
      filter (\<lambda>r. \<not> orphan_run r \<and> dr_source_revision r \<notin> set (collect_hashes keep)) (ht_runs t)"
    "filter (\<lambda>r. TrimSpace (dr_source_revision r) = []) (ht_runs t) = filter orphan_run (ht_runs t)"
    "filter (\<lambda>r. sql_trim (dr_source_revision r) = []) (ht_runs t) = filter orphan_run (ht_runs t)"
    using assms sql_trim_blank by (auto simp: history_wf_def orphan_run_def intro!: filter_cong)
  have l: "length (orphans t) = length (filter orphan_run (ht_runs t))" by (simp add: orphans_def newest_first_def)
  show ?thesis
    unfolding PruneDeployHistoryKeepingRevisions_def Let_def f orphans_def [symmetric]
    using l by (simp add: DeployHistoryRetention_def)
qed

definition pruned_run :: "string list \<Rightarrow> history_tables \<Rightarrow> deploy_history_row \<Rightarrow> bool" where
  "pruned_run keep t r \<longleftrightarrow>
     (if orphan_run r then dr_run_id r \<in> set (drop 50 (orphans t)) else dr_source_revision r \<notin> set (collect_hashes keep))"

lemma run_unique: "history_wf t \<Longrightarrow> r \<in> set (ht_runs t) \<Longrightarrow> r' \<in> set (ht_runs t) \<Longrightarrow> dr_run_id r = dr_run_id r' \<Longrightarrow> r = r'"
  by (auto simp: history_wf_def distinct_map inj_on_def)

lemma split_prune:
  "(A \<Longrightarrow> orphan) \<Longrightarrow> (B \<Longrightarrow> \<not> orphan \<and> K) \<Longrightarrow> (\<not> orphan \<Longrightarrow> K \<Longrightarrow> B) \<Longrightarrow> T \<Longrightarrow> (B \<or> A) \<and> T \<longleftrightarrow> (if orphan then A else K)"
  by auto

lemma PruneDeployHistory_runs:
  assumes "history_wf t"
  shows "ht_runs (PruneDeployHistoryKeepingRevisions keep DeployHistoryRetention t) = filter (\<lambda>r. \<not> pruned_run keep t r) (ht_runs t)"
proof -
  let ?ids = "map dr_run_id (filter (\<lambda>r. \<not> orphan_run r \<and> dr_source_revision r \<notin> set (collect_hashes keep)) (ht_runs t)) @ drop 50 (orphans t)"
  have "dr_run_id r \<in> set ?ids \<and> TrimSpace (dr_run_id r) \<noteq> [] \<longleftrightarrow> pruned_run keep t r" if r: "r \<in> set (ht_runs t)" for r
  proof -
    have "orphan_run r" if "dr_run_id r \<in> set (drop 50 (orphans t))"
    proof -
      from in_set_dropD [OF that] obtain r' where "r' \<in> set (ht_runs t)" "orphan_run r'" "dr_run_id r = dr_run_id r'"
        by (auto simp: orphans_def newest_first_def)
      with run_unique [OF assms r] show ?thesis by simp
    qed
    moreover have "\<not> orphan_run r \<and> dr_source_revision r \<notin> set (collect_hashes keep)"
      if "dr_run_id r \<in> dr_run_id ` {r \<in> set (ht_runs t). \<not> orphan_run r \<and> dr_source_revision r \<notin> set (collect_hashes keep)}"
      using that run_unique [OF assms r] by blast
    moreover have "dr_run_id r \<in> dr_run_id ` {r \<in> set (ht_runs t). \<not> orphan_run r \<and> dr_source_revision r \<notin> set (collect_hashes keep)}"
      if "\<not> orphan_run r" "dr_source_revision r \<notin> set (collect_hashes keep)" using r that by blast
    moreover have "TrimSpace (dr_run_id r) \<noteq> []" using assms r by (simp add: history_wf_def)
    ultimately show ?thesis unfolding pruned_run_def set_append set_map set_filter Un_iff
      by (rule split_prune)
  qed
  then show ?thesis unfolding PruneDeployHistory_eq [OF assms] deleteDeployHistoryRuns_eq by (simp cong: filter_cong)
qed

lemma PruneDeployHistory_wf:
  assumes "history_wf t"
  shows "history_wf (PruneDeployHistoryKeepingRevisions keep DeployHistoryRetention t)"
proof -
  have "history_wf (deleteDeployHistoryRuns ids t)" for ids
  proof -
    let ?kept = "\<lambda>i. \<not> (i \<in> set ids \<and> TrimSpace i \<noteq> [])"
    have "dj_run_id j \<in> dr_run_id ` {r \<in> set (ht_runs t). ?kept (dr_run_id r)}" if "j \<in> set (ht_jobs t)" "?kept (dj_run_id j)" for j
    proof -
      from assms that(1) have "dj_run_id j \<in> dr_run_id ` set (ht_runs t)" by (simp add: history_wf_def)
      then obtain r where "r \<in> set (ht_runs t)" "dj_run_id j = dr_run_id r" by (elim imageE)
      with that(2) show ?thesis by (intro image_eqI [of _ _ r]) simp_all
    qed
    with assms show ?thesis unfolding deleteDeployHistoryRuns_eq history_wf_def by (simp add: distinct_map_filter)
  qed
  then show ?thesis unfolding PruneDeployHistory_eq [OF assms] .
qed

lemma orphans_left:
  assumes "history_wf t"
  shows "length (filter orphan_run (ht_runs (PruneDeployHistoryKeepingRevisions keep DeployHistoryRetention t))) \<le> 50"
proof -
  let ?left = "filter orphan_run (filter (\<lambda>r. \<not> pruned_run keep t r) (ht_runs t))"
  have "dr_run_id ` set ?left \<subseteq> set (take 50 (orphans t))"
  proof
    fix i
    assume "i \<in> dr_run_id ` set ?left"
    then have "i \<in> set (orphans t)" "i \<notin> set (drop 50 (orphans t))" by (auto simp: orphans_def newest_first_def pruned_run_def)
    then show "i \<in> set (take 50 (orphans t))" by (metis UnE append_take_drop_id set_append)
  qed
  then have "card (set (map dr_run_id ?left)) \<le> card (set (take 50 (orphans t)))" by (intro card_mono) simp_all
  moreover have "distinct (map dr_run_id ?left)" using assms by (simp add: history_wf_def distinct_map_filter)
  ultimately have "length ?left \<le> length (take 50 (orphans t))"
    using card_length [of "take 50 (orphans t)"] distinct_card [of "map dr_run_id ?left"] by (simp only: length_map)
  then show ?thesis unfolding PruneDeployHistory_runs [OF assms] by simp
qed

lemma trim_history_keeps:
  "e \<in> set es \<Longrightarrow> TrimSpace (ph_SourceRevision e) \<in> set keepSet \<Longrightarrow> [] \<notin> set keepSet \<Longrightarrow> e \<in> set (trim_history_loop keepSet n es)"
proof (induction keepSet n es rule: trim_history_loop.induct)
  case (2 keepSet emptyKept entry es)
  consider "e = entry" | "e \<in> set es" using "2.prems"(1) by auto
  then show ?case
  proof cases
    case 1
    with "2.prems" show ?thesis by (auto simp: Let_def)
  next
    case 2
    with "2.IH" "2.prems" show ?thesis by (simp add: Let_def)
  qed
qed simp

lemma RetainedHashes_Inr:
  assumes "RetainedHashes ok fs = Inr kept" "\<forall>h \<in> push_hashes fs. plain_hash h"
  shows "set kept = push_hashes fs"
proof -
  have "kept = collect_hashes (map re_PushHash (rs_Revisions (bf_State fs)))"
    using assms(1) by (auto simp: RetainedHashes_def io_call_def split: if_splits)
  moreover have "TrimSpace ` push_hashes fs - {[]} = push_hashes fs" using assms(2) by (force simp: plain_hash_def)
  ultimately show ?thesis by (simp add: set_collect_hashes push_hashes_def)
qed

lemma collect_plain: "\<forall>h \<in> set hs. plain_hash h \<Longrightarrow> set (collect_hashes hs) = set hs"
  by (force simp: set_collect_hashes plain_hash_def)

text \<open>The paths of the prune: nothing happened, the revisions were pruned, or the deploy history as well.\<close>

lemma prune_cases:
  assumes "PruneSourceRevisionsAndHistory ok peers t fs = (r, t', fs')"
  obtains (early) e where "r = Inl e" "t' = t" "fs' = fs"
  | (files) e pins has fs1 p where "CollectSourceRevisionHistoryPins ok t fs peers = Inr pins" "HasAnyMarkers ok fs = Inr has"
      "Prune ok \<lparr>po_ExtraPins = pins, po_KeepNewest = (if has then 0 else RetentionCount)\<rparr> fs = (p, fs1)"
      "r = Inl e" "t' = t" "fs' = fs1"
  | (history) pins has fs1 kept where "CollectSourceRevisionHistoryPins ok t fs peers = Inr pins" "HasAnyMarkers ok fs = Inr has"
      "Prune ok \<lparr>po_ExtraPins = pins, po_KeepNewest = (if has then 0 else RetentionCount)\<rparr> fs = (Inr (), fs1)"
      "RetainedHashes ok fs1 = Inr kept" "t' = PruneDeployHistoryKeepingRevisions kept DeployHistoryRetention t"
      "(\<exists>e. r = Inl e) \<and> fs' = fs1 \<or> r = Inr () \<and> PrunePromotionStateKeepingRevisions ok kept fs1 = Inr fs'"
proof (cases "rbind (CollectSourceRevisionHistoryPins ok t fs peers) (\<lambda>pins. rbind (HasAnyMarkers ok fs) (\<lambda>hasMarkers. Inr (pins, hasMarkers)))")
  case (Inl e)
  with assms show ?thesis by (intro early [of e]) (simp_all add: PruneSourceRevisionsAndHistory_def)
next
  case (Inr ph)
  obtain pins has where ph: "ph = (pins, has)" by (cases ph)
  with Inr have c: "CollectSourceRevisionHistoryPins ok t fs peers = Inr pins" "HasAnyMarkers ok fs = Inr has" by (auto simp: result_simps)
  obtain p fs1 where p: "Prune ok \<lparr>po_ExtraPins = pins, po_KeepNewest = (if has then 0 else RetentionCount)\<rparr> fs = (p, fs1)" by fastforce
  show ?thesis
  proof (cases p)
    case (Inl e)
    with assms Inr ph p c show ?thesis by (intro files [OF c p]) (auto simp: PruneSourceRevisionsAndHistory_def)
  next
    case p_ok: (Inr u)
    show ?thesis
    proof (cases "RetainedHashes ok fs1")
      case (Inl e)
      with assms Inr ph p c p_ok show ?thesis by (intro files [OF c p]) (auto simp: PruneSourceRevisionsAndHistory_def)
    next
      case kept: (Inr kept)
      show ?thesis
        using assms Inr ph p c p_ok kept
        by (intro history [OF c, of fs1 kept])
          (auto simp: PruneSourceRevisionsAndHistory_def Let_def split: sum.splits)
    qed
  qed
qed

text \<open>
  C25. Pruning forgets nothing that is still pinned. Whatever read or write fails, a revision that is
  current, last successful, pinned by a peer, named by a marker, last promoted, or among the newest fifty
  promotions or deploys (and the newest fifty revisions when no bucket promotes from this one, and every
  promotable one when a bucket takes them in order) keeps its entry and its directory; the rows
  of the deploy history of revisions that are kept stay, with their jobs. When the prune succeeds, the
  remaining rows belong to kept revisions, apart from at most fifty that have none.
\<close>

theorem history_prune_keeps_pinned:
  assumes "PruneSourceRevisionsAndHistory ok peers t fs = (r, t', fs')" "files_wf fs" "history_wf t"
  shows "(\<forall>h \<in> push_hashes fs. pinned t fs peers h \<longrightarrow> h \<in> push_hashes fs' \<and> (h \<in> set (bf_Dirs fs) \<longrightarrow> h \<in> set (bf_Dirs fs'))) \<and>
    set (ht_runs t') \<subseteq> set (ht_runs t) \<and> history_wf t' \<and>
    (\<forall>row \<in> set (ht_runs t). dr_source_revision row \<in> push_hashes fs' \<longrightarrow> row \<in> set (ht_runs t')) \<and>
    (r = Inr () \<longrightarrow> (\<forall>row \<in> set (ht_runs t'). orphan_run row \<or> dr_source_revision row \<in> push_hashes fs') \<and>
       length (filter orphan_run (ht_runs t')) \<le> 50 \<and>
       (\<forall>e \<in> set (ps_History (bf_Promotion fs)). ph_SourceRevision e \<in> push_hashes fs' \<longrightarrow> e \<in> set (ps_History (bf_Promotion fs'))))"
  using assms(1)
proof (cases rule: prune_cases)
  case early
  with assms show ?thesis by simp
next
  case (files e pins has fs1 p)
  note k = Prune_kept [OF files(3) assms(2)]
  have "h \<in> push_hashes fs' \<and> (h \<in> set (bf_Dirs fs) \<longrightarrow> h \<in> set (bf_Dirs fs'))" if "h \<in> push_hashes fs" "pinned t fs peers h" for h
    using CollectPins_pinned [OF files(1,2) assms(2) _ that(2)] that(1) assms(2) k files(6) by (auto simp: files_wf_def)
  with files assms(3) show ?thesis by simp
next
  case (history pins has fs1 kept)
  note k = Prune_kept [OF history(3) assms(2)]
  have plain: "\<forall>h \<in> push_hashes fs1. plain_hash h" using k assms(2) by (auto simp: files_wf_def)
  have kept: "set kept = push_hashes fs1" using RetainedHashes_Inr [OF history(4) plain] .
  have fs': "push_hashes fs' = push_hashes fs1" "bf_Dirs fs' = bf_Dirs fs1"
    using history(6) by (auto simp: PrunePromotionStateKeepingRevisions_def io_call_def push_hashes_def result_simps split: if_splits)
  have "h \<in> push_hashes fs' \<and> (h \<in> set (bf_Dirs fs) \<longrightarrow> h \<in> set (bf_Dirs fs'))" if "h \<in> push_hashes fs" "pinned t fs peers h" for h
    using CollectPins_pinned [OF history(1,2) assms(2) _ that(2)] that(1) assms(2) k fs' by (auto simp: files_wf_def)
  moreover have runs: "set (ht_runs t') = {row \<in> set (ht_runs t). \<not> pruned_run kept t row}"
    using PruneDeployHistory_runs [OF assms(3)] history(5) by simp
  moreover have ck: "set (collect_hashes kept) = push_hashes fs'" using collect_plain [of kept] plain kept fs'(1) by simp
  moreover have "[] \<notin> push_hashes fs'" using plain fs'(1) by (auto simp: plain_hash_def)
  moreover have "length (filter orphan_run (ht_runs t')) \<le> 50" "history_wf t'"
    using orphans_left [OF assms(3)] PruneDeployHistory_wf [OF assms(3)] history(5) by simp_all
  moreover have "e \<in> set (ps_History (bf_Promotion fs'))"
    if "r = Inr ()" "e \<in> set (ps_History (bf_Promotion fs))" "ph_SourceRevision e \<in> push_hashes fs'" for e
  proof -
    have "TrimSpace (ph_SourceRevision e) = ph_SourceRevision e" using that(3) plain fs'(1) by (auto simp: plain_hash_def)
    moreover have "ps_History (bf_Promotion fs') = TrimPromotionHistoryKeepingRevisions (ps_History (bf_Promotion fs)) (ps_LastSourceRevision (bf_Promotion fs)) kept"
      using history(6) that(1) k by (auto simp: PrunePromotionStateKeepingRevisions_def io_call_def result_simps split: if_splits)
    ultimately show ?thesis using that(2,3) ck
      by (auto simp: TrimPromotionHistoryKeepingRevisions_def set_collect_hashes intro!: trim_history_keeps)
  qed
  ultimately show ?thesis by (auto simp: pruned_run_def orphan_run_def)
qed

definition demo_entry :: "string \<Rightarrow> RevisionEntry" where
  "demo_entry h = \<lparr>re_PushHash = h, re_ProducerBuildHash = [], re_BundleVersion = 1, re_Label = [], re_CreatedAt = [], re_BuildResult = ''ok'', re_Kind = ''tree''\<rparr>"

definition demo_run :: "string \<Rightarrow> string \<Rightarrow> deploy_history_row" where
  "demo_run i h = \<lparr>dr_run_id = i, dr_generation = 1, dr_started_at = [], dr_ended_at = i, dr_status = ''succeeded'', dr_source_revision = h,
     dr_build_git_hash = [], dr_jobs_filter = [], dr_force = 0, dr_changed = 1, dr_error = []\<rparr>"

definition demo_files :: bucket_files where
  "demo_files =
     \<lparr>bf_State = \<lparr>rs_Current = ''a'', rs_LastSuccessful = ''a'', rs_Revisions = [demo_entry ''x'', demo_entry ''m'', demo_entry ''a'']\<rparr>,
      bf_Dirs = [''x'', ''m'', ''a'', ''markers''],
      bf_Markers = [\<lparr>mf_ConsumerBucketID = ''c'', mf_Selection = ''latest'',
        mf_Entries = [\<lparr>me_SourceRevision = ''m'', me_SourceRunID = [], me_PromoteRunID = ''p'', me_PromotedAt = []\<rparr>]\<rparr>],
      bf_Promotion = \<lparr>ps_LastSourceRevision = [], ps_LastSourceRevisionLabel = [], ps_LastSourceRunID = [], ps_LastAttemptAt = [],
        ps_LastSuccessAt = [], ps_LastStatus = ''idle'', ps_LastError = [], ps_History = []\<rparr>\<rparr>"

definition demo_history :: history_tables where
  "demo_history = \<lparr>ht_runs = [demo_run ''1'' ''gone'', demo_run ''2'' ''a''], ht_jobs = []\<rparr>"

lemma demo_prune:
  "PruneSourceRevisionsAndHistory (\<lambda>_. True) [] demo_history demo_files =
     (Inr (), \<lparr>ht_runs = [demo_run ''2'' ''a''], ht_jobs = []\<rparr>,
      demo_files\<lparr>bf_State := bf_State demo_files\<lparr>rs_Revisions := [demo_entry ''m'', demo_entry ''a'']\<rparr>, bf_Dirs := [''m'', ''a'', ''markers'']\<rparr>)"
  by code_simp

lemma demo_history_wf: "files_wf demo_files" "history_wf demo_history"
proof -
  have "TrimSpace [c] = [c]" if "plain c" for c using that by (simp add: TrimSpace_plain)
  moreover have "TrimSpace ''gone'' = ''gone''" by code_simp
  ultimately show "files_wf demo_files" "history_wf demo_history"
    by (simp_all add: files_wf_def demo_files_def push_hashes_def demo_entry_def plain_hash_def plain_def history_wf_def demo_history_def demo_run_def)
qed

theorem history_prune_keeps_pinned_witness:
  "pinned demo_history demo_files [] ''m'' \<and> ''m'' \<in> push_hashes (snd (snd (PruneSourceRevisionsAndHistory (\<lambda>_. True) [] demo_history demo_files)))"
proof -
  have "pinned demo_history demo_files [] ''m''" "''m'' \<in> push_hashes demo_files"
    by (simp_all add: pinned_def demo_files_def push_hashes_def demo_entry_def)
  with history_prune_keeps_pinned [OF demo_prune demo_history_wf] show ?thesis by (simp add: demo_prune)
qed

end
