(* ===== verification/Gc.thy ===== *)
theory Gc
  imports Catalog Kv Revisions
begin

text \<open>
  Garbage collection (\<^verbatim>\<open>gc/\<close>), which composes the catalog, the key-value store and the history: it deletes
  the directories of removed allocations on their workers, clears the key-value namespaces that nothing
  refers to any more, deletes the rows of removed allocations and old versions of values, and prunes
  revisions and history. All changes of the database are one transaction; directories on workers and files
  of the bucket are not part of it.
\<close>

section \<open>State and environment\<close>

record gc_db =
  gd_cat :: catalog
  gd_kv :: "kv_row list"
  gd_history :: history_tables

text \<open>The job trees are the removals that were attempted on workers, address and job.\<close>

record gc_world =
  gw_db :: gc_db
  gw_files :: bucket_files
  gw_trees :: "(string \<times> string) list"

datatype gc_site = AtStart | AtTree string string | AfterTree string string | BeforeReferences | BeforeHistory

record gc_env =
  ge_bucket_id :: "string result"
  ge_runtime :: "unit result"
  ge_cancelled :: "gc_site \<Rightarrow> bool"
  ge_remove_tree :: "string \<Rightarrow> string \<Rightarrow> unit result"
  ge_io :: io_env
  ge_commit :: "unit result"
  ge_persist_time :: int
  ge_purge_time :: int
  ge_location :: string

record gc_options =
  go_RetainDays :: int
  go_SourceRevisionPins :: "string list"

definition ctx_Err :: "gc_env \<Rightarrow> gc_site \<Rightarrow> unit result" where
  "ctx_Err env site = (if ge_cancelled env site then Inl ErrCancelled else Inr ())"

section \<open>Removed allocations\<close>

definition listRemovedAllocations :: "catalog \<Rightarrow> (string \<times> string) list" where
  "listRemovedAllocations c = map (\<lambda>a. (a_worker_ip a, a_job a)) (filter (\<lambda>a. a_removed a = 1) (allocations c))"

definition purgeRemovedAllocations :: "catalog \<Rightarrow> catalog" where
  "purgeRemovedAllocations c =
     (let c1 = foldl (\<lambda>c a. RemoveAllocationHash (a_alloc_id a) c) c (filter (\<lambda>a. a_removed a = 1) (allocations c))
      in c1\<lparr>allocations := delete_where (\<lambda>a. a_removed a = 1) (allocations c1)\<rparr>)"

section \<open>Worker data\<close>

definition RemoveJobTreeOrAssumeDeadContext :: "gc_env \<Rightarrow> string \<Rightarrow> string \<Rightarrow> unit result" where
  "RemoveJobTreeOrAssumeDeadContext env workerIP job =
     (case ge_remove_tree env workerIP job of Inl e \<Rightarrow> ctx_Err env (AfterTree workerIP job) | Inr u \<Rightarrow> Inr ())"

fun purgeRemovedAllocationWorkerData ::
  "gc_env \<Rightarrow> WorkerCatalog \<Rightarrow> (string \<times> string) list \<Rightarrow> (string \<times> string) list \<Rightarrow> unit result \<times> (string \<times> string) list" where
  "purgeRemovedAllocationWorkerData env wc [] trees = (Inr (), trees)"
| "purgeRemovedAllocationWorkerData env wc ((workerIP, job) # allocs) trees =
     (case ctx_Err env (AtTree workerIP job) of
        Inl e \<Rightarrow> (Inl e, trees)
      | Inr u \<Rightarrow>
          (case (if catalog_Contains wc workerIP then ge_remove_tree env workerIP job
                 else RemoveJobTreeOrAssumeDeadContext env workerIP job) of
             Inl e \<Rightarrow> (Inl e, trees @ [(workerIP, job)])
           | Inr u \<Rightarrow> purgeRemovedAllocationWorkerData env wc allocs (trees @ [(workerIP, job)])))"

section \<open>References\<close>

definition purgeRemovedJobNamespaces :: "catalog \<Rightarrow> (string \<times> string) list \<Rightarrow> store \<Rightarrow> store result" where
  "purgeRemovedJobNamespaces c allocs s =
     rfold (\<lambda>s job. rbind (JobHasActiveAllocations c job) (\<lambda>active.
         Inr (if active then s else foldl PurgeNamespace s (JobKVNamespaces job)))) s (Unique (map snd allocs))"

definition offCatalog :: "catalog \<Rightarrow> (string \<times> string) list \<Rightarrow> string list" where
  "offCatalog c allocs = Unique (filter (\<lambda>ip. \<not> catalog_Contains (LoadWorkerCatalog c) ip) (map fst allocs))"

definition purgeRemovedAllocationReferences ::
  "int \<Rightarrow> catalog \<Rightarrow> (string \<times> string) list \<Rightarrow> store \<times> kv_row list \<Rightarrow> (store \<times> kv_row list) result" where
  "purgeRemovedAllocationReferences now c allocs kv =
     (case kv of (s, rows) \<Rightarrow>
        if allocs = [] then Inr (s, rows)
        else
          let s1 = foldl PurgeNamespace s (map (\<lambda>(ip, job). JobWorkerNamespace job ip) allocs);
              s2 = foldl PurgeNamespace s1
                (concat (map (\<lambda>ip. [WorkerCatalogNamespace ip, WorkerCatalogNamespace ip @ ''/tags'']) (offCatalog c allocs)))
          in rbind (purgeRemovedJobNamespaces c allocs s2) (\<lambda>s3. Inr (PersistToTransaction now s3 rows)))"

section \<open>The run\<close>

definition pruneHistoryForBucket ::
  "gc_env \<Rightarrow> gc_options \<Rightarrow> history_tables \<Rightarrow> bucket_files \<Rightarrow> unit result \<times> history_tables \<times> bucket_files" where
  "pruneHistoryForBucket env opts t fs =
     (if ge_location env = [] then (Inr (), t, fs)
      else PruneSourceRevisionsAndHistory (ge_io env) (go_SourceRevisionPins opts) t fs)"

text \<open>The changes of the transaction up to the prune of the history.\<close>

definition gc_tables :: "gc_env \<Rightarrow> gc_options \<Rightarrow> gc_db \<Rightarrow> gc_db result" where
  "gc_tables env opts db =
     (let c = gd_cat db; allocs = listRemovedAllocations c
      in rbind (ctx_Err env BeforeReferences) (\<lambda>_.
         rbind (purgeRemovedAllocationReferences (ge_persist_time env) c allocs (LoadFromTransaction (gd_kv db), gd_kv db)) (\<lambda>(s, rows).
         rbind (ctx_Err env BeforeHistory) (\<lambda>_.
           Inr (db\<lparr>gd_cat := purgeRemovedAllocations c, gd_kv := PurgeStaleVersions (ge_purge_time env) (go_RetainDays opts) rows\<rparr>)))))"

definition gc_ExecuteOptions :: "gc_env \<Rightarrow> gc_options \<Rightarrow> gc_world \<Rightarrow> unit result \<times> gc_world" where
  "gc_ExecuteOptions env opts w =
     (let db = gw_db w; allocs = listRemovedAllocations (gd_cat db)
      in case rbind (ctx_Err env AtStart) (\<lambda>_. rbind (ge_bucket_id env) (\<lambda>_. ge_runtime env)) of
           Inl e \<Rightarrow> (Inl e, w)
         | Inr u \<Rightarrow>
             (case purgeRemovedAllocationWorkerData env (LoadWorkerCatalog (gd_cat db)) allocs (gw_trees w) of
                (Inl e, trees) \<Rightarrow> (Inl e, w\<lparr>gw_trees := trees\<rparr>)
              | (Inr u, trees) \<Rightarrow>
                  (case gc_tables env opts db of
                     Inl e \<Rightarrow> (Inl e, w\<lparr>gw_trees := trees\<rparr>)
                   | Inr db1 \<Rightarrow>
                       (case pruneHistoryForBucket env opts (gd_history db1) (gw_files w) of
                          (Inl e, t, fs) \<Rightarrow> (Inl e, w\<lparr>gw_trees := trees, gw_files := fs\<rparr>)
                        | (Inr u, t, fs) \<Rightarrow>
                            (case ge_commit env of
                               Inl e \<Rightarrow> (Inl e, w\<lparr>gw_trees := trees, gw_files := fs\<rparr>)
                             | Inr u \<Rightarrow> (Inr (), \<lparr>gw_db = db1\<lparr>gd_history := t\<rparr>, gw_files = fs, gw_trees = trees\<rparr>))))))"

section \<open>Lemmas\<close>

subsection \<open>The catalog\<close>

lemma foldl_remove_hashes:
  "allocations (foldl (\<lambda>c a. RemoveAllocationHash (a_alloc_id a) c) c as) = allocations c"
  "jobs (foldl (\<lambda>c a. RemoveAllocationHash (a_alloc_id a) c) c as) = jobs c"
  "workers (foldl (\<lambda>c a. RemoveAllocationHash (a_alloc_id a) c) c as) = workers c"
  "hash_of (foldl (\<lambda>c a. RemoveAllocationHash (a_alloc_id a) c) c as) k = (if k \<in> a_alloc_id ` set as then None else hash_of c k)"
proof -
  show "allocations (foldl (\<lambda>c a. RemoveAllocationHash (a_alloc_id a) c) c as) = allocations c"
    by (induction as arbitrary: c) (simp_all add: RemoveAllocationHash_def)
  show "jobs (foldl (\<lambda>c a. RemoveAllocationHash (a_alloc_id a) c) c as) = jobs c"
    by (induction as arbitrary: c) (simp_all add: RemoveAllocationHash_def)
  show "workers (foldl (\<lambda>c a. RemoveAllocationHash (a_alloc_id a) c) c as) = workers c"
    by (induction as arbitrary: c) (simp_all add: RemoveAllocationHash_def)
  show "hash_of (foldl (\<lambda>c a. RemoveAllocationHash (a_alloc_id a) c) c as) k = (if k \<in> a_alloc_id ` set as then None else hash_of c k)"
    by (induction as arbitrary: c) (auto simp: hash_of_remove)
qed

lemma foldl_remove_wf: "catalog_wf c \<Longrightarrow> catalog_wf (foldl (\<lambda>c a. RemoveAllocationHash (a_alloc_id a) c) c as)"
  by (induction as arbitrary: c) (simp_all add: wf_remove)

lemma purgeRemovedAllocations_tables:
  "allocations (purgeRemovedAllocations c) = filter (\<lambda>a. a_removed a \<noteq> 1) (allocations c)"
  "jobs (purgeRemovedAllocations c) = jobs c" "workers (purgeRemovedAllocations c) = workers c"
  "hash_of (purgeRemovedAllocations c) k =
     (if \<exists>a \<in> set (allocations c). a_removed a = 1 \<and> a_alloc_id a = k then None else hash_of c k)"
proof -
  have *: "hash_of (c\<lparr>allocations := as\<rparr>) k = hash_of c k" for c as by (simp add: hash_of_def)
  show "hash_of (purgeRemovedAllocations c) k =
     (if \<exists>a \<in> set (allocations c). a_removed a = 1 \<and> a_alloc_id a = k then None else hash_of c k)"
    unfolding purgeRemovedAllocations_def Let_def * foldl_remove_hashes by (simp add: image_iff) metis
qed (simp_all add: purgeRemovedAllocations_def Let_def foldl_remove_hashes delete_where_def)

lemma purgeRemovedAllocations_wf:
  assumes "catalog_wf c"
  shows "catalog_wf (purgeRemovedAllocations c)"
proof -
  have "catalog_wf (c\<lparr>allocations := delete_where P (allocations c)\<rparr>)" if "catalog_wf c" for c P
    using that by (simp add: catalog_wf_def distinct_delete_where)
  then show ?thesis unfolding purgeRemovedAllocations_def Let_def using foldl_remove_wf [OF assms] by blast
qed

lemma active_loop_rows:
  "catalog_wf c \<Longrightarrow> set as \<subseteq> {a \<in> set (allocations c). a_job a = job} \<Longrightarrow>
     active_loop c job (map a_worker_ip as) = Inr (map a_worker_ip (filter (\<lambda>a. IsActiveAllocation (a_removed a) (a_disabled a)) as))"
proof (induction as)
  case (Cons a as)
  then have "alloc_of c (a_worker_ip a) job = Inr a" using alloc_of_wf [of c a] by auto
  with Cons show ?case by (simp add: IsAllocationRemoved_def IsAllocationDisabled_def)
qed simp

definition active_job :: "catalog \<Rightarrow> string \<Rightarrow> bool" where
  "active_job c job \<longleftrightarrow> (\<exists>a \<in> set (allocations c). a_job a = job \<and> a_removed a = 0 \<and> a_disabled a = 0)"

lemma JobHasActiveAllocations_wf: "catalog_wf c \<Longrightarrow> JobHasActiveAllocations c job = Inr (active_job c job)"
  using active_loop_rows [of c "filter (\<lambda>a. a_job a = job) (allocations c)" job]
  by (auto simp: JobHasActiveAllocations_def GetActiveAllocations_def GetAllocatedWorkers_def active_job_def IsActiveAllocation_def filter_empty_conv)

subsection \<open>Namespaces\<close>

lemma kv_sync_purge_fold: "kv_sync (s, rows) \<Longrightarrow> kv_sync (foldl PurgeNamespace s nss, rows)"
  by (induction nss arbitrary: s) (simp_all add: kv_sync_purge_namespace)

lemma live_purge_fold: "live (foldl PurgeNamespace s nss) = live s |` {p. fst p \<notin> set nss}"
proof (induction nss arbitrary: s)
  case (Cons ns nss)
  then show ?case by (auto simp: live_PurgeNamespace restrict_map_def)
qed (simp add: restrict_map_def)

text \<open>The namespaces a collection clears.\<close>

definition removed_rows :: "catalog \<Rightarrow> allocation_row set" where
  "removed_rows c = {a \<in> set (allocations c). a_removed a = 1}"

definition purged_namespaces :: "catalog \<Rightarrow> string set" where
  "purged_namespaces c =
     (\<lambda>a. JobWorkerNamespace (a_job a) (a_worker_ip a)) ` removed_rows c \<union>
     (\<Union>ip \<in> a_worker_ip ` removed_rows c - set (GetAllWorkers c). {WorkerCatalogNamespace ip, WorkerCatalogNamespace ip @ ''/tags''}) \<union>
     (\<Union>job \<in> a_job ` removed_rows c - Collect (active_job c). set (JobKVNamespaces job))"

lemma purge_jobs_fold:
  assumes "catalog_wf c"
  shows "rfold (\<lambda>s job. rbind (JobHasActiveAllocations c job) (\<lambda>active. Inr (if active then s else foldl PurgeNamespace s (JobKVNamespaces job)))) s js =
    Inr (foldl PurgeNamespace s (concat (map JobKVNamespaces (filter (\<lambda>job. \<not> active_job c job) js))))"
  by (induction js arbitrary: s) (simp_all add: JobHasActiveAllocations_wf [OF assms])

lemma references_result:
  assumes "catalog_wf c" "listRemovedAllocations c = allocs" "allocs \<noteq> []"
  shows "\<exists>nss. set nss = purged_namespaces c \<and>
    purgeRemovedAllocationReferences now c allocs (s, rows) = Inr (PersistToTransaction now (foldl PurgeNamespace s nss) rows)"
proof -
  let ?nss = "map (\<lambda>(ip, job). JobWorkerNamespace job ip) allocs @
     concat (map (\<lambda>ip. [WorkerCatalogNamespace ip, WorkerCatalogNamespace ip @ ''/tags'']) (offCatalog c allocs)) @
     concat (map JobKVNamespaces (filter (\<lambda>job. \<not> active_job c job) (Unique (map snd allocs))))"
  have a: "set allocs = (\<lambda>a. (a_worker_ip a, a_job a)) ` removed_rows c"
    using assms(2) by (auto simp: listRemovedAllocations_def removed_rows_def)
  have "LoadWorkerCatalog c = set (GetAllWorkers c)" by (simp add: LoadWorkerCatalog_def NewWorkerCatalog_def GetWorkers_def GetAllWorkers_def)
  then have "set (offCatalog c allocs) = a_worker_ip ` removed_rows c - set (GetAllWorkers c)"
    by (simp add: offCatalog_def catalog_Contains_def a image_image set_diff_eq)
  moreover have "set (filter (\<lambda>job. \<not> active_job c job) (Unique (map snd allocs))) = a_job ` removed_rows c - Collect (active_job c)"
    by (simp add: a image_image set_diff_eq)
  ultimately have "set ?nss = purged_namespaces c"
    by (simp only: set_append set_map set_concat purged_namespaces_def image_image a split_conv list.set Un_assoc)
  moreover have "purgeRemovedAllocationReferences now c allocs (s, rows) = Inr (PersistToTransaction now (foldl PurgeNamespace s ?nss) rows)"
    using assms(3) by (simp add: purgeRemovedAllocationReferences_def purgeRemovedJobNamespaces_def purge_jobs_fold [OF assms(1)] Let_def)
  ultimately show ?thesis by blast
qed

lemma load_unchanged: "distinct (map row_id rows) \<Longrightarrow> lookup (LoadFromTransaction rows) ns k = Some e \<Longrightarrow> \<not> e_Changed e"
  using LoadFromTransaction_cases [of rows ns k] by simp

text \<open>A store whose changes are written, and the table after old versions are gone.\<close>

lemma settled_live:
  assumes "kv_sync (s, rows)" "\<And>ns k e. lookup s ns k = Some e \<Longrightarrow> \<not> e_Changed e"
  shows "live (LoadFromTransaction (PurgeStaleVersions now d rows)) = live s"
  using settled_Get [OF kv_sync_purge [OF assms(1)] assms(2)] by (rule live_cong)

lemma no_purged_namespaces: "listRemovedAllocations c = [] \<Longrightarrow> purged_namespaces c = {}"
  by (auto simp: listRemovedAllocations_def purged_namespaces_def removed_rows_def filter_empty_conv)

lemma gc_tables_result:
  assumes "gc_tables env opts db = Inr db'" "catalog_wf (gd_cat db)" "distinct (map row_id (gd_kv db))"
  shows "gd_cat db' = purgeRemovedAllocations (gd_cat db) \<and> gd_history db' = gd_history db \<and> distinct (map row_id (gd_kv db')) \<and>
    live (LoadFromTransaction (gd_kv db')) = live (LoadFromTransaction (gd_kv db)) |` {p. fst p \<notin> purged_namespaces (gd_cat db)}"
proof -
  let ?c = "gd_cat db" and ?s = "LoadFromTransaction (gd_kv db)" and ?allocs = "listRemovedAllocations (gd_cat db)"
  have sync: "kv_sync (?s, gd_kv db)" using assms(3) by (rule kv_sync_load)
  from assms(1) obtain s rows where r: "purgeRemovedAllocationReferences (ge_persist_time env) ?c ?allocs (?s, gd_kv db) = Inr (s, rows)"
    "db' = db\<lparr>gd_cat := purgeRemovedAllocations ?c, gd_kv := PurgeStaleVersions (ge_purge_time env) (go_RetainDays opts) rows\<rparr>"
    by (auto simp: gc_tables_def Let_def result_simps)
  have "kv_sync (s, rows) \<and> (\<forall>ns k e. lookup s ns k = Some e \<longrightarrow> \<not> e_Changed e) \<and>
      live s = live ?s |` {p. fst p \<notin> purged_namespaces ?c}"
  proof (cases "?allocs = []")
    case True
    with r(1) have "s = ?s" "rows = gd_kv db" by (auto simp: purgeRemovedAllocationReferences_def)
    with sync load_unchanged [OF assms(3)] True show ?thesis by (simp add: no_purged_namespaces restrict_map_def)
  next
    case False
    obtain nss where n: "set nss = purged_namespaces ?c" "(s, rows) = PersistToTransaction (ge_persist_time env) (foldl PurgeNamespace ?s nss) (gd_kv db)"
      using references_result [OF assms(2) refl False, of "ge_persist_time env" ?s "gd_kv db"] r(1) by auto
    have s: "s = fst (PersistToTransaction (ge_persist_time env) (foldl PurgeNamespace ?s nss) (gd_kv db))" using n(2) by (metis fst_conv)
    have "kv_sync (s, rows)" using kv_sync_persist [OF kv_sync_purge_fold [OF sync]] n(2) by metis
    moreover have "\<not> e_Changed e" if "lookup s ns k = Some e" for ns k e using that unfolding s by (rule persist_unchanged)
    ultimately show ?thesis using live_purge_fold [of ?s nss] n(1) by (simp add: s live_persist)
  qed
  with settled_live [of s rows] kv_sync_purge [of s rows] r(2) show ?thesis by (simp add: kv_sync_def)
qed

subsection \<open>The paths of a run\<close>

lemma worker_data_result:
  "purgeRemovedAllocationWorkerData env wc allocs trees = (r, trees') \<Longrightarrow>
     set trees' \<subseteq> set trees \<union> set allocs \<and> set trees \<subseteq> set trees' \<and> (r = Inr () \<longrightarrow> set trees' = set trees \<union> set allocs)"
proof (induction env wc allocs trees rule: purgeRemovedAllocationWorkerData.induct)
  case (2 env wc ip job allocs trees)
  then show ?case
    by (cases "ctx_Err env (AtTree ip job)";
        cases "if catalog_Contains wc ip then ge_remove_tree env ip job else RemoveJobTreeOrAssumeDeadContext env ip job")
      (auto simp del: if_split split: if_splits)
qed auto

lemma gc_cases:
  assumes "gc_ExecuteOptions env opts w = (r, w')"
  obtains (failed) e where "r = Inl e" "gw_db w' = gw_db w"
      "set (gw_trees w') \<subseteq> set (gw_trees w) \<union> set (listRemovedAllocations (gd_cat (gw_db w)))"
  | (committed) db1 t where "r = Inr ()" "gc_tables env opts (gw_db w) = Inr db1"
      "pruneHistoryForBucket env opts (gd_history db1) (gw_files w) = (Inr (), t, gw_files w')"
      "gw_db w' = db1\<lparr>gd_history := t\<rparr>"
      "set (gw_trees w') = set (gw_trees w) \<union> set (listRemovedAllocations (gd_cat (gw_db w)))"
proof -
  let ?allocs = "listRemovedAllocations (gd_cat (gw_db w))"
  obtain p trees where p: "purgeRemovedAllocationWorkerData env (LoadWorkerCatalog (gd_cat (gw_db w))) ?allocs (gw_trees w) = (p, trees)"
    by fastforce
  note trees = worker_data_result [OF p]
  show ?thesis
  proof (cases "rbind (ctx_Err env AtStart) (\<lambda>_. rbind (ge_bucket_id env) (\<lambda>_. ge_runtime env))")
    case (Inl e)
    with assms show ?thesis by (intro failed [of e]) (auto simp: gc_ExecuteOptions_def Let_def)
  next
    case start: (Inr u)
    show ?thesis
    proof (cases p)
      case (Inl e)
      with assms start p trees show ?thesis by (intro failed [of e]) (auto simp: gc_ExecuteOptions_def Let_def)
    next
      case p_ok: (Inr u)
      show ?thesis
      proof (cases "gc_tables env opts (gw_db w)")
        case (Inl e)
        with assms start p p_ok trees show ?thesis by (intro failed [of e]) (auto simp: gc_ExecuteOptions_def Let_def)
      next
        case tables: (Inr db1)
        obtain q t fs where q: "pruneHistoryForBucket env opts (gd_history db1) (gw_files w) = (q, t, fs)" by (metis surj_pair)
        show ?thesis
        proof (cases "(\<exists>e. q = Inl e) \<or> (\<exists>e. ge_commit env = Inl e)")
          case True
          then obtain e where "r = Inl e" "gw_db w' = gw_db w" "gw_trees w' = trees"
            using assms start p p_ok tables q by (cases q; cases "ge_commit env") (auto simp: gc_ExecuteOptions_def Let_def)
          with trees show ?thesis by (intro failed [of e]) auto
        next
          case False
          then obtain u v where ok: "q = Inr u" "ge_commit env = Inr v" by (metis obj_sumE)
          with assms start p p_ok tables q trees show ?thesis
            by (intro committed [OF _ tables, of t]) (auto simp: gc_ExecuteOptions_def Let_def)
        qed
      qed
    qed
  qed
qed

section \<open>Properties\<close>



text \<open>A job with a disabled and a removed allocation, and a secret.\<close>

definition idle_env :: gc_env where
  "idle_env = \<lparr>ge_bucket_id = Inr ''b'', ge_runtime = Inr (), ge_cancelled = (\<lambda>_. False), ge_remove_tree = (\<lambda>ip job. Inr ()),
     ge_io = (\<lambda>_. True), ge_commit = Inr (), ge_persist_time = 100, ge_purge_time = 100, ge_location = []\<rparr>"

definition idle_options :: gc_options where
  "idle_options = \<lparr>go_RetainDays = 7, go_SourceRevisionPins = []\<rparr>"

definition idle_catalog :: catalog where
  "idle_catalog =
     \<lparr>allocations = [\<lparr>a_alloc_id = ''A'', a_worker_ip = ''10.0.0.1'', a_job = ''web'', a_disabled = 1, a_removed = 0, a_version = None\<rparr>,
        \<lparr>a_alloc_id = ''B'', a_worker_ip = ''10.0.0.2'', a_job = ''web'', a_disabled = 0, a_removed = 1, a_version = None\<rparr>],
      allocation_hashes = [\<lparr>h_alloc_id = ''A'', pending_hash = Some ''h'', applied_hash = Some ''h'', applied_version = None\<rparr>,
        \<lparr>h_alloc_id = ''B'', pending_hash = Some ''h'', applied_hash = Some ''h'', applied_version = None\<rparr>],
      allocation_file_hashes = [], jobs = [], workers = [], worker_labels = [], hooks = [], build_hashes = []\<rparr>"

definition idle_world :: gc_world where
  "idle_world =
     \<lparr>gw_db = \<lparr>gd_cat = idle_catalog,
        gd_kv = [\<lparr>r_key = ''token'', r_value = ''s'', r_namespace = ''secrets/job/web'', r_version = 1, r_ttl = 0, r_created = 50, r_deleted = 0\<rparr>],
        gd_history = demo_history\<rparr>,
      gw_files = demo_files, gw_trees = []\<rparr>"

lemma idle_wf: "catalog_wf (gd_cat (gw_db idle_world))" "distinct (map row_id (gd_kv (gw_db idle_world)))"
  by (simp_all add: idle_world_def idle_catalog_def catalog_wf_def)

lemma idle_run: "fst (gc_ExecuteOptions idle_env idle_options idle_world) = Inr ()"
  by code_simp

lemma idle_result: "gc_ExecuteOptions idle_env idle_options idle_world = (Inr (), snd (gc_ExecuteOptions idle_env idle_options idle_world))"
  using idle_run by (metis prod.collapse)



end
