(* ===== verification/Calendar.thy ===== *)
theory Calendar
  imports Go_Strings
begin

text \<open>
  What the schedules use of Go's \<^verbatim>\<open>time\<close> package: the proleptic Gregorian calendar, instants with a location,
  and the normalising constructor \<^verbatim>\<open>time.Date\<close>.

  An instant is a number of seconds since the epoch, its nanoseconds, and the location it is read in. A
  location is the table lookup of \<^verbatim>\<open>Location.lookup\<close>: the offset in force at an instant and the bounds of the
  period it is in force. The tables themselves are data of the host, so a location is an argument
  everywhere; \<open>utc\<close> is the one the language fixes. Seconds are unbounded integers: the years a clock shows
  are far from the ends of the 64-bit range.

  The lemmas show that day numbers and dates determine each other, that a month's days are consecutive
  day numbers, and what the constructors return in a location whose midnights exist.
\<close>

section \<open>The calendar\<close>

definition leap :: "int \<Rightarrow> bool" where
  "leap y \<longleftrightarrow> y mod 4 = 0 \<and> (y mod 100 \<noteq> 0 \<or> y mod 400 = 0)"

text \<open>The first day of a year, counted from 1 January 1970.\<close>

definition year_start :: "int \<Rightarrow> int" where
  "year_start y = 365 * (y - 1) + (y - 1) div 4 - (y - 1) div 100 + (y - 1) div 400 - 719162"

definition days_before :: "int \<Rightarrow> int \<Rightarrow> int" where
  "days_before y m =
     [0, 31, 59, 90, 120, 151, 181, 212, 243, 273, 304, 334] ! nat (m - 1) + (if leap y \<and> m > 2 then 1 else 0)"

definition month_len :: "int \<Rightarrow> int \<Rightarrow> int" where
  "month_len y m =
     (if m = 2 then (if leap y then 29 else 28) else if m = 4 \<or> m = 6 \<or> m = 9 \<or> m = 11 then 30 else 31)"

definition month_start :: "int \<Rightarrow> int \<Rightarrow> int" where
  "month_start y m = year_start y + days_before y m"

definition valid_month :: "int \<Rightarrow> bool" where
  "valid_month m \<longleftrightarrow> 1 \<le> m \<and> m \<le> 12"

definition year_of :: "int \<Rightarrow> int" where
  "year_of n =
     (let y = 400 * (n + 719162) div 146097 + 1
      in if year_start (y + 1) \<le> n then y + 1 else if year_start y \<le> n then y else y - 1)"

definition month_of :: "int \<Rightarrow> int" where
  "month_of n =
     (let y = year_of n
      in if n < month_start y 2 then 1 else if n < month_start y 3 then 2 else if n < month_start y 4 then 3
         else if n < month_start y 5 then 4 else if n < month_start y 6 then 5 else if n < month_start y 7 then 6
         else if n < month_start y 8 then 7 else if n < month_start y 9 then 8 else if n < month_start y 10 then 9
         else if n < month_start y 11 then 10 else if n < month_start y 12 then 11 else 12)"

definition mday_of :: "int \<Rightarrow> int" where
  "mday_of n = n - month_start (year_of n) (month_of n) + 1"

text \<open>Sunday is \<open>0\<close>, and 1 January 1970 was a Thursday.\<close>

definition wday_of :: "int \<Rightarrow> int" where
  "wday_of n = (n + 4) mod 7"

lemma floor_bounds:
  fixes k b :: int
  assumes "0 < b"
  shows "b * (k div b) \<le> k" and "k \<le> b * (k div b) + (b - 1)"
proof -
  have "k = b * (k div b) + k mod b" by simp
  then show "b * (k div b) \<le> k" and "k \<le> b * (k div b) + (b - 1)"
    using pos_mod_sign [OF assms, of k] pos_mod_bound [OF assms, of k] by linarith+
qed

lemma year_start_bounds:
  "146097 * (y - 1) - 700 \<le> 400 * (year_start y + 719162)"
  "400 * (year_start y + 719162) \<le> 146097 * (y - 1) + 396"
proof -
  let ?k = "y - 1"
  have bounds: "146097 * k - 700 \<le> 400 * (365 * k + a - b + c) \<and> 400 * (365 * k + a - b + c) \<le> 146097 * k + 396"
    if "4 * a \<le> k" "k \<le> 4 * a + 3" "100 * b \<le> k" "k \<le> 100 * b + 99" "400 * c \<le> k" "k \<le> 400 * c + 399"
    for k a b c :: int
    using that unfolding distrib_left right_diff_distrib by (intro conjI) linarith+
  have "146097 * ?k - 700 \<le> 400 * (365 * ?k + ?k div 4 - ?k div 100 + ?k div 400) \<and>
      400 * (365 * ?k + ?k div 4 - ?k div 100 + ?k div 400) \<le> 146097 * ?k + 396"
    using floor_bounds [of 4 ?k] floor_bounds [of 100 ?k] floor_bounds [of 400 ?k] by (intro bounds) simp_all
  then show "146097 * (y - 1) - 700 \<le> 400 * (year_start y + 719162)"
    "400 * (year_start y + 719162) \<le> 146097 * (y - 1) + 396"
    by (simp_all add: year_start_def)
qed

lemma leap_step:
  fixes a b c :: int
  assumes "r \<Longrightarrow> q" and "q \<Longrightarrow> p"
  shows "365 * y + (a + (if p then 1 else 0)) - (b + (if q then 1 else 0)) + (c + (if r then 1 else 0)) - d =
    365 * (y - 1) + a - b + c - d + (if p \<and> (\<not> q \<or> r) then 366 else 365)"
  using assms by (cases p; cases q; cases r) simp_all

lemma year_start_Suc: "year_start (y + 1) = year_start y + (if leap y then 366 else 365)"
proof -
  have step: "k div b = (k - 1) div b + (if k mod b = 0 then 1 else 0)" if "0 < b" for k b :: int
  proof (cases "k mod b = 0")
    case True
    then obtain c where "k = c * b" by (metis mod_0_imp_dvd dvd_def mult.commute)
    then have "(k - 1) div b = c - 1"
      using that by (intro int_div_pos_eq [of _ _ _ "b - 1"]) (simp_all add: algebra_simps)
    then show ?thesis using \<open>k = c * b\<close> that by simp
  next
    case False
    then have "0 < k mod b" "k mod b < b"
      using pos_mod_sign [OF that, of k] pos_mod_bound [OF that, of k] by linarith+
    moreover have "k - 1 = b * (k div b) + (k mod b - 1)" by simp
    ultimately have "(k - 1) div b = k div b"
      by (intro int_div_pos_eq [of _ _ _ "k mod b - 1"]) simp_all
    then show ?thesis using False by simp
  qed
  have "(400::int) dvd y \<Longrightarrow> 100 dvd y" "(100::int) dvd y \<Longrightarrow> 4 dvd y"
    by (erule dvd_trans [rotated], simp)+
  then show ?thesis
    unfolding year_start_def leap_def add_diff_cancel_right' step [of 4 y, simplified] step [of 100 y, simplified]
      step [of 400 y, simplified]
    by (intro leap_step) (simp_all only: mod_eq_0_iff_dvd)
qed

lemma year_of_bounds: "year_start (year_of n) \<le> n" "n < year_start (year_of n + 1)"
proof -
  define y where "y = 400 * (n + 719162) div 146097 + 1"
  have lo: "146097 * (y - 1) \<le> 400 * (n + 719162)" and hi: "400 * (n + 719162) < 146097 * y"
    using floor_bounds [of 146097 "400 * (n + 719162)"] by (simp_all add: y_def)
  have "year_start (y - 1) \<le> n"
    using year_start_bounds(2) [of "y - 1"] lo by simp
  moreover have "n < year_start (y + 2)"
    using year_start_bounds(1) [of "y + 2"] hi by simp
  moreover have "year_of n = (if year_start (y + 1) \<le> n then y + 1 else if year_start y \<le> n then y else y - 1)"
    by (simp add: year_of_def y_def)
  ultimately show "year_start (year_of n) \<le> n" "n < year_start (year_of n + 1)"
    by (auto simp: add.assoc)
qed

lemma year_start_mono: "y \<le> z \<Longrightarrow> year_start y \<le> year_start z"
proof (induction z rule: int_ge_induct)
  case (step i)
  then show ?case using year_start_Suc [of i] by simp
qed simp

lemma year_of_unique:
  assumes "year_start y \<le> n" and "n < year_start (y + 1)"
  shows "year_of n = y"
proof (rule ccontr)
  assume "year_of n \<noteq> y"
  then consider "year_of n + 1 \<le> y" | "y + 1 \<le> year_of n" by linarith
  then show False
    using year_of_bounds [of n] assms year_start_mono by cases force+
qed

lemma valid_month_cases:
  assumes "valid_month m"
  obtains "m = 1" | "m = 2" | "m = 3" | "m = 4" | "m = 5" | "m = 6" | "m = 7" | "m = 8" | "m = 9"
    | "m = 10" | "m = 11" | "m = 12"
proof -
  have "m = 1 \<or> m = 2 \<or> m = 3 \<or> m = 4 \<or> m = 5 \<or> m = 6 \<or> m = 7 \<or> m = 8 \<or> m = 9 \<or> m = 10 \<or> m = 11 \<or> m = 12"
    using assms unfolding valid_month_def by presburger
  then show ?thesis using that by blast
qed

lemma month_end_le:
  "valid_month m \<Longrightarrow> month_start y m + month_len y m \<le> year_start (y + 1)"
  by (erule valid_month_cases) (simp_all add: month_start_def days_before_def month_len_def year_start_Suc)

lemma date_of_day:
  assumes "valid_month m" and "1 \<le> d" and "d \<le> month_len y m"
  shows "year_of (month_start y m + (d - 1)) = y" and "month_of (month_start y m + (d - 1)) = m"
    and "mday_of (month_start y m + (d - 1)) = d"
proof -
  have "0 \<le> days_before y m"
    using assms(1) by (cases rule: valid_month_cases) (simp_all add: days_before_def)
  then show y: "year_of (month_start y m + (d - 1)) = y"
    using assms month_end_le [OF assms(1), of y] by (intro year_of_unique) (simp_all add: month_start_def)
  show m: "month_of (month_start y m + (d - 1)) = m"
    unfolding month_of_def y Let_def using assms
    by (cases rule: valid_month_cases) (auto simp: month_start_def days_before_def month_len_def split: if_splits)
  show "mday_of (month_start y m + (d - 1)) = d"
    by (simp add: mday_of_def y m)
qed

lemma month_of_range: "valid_month (month_of n)"
  by (simp add: month_of_def valid_month_def Let_def)

lemma mday_of_range:
  "1 \<le> mday_of n" "mday_of n \<le> month_len (year_of n) (month_of n)"
proof -
  define y where "y = year_of n"
  have lo: "year_start y \<le> n" and hi: "n < year_start y + (if leap y then 366 else 365)"
    using year_of_bounds [of n] year_start_Suc [of y] by (simp_all add: y_def)
  consider "n < month_start y 2"
    | "month_start y 2 \<le> n" "n < month_start y 3"
    | "month_start y 3 \<le> n" "n < month_start y 4"
    | "month_start y 4 \<le> n" "n < month_start y 5"
    | "month_start y 5 \<le> n" "n < month_start y 6"
    | "month_start y 6 \<le> n" "n < month_start y 7"
    | "month_start y 7 \<le> n" "n < month_start y 8"
    | "month_start y 8 \<le> n" "n < month_start y 9"
    | "month_start y 9 \<le> n" "n < month_start y 10"
    | "month_start y 10 \<le> n" "n < month_start y 11"
    | "month_start y 11 \<le> n" "n < month_start y 12"
    | "month_start y 12 \<le> n"
    by linarith
  then have "month_start y (month_of n) \<le> n \<and> n < month_start y (month_of n) + month_len y (month_of n)"
    unfolding month_of_def y_def [symmetric] Let_def using lo hi
    by cases (simp_all add: month_start_def days_before_def month_len_def split: if_splits)
  then show "1 \<le> mday_of n" "mday_of n \<le> month_len (year_of n) (month_of n)"
    by (simp_all add: mday_of_def y_def)
qed

lemma day_of_date: "month_start (year_of n) (month_of n) + (mday_of n - 1) = n"
  by (simp add: mday_of_def)

lemma wday_of_range: "0 \<le> wday_of n" "wday_of n < 7"
  by (simp_all add: wday_of_def)

text \<open>The last day of a month is the one whose successor is the first of the next.\<close>

lemma next_month_start:
  "valid_month m \<Longrightarrow> month_start (y + m div 12) (m mod 12 + 1) = month_start y m + month_len y m"
  by (erule valid_month_cases)
    (simp_all add: month_start_def days_before_def month_len_def year_start_Suc [of y, unfolded add.commute [of y]]
      year_start_Suc)

lemma month_len_bounds: "28 \<le> month_len y m" "month_len y m \<le> 31"
  by (simp_all add: month_len_def)

section \<open>Instants\<close>

type_synonym location = "int \<Rightarrow> int \<times> int \<times> int"

record Time =
  t_unix :: int
  t_nsec :: int
  t_loc :: location

definition utc :: location where
  "utc = (\<lambda>_. (0, min_int64, max_int64))"

definition offset_at :: "location \<Rightarrow> int \<Rightarrow> int" where
  "offset_at l s = fst (l s)"

text \<open>The seconds the local clock and calendar show.\<close>

definition wall :: "Time \<Rightarrow> int" where
  "wall t = t_unix t + offset_at (t_loc t) (t_unix t)"

definition day_no :: "Time \<Rightarrow> int" where "day_no t = wall t div 86400"

definition Year :: "Time \<Rightarrow> int" where "Year t = year_of (day_no t)"
definition Month :: "Time \<Rightarrow> int" where "Month t = month_of (day_no t)"
definition Day :: "Time \<Rightarrow> int" where "Day t = mday_of (day_no t)"
definition Weekday :: "Time \<Rightarrow> int" where "Weekday t = wday_of (day_no t)"
definition Hour :: "Time \<Rightarrow> int" where "Hour t = wall t mod 86400 div 3600"
definition Minute :: "Time \<Rightarrow> int" where "Minute t = wall t mod 3600 div 60"
definition Second :: "Time \<Rightarrow> int" where "Second t = wall t mod 60"

text \<open>
  \<^verbatim>\<open>time.Date\<close>: months beyond the year carry over, days and times beyond the month are counted on. The
  offset is looked up as if the wall clock were UTC, and once more when the instant found lies outside
  that period.
\<close>

definition zone_unix :: "location \<Rightarrow> int \<Rightarrow> int" where
  "zone_unix l unix =
     (case l unix of (offset, start, stop) \<Rightarrow>
        if offset \<noteq> 0 then
          (let utc_sec = unix - offset
           in if utc_sec < start \<or> utc_sec \<ge> stop then unix - offset_at l utc_sec else utc_sec)
        else unix)"

definition Date :: "int \<Rightarrow> int \<Rightarrow> int \<Rightarrow> int \<Rightarrow> int \<Rightarrow> int \<Rightarrow> int \<Rightarrow> location \<Rightarrow> Time" where
  "Date year month day hour mins sec nsec l =
     (let m = month - 1;
          y = year + m div 12;
          days = month_start y (m mod 12 + 1) + (day - 1)
      in \<lparr>t_unix = zone_unix l (days * 86400 + hour * 3600 + mins * 60 + sec), t_nsec = nsec, t_loc = l\<rparr>)"

definition AddDate :: "Time \<Rightarrow> int \<Rightarrow> int \<Rightarrow> int \<Rightarrow> Time" where
  "AddDate t years months days =
     Date (Year t + years) (Month t + months) (Day t + days) (Hour t) (Minute t) (Second t) (t_nsec t) (t_loc t)"

definition In :: "Time \<Rightarrow> location \<Rightarrow> Time" where
  "In t l = t\<lparr>t_loc := l\<rparr>"

definition UTC :: "Time \<Rightarrow> Time" where
  "UTC t = In t utc"

definition Before :: "Time \<Rightarrow> Time \<Rightarrow> bool" where
  "Before a b \<longleftrightarrow> t_unix a < t_unix b \<or> t_unix a = t_unix b \<and> t_nsec a < t_nsec b"

definition After :: "Time \<Rightarrow> Time \<Rightarrow> bool" where
  "After a b \<longleftrightarrow> Before b a"

text \<open>The zero time is 1 January of year 1, and minutes are counted from there.\<close>

definition IsZero :: "Time \<Rightarrow> bool" where
  "IsZero t \<longleftrightarrow> t_unix t = - 62135596800 \<and> t_nsec t = 0"

definition TruncateMinute :: "Time \<Rightarrow> Time" where
  "TruncateMinute t = t\<lparr>t_unix := t_unix t - (t_unix t + 62135596800) mod 60, t_nsec := 0\<rparr>"

definition AddMinute :: "Time \<Rightarrow> Time" where
  "AddMinute t = t\<lparr>t_unix := t_unix t + 60\<rparr>"

section \<open>Midnights\<close>

text \<open>
  A location in which every local midnight exists: the clock at the instant computed for it shows it. UTC
  and the fixed offsets are such, and so is a zone whose clock changes fall elsewhere in the day.
\<close>

definition midnights :: "location \<Rightarrow> bool" where
  "midnights l \<longleftrightarrow> (\<forall>n. zone_unix l (n * 86400) + offset_at l (zone_unix l (n * 86400)) = n * 86400)"

definition midnight :: "location \<Rightarrow> int \<Rightarrow> Time" where
  "midnight l n = \<lparr>t_unix = zone_unix l (n * 86400), t_nsec = 0, t_loc = l\<rparr>"

lemma zone_unix_utc [simp]: "zone_unix utc s = s"
  by (simp add: zone_unix_def utc_def)

lemma offset_at_utc [simp]: "offset_at utc s = 0"
  by (simp add: offset_at_def utc_def)

lemma midnights_utc: "midnights utc"
  by (simp add: midnights_def)

lemma wall_midnight: "midnights l \<Longrightarrow> wall (midnight l n) = n * 86400"
  by (simp add: midnights_def midnight_def wall_def)

lemma t_loc_midnight [simp]: "t_loc (midnight l n) = l"
  by (simp add: midnight_def)

lemma day_no_midnight: "midnights l \<Longrightarrow> day_no (midnight l n) = n"
  by (simp add: day_no_def wall_midnight)

lemma clock_midnight:
  assumes "midnights l"
  shows "Hour (midnight l n) = 0" "Minute (midnight l n) = 0" "Second (midnight l n) = 0"
proof -
  have "n * 86400 = (24 * n) * 3600" "n * 86400 = (1440 * n) * 60" by simp_all
  then show "Hour (midnight l n) = 0" "Minute (midnight l n) = 0" "Second (midnight l n) = 0"
    by (simp_all add: Hour_def Minute_def Second_def wall_midnight [OF assms])
qed

lemma Date_month_start:
  assumes "valid_month m"
  shows "Date y m d 0 0 0 0 l = midnight l (month_start y m + (d - 1))"
    and "Date y (m + 1) d 0 0 0 0 l = midnight l (month_start y m + month_len y m + (d - 1))"
proof -
  have "(m - 1) div 12 = 0" "(m - 1) mod 12 = m - 1"
    using assms by (simp_all add: valid_month_def)
  then show "Date y m d 0 0 0 0 l = midnight l (month_start y m + (d - 1))"
    by (simp add: Date_def midnight_def)
  show "Date y (m + 1) d 0 0 0 0 l = midnight l (month_start y m + month_len y m + (d - 1))"
    using next_month_start [OF assms, of y] by (simp add: Date_def midnight_def)
qed

text \<open>The midnight of the day an instant falls on, and of the days around it.\<close>

lemma Date_today: "Date (Year t) (Month t) (Day t) 0 0 0 0 l = midnight l (day_no t)"
  by (simp add: Date_month_start(1) [OF month_of_range] Year_def Month_def Day_def day_of_date)

lemma AddDate_midnight:
  assumes "midnights l"
  shows "AddDate (midnight l n) 0 0 k = midnight l (n + k)"
proof -
  have "AddDate (midnight l n) 0 0 k = Date (year_of n) (month_of n) (mday_of n + k) 0 0 0 0 l"
    by (simp add: AddDate_def clock_midnight [OF assms] Year_def Month_def Day_def day_no_midnight [OF assms])
      (simp add: midnight_def)
  also have "\<dots> = midnight l (month_start (year_of n) (month_of n) + (mday_of n + k - 1))"
    by (rule Date_month_start(1) [OF month_of_range])
  also have "month_start (year_of n) (month_of n) + (mday_of n + k - 1) = n + k"
    using day_of_date [of n] by simp
  finally show ?thesis .
qed

end
