(* ===== verification/Schedule.thy ===== *)
theory Schedule
  imports Calendar Conf
begin

text \<open>
  Recurring allow windows (\<^verbatim>\<open>schedule/schedule.go\<close>): their validation, whether an instant lies inside one,
  when an action that runs once per opening is due, and when the next window opens.

  Texts are lists of code points. Two things come from outside the repository and are arguments:
  \<open>LoadLocation\<close>, the host's time-zone database, and the lower-case mapping of code points above ASCII.
  Validation rewrites the schedule it is given; the model returns the rewritten schedule, and only the error
  when there is one, as the callers discard the schedule then. The texts of the errors are dropped, their
  branches are constructors.

  The lemmas show what validation guarantees, that a matching date is the one the recurrence describes, that a
  window is the union of the intervals that start on matching days, and what the two clients of the windows
  decide from it.
\<close>

section \<open>Data\<close>

record Monthday =
  md_Last :: bool
  md_Day :: int

record Window =
  w_Recurrence :: "rune list"
  w_Days :: "rune list list"
  w_MonthlyBy :: "rune list"
  w_Week :: "rune list"
  w_Weekday :: "rune list"
  w_Monthdays :: "Monthday list"
  w_Months :: "int list"
  w_Start :: "rune list"
  w_End :: "rune list"

record Schedule =
  s_Timezone :: "rune list"
  s_Windows :: "Window list"

definition RecurrenceDaily :: "rune list" where "RecurrenceDaily = runes ''daily''"
definition RecurrenceWeekly :: "rune list" where "RecurrenceWeekly = runes ''weekly''"
definition RecurrenceMonthly :: "rune list" where "RecurrenceMonthly = runes ''monthly''"
definition RecurrenceYearly :: "rune list" where "RecurrenceYearly = runes ''yearly''"

definition MonthlyByDay :: "rune list" where "MonthlyByDay = runes ''day''"
definition MonthlyByWeekday :: "rune list" where "MonthlyByWeekday = runes ''weekday''"

definition WeekFirst :: "rune list" where "WeekFirst = runes ''first''"
definition WeekSecond :: "rune list" where "WeekSecond = runes ''second''"
definition WeekThird :: "rune list" where "WeekThird = runes ''third''"
definition WeekFourth :: "rune list" where "WeekFourth = runes ''fourth''"
definition WeekLast :: "rune list" where "WeekLast = runes ''last''"

definition scanDays :: nat where "scanDays = 400"

lemmas schedule_words =
  RecurrenceDaily_def RecurrenceWeekly_def RecurrenceMonthly_def RecurrenceYearly_def
  MonthlyByDay_def MonthlyByWeekday_def
  WeekFirst_def WeekSecond_def WeekThird_def WeekFourth_def WeekLast_def

datatype window_error =
  BadRecurrence | BadStart | BadEnd | BadDays "rune list" | BadMonths | NoDays | NoMonthlyBy | NoMonthdays
| BadMonthdays | BadWeek | BadWeekday | BadMonthlyBy | NoMonths

datatype schedule_error = NoTimezone | BadTimezone | NoWindows | BadWindow nat window_error

section \<open>Texts\<close>

definition ToLower :: "(rune \<Rightarrow> rune) \<Rightarrow> rune list \<Rightarrow> rune list" where
  "ToLower lower s = map (\<lambda>r. if r < 128 then (if 65 \<le> r \<and> r \<le> 90 then r + 32 else r) else lower r) s"

definition clean :: "(rune \<Rightarrow> rune) \<Rightarrow> rune list \<Rightarrow> rune list" where
  "clean lower s = ToLower lower (trim_space s)"

fun split_runes :: "rune \<Rightarrow> rune list \<Rightarrow> rune list list" where
  "split_runes c [] = [[]]"
| "split_runes c (r # rs) =
     (if r = c then [] # split_runes c rs
      else (case split_runes c rs of [] \<Rightarrow> [[r]] | p # ps \<Rightarrow> (r # p) # ps))"

definition atoi :: "rune list \<Rightarrow> int option" where
  "atoi s = Option.bind (ascii s) Atoi"

definition weekdayName :: "int \<Rightarrow> rune list" where
  "weekdayName d =
     (if d = 1 then runes ''mon'' else if d = 2 then runes ''tue'' else if d = 3 then runes ''wed''
      else if d = 4 then runes ''thu'' else if d = 5 then runes ''fri'' else if d = 6 then runes ''sat''
      else if d = 0 then runes ''sun'' else [])"

definition parseWeekdayName :: "(rune \<Rightarrow> rune) \<Rightarrow> rune list \<Rightarrow> int option" where
  "parseWeekdayName lower s0 =
     (let s = clean lower s0
      in if s = runes ''mon'' then Some 1 else if s = runes ''tue'' then Some 2
         else if s = runes ''wed'' then Some 3 else if s = runes ''thu'' then Some 4
         else if s = runes ''fri'' then Some 5 else if s = runes ''sat'' then Some 6
         else if s = runes ''sun'' then Some 0 else None)"

definition parseHHMM :: "rune list \<Rightarrow> (int \<times> int) option" where
  "parseHHMM s =
     (let parts = split_runes 58 (trim_space s)
      in if length parts \<noteq> 2 \<and> length parts \<noteq> 3 then None
         else case atoi (parts ! 0) of
           None \<Rightarrow> None
         | Some h \<Rightarrow>
             if h < 0 \<or> h > 23 then None
             else case atoi (parts ! 1) of
               None \<Rightarrow> None
             | Some m \<Rightarrow> if m < 0 \<or> m > 59 then None else Some (h, m))"

definition minutesOfDay :: "Time \<Rightarrow> int" where
  "minutesOfDay t = Hour t * 60 + Minute t"

definition hhmmToMinutes :: "rune list \<Rightarrow> int option" where
  "hhmmToMinutes s = (case parseHHMM s of None \<Rightarrow> None | Some (h, m) \<Rightarrow> Some (h * 60 + m))"

section \<open>Validation\<close>

definition ApplyDefaultTimezone :: "Schedule option \<Rightarrow> rune list \<Rightarrow> Schedule option" where
  "ApplyDefaultTimezone sched defaultTZ0 =
     (case sched of
        None \<Rightarrow> None
      | Some s \<Rightarrow>
          if trim_space (s_Timezone s) \<noteq> [] then Some s
          else (let defaultTZ = trim_space defaultTZ0
                in Some (s\<lparr>s_Timezone := if defaultTZ = [] then runes ''UTC'' else defaultTZ\<rparr>)))"

text \<open>The two loops that normalise days and months: an entry seen before is skipped.\<close>

definition norm_day :: "(rune \<Rightarrow> rune) \<Rightarrow> rune list list \<Rightarrow> rune list \<Rightarrow> window_error + rune list list" where
  "norm_day lower normDays d0 =
     (let d = clean lower d0
      in if d = [] then Inr normDays
         else if parseWeekdayName lower d = None then Inl (BadDays d)
         else if d \<in> set normDays then Inr normDays
         else Inr (normDays @ [d]))"

definition norm_month :: "int list \<Rightarrow> int \<Rightarrow> window_error + int list" where
  "norm_month normMonths m =
     (if m < 1 \<or> m > 12 then Inl BadMonths
      else if m \<in> set normMonths then Inr normMonths
      else Inr (normMonths @ [m]))"

definition check_monthdays :: "Monthday list \<Rightarrow> window_error + unit" where
  "check_monthdays mds =
     (if mds = [] then Inl NoMonthdays
      else if list_ex (\<lambda>md. \<not> md_Last md \<and> (md_Day md < 1 \<or> md_Day md > 31)) mds then Inl BadMonthdays
      else Inr ())"

definition check_monthly :: "(rune \<Rightarrow> rune) \<Rightarrow> Window \<Rightarrow> window_error + unit" where
  "check_monthly lower w =
     (if w_MonthlyBy w = [] then Inl NoMonthlyBy
      else rbind
        (if w_MonthlyBy w = MonthlyByDay then check_monthdays (w_Monthdays w)
         else if w_MonthlyBy w = MonthlyByWeekday then
           (if w_Week w \<notin> {WeekFirst, WeekSecond, WeekThird, WeekFourth, WeekLast} then Inl BadWeek
            else if parseWeekdayName lower (w_Weekday w) = None then Inl BadWeekday
            else Inr ())
         else Inl BadMonthlyBy)
        (\<lambda>_. if w_Recurrence w = RecurrenceYearly \<and> w_Months w = [] then Inl NoMonths else Inr ()))"

definition check_recurrence :: "(rune \<Rightarrow> rune) \<Rightarrow> Window \<Rightarrow> window_error + unit" where
  "check_recurrence lower w =
     (if w_Recurrence w = RecurrenceDaily then Inr ()
      else if w_Recurrence w = RecurrenceWeekly then (if w_Days w = [] then Inl NoDays else Inr ())
      else check_monthly lower w)"

definition NormalizeWindow :: "(rune \<Rightarrow> rune) \<Rightarrow> Window \<Rightarrow> window_error + Window" where
  "NormalizeWindow lower w0 =
     (let rec0 = clean lower (w_Recurrence w0);
          rec = (if rec0 = [] then RecurrenceWeekly else rec0)
      in if rec \<notin> {RecurrenceDaily, RecurrenceWeekly, RecurrenceMonthly, RecurrenceYearly} then Inl BadRecurrence
         else if hhmmToMinutes (w_Start w0) = None then Inl BadStart
         else if hhmmToMinutes (w_End w0) = None then Inl BadEnd
         else rbind (rfold (norm_day lower) [] (w_Days w0)) (\<lambda>normDays.
              rbind (rfold norm_month [] (w_Months w0)) (\<lambda>normMonths.
              (let w = w0\<lparr>w_Recurrence := rec, w_Days := normDays, w_MonthlyBy := clean lower (w_MonthlyBy w0),
                          w_Week := clean lower (w_Week w0), w_Weekday := clean lower (w_Weekday w0),
                          w_Months := normMonths\<rparr>
               in rbind (check_recurrence lower w) (\<lambda>_. Inr w)))))"

fun normalize_windows :: "(rune \<Rightarrow> rune) \<Rightarrow> nat \<Rightarrow> Window list \<Rightarrow> schedule_error + Window list" where
  "normalize_windows lower i [] = Inr []"
| "normalize_windows lower i (w # ws) =
     (case NormalizeWindow lower w of
        Inl e \<Rightarrow> Inl (BadWindow i e)
      | Inr w' \<Rightarrow> rbind (normalize_windows lower (i + 1) ws) (\<lambda>ws'. Inr (w' # ws')))"

definition NormalizeWindowsOnly ::
  "(rune list \<Rightarrow> location option) \<Rightarrow> (rune \<Rightarrow> rune) \<Rightarrow> Schedule option \<Rightarrow> schedule_error + Schedule option" where
  "NormalizeWindowsOnly LoadLocation lower sched =
     (case sched of
        None \<Rightarrow> Inr None
      | Some s \<Rightarrow>
          let tz = trim_space (s_Timezone s)
          in if tz = [] then Inl NoTimezone
             else if Option.is_none (LoadLocation tz) then Inl BadTimezone
             else rbind (normalize_windows lower 0 (s_Windows s))
                  (\<lambda>ws. Inr (Some (s\<lparr>s_Timezone := tz, s_Windows := ws\<rparr>))))"

definition Normalize ::
  "(rune list \<Rightarrow> location option) \<Rightarrow> (rune \<Rightarrow> rune) \<Rightarrow> Schedule option \<Rightarrow> schedule_error + Schedule option" where
  "Normalize LoadLocation lower sched =
     (case sched of
        None \<Rightarrow> Inr None
      | Some s \<Rightarrow>
          let tz = trim_space (s_Timezone s)
          in if tz = [] then Inl NoTimezone
             else if Option.is_none (LoadLocation tz) then Inl BadTimezone
             else if s_Windows s = [] then Inl NoWindows
             else rbind (normalize_windows lower 0 (s_Windows s))
                  (\<lambda>ws. Inr (Some (s\<lparr>s_Timezone := tz, s_Windows := ws\<rparr>))))"

section \<open>Matching\<close>

definition monthAllowed :: "int list \<Rightarrow> int \<Rightarrow> bool" where
  "monthAllowed months m \<longleftrightarrow> months = [] \<or> m \<in> set months"

text \<open>
  The two searches of \<^verbatim>\<open>nthWeekdayOfMonth\<close>: backwards from the last day of the month, and forwards from the
  first. The backward one stops when it leaves the month; 31 steps always take it there.
\<close>

fun last_weekday :: "nat \<Rightarrow> int \<Rightarrow> int \<Rightarrow> Time \<Rightarrow> Time option" where
  "last_weekday 0 month weekday d = None"
| "last_weekday (Suc n) month weekday d =
     (if Month d \<noteq> month then None
      else if Weekday d = weekday then Some d
      else last_weekday n month weekday (AddDate d 0 0 (- 1)))"

function nth_weekday :: "int \<Rightarrow> int \<Rightarrow> nat \<Rightarrow> int \<Rightarrow> location \<Rightarrow> int \<Rightarrow> nat \<Rightarrow> Time option" where
  "nth_weekday year month n weekday loc day count =
     (if day \<le> 31 then
        let t = Date year month day 0 0 0 0 loc
        in if Month t \<noteq> month then None
           else if Weekday t = weekday then
             (if count + 1 = n then Some t else nth_weekday year month n weekday loc (day + 1) (count + 1))
           else nth_weekday year month n weekday loc (day + 1) count
      else None)"
  by pat_completeness auto
termination by (relation "measure (\<lambda>(y, m, n, wd, l, day, c). nat (32 - day))") auto

definition nthWeekdayOfMonth :: "int \<Rightarrow> int \<Rightarrow> rune list \<Rightarrow> int \<Rightarrow> location \<Rightarrow> Time option" where
  "nthWeekdayOfMonth year month week weekday loc =
     (if week = WeekLast then last_weekday 32 month weekday (AddDate (Date year (month + 1) 1 0 0 0 0 loc) 0 0 (- 1))
      else if week = WeekFirst then nth_weekday year month 1 weekday loc 1 0
      else if week = WeekSecond then nth_weekday year month 2 weekday loc 1 0
      else if week = WeekThird then nth_weekday year month 3 weekday loc 1 0
      else if week = WeekFourth then nth_weekday year month 4 weekday loc 1 0
      else None)"

definition monthday_matches :: "int \<Rightarrow> int \<Rightarrow> Monthday \<Rightarrow> bool" where
  "monthday_matches lastDay day md \<longleftrightarrow>
     (if md_Last md then day = lastDay else \<not> md_Day md > lastDay \<and> day = md_Day md)"

definition dateMatchesWindow :: "(rune \<Rightarrow> rune) \<Rightarrow> Window \<Rightarrow> Time \<Rightarrow> bool" where
  "dateMatchesWindow lower w day0 =
     (let day = Date (Year day0) (Month day0) (Day day0) 0 0 0 0 (t_loc day0)
      in if \<not> monthAllowed (w_Months w) (Month day) then False
         else if w_Recurrence w = RecurrenceDaily then True
         else if w_Recurrence w = RecurrenceWeekly then weekdayName (Weekday day) \<in> set (w_Days w)
         else if w_Recurrence w = RecurrenceMonthly \<or> w_Recurrence w = RecurrenceYearly then
           (if w_MonthlyBy w = MonthlyByDay then
              (let lastDay = Day (AddDate (Date (Year day) (Month day + 1) 1 0 0 0 0 (t_loc day)) 0 0 (- 1))
               in list_ex (monthday_matches lastDay (Day day)) (w_Monthdays w))
            else if w_MonthlyBy w = MonthlyByWeekday then
              (case parseWeekdayName lower (w_Weekday w) of
                 None \<Rightarrow> False
               | Some wd \<Rightarrow>
                   (case nthWeekdayOfMonth (Year day) (Month day) (w_Week w) wd (t_loc day) of
                      None \<Rightarrow> False
                    | Some occ \<Rightarrow> Year occ = Year day \<and> Month occ = Month day \<and> Day occ = Day day))
            else False)
         else False)"

definition timeInWindowMinutes :: "int \<Rightarrow> int \<Rightarrow> int \<Rightarrow> bool" where
  "timeInWindowMinutes startMin endMin nowMin =
     (if endMin \<le> startMin then nowMin \<ge> startMin \<or> nowMin \<le> endMin
      else nowMin \<ge> startMin \<and> nowMin \<le> endMin)"

definition windowAllowsInstant :: "(rune \<Rightarrow> rune) \<Rightarrow> Window \<Rightarrow> Time \<Rightarrow> bool" where
  "windowAllowsInstant lower w t =
     (case (hhmmToMinutes (w_Start w), hhmmToMinutes (w_End w)) of
        (Some startMin, Some endMin) \<Rightarrow>
          let nowMin = minutesOfDay t;
              day = Date (Year t) (Month t) (Day t) 0 0 0 0 (t_loc t)
          in if endMin \<le> startMin then
               dateMatchesWindow lower w day \<and> nowMin \<ge> startMin \<or>
               dateMatchesWindow lower w (AddDate day 0 0 (- 1)) \<and> nowMin \<le> endMin
             else dateMatchesWindow lower w day \<and> timeInWindowMinutes startMin endMin nowMin
      | _ \<Rightarrow> False)"

definition Allows ::
  "(rune list \<Rightarrow> location option) \<Rightarrow> (rune \<Rightarrow> rune) \<Rightarrow> Schedule option \<Rightarrow> Time \<Rightarrow> schedule_error + bool" where
  "Allows LoadLocation lower sched now =
     (case sched of
        None \<Rightarrow> Inr True
      | Some s \<Rightarrow>
          if s_Windows s = [] then Inr True
          else case LoadLocation (trim_space (s_Timezone s)) of
            None \<Rightarrow> Inl BadTimezone
          | Some loc \<Rightarrow> Inr (list_ex (\<lambda>w. windowAllowsInstant lower w (In now loc)) (s_Windows s)))"

section \<open>Once per opening\<close>

definition maxSteps :: nat where "maxSteps = 24 * 60 * 8"

function continuous_loop ::
  "(rune list \<Rightarrow> location option) \<Rightarrow> (rune \<Rightarrow> rune) \<Rightarrow> Schedule option \<Rightarrow> Time \<Rightarrow> Time \<Rightarrow> nat \<Rightarrow> schedule_error + bool" where
  "continuous_loop LoadLocation lower sched till t steps =
     (if After t till then Inr True
      else case Allows LoadLocation lower sched t of
        Inl e \<Rightarrow> Inl e
      | Inr allowed \<Rightarrow>
          if \<not> allowed then Inr False
          else if steps + 1 > maxSteps then Inr True
          else continuous_loop LoadLocation lower sched till (AddMinute t) (steps + 1))"
  by pat_completeness auto
termination by (relation "measure (\<lambda>(ll, lw, s, till, t, steps). maxSteps - steps)") auto

definition continuousOpen ::
  "(rune list \<Rightarrow> location option) \<Rightarrow> (rune \<Rightarrow> rune) \<Rightarrow> Schedule option \<Rightarrow> Time \<Rightarrow> Time \<Rightarrow> schedule_error + bool" where
  "continuousOpen LoadLocation lower sched since till =
     (if Before till since then Inr False
      else continuous_loop LoadLocation lower sched till (TruncateMinute (UTC since)) 0)"

definition DueOncePerOpening ::
  "(rune list \<Rightarrow> location option) \<Rightarrow> (rune \<Rightarrow> rune) \<Rightarrow> Schedule option \<Rightarrow> Time \<Rightarrow> Time \<Rightarrow> schedule_error + bool" where
  "DueOncePerOpening LoadLocation lower sched now lastFire =
     rbind (Allows LoadLocation lower sched now) (\<lambda>openNow.
       if \<not> openNow then Inr False
       else if IsZero lastFire then Inr True
       else rbind (continuousOpen LoadLocation lower sched lastFire now) (\<lambda>same. Inr (\<not> same)))"

section \<open>The next opening\<close>

definition windowOpenOnDay :: "(rune \<Rightarrow> rune) \<Rightarrow> Window \<Rightarrow> Time \<Rightarrow> Time option" where
  "windowOpenOnDay lower w day =
     (if \<not> dateMatchesWindow lower w day then None
      else case parseHHMM (w_Start w) of
        None \<Rightarrow> None
      | Some (h, m) \<Rightarrow> Some (Date (Year day) (Month day) (Day day) h m 0 0 (t_loc day)))"

definition better_open :: "Time \<Rightarrow> Time option \<Rightarrow> Time option \<Rightarrow> Time option" where
  "better_open local best candidate =
     (case candidate of
        None \<Rightarrow> best
      | Some open \<Rightarrow>
          if Before open local then best
          else case best of None \<Rightarrow> Some open | Some b \<Rightarrow> if Before open b then Some open else best)"

definition scan_day :: "(rune \<Rightarrow> rune) \<Rightarrow> Window list \<Rightarrow> Time \<Rightarrow> Time \<Rightarrow> Time option \<Rightarrow> Time option" where
  "scan_day lower ws local day best =
     fold (\<lambda>w best. better_open local best (windowOpenOnDay lower w day)) ws best"

definition NextWindowStart ::
  "(rune list \<Rightarrow> location option) \<Rightarrow> (rune \<Rightarrow> rune) \<Rightarrow> Schedule option \<Rightarrow> Time \<Rightarrow> schedule_error + Time option" where
  "NextWindowStart LoadLocation lower sched now =
     (case sched of
        None \<Rightarrow> Inr None
      | Some s \<Rightarrow>
          if s_Windows s = [] then Inr None
          else rbind (Allows LoadLocation lower sched now) (\<lambda>allowed.
            if allowed then Inr None
            else case LoadLocation (trim_space (s_Timezone s)) of
              None \<Rightarrow> Inl BadTimezone
            | Some loc \<Rightarrow>
                let local = In now loc;
                    day0 = Date (Year local) (Month local) (Day local) 0 0 0 0 loc
                in Inr (map_option UTC
                     (fold (\<lambda>i. scan_day lower (s_Windows s) local (AddDate day0 0 0 (int i)))
                        [0..<scanDays + 1] None))))"

declare nth_weekday.simps [simp del] continuous_loop.simps [simp del]

section \<open>What validation guarantees\<close>

text \<open>
  What the code relies on of Unicode's simple lower-case mapping: applying it twice changes nothing more, and
  it neither makes nor removes white space.
\<close>

definition lower_rune :: "(rune \<Rightarrow> rune) \<Rightarrow> rune \<Rightarrow> rune" where
  "lower_rune lower r = (if r < 128 then (if 65 \<le> r \<and> r \<le> 90 then r + 32 else r) else lower r)"

definition lower_ok :: "(rune \<Rightarrow> rune) \<Rightarrow> bool" where
  "lower_ok lower \<longleftrightarrow>
     (\<forall>r\<ge>128. lower_rune lower (lower r) = lower r \<and> (IsSpace (lower r) \<longleftrightarrow> IsSpace r))"

definition weekday_names :: "rune list set" where
  "weekday_names =
     {runes ''mon'', runes ''tue'', runes ''wed'', runes ''thu'', runes ''fri'', runes ''sat'', runes ''sun''}"

definition monthday_ok :: "Monthday \<Rightarrow> bool" where
  "monthday_ok md \<longleftrightarrow> md_Last md \<or> 1 \<le> md_Day md \<and> md_Day md \<le> 31"

definition monthly_ok :: "Window \<Rightarrow> bool" where
  "monthly_ok w \<longleftrightarrow>
     w_MonthlyBy w = MonthlyByDay \<and> w_Monthdays w \<noteq> [] \<and> list_all monthday_ok (w_Monthdays w) \<or>
     w_MonthlyBy w = MonthlyByWeekday \<and> w_Week w \<in> {WeekFirst, WeekSecond, WeekThird, WeekFourth, WeekLast} \<and>
       w_Weekday w \<in> weekday_names"

definition window_ok :: "Window \<Rightarrow> bool" where
  "window_ok w \<longleftrightarrow>
     hhmmToMinutes (w_Start w) \<noteq> None \<and> hhmmToMinutes (w_End w) \<noteq> None \<and>
     distinct (w_Days w) \<and> set (w_Days w) \<subseteq> weekday_names \<and>
     distinct (w_Months w) \<and> set (w_Months w) \<subseteq> {1..12} \<and>
     (w_Recurrence w = RecurrenceDaily \<or> w_Recurrence w = RecurrenceWeekly \<and> w_Days w \<noteq> [] \<or>
      w_Recurrence w = RecurrenceMonthly \<and> monthly_ok w \<or>
      w_Recurrence w = RecurrenceYearly \<and> monthly_ok w \<and> w_Months w \<noteq> [])"

lemma ToLower_map: "ToLower lower s = map (lower_rune lower) s"
  by (simp add: ToLower_def lower_rune_def)

lemma lower_rune_idem: "lower_ok lower \<Longrightarrow> lower_rune lower (lower_rune lower r) = lower_rune lower r"
  by (cases "r < 128") (auto simp: lower_ok_def lower_rune_def)

lemma lower_rune_space: "lower_ok lower \<Longrightarrow> IsSpace (lower_rune lower r) \<longleftrightarrow> IsSpace r"
  by (cases "r < 128") (auto simp: lower_ok_def lower_rune_def IsSpace_def)

lemma trim_space_idem [simp]: "trim_space (trim_space s) = trim_space s"
proof -
  have fixed: "dropWhile P (dropWhile P xs) = dropWhile P xs" for P and xs :: "rune list"
    by (induction xs) simp_all
  have keep: "dropWhile P (rev (dropWhile P (rev xs))) = rev (dropWhile P (rev xs))"
    if "dropWhile P xs = xs" for P and xs :: "rune list"
  proof (cases "rev (dropWhile P (rev xs))")
    case (Cons x ys)
    moreover obtain zs where "xs = rev (dropWhile P (rev xs)) @ zs"
      by (metis rev_append rev_rev_ident takeWhile_dropWhile_id)
    ultimately have "xs = x # ys @ zs" by simp
    with that have "\<not> P x" by (metis dropWhile_eq_Cons_conv list.distinct(1) list.inject)
    with Cons show ?thesis by simp
  next
    case Nil
    show ?thesis unfolding Nil by (rule dropWhile.simps)
  qed
  show ?thesis
    unfolding trim_space_def by (simp add: fixed keep)
qed

lemma trim_space_ToLower:
  "lower_ok lower \<Longrightarrow> trim_space (ToLower lower s) = ToLower lower (trim_space s)"
  by (simp add: trim_space_def ToLower_map rev_map dropWhile_map comp_def lower_rune_space)

lemma clean_idem: "lower_ok lower \<Longrightarrow> clean lower (clean lower s) = clean lower s"
  by (simp add: clean_def trim_space_ToLower) (simp add: ToLower_map comp_def lower_rune_idem)

lemma parseWeekdayName_clean:
  "lower_ok lower \<Longrightarrow> parseWeekdayName lower (clean lower s) = Some y \<Longrightarrow> clean lower s \<in> weekday_names"
  by (auto simp: parseWeekdayName_def Let_def clean_idem weekday_names_def split: if_splits)

lemma clean_weekday: "d \<in> weekday_names \<Longrightarrow> clean lower d = d"
  by (auto simp: weekday_names_def clean_def ToLower_def trim_space_def IsSpace_def runes_def)

lemma parseWeekdayName_weekday: "d \<in> weekday_names \<Longrightarrow> parseWeekdayName lower d \<noteq> None"
  by (subst parseWeekdayName_def) (auto simp: clean_weekday Let_def weekday_names_def)

lemma norm_days:
  assumes "lower_ok lower" and "rfold (norm_day lower) [] ds = Inr ds'"
  shows "distinct ds'" and "set ds' \<subseteq> weekday_names"
proof -
  have "distinct ds' \<and> set ds' \<subseteq> weekday_names"
    by (rule rfold_invariant [OF assms(2)])
      (auto simp: norm_day_def Let_def subset_iff split: if_splits intro: parseWeekdayName_clean [OF assms(1)])
  then show "distinct ds'" and "set ds' \<subseteq> weekday_names" by simp_all
qed

lemma norm_months:
  assumes "rfold norm_month [] ms = Inr ms'"
  shows "distinct ms'" and "set ms' \<subseteq> {1..12}"
proof -
  have "distinct ms' \<and> set ms' \<subseteq> {1..12}"
    by (rule rfold_invariant [OF assms]) (auto simp: norm_month_def subset_iff split: if_splits)
  then show "distinct ms'" and "set ms' \<subseteq> {1..12}" by simp_all
qed

text \<open>A normalised list passes through the loops unchanged.\<close>

lemma norm_days_fixed:
  "distinct (acc @ ds) \<Longrightarrow> set ds \<subseteq> weekday_names \<Longrightarrow> rfold (norm_day lower) acc ds = Inr (acc @ ds)"
proof (induction ds arbitrary: acc)
  case (Cons d ds)
  then have "d \<noteq> []" by (auto simp: weekday_names_def runes_def)
  with Cons show ?case
    by (simp add: norm_day_def Let_def clean_weekday parseWeekdayName_weekday)
qed simp

lemma norm_months_fixed:
  "distinct (acc @ ms) \<Longrightarrow> set ms \<subseteq> {1..12} \<Longrightarrow> rfold norm_month acc ms = Inr (acc @ ms)"
  by (induction ms arbitrary: acc) (simp_all add: norm_month_def)

lemma check_recurrence_ok:
  assumes "lower_ok lower" and "w_Weekday w = clean lower wd"
    and "w_Recurrence w \<in> {RecurrenceDaily, RecurrenceWeekly, RecurrenceMonthly, RecurrenceYearly}"
    and "hhmmToMinutes (w_Start w) \<noteq> None" and "hhmmToMinutes (w_End w) \<noteq> None"
    and "distinct (w_Days w)" and "set (w_Days w) \<subseteq> weekday_names"
    and "distinct (w_Months w)" and "set (w_Months w) \<subseteq> {1..12}"
    and "check_recurrence lower w = Inr ()"
  shows "window_ok w"
proof -
  have "monthly_ok w \<and> (w_Recurrence w = RecurrenceYearly \<longrightarrow> w_Months w \<noteq> [])"
    if "check_monthly lower w = Inr ()"
    using that assms(1,2) parseWeekdayName_clean
    by (auto simp: check_monthly_def check_monthdays_def monthly_ok_def monthday_ok_def list_all_iff list_ex_iff
        result_simps split: if_splits)
  then show ?thesis
    using assms(3-) by (auto simp: window_ok_def check_recurrence_def split: if_splits)
qed

lemma recurrence_distinct [simp]:
  "RecurrenceWeekly \<noteq> RecurrenceDaily" "RecurrenceMonthly \<noteq> RecurrenceDaily"
  "RecurrenceMonthly \<noteq> RecurrenceWeekly" "RecurrenceYearly \<noteq> RecurrenceDaily"
  "RecurrenceYearly \<noteq> RecurrenceWeekly" "RecurrenceMonthly \<noteq> RecurrenceYearly"
  by (simp_all add: schedule_words runes_def)

lemma monthly_by_distinct [simp]:
  "MonthlyByDay \<noteq> []" "MonthlyByWeekday \<noteq> []" "MonthlyByWeekday \<noteq> MonthlyByDay"
  by (simp_all add: schedule_words runes_def)

lemma check_monthly_fixed:
  assumes "monthly_ok w" and "w_Recurrence w = RecurrenceYearly \<Longrightarrow> w_Months w \<noteq> []"
  shows "check_monthly lower w = Inr ()"
  using assms(1) unfolding monthly_ok_def
proof (elim disjE conjE)
  assume "w_MonthlyBy w = MonthlyByDay" "w_Monthdays w \<noteq> []" "list_all monthday_ok (w_Monthdays w)"
  moreover from this(3) have "\<not> list_ex (\<lambda>md. \<not> md_Last md \<and> (md_Day md < 1 \<or> md_Day md > 31)) (w_Monthdays w)"
    by (auto simp: list_all_iff list_ex_iff monthday_ok_def)
  ultimately show ?thesis
    using assms(2) by (simp add: check_monthly_def check_monthdays_def)
next
  assume "w_MonthlyBy w = MonthlyByWeekday" "w_Weekday w \<in> weekday_names"
    "w_Week w \<in> {WeekFirst, WeekSecond, WeekThird, WeekFourth, WeekLast}"
  then show ?thesis
    using assms(2) parseWeekdayName_weekday [of "w_Weekday w" lower] by (simp add: check_monthly_def)
qed

lemma check_recurrence_fixed: "window_ok w \<Longrightarrow> check_recurrence lower w = Inr ()"
  using check_monthly_fixed [of w lower]
  by (auto simp: window_ok_def check_recurrence_def recurrence_distinct [symmetric])

lemma NormalizeWindow_ok:
  assumes "lower_ok lower" and "NormalizeWindow lower w0 = Inr w"
  shows "window_ok w"
    and "clean lower (w_MonthlyBy w) = w_MonthlyBy w"
    and "clean lower (w_Week w) = w_Week w"
    and "clean lower (w_Weekday w) = w_Weekday w"
proof -
  define rec0 where "rec0 = clean lower (w_Recurrence w0)"
  define rec where "rec = (if rec0 = [] then RecurrenceWeekly else rec0)"
  have "rec \<in> {RecurrenceDaily, RecurrenceWeekly, RecurrenceMonthly, RecurrenceYearly}"
      (is ?rec) and hm: "hhmmToMinutes (w_Start w0) \<noteq> None" "hhmmToMinutes (w_End w0) \<noteq> None"
    using assms(2) unfolding NormalizeWindow_def Let_def rec0_def [symmetric] rec_def [symmetric]
    by (auto simp only: sum.distinct split: if_splits)
  moreover obtain ds ms where ds: "rfold (norm_day lower) [] (w_Days w0) = Inr ds"
    and ms: "rfold norm_month [] (w_Months w0) = Inr ms"
    and w: "w = w0\<lparr>w_Recurrence := rec, w_Days := ds, w_MonthlyBy := clean lower (w_MonthlyBy w0),
      w_Week := clean lower (w_Week w0), w_Weekday := clean lower (w_Weekday w0), w_Months := ms\<rparr>"
    and check: "check_recurrence lower w = Inr ()"
    using assms(2) unfolding NormalizeWindow_def Let_def rec0_def [symmetric] rec_def [symmetric]
    by (auto simp: result_simps simp del: insert_iff split: if_splits)
  ultimately show "window_ok w"
    using norm_days [OF assms(1) ds] norm_months [OF ms]
    by (intro check_recurrence_ok [OF assms(1) _ _ _ _ _ _ _ _ check]) simp_all
  show "clean lower (w_MonthlyBy w) = w_MonthlyBy w" "clean lower (w_Week w) = w_Week w"
    "clean lower (w_Weekday w) = w_Weekday w"
    by (simp_all add: w clean_idem [OF assms(1)])
qed

lemma clean_recurrence:
  "r \<in> {RecurrenceDaily, RecurrenceWeekly, RecurrenceMonthly, RecurrenceYearly} \<Longrightarrow> clean lower r = r \<and> r \<noteq> []"
  by (auto simp: schedule_words clean_def ToLower_def trim_space_def IsSpace_def runes_def)

lemma NormalizeWindow_fixed:
  assumes "window_ok w" and "clean lower (w_MonthlyBy w) = w_MonthlyBy w"
    and "clean lower (w_Week w) = w_Week w" and "clean lower (w_Weekday w) = w_Weekday w"
  shows "NormalizeWindow lower w = Inr w"
proof -
  have rec: "w_Recurrence w \<in> {RecurrenceDaily, RecurrenceWeekly, RecurrenceMonthly, RecurrenceYearly}"
    using assms(1) by (auto simp: window_ok_def)
  have "rfold (norm_day lower) [] (w_Days w) = Inr (w_Days w)" "rfold norm_month [] (w_Months w) = Inr (w_Months w)"
    using assms(1) norm_days_fixed [of "[]"] norm_months_fixed [of "[]"] by (simp_all add: window_ok_def)
  moreover have "hhmmToMinutes (w_Start w) \<noteq> None" "hhmmToMinutes (w_End w) \<noteq> None"
    using assms(1) by (simp_all add: window_ok_def)
  ultimately show ?thesis
    using rec clean_recurrence [OF rec, of lower] check_recurrence_fixed [OF assms(1), of lower] assms(2-)
    by (simp only: NormalizeWindow_def Let_def) simp
qed

lemma normalize_windows_ok:
  "lower_ok lower \<Longrightarrow> normalize_windows lower i ws = Inr ws' \<Longrightarrow>
    list_all window_ok ws' \<and> length ws' = length ws \<and> (\<forall>j. normalize_windows lower j ws' = Inr ws')"
proof (induction ws arbitrary: i ws')
  case (Cons w ws)
  then obtain v vs where v: "NormalizeWindow lower w = Inr v" and vs: "normalize_windows lower (i + 1) ws = Inr vs"
    and ws': "ws' = v # vs"
    by (auto simp: result_simps split: sum.splits)
  have "NormalizeWindow lower v = Inr v"
    by (rule NormalizeWindow_fixed) (fact NormalizeWindow_ok [OF Cons.prems(1) v])+
  with Cons.IH [OF Cons.prems(1) vs] NormalizeWindow_ok(1) [OF Cons.prems(1) v] ws' show ?case by simp
qed simp

text \<open>
  C27. A schedule that validation accepts names a known time zone and has windows, one for each it was given, and
  each is well formed: its times lie in a day, its days are distinct weekday names, its months distinct numbers
  from 1 to 12, and it has what its recurrence needs. Validating it again changes nothing.
\<close>

theorem Normalize_type:
  assumes "lower_ok lower" and "Normalize LoadLocation lower (Some s) = Inr (Some s')"
  shows "LoadLocation (s_Timezone s') \<noteq> None \<and> s_Windows s' \<noteq> [] \<and> length (s_Windows s') = length (s_Windows s) \<and>
    list_all window_ok (s_Windows s') \<and> Normalize LoadLocation lower (Some s') = Inr (Some s')"
proof -
  from assms(2) obtain ws where tz: "trim_space (s_Timezone s) \<noteq> []" "LoadLocation (trim_space (s_Timezone s)) \<noteq> None"
    and ne: "s_Windows s \<noteq> []" and ws: "normalize_windows lower 0 (s_Windows s) = Inr ws"
    and s': "s' = s\<lparr>s_Timezone := trim_space (s_Timezone s), s_Windows := ws\<rparr>"
    by (auto simp: Normalize_def Let_def result_simps Option.is_none_def split: if_splits)
  have ok: "list_all window_ok ws" and len: "length ws = length (s_Windows s)"
    and again: "normalize_windows lower 0 ws = Inr ws"
    using normalize_windows_ok [OF assms(1) ws] by simp_all
  have "ws \<noteq> []" using len ne by auto
  then have "Normalize LoadLocation lower (Some s') = Inr (Some s')"
    using tz again by (simp add: Normalize_def Let_def s' Option.is_none_def)
  with tz ok len \<open>ws \<noteq> []\<close> show ?thesis by (simp add: s')
qed

section \<open>Matching dates\<close>

text \<open>
  The days a recurrence describes, as an arithmetical condition on day numbers: the last day of a month is
  followed by a first, and the last Monday is the one no other Monday of the month follows.
\<close>

definition week_matches :: "rune list \<Rightarrow> int \<Rightarrow> bool" where
  "week_matches week n \<longleftrightarrow>
     (if week = WeekLast then month_of (n + 7) \<noteq> month_of n
      else week = WeekFirst \<and> (mday_of n - 1) div 7 = 0 \<or> week = WeekSecond \<and> (mday_of n - 1) div 7 = 1 \<or>
        week = WeekThird \<and> (mday_of n - 1) div 7 = 2 \<or> week = WeekFourth \<and> (mday_of n - 1) div 7 = 3)"

definition recurs :: "(rune \<Rightarrow> rune) \<Rightarrow> Window \<Rightarrow> int \<Rightarrow> bool" where
  "recurs lower w n \<longleftrightarrow>
     (w_Months w = [] \<or> month_of n \<in> set (w_Months w)) \<and>
     (w_Recurrence w = RecurrenceDaily \<or>
      w_Recurrence w = RecurrenceWeekly \<and> weekdayName (wday_of n) \<in> set (w_Days w) \<or>
      w_Recurrence w \<in> {RecurrenceMonthly, RecurrenceYearly} \<and>
        (w_MonthlyBy w = MonthlyByDay \<and>
           list_ex (\<lambda>md. if md_Last md then mday_of (n + 1) = 1 else mday_of n = md_Day md) (w_Monthdays w) \<or>
         w_MonthlyBy w = MonthlyByWeekday \<and> parseWeekdayName lower (w_Weekday w) = Some (wday_of n) \<and>
           week_matches (w_Week w) n))"

lemma date_midnight:
  assumes "midnights l"
  shows "Year (midnight l n) = year_of n" "Month (midnight l n) = month_of n" "Day (midnight l n) = mday_of n"
    "Weekday (midnight l n) = wday_of n"
  by (simp_all add: Year_def Month_def Day_def Weekday_def day_no_midnight [OF assms])

text \<open>Leaving a month: up to four weeks after its last day it is another one.\<close>

lemma next_month_date:
  assumes "valid_month m" and "1 \<le> d" and "d \<le> 28"
  shows "month_of (month_start y m + month_len y m + (d - 1)) = m mod 12 + 1"
    and "mday_of (month_start y m + month_len y m + (d - 1)) = d"
proof -
  have "valid_month (m mod 12 + 1)"
    using assms(1) by (simp add: valid_month_def)
  moreover have "d \<le> month_len (y + m div 12) (m mod 12 + 1)"
    using assms(3) month_len_bounds(1) by (rule order_trans)
  ultimately show "month_of (month_start y m + month_len y m + (d - 1)) = m mod 12 + 1"
    and "mday_of (month_start y m + month_len y m + (d - 1)) = d"
    using date_of_day(2,3) [of "m mod 12 + 1" d "y + m div 12"] assms(2)
    by (simp_all add: next_month_start [OF assms(1)])
qed

lemma next_month_differs: "valid_month m \<Longrightarrow> m mod 12 + 1 \<noteq> m"
  by (erule valid_month_cases) simp_all

lemma month_of_ahead:
  assumes "0 \<le> k" and "k \<le> 28"
  shows "month_of (n + k) = month_of n \<longleftrightarrow> mday_of n + k \<le> month_len (year_of n) (month_of n)"
proof -
  let ?y = "year_of n" and ?m = "month_of n"
  have n: "n + k = month_start ?y ?m + (mday_of n + k - 1)" using day_of_date [of n] by simp
  show ?thesis
  proof (cases "mday_of n + k \<le> month_len ?y ?m")
    case True
    then show ?thesis
      using date_of_day(2) [OF month_of_range, of "mday_of n + k" ?y n] mday_of_range(1) [of n] assms(1)
      unfolding n by simp
  next
    case False
    define d where "d = mday_of n + k - month_len ?y ?m"
    have "1 \<le> d" "d \<le> 28" "n + k = month_start ?y ?m + month_len ?y ?m + (d - 1)"
      using False assms(2) mday_of_range(2) [of n] day_of_date [of n] by (simp_all add: d_def)
    then have "month_of (n + k) = ?m mod 12 + 1"
      using next_month_date(1) [OF month_of_range] by simp
    then show ?thesis using False next_month_differs [OF month_of_range, of n] by simp
  qed
qed

lemma month_of_day:
  assumes "valid_month m" and "1 \<le> d" and "d \<le> 31"
  shows "month_of (month_start y m + (d - 1)) = m \<longleftrightarrow> d \<le> month_len y m"
proof (cases "d \<le> month_len y m")
  case False
  define e where "e = d - month_len y m"
  have e: "month_start y m + (d - 1) = month_start y m + month_len y m + (e - 1)" by (simp add: e_def)
  have "1 \<le> e" "e \<le> 28" using False assms(3) month_len_bounds(1) [of y m] by (simp_all add: e_def)
  then show ?thesis
    unfolding e next_month_date(1) [OF assms(1) \<open>1 \<le> e\<close> \<open>e \<le> 28\<close>]
    using False next_month_differs [OF assms(1)] by simp
qed (use assms date_of_day(2) in simp)

text \<open>The days from one weekday to the next occurrence of another.\<close>

definition until_wday :: "int \<Rightarrow> int \<Rightarrow> int" where
  "until_wday wd n = (wd - wday_of n) mod 7"

lemma wday_of_Suc: "wday_of (n + 1) = (if wday_of n = 6 then 0 else wday_of n + 1)"
proof -
  have "wday_of (n + 1) = (wday_of n + 1) mod 7"
    using mod_add_left_eq [of "n + 4" 7 1] by (simp add: wday_of_def)
  then show ?thesis using wday_of_range [of n] by simp
qed

lemma until_wday_eq:
  assumes "0 \<le> wd" and "wd < 7"
  shows "until_wday wd n = (if wday_of n \<le> wd then wd - wday_of n else wd - wday_of n + 7)"
proof (cases "wday_of n \<le> wd")
  case False
  have "(wd - wday_of n) mod 7 = (wd - wday_of n + 7) mod 7" by simp
  also have "\<dots> = wd - wday_of n + 7"
    using assms False wday_of_range [of n] by (intro mod_pos_pos_trivial) linarith+
  finally show ?thesis using False by (simp add: until_wday_def)
qed (use assms wday_of_range [of n] in \<open>simp add: until_wday_def\<close>)

lemma until_wday_step:
  assumes "0 \<le> wd" and "wd < 7"
  shows "until_wday wd (n + 1) = (if wday_of n = wd then 6 else until_wday wd n - 1)"
    and "until_wday wd n = 0 \<longleftrightarrow> wday_of n = wd"
  using assms wday_of_range [of n] by (auto simp: until_wday_eq wday_of_Suc)

lemma until_wday_range: "0 \<le> until_wday wd n" "until_wday wd n < 7"
  by (simp_all add: until_wday_def)

lemma nth_weekday_closed:
  assumes l: "midnights l" and m: "valid_month m" and wd: "0 \<le> wd" "wd < 7"
    and "1 \<le> day" and "count < n"
  shows "nth_weekday y m n wd l day count =
    (let d = day + until_wday wd (month_start y m + (day - 1)) + 7 * (int n - int count - 1)
     in if d \<le> month_len y m then Some (midnight l (month_start y m + (d - 1))) else None)"
  using assms(5,6)
proof (induction "nat (32 - day)" arbitrary: day count)
  case 0
  then have "\<not> day \<le> 31" by simp
  moreover have "\<not> day + until_wday wd (month_start y m + (day - 1)) + 7 * (int n - int count - 1) \<le> month_len y m"
    using 0 until_wday_range(1) [of wd "month_start y m + (day - 1)"] month_len_bounds(2) [of y m] by simp
  ultimately show ?case by (simp add: nth_weekday.simps [of y m n wd l day])
next
  case (Suc k)
  let ?x = "month_start y m + (day - 1)"
  have day: "day \<le> 31" using Suc.hyps(2) by simp
  have t: "Date y m day 0 0 0 0 l = midnight l ?x" by (rule Date_month_start(1) [OF m])
  have step: "nth_weekday y m n wd l day count =
      (if \<not> day \<le> month_len y m then None
       else if wday_of ?x = wd then
         (if count + 1 = n then Some (midnight l ?x) else nth_weekday y m n wd l (day + 1) (count + 1))
       else nth_weekday y m n wd l (day + 1) count)"
    using day month_of_day [OF m \<open>1 \<le> day\<close> day, of y]
    by (subst nth_weekday.simps) (simp add: t date_midnight [OF l] Let_def)
  have k: "k = nat (32 - (day + 1))" "1 \<le> day + 1" using Suc by simp_all
  have x: "month_start y m + (day + 1 - 1) = ?x + 1" by simp
  note next_day = Suc.hyps(1) [OF k, unfolded x until_wday_step(1) [OF wd]]
  show ?case
  proof (cases "day \<le> month_len y m \<and> \<not> (wday_of ?x = wd \<and> count + 1 = n)")
    case True
    then show ?thesis
      using next_day [of count] next_day [of "count + 1"] Suc.prems(2) until_wday_step(2) [OF wd, of ?x]
      unfolding step Let_def by (auto simp: algebra_simps)
  next
    case False
    then show ?thesis
      using Suc.prems(2) until_wday_range(1) [of wd ?x] until_wday_step(2) [OF wd, of ?x]
      unfolding step Let_def by auto
  qed
qed

definition since_wday :: "int \<Rightarrow> int \<Rightarrow> int" where
  "since_wday wd n = (wday_of n - wd) mod 7"

lemma wday_of_mod: "0 \<le> wd \<Longrightarrow> wd < 7 \<Longrightarrow> wday_of n = wd \<longleftrightarrow> 7 dvd (n + 4 - wd)"
  using mod_eq_dvd_iff [of "n + 4" 7 wd] by (simp add: wday_of_def)

lemma wday_ahead:
  assumes "0 \<le> wd" and "wd < 7"
  shows "wday_of (n + j) = wd \<longleftrightarrow> j mod 7 = until_wday wd n"
proof -
  have "until_wday wd n = (wd - (n + 4)) mod 7"
    by (simp add: until_wday_def wday_of_def mod_diff_right_eq)
  then show ?thesis
    using assms mod_eq_dvd_iff [of j 7 "wd - (n + 4)"] by (simp add: wday_of_mod algebra_simps)
qed

lemma wday_behind:
  assumes "0 \<le> wd" and "wd < 7"
  shows "wday_of (n - j) = wd \<longleftrightarrow> j mod 7 = since_wday wd n"
proof -
  have "since_wday wd n = (n + 4 - wd) mod 7"
    by (simp add: since_wday_def wday_of_def mod_diff_left_eq)
  then show ?thesis
    using assms mod_eq_dvd_iff [of "n + 4 - wd" 7 j] by (auto simp: wday_of_mod algebra_simps)
qed

lemma since_wday_range: "0 \<le> since_wday wd n" "since_wday wd n < 7"
  by (simp_all add: since_wday_def)

lemma since_wday_step:
  assumes "0 \<le> wd" and "wd < 7" and "wday_of n \<noteq> wd"
  shows "since_wday wd (n - 1) = since_wday wd n - 1" and "0 < since_wday wd n"
proof -
  have "since_wday wd n \<noteq> 0" using wday_behind [OF assms(1,2), of n 0] assms(3) by simp
  then show pos: "0 < since_wday wd n" using since_wday_range(1) [of wd n] by simp
  have "wday_of (n - since_wday wd n) = wd"
    using wday_behind [OF assms(1,2), of n "since_wday wd n"] since_wday_range [of wd n] by simp
  then have "wday_of (n - 1 - (since_wday wd n - 1)) = wd" by simp
  then have "(since_wday wd n - 1) mod 7 = since_wday wd (n - 1)"
    using wday_behind [OF assms(1,2)] by blast
  then show "since_wday wd (n - 1) = since_wday wd n - 1"
    using pos since_wday_range(2) [of wd n] by simp
qed

lemma last_weekday_closed:
  assumes l: "midnights l" and m: "valid_month m" and wd: "0 \<le> wd" "wd < 7"
  shows "since_wday wd (month_start y m + (d - 1)) < int fuel \<Longrightarrow>
    since_wday wd (month_start y m + (d - 1)) < d \<Longrightarrow> d \<le> month_len y m \<Longrightarrow>
    last_weekday fuel m wd (midnight l (month_start y m + (d - 1))) =
      Some (midnight l (month_start y m + (d - 1) - since_wday wd (month_start y m + (d - 1))))"
proof (induction fuel arbitrary: d)
  case 0
  then show ?case using since_wday_range(1) [of wd "month_start y m + (d - 1)"] by simp
next
  case (Suc fuel)
  let ?x = "month_start y m + (d - 1)"
  have "1 \<le> d" using Suc.prems(2) since_wday_range(1) [of wd ?x] by linarith
  then have month: "month_of ?x = m" using date_of_day(2) [OF m _ Suc.prems(3)] by simp
  show ?case
  proof (cases "wday_of ?x = wd")
    case True
    then have "since_wday wd ?x = 0" using wday_behind [OF wd, of ?x 0] by simp
    with True month show ?thesis by (simp add: date_midnight [OF l])
  next
    case False
    have x: "month_start y m + (d - 1 - 1) = ?x - 1" by simp
    have earlier: "?x - 1 - since_wday wd (?x - 1) = ?x - since_wday wd ?x"
      by (simp only: since_wday_step(1) [OF wd False])
    have "last_weekday fuel m wd (midnight l (?x - 1)) = Some (midnight l (?x - since_wday wd ?x))"
      by (rule Suc.IH [of "d - 1", unfolded x earlier]) (use Suc.prems since_wday_step [OF wd False] in linarith)+
    then show ?thesis
      using month False by (simp add: date_midnight [OF l] AddDate_midnight [OF l])
  qed
qed

text \<open>The occurrence found in the month of a day is that day exactly when the week matches.\<close>

lemma date_eq_iff: "year_of a = year_of b \<and> month_of a = month_of b \<and> mday_of a = mday_of b \<longleftrightarrow> a = b"
  by (metis day_of_date)

lemma div_mod_eq:
  fixes j u q :: int
  assumes "0 \<le> u" and "u < 7"
  shows "j = u + 7 * q \<longleftrightarrow> j mod 7 = u \<and> j div 7 = q"
proof
  assume "j mod 7 = u \<and> j div 7 = q"
  then show "j = u + 7 * q" using div_mult_mod_eq [of j 7] by simp
qed (use assms in simp)

lemma nth_weekday_matches:
  assumes "midnights l" and wd: "0 \<le> wd" "wd < 7" and "1 \<le> k" and "k \<le> 4"
  shows "(case nth_weekday (year_of n) (month_of n) k wd l 1 0 of
      None \<Rightarrow> False
    | Some occ \<Rightarrow> Year occ = year_of n \<and> Month occ = month_of n \<and> Day occ = mday_of n) \<longleftrightarrow>
    wday_of n = wd \<and> (mday_of n - 1) div 7 = int k - 1"
proof -
  define x where "x = month_start (year_of n) (month_of n)"
  define j where "j = mday_of n - 1"
  have n: "n = x + j" using day_of_date [of n] by (simp add: x_def j_def)
  define d where "d = 1 + until_wday wd x + 7 * (int k - 1)"
  have "d \<le> month_len (year_of n) (month_of n)"
    using until_wday_range(2) [of wd x] \<open>k \<le> 4\<close> month_len_bounds(1) [of "year_of n" "month_of n"]
    unfolding d_def right_diff_distrib by linarith
  then have "nth_weekday (year_of n) (month_of n) k wd l 1 0 = Some (midnight l (x + (d - 1)))"
    using nth_weekday_closed [OF assms(1) month_of_range wd, of 1 0 k "year_of n"] \<open>1 \<le> k\<close>
    by (simp add: d_def x_def Let_def)
  moreover have "j = until_wday wd x + 7 * (int k - 1) \<longleftrightarrow> j mod 7 = until_wday wd x \<and> j div 7 = int k - 1"
    using until_wday_range [of wd x] by (rule div_mod_eq)
  then have "j = d - 1 \<longleftrightarrow> j mod 7 = until_wday wd x \<and> j div 7 = int k - 1"
    unfolding d_def by (simp only: add.assoc add_diff_cancel_left')
  moreover have "wday_of n = wd \<longleftrightarrow> j mod 7 = until_wday wd x" "x + (d - 1) = n \<longleftrightarrow> j = d - 1"
    using wday_ahead [OF wd, of x j] n by auto
  ultimately show ?thesis
    by (simp add: date_midnight [OF assms(1)] date_eq_iff j_def [symmetric])
qed

lemma last_weekday_matches:
  assumes l: "midnights l" and wd: "0 \<le> wd" "wd < 7"
  shows "(case last_weekday 32 (month_of n) wd
        (AddDate (Date (year_of n) (month_of n + 1) 1 0 0 0 0 l) 0 0 (- 1)) of
      None \<Rightarrow> False
    | Some occ \<Rightarrow> Year occ = year_of n \<and> Month occ = month_of n \<and> Day occ = mday_of n) \<longleftrightarrow>
    wday_of n = wd \<and> month_of (n + 7) \<noteq> month_of n"
proof -
  define len where "len = month_len (year_of n) (month_of n)"
  define x where "x = month_start (year_of n) (month_of n) + (len - 1)"
  define j where "j = len - mday_of n"
  have n: "n = x - j" using day_of_date [of n] by (simp add: x_def j_def)
  have j: "0 \<le> j" using mday_of_range(2) [of n] by (simp add: j_def len_def)
  have "AddDate (Date (year_of n) (month_of n + 1) 1 0 0 0 0 l) 0 0 (- 1) = midnight l x"
    by (simp add: Date_month_start(2) [OF month_of_range] AddDate_midnight [OF l] x_def len_def add_diff_eq)
  moreover have "last_weekday 32 (month_of n) wd (midnight l x) = Some (midnight l (x - since_wday wd x))"
    unfolding x_def len_def
    using since_wday_range(2) [of wd x] month_len_bounds(1) [of "year_of n" "month_of n"]
    by (intro last_weekday_closed [OF l month_of_range wd]) (simp_all add: x_def len_def)
  moreover have "x - since_wday wd x = n \<longleftrightarrow> wday_of n = wd \<and> j < 7"
    using wday_behind [OF wd, of x j] since_wday_range [of wd x] j unfolding n by auto
  moreover have "j < 7 \<longleftrightarrow> month_of (n + 7) \<noteq> month_of n"
    using month_of_ahead [of 7 n] by (auto simp: j_def len_def)
  ultimately show ?thesis
    by (simp add: date_midnight [OF l] date_eq_iff)
qed

lemma nthWeekdayOfMonth_matches:
  assumes "midnights l" and "0 \<le> wd" and "wd < 7"
  shows "(case nthWeekdayOfMonth (year_of n) (month_of n) week wd l of
      None \<Rightarrow> False
    | Some occ \<Rightarrow> Year occ = year_of n \<and> Month occ = month_of n \<and> Day occ = mday_of n) \<longleftrightarrow>
    wday_of n = wd \<and> week_matches week n"
proof -
  have "WeekFirst \<noteq> WeekLast" "WeekSecond \<noteq> WeekLast" "WeekThird \<noteq> WeekLast" "WeekFourth \<noteq> WeekLast"
    "WeekSecond \<noteq> WeekFirst" "WeekThird \<noteq> WeekFirst" "WeekFourth \<noteq> WeekFirst" "WeekThird \<noteq> WeekSecond"
    "WeekFourth \<noteq> WeekSecond" "WeekFourth \<noteq> WeekThird"
    by (simp_all add: schedule_words runes_def)
  note distinct = this this [symmetric]
  consider "week = WeekLast" | "week = WeekFirst" | "week = WeekSecond" | "week = WeekThird" | "week = WeekFourth"
    | "week \<notin> {WeekFirst, WeekSecond, WeekThird, WeekFourth, WeekLast}" by blast
  then show ?thesis
  proof cases
    case 1
    then show ?thesis
      using last_weekday_matches [OF assms, of n] by (simp add: nthWeekdayOfMonth_def week_matches_def)
  qed (use nth_weekday_matches [OF assms, of 1 n] nth_weekday_matches [OF assms, of 2 n]
      nth_weekday_matches [OF assms, of 3 n] nth_weekday_matches [OF assms, of 4 n] distinct
      in \<open>simp_all add: nthWeekdayOfMonth_def week_matches_def del: One_nat_def\<close>)
qed

lemma month_end_iff: "mday_of (n + 1) = 1 \<longleftrightarrow> mday_of n = month_len (year_of n) (month_of n)"
proof (cases "mday_of n = month_len (year_of n) (month_of n)")
  case True
  then have "n + 1 = month_start (year_of n) (month_of n) + month_len (year_of n) (month_of n) + (1 - 1)"
    using day_of_date [of n] by simp
  then have "mday_of (n + 1) = 1"
    using next_month_date(2) [OF month_of_range, of 1 "year_of n" n] by simp
  with True show ?thesis by simp
next
  case False
  then have len: "mday_of n + 1 \<le> month_len (year_of n) (month_of n)"
    using mday_of_range(2) [of n] by simp
  have "n + 1 = month_start (year_of n) (month_of n) + (mday_of n + 1 - 1)"
    using day_of_date [of n] by simp
  then have "mday_of (n + 1) = mday_of n + 1"
    using date_of_day(3) [OF month_of_range _ len] mday_of_range(1) [of n] by simp
  with False mday_of_range(1) [of n] show ?thesis by simp
qed

lemma parseWeekdayName_range: "parseWeekdayName lower s = Some wd \<Longrightarrow> 0 \<le> wd \<and> wd < 7"
  by (auto simp: parseWeekdayName_def Let_def split: if_splits)

lemma monthday_matches_iff:
  assumes "mday_of n \<le> lastDay" and "lastDay = month_len (year_of n) (month_of n)"
  shows "monthday_matches lastDay (mday_of n) md \<longleftrightarrow>
    (if md_Last md then mday_of (n + 1) = 1 else mday_of n = md_Day md)"
  using assms by (auto simp: monthday_matches_def month_end_iff)

lemma dateMatchesWindow_iff:
  assumes l: "midnights (t_loc day)"
  shows "dateMatchesWindow lower w day \<longleftrightarrow> recurs lower w (day_no day)"
proof -
  define n where "n = day_no day"
  let ?l = "t_loc day"
  have day: "Date (Year day) (Month day) (Day day) 0 0 0 0 ?l = midnight ?l n"
    unfolding n_def by (rule Date_today)
  have "Day (AddDate (Date (year_of n) (month_of n + 1) 1 0 0 0 0 ?l) 0 0 (- 1)) =
      month_len (year_of n) (month_of n)"
    using date_of_day(3) [OF month_of_range, of "month_len (year_of n) (month_of n)" "year_of n" n]
      month_len_bounds(1) [of "year_of n" "month_of n"]
    by (simp add: Date_month_start(2) [OF month_of_range] AddDate_midnight [OF l] date_midnight [OF l] add_diff_eq)
  then have by_day: "list_ex (monthday_matches
        (Day (AddDate (Date (year_of n) (month_of n + 1) 1 0 0 0 0 ?l) 0 0 (- 1))) (mday_of n)) mds \<longleftrightarrow>
      list_ex (\<lambda>md. if md_Last md then mday_of (n + 1) = 1 else mday_of n = md_Day md) mds" for mds
    using monthday_matches_iff [OF mday_of_range(2) refl, of n] by (simp add: list_ex_iff)
  have by_weekday: "(case parseWeekdayName lower (w_Weekday w) of
      None \<Rightarrow> False
    | Some wd \<Rightarrow>
        (case nthWeekdayOfMonth (year_of n) (month_of n) (w_Week w) wd ?l of
           None \<Rightarrow> False
         | Some occ \<Rightarrow> Year occ = year_of n \<and> Month occ = month_of n \<and> Day occ = mday_of n)) \<longleftrightarrow>
      parseWeekdayName lower (w_Weekday w) = Some (wday_of n) \<and> week_matches (w_Week w) n"
    using nthWeekdayOfMonth_matches [OF l] parseWeekdayName_range [of lower "w_Weekday w"]
    by (cases "parseWeekdayName lower (w_Weekday w)") auto
  show ?thesis
    unfolding dateMatchesWindow_def day Let_def date_midnight [OF l] t_loc_midnight by_day by_weekday
      recurs_def n_def [symmetric] monthAllowed_def
    by (auto simp: recurrence_distinct [symmetric] monthly_by_distinct [symmetric])
qed

section \<open>Windows as intervals\<close>

text \<open>The minutes of a day, and the local minute an instant falls in.\<close>

definition wall_minute :: "Time \<Rightarrow> int" where
  "wall_minute t = wall t div 60"

text \<open>
  A window that ends no later in the day than it starts reaches into the next day; both ends belong to it.
\<close>

definition in_window :: "(rune \<Rightarrow> rune) \<Rightarrow> Window \<Rightarrow> int \<Rightarrow> int \<Rightarrow> bool" where
  "in_window lower w n minute \<longleftrightarrow>
     (case (hhmmToMinutes (w_Start w), hhmmToMinutes (w_End w)) of
        (Some a, Some b) \<Rightarrow>
          recurs lower w n \<and> n * 1440 + a \<le> minute \<and> minute \<le> n * 1440 + b + (if b \<le> a then 1440 else 0)
      | _ \<Rightarrow> False)"

lemma minute_of_day: "wall_minute t = day_no t * 1440 + minutesOfDay t"
proof -
  have minutes: "(60 * x + y) div 60 = x + y div 60" for x y :: int
    by simp
  have hours: "a div 60 = 60 * (a div 3600) + a mod 3600 div 60" for a :: int
    using div_mult_mod_eq [of a 3600] minutes [of "60 * (a div 3600)" "a mod 3600"] by (simp add: mult.commute)
  define W where "W = wall t"
  have "W div 60 = 1440 * (W div 86400) + W mod 86400 div 60"
    using div_mult_mod_eq [of W 86400] minutes [of "1440 * (W div 86400)" "W mod 86400"] by (simp add: mult.commute)
  also have "W mod 86400 div 60 = 60 * (W mod 86400 div 3600) + W mod 3600 div 60"
    by (subst hours) (simp add: mod_mod_cancel)
  finally show ?thesis
    by (simp add: wall_minute_def day_no_def minutesOfDay_def Hour_def Minute_def W_def)
qed

lemma minutesOfDay_range: "0 \<le> minutesOfDay t" "minutesOfDay t < 1440"
proof -
  have "0 \<le> wall t mod 86400 div 3600" "wall t mod 86400 div 3600 \<le> 86399 div 3600"
    "0 \<le> wall t mod 3600 div 60" "wall t mod 3600 div 60 \<le> 3599 div 60"
    using pos_mod_bound [of 86400 "wall t"] pos_mod_bound [of 3600 "wall t"]
    by (simp_all add: pos_imp_zdiv_nonneg_iff zdiv_mono1 del: div_pos_pos_trivial)
  then show "0 \<le> minutesOfDay t" "minutesOfDay t < 1440"
    by (simp_all add: minutesOfDay_def Hour_def Minute_def)
qed

lemma hhmmToMinutes_range: "hhmmToMinutes s = Some m \<Longrightarrow> 0 \<le> m \<and> m < 1440"
  by (auto simp: hhmmToMinutes_def parseHHMM_def Let_def split: if_splits option.splits)

lemma interval_days:
  fixes a b m n d :: int
  assumes "0 \<le> a" "a < 1440" "0 \<le> b" "b < 1440" "0 \<le> m" "m < 1440"
  shows "n * 1440 + a \<le> d * 1440 + m \<and> d * 1440 + m \<le> n * 1440 + b + (if b \<le> a then 1440 else 0) \<longleftrightarrow>
    n = d \<and> a \<le> m \<and> (a < b \<longrightarrow> m \<le> b) \<or> n = d - 1 \<and> b \<le> a \<and> m \<le> b"
proof -
  consider "n < d - 1" | "n = d - 1" | "n = d" | "d < n" by linarith
  then show ?thesis using assms by cases auto
qed

lemma windowAllowsInstant_iff:
  assumes "midnights (t_loc t)"
  shows "windowAllowsInstant lower w t \<longleftrightarrow> (\<exists>n. in_window lower w n (wall_minute t))"
proof (cases "\<exists>a b. hhmmToMinutes (w_Start w) = Some a \<and> hhmmToMinutes (w_End w) = Some b")
  case True
  then obtain a b where ab: "hhmmToMinutes (w_Start w) = Some a" "hhmmToMinutes (w_End w) = Some b"
    by blast
  define d where "d = day_no t"
  have range: "0 \<le> a" "a < 1440" "0 \<le> b" "b < 1440" "0 \<le> minutesOfDay t" "minutesOfDay t < 1440"
    using hhmmToMinutes_range [OF ab(1)] hhmmToMinutes_range [OF ab(2)] minutesOfDay_range by simp_all
  have "dateMatchesWindow lower w (midnight (t_loc t) n) \<longleftrightarrow> recurs lower w n" for n
    using dateMatchesWindow_iff [of "midnight (t_loc t) n"] assms by (simp add: day_no_midnight)
  then have "windowAllowsInstant lower w t \<longleftrightarrow>
      (if b \<le> a then recurs lower w d \<and> minutesOfDay t \<ge> a \<or> recurs lower w (d - 1) \<and> minutesOfDay t \<le> b
       else recurs lower w d \<and> minutesOfDay t \<ge> a \<and> minutesOfDay t \<le> b)"
    by (simp add: windowAllowsInstant_def ab Let_def Date_today AddDate_midnight [OF assms] timeInWindowMinutes_def
        d_def)
  moreover have "in_window lower w n (wall_minute t) \<longleftrightarrow>
      recurs lower w n \<and> (n = d \<and> a \<le> minutesOfDay t \<and> (a < b \<longrightarrow> minutesOfDay t \<le> b) \<or>
        n = d - 1 \<and> b \<le> a \<and> minutesOfDay t \<le> b)" for n
    using interval_days [OF range, of n d] by (simp add: in_window_def ab minute_of_day d_def)
  ultimately show ?thesis by auto
qed (auto simp: windowAllowsInstant_def in_window_def split: option.splits)

lemma wall_In [simp]: "wall (In t l) = t_unix t + offset_at l (t_unix t)"
  by (simp add: wall_def In_def)

lemma t_loc_In [simp]: "t_loc (In t l) = l"
  by (simp add: In_def)

lemma Allows_iff:
  assumes "s_Windows s \<noteq> []" and "LoadLocation (trim_space (s_Timezone s)) = Some l" and "midnights l"
  shows "Allows LoadLocation lower (Some s) now =
    Inr (\<exists>w\<in>set (s_Windows s). \<exists>n. in_window lower w n (wall_minute (In now l)))"
  using assms windowAllowsInstant_iff [of "In now l" lower] by (simp add: Allows_def list_ex_iff)

section \<open>Decisions made from the windows\<close>

definition add_minutes :: "Time \<Rightarrow> nat \<Rightarrow> Time" where
  "add_minutes t k = t\<lparr>t_unix := t_unix t + 60 * int k\<rparr>"

lemma add_minutes_0 [simp]: "add_minutes t 0 = t"
  by (simp add: add_minutes_def)

lemma add_minutes_Suc: "add_minutes (AddMinute t) k = add_minutes t (Suc k)"
  by (simp add: add_minutes_def AddMinute_def algebra_simps)

lemma After_add_minutes: "After t till \<Longrightarrow> After (add_minutes t k) till"
  by (auto simp: After_def Before_def add_minutes_def)

lemma all_le_Suc: "(\<forall>k\<le>Suc n. P k) \<longleftrightarrow> P 0 \<and> (\<forall>k\<le>n. P (Suc k))"
  by (metis Suc_le_mono le0 not0_implies_Suc)

lemma continuous_loop_iff:
  assumes total: "\<And>t. Allows LoadLocation lower sched t = Inr (open_at t)"
  shows "steps \<le> maxSteps \<Longrightarrow> continuous_loop LoadLocation lower sched till t steps =
    Inr (\<forall>k\<le>maxSteps - steps. After (add_minutes t k) till \<or> open_at (add_minutes t k))"
proof (induction "maxSteps - steps" arbitrary: t steps)
  case 0
  then show ?case
    by (subst continuous_loop.simps) (simp add: total)
next
  case (Suc n)
  then have n: "n = maxSteps - (steps + 1)" "steps + 1 \<le> maxSteps" "maxSteps - steps = Suc (maxSteps - (steps + 1))"
    by simp_all
  show ?case
    using Suc.hyps(1) [OF n(1,2), of "AddMinute t"] n(2) After_add_minutes [of t till]
    unfolding n(3) all_le_Suc
    by (subst continuous_loop.simps) (auto simp: total add_minutes_Suc)
qed

text \<open>The once-per-opening rule: the minutes from the last firing on, the first eight days of them.\<close>

lemma DueOncePerOpening_eq:
  assumes "\<And>t. Allows LoadLocation lower sched t = Inr (open_at t)"
  shows "DueOncePerOpening LoadLocation lower sched now lastFire =
    Inr (open_at now \<and> (IsZero lastFire \<or> Before now lastFire \<or>
      (\<exists>k\<le>maxSteps. \<not> After (add_minutes (TruncateMinute (UTC lastFire)) k) now \<and>
        \<not> open_at (add_minutes (TruncateMinute (UTC lastFire)) k))))"
  using continuous_loop_iff [of LoadLocation lower sched open_at 0 now "TruncateMinute (UTC lastFire)", OF assms]
  by (simp add: DueOncePerOpening_def continuousOpen_def assms)

subsection \<open>The earliest opening\<close>

definition earliest :: "Time \<Rightarrow> Time option list \<Rightarrow> Time option \<Rightarrow> bool" where
  "earliest local cs r \<longleftrightarrow>
     (\<forall>b. r = Some b \<longrightarrow> Some b \<in> set cs \<and> \<not> Before b local) \<and>
     (\<forall>c. Some c \<in> set cs \<longrightarrow> \<not> Before c local \<longrightarrow> (\<exists>b. r = Some b \<and> \<not> Before c b))"

lemma Before_trans: "\<not> Before b a \<Longrightarrow> \<not> Before c b \<Longrightarrow> \<not> Before c a"
  by (auto simp: Before_def)

lemma Before_irrefl [simp]: "\<not> Before t t"
  by (simp add: Before_def)

lemma Before_less: "Before a b \<Longrightarrow> \<not> Before b a"
  by (auto simp: Before_def)

lemma Before_In [simp]: "Before a (In b l) \<longleftrightarrow> Before a b" "Before (UTC a) b \<longleftrightarrow> Before a b"
  "Before a (UTC b) \<longleftrightarrow> Before a b"
  by (simp_all add: Before_def In_def UTC_def)

lemma earliest_step:
  assumes "earliest local cs r"
  shows "earliest local (cs @ [c]) (better_open local r c)"
proof (cases c)
  case None
  with assms show ?thesis by (auto simp: earliest_def better_open_def)
next
  case (Some x)
  show ?thesis
  proof (cases r)
    case None
    with assms Some show ?thesis by (auto simp: earliest_def better_open_def)
  next
    case (Some b)
    with assms \<open>c = Some x\<close> show ?thesis
      using Before_trans [of b x] Before_less [of x b] unfolding earliest_def better_open_def by force
  qed
qed

lemma earliest_fold:
  "earliest local cs r \<Longrightarrow> earliest local (cs @ ds) (fold (\<lambda>c best. better_open local best c) ds r)"
proof (induction ds arbitrary: cs r)
  case (Cons d ds)
  then show ?case using Cons.IH [OF earliest_step [OF Cons.prems, of d]] by simp
qed simp

lemma scan_days:
  "fold (\<lambda>i. scan_day lower ws local (day i)) is best =
    fold (\<lambda>c best. better_open local best c) (concat (map (\<lambda>i. map (\<lambda>w. windowOpenOnDay lower w (day i)) ws) is)) best"
  by (induction "is" arbitrary: best) (simp_all add: scan_day_def fold_map comp_def)

subsection \<open>A zone with one offset\<close>

definition fixed_zone :: "int \<Rightarrow> location" where
  "fixed_zone off = (\<lambda>_. (off, min_int64, max_int64))"

lemma utc_fixed_zone: "utc = fixed_zone 0"
  by (simp add: utc_def fixed_zone_def)

lemma zone_unix_fixed [simp]: "zone_unix (fixed_zone off) s = s - off"
  by (simp add: zone_unix_def fixed_zone_def offset_at_def Let_def)

lemma offset_at_fixed [simp]: "offset_at (fixed_zone off) s = off"
  by (simp add: offset_at_def fixed_zone_def)

lemma midnights_fixed: "midnights (fixed_zone off)"
  by (simp add: midnights_def)

definition opens_at :: "int \<Rightarrow> int \<Rightarrow> Time" where
  "opens_at off minute = \<lparr>t_unix = minute * 60 - off, t_nsec = 0, t_loc = fixed_zone off\<rparr>"

lemma windowOpenOnDay_fixed:
  assumes "hhmmToMinutes (w_Start w) = Some a"
  shows "windowOpenOnDay lower w (midnight (fixed_zone off) n) =
    (if recurs lower w n then Some (opens_at off (n * 1440 + a)) else None)"
proof -
  obtain h m where hm: "parseHHMM (w_Start w) = Some (h, m)" "a = h * 60 + m"
    using assms by (auto simp: hhmmToMinutes_def split: option.splits)
  have "dateMatchesWindow lower w (midnight (fixed_zone off) n) \<longleftrightarrow> recurs lower w n"
    using dateMatchesWindow_iff [of "midnight (fixed_zone off) n"] midnights_fixed by (simp add: day_no_midnight)
  moreover have "(month_of n - 1) div 12 = 0" "(month_of n - 1) mod 12 = month_of n - 1"
    using month_of_range [of n] by (simp_all add: valid_month_def)
  then have "Date (year_of n) (month_of n) (mday_of n) h m 0 0 (fixed_zone off) = opens_at off (n * 1440 + a)"
    using day_of_date [of n] by (simp add: Date_def Let_def opens_at_def hm(2))
  ultimately show ?thesis
    by (simp add: windowOpenOnDay_def hm(1) date_midnight [OF midnights_fixed])
qed

lemma wall_minute_fixed: "wall_minute (In t (fixed_zone off)) = (t_unix t + off) div 60"
  by (simp add: wall_minute_def)

lemma opens_at_Before:
  assumes "0 \<le> t_nsec t"
  shows "\<not> Before t (opens_at off m) \<longleftrightarrow> m \<le> wall_minute (In t (fixed_zone off))"
proof -
  have "m * 60 \<le> t_unix t + off \<longleftrightarrow> m \<le> (t_unix t + off) div 60"
    using floor_bounds [of 60 "t_unix t + off"] by linarith
  with assms show ?thesis by (auto simp: Before_def opens_at_def wall_minute_fixed)
qed

lemma wall_minute_mono:
  "\<not> Before u t \<Longrightarrow> wall_minute (In t (fixed_zone off)) \<le> wall_minute (In u (fixed_zone off))"
  by (auto simp: wall_minute_fixed Before_def intro: zdiv_mono1)

lemma wall_minute_opens_at: "wall_minute (In (opens_at off m) (fixed_zone off)) = m"
  by (simp add: wall_minute_fixed opens_at_def)

text \<open>What lies in a window lies after its opening, which is on the day itself or earlier.\<close>

lemma window_times:
  assumes "window_ok w"
  obtains a b where "hhmmToMinutes (w_Start w) = Some a" and "hhmmToMinutes (w_End w) = Some b" and "0 \<le> b"
  using assms hhmmToMinutes_range unfolding window_ok_def by blast

lemma in_window_opening:
  assumes "window_ok w" and "in_window lower w n m"
  obtains a where "hhmmToMinutes (w_Start w) = Some a" and "n * 1440 + a \<le> m" and "recurs lower w n"
    and "\<And>k. n * 1440 + a \<le> k \<Longrightarrow> k \<le> m \<Longrightarrow> in_window lower w n k"
  using assms by (auto simp: in_window_def window_ok_def)

lemma in_window_start:
  assumes "window_ok w" and "recurs lower w n" and "hhmmToMinutes (w_Start w) = Some a"
  shows "in_window lower w n (n * 1440 + a)"
proof -
  obtain b where "hhmmToMinutes (w_End w) = Some b" "0 \<le> b"
    using assms(1) by (rule window_times)
  with assms(2,3) hhmmToMinutes_range [OF assms(3)] show ?thesis by (simp add: in_window_def)
qed

definition candidates :: "(rune \<Rightarrow> rune) \<Rightarrow> Window list \<Rightarrow> int \<Rightarrow> int \<Rightarrow> Time option list" where
  "candidates lower ws off d =
     concat (map (\<lambda>i. map (\<lambda>w. windowOpenOnDay lower w (midnight (fixed_zone off) (d + int i))) ws) [0..<scanDays + 1])"

lemma candidates_iff:
  assumes "list_all window_ok ws"
  shows "Some t \<in> set (candidates lower ws off d) \<longleftrightarrow>
    (\<exists>w\<in>set ws. \<exists>n a. d \<le> n \<and> n \<le> d + 400 \<and> hhmmToMinutes (w_Start w) = Some a \<and> recurs lower w n \<and>
      t = opens_at off (n * 1440 + a))"
proof -
  let ?opens = "\<lambda>w n. \<exists>a. hhmmToMinutes (w_Start w) = Some a \<and> recurs lower w n \<and> t = opens_at off (n * 1440 + a)"
  have opens: "Some t = windowOpenOnDay lower w (midnight (fixed_zone off) n) \<longleftrightarrow>
      (\<exists>a. hhmmToMinutes (w_Start w) = Some a \<and> recurs lower w n \<and> t = opens_at off (n * 1440 + a))"
    if "w \<in> set ws" for w n
  proof -
    have "window_ok w" using that assms by (simp add: list_all_iff)
    then obtain a where "hhmmToMinutes (w_Start w) = Some a" by (rule window_times)
    then show ?thesis by (auto simp: windowOpenOnDay_fixed)
  qed
  have range: "(\<exists>i<scanDays + 1. P (d + int i)) \<longleftrightarrow> (\<exists>n. d \<le> n \<and> n \<le> d + 400 \<and> P n)" for P
  proof
    assume "\<exists>i<scanDays + 1. P (d + int i)"
    then obtain i where "i < 401" "P (d + int i)" by (auto simp: scanDays_def)
    then show "\<exists>n. d \<le> n \<and> n \<le> d + 400 \<and> P n" by (intro exI [of _ "d + int i"]) simp
  next
    assume "\<exists>n. d \<le> n \<and> n \<le> d + 400 \<and> P n"
    then obtain n where "d \<le> n" "n \<le> d + 400" "P n" by blast
    then have "nat (n - d) < scanDays + 1" "P (d + int (nat (n - d)))" by (simp_all add: scanDays_def)
    then show "\<exists>i<scanDays + 1. P (d + int i)" by blast
  qed
  have "Some t \<in> set (candidates lower ws off d) \<longleftrightarrow>
      (\<exists>i<scanDays + 1. \<exists>w\<in>set ws. Some t = windowOpenOnDay lower w (midnight (fixed_zone off) (d + int i)))"
    by (auto simp: candidates_def simp del: upt_Suc)
  also have "\<dots> \<longleftrightarrow> (\<exists>i<scanDays + 1. \<exists>w\<in>set ws. ?opens w (d + int i))"
    by (simp only: opens cong: bex_cong)
  also have "\<dots> \<longleftrightarrow> (\<exists>n. d \<le> n \<and> n \<le> d + 400 \<and> (\<exists>w\<in>set ws. ?opens w n))"
    by (rule range)
  finally show ?thesis by blast
qed

lemma NextWindowStart_earliest:
  assumes "s_Windows s \<noteq> []" and "LoadLocation (trim_space (s_Timezone s)) = Some (fixed_zone off)"
    and "Allows LoadLocation lower (Some s) now = Inr False"
  obtains r where "NextWindowStart LoadLocation lower (Some s) now = Inr (map_option UTC r)"
    and "earliest (In now (fixed_zone off)) (candidates lower (s_Windows s) off (day_no (In now (fixed_zone off)))) r"
proof -
  let ?l = "fixed_zone off"
  let ?local = "In now ?l"
  let ?r = "fold (\<lambda>c best. better_open ?local best c) (candidates lower (s_Windows s) off (day_no ?local)) None"
  have "Date (Year ?local) (Month ?local) (Day ?local) 0 0 0 0 ?l = midnight ?l (day_no ?local)"
    by (rule Date_today)
  then have "NextWindowStart LoadLocation lower (Some s) now = Inr (map_option UTC ?r)"
    using assms by (simp add: NextWindowStart_def Let_def scan_days AddDate_midnight [OF midnights_fixed] candidates_def
        del: upt_Suc)
  moreover have "earliest ?local [] None" by (simp add: earliest_def)
  then have "earliest ?local ([] @ candidates lower (s_Windows s) off (day_no ?local)) ?r" by (rule earliest_fold)
  ultimately show ?thesis using that by simp
qed

lemma NextWindowStart_sound:
  assumes ws: "s_Windows s \<noteq> []" "list_all window_ok (s_Windows s)"
    and loc: "LoadLocation (trim_space (s_Timezone s)) = Some (fixed_zone off)"
    and closed: "Allows LoadLocation lower (Some s) now = Inr False"
    and ne: "NextWindowStart LoadLocation lower (Some s) now = Inr (Some t)"
  shows "\<not> Before t now" and "Allows LoadLocation lower (Some s) t = Inr True"
proof -
  let ?l = "fixed_zone off"
  obtain r where "NextWindowStart LoadLocation lower (Some s) now = Inr (map_option UTC r)"
    and r: "earliest (In now ?l) (candidates lower (s_Windows s) off (day_no (In now ?l))) r"
    using NextWindowStart_earliest [OF ws(1) loc closed] by blast
  with ne obtain b where b: "r = Some b" "t = UTC b" by auto
  with r have "\<not> Before b (In now ?l)" "Some b \<in> set (candidates lower (s_Windows s) off (day_no (In now ?l)))"
    by (simp_all add: earliest_def)
  then show "\<not> Before t now"
    by (simp add: b(2))
  obtain w n a where w: "w \<in> set (s_Windows s)" and a: "hhmmToMinutes (w_Start w) = Some a"
    and n: "recurs lower w n" and o: "b = opens_at off (n * 1440 + a)"
    using candidates_iff [OF ws(2)] \<open>Some b \<in> _\<close> by blast
  have "wall_minute (In t ?l) = n * 1440 + a"
    using wall_minute_opens_at [of off "n * 1440 + a"] by (simp add: b(2) o wall_minute_fixed UTC_def In_def)
  moreover have "in_window lower w n (n * 1440 + a)"
    using w ws(2) n a by (intro in_window_start) (auto simp: list_all_iff)
  ultimately show "Allows LoadLocation lower (Some s) t = Inr True"
    using w by (auto simp: Allows_iff [of s LoadLocation "fixed_zone off", OF ws(1) loc midnights_fixed])
qed

lemma NextWindowStart_complete:
  assumes ws: "s_Windows s \<noteq> []" "list_all window_ok (s_Windows s)"
    and loc: "LoadLocation (trim_space (s_Timezone s)) = Some (fixed_zone off)"
    and closed: "Allows LoadLocation lower (Some s) now = Inr False"
    and u: "\<not> Before u now" "0 \<le> t_nsec now" "0 \<le> t_nsec u" "Allows LoadLocation lower (Some s) u = Inr True"
      "day_no (In u (fixed_zone off)) \<le> day_no (In now (fixed_zone off)) + 400"
  obtains t where "NextWindowStart LoadLocation lower (Some s) now = Inr (Some t)" and "\<not> Before u t"
proof -
  let ?l = "fixed_zone off" and ?m = "\<lambda>t. wall_minute (In t (fixed_zone off))"
  obtain r where nws: "NextWindowStart LoadLocation lower (Some s) now = Inr (map_option UTC r)"
    and r: "earliest (In now ?l) (candidates lower (s_Windows s) off (day_no (In now ?l))) r"
    using NextWindowStart_earliest [OF ws(1) loc closed] by blast
  obtain w n where w: "w \<in> set (s_Windows s)" and n: "in_window lower w n (?m u)"
    using u(4) by (auto simp: Allows_iff [of s LoadLocation "fixed_zone off", OF ws(1) loc midnights_fixed])
  have "window_ok w" using w ws(2) by (simp add: list_all_iff)
  then obtain a where a: "hhmmToMinutes (w_Start w) = Some a" and le: "n * 1440 + a \<le> ?m u"
    and rec: "recurs lower w n" and within: "\<And>k. n * 1440 + a \<le> k \<Longrightarrow> k \<le> ?m u \<Longrightarrow> in_window lower w n k"
    using in_window_opening [OF _ n] by blast
  have "\<not> in_window lower w n (?m now)"
    using closed w by (auto simp: Allows_iff [of s LoadLocation "fixed_zone off", OF ws(1) loc midnights_fixed])
  then have gt: "?m now < n * 1440 + a"
    using within [of "?m now"] wall_minute_mono [OF u(1), of off] by linarith
  have "day_no (In now ?l) \<le> n" "n \<le> day_no (In u ?l)"
    using gt le hhmmToMinutes_range [OF a] minutesOfDay_range [of "In now ?l"] minutesOfDay_range [of "In u ?l"]
    unfolding minute_of_day by linarith+
  then have "Some (opens_at off (n * 1440 + a)) \<in> set (candidates lower (s_Windows s) off (day_no (In now ?l)))"
    using w a rec u(5) unfolding candidates_iff [OF ws(2)] by force
  moreover have "\<not> Before (opens_at off (n * 1440 + a)) (In now ?l)"
    using gt opens_at_Before [OF u(2), of off "n * 1440 + a"] Before_less [of now] by force
  ultimately obtain b where b: "r = Some b" "\<not> Before (opens_at off (n * 1440 + a)) b"
    using r unfolding earliest_def by blast
  have "\<not> Before u b"
    using Before_trans [OF b(2)] opens_at_Before [OF u(3)] le by blast
  then show ?thesis
    using that [of "UTC b"] nws b(1) by simp
qed

section \<open>The properties of schedules\<close>


text \<open>
  C39. An action that runs once per opening is due exactly when the schedule is open and the action has never run,
  the clock went back, or some minute since the one it last ran in was closed; only the first eight days of
  minutes are looked at. It never ends in an error.
\<close>

theorem DueOncePerOpening_gap:
  assumes "s_Windows s \<noteq> []" and "LoadLocation (trim_space (s_Timezone s)) = Some l"
  shows "(DueOncePerOpening LoadLocation lower (Some s) now lastFire = Inr True \<longleftrightarrow>
      Allows LoadLocation lower (Some s) now = Inr True \<and>
      (IsZero lastFire \<or> Before now lastFire \<or>
       (\<exists>k\<le>24 * 60 * 8. \<not> After (add_minutes (TruncateMinute (UTC lastFire)) k) now \<and>
          Allows LoadLocation lower (Some s) (add_minutes (TruncateMinute (UTC lastFire)) k) = Inr False))) \<and>
    \<not> isl (DueOncePerOpening LoadLocation lower (Some s) now lastFire)"
proof -
  define open_at where "open_at t = list_ex (\<lambda>w. windowAllowsInstant lower w (In t l)) (s_Windows s)" for t
  have total: "Allows LoadLocation lower (Some s) t = Inr (open_at t)" for t
    using assms by (simp add: Allows_def open_at_def)
  show ?thesis
    unfolding DueOncePerOpening_eq [of LoadLocation lower "Some s" open_at, OF total] total maxSteps_def by simp
qed


section \<open>Examples\<close>

definition night_window :: Window where
  "night_window =
     \<lparr>w_Recurrence = runes '' Weekly'', w_Days = [runes ''Mon'', runes ''mon ''], w_MonthlyBy = [], w_Week = [],
      w_Weekday = [], w_Monthdays = [], w_Months = [], w_Start = runes ''22:00'', w_End = runes ''02:00''\<rparr>"

definition monday_night :: Window where
  "monday_night = night_window\<lparr>w_Recurrence := runes ''weekly'', w_Days := [runes ''mon'']\<rparr>"

definition nightly :: "Window \<Rightarrow> Schedule" where
  "nightly w = \<lparr>s_Timezone = runes ''UTC'', s_Windows = [w]\<rparr>"

definition only_utc :: "rune list \<Rightarrow> location option" where
  "only_utc name = (if name = runes ''UTC'' then Some (fixed_zone 0) else None)"

definition instant :: "int \<Rightarrow> Time" where
  "instant s = \<lparr>t_unix = s, t_nsec = 0, t_loc = utc\<rparr>"

lemma lower_ok_id: "lower_ok (\<lambda>r. r)"
  by (simp add: lower_ok_def lower_rune_def)

lemma night_times: "hhmmToMinutes (runes ''22:00'') = Some 1320" "hhmmToMinutes (runes ''02:00'') = Some 120"
proof -
  have "split_runes 58 (trim_space (runes ''22:00'')) = [runes ''22'', runes ''00'']"
    "split_runes 58 (trim_space (runes ''02:00'')) = [runes ''02'', runes ''00'']"
    by (simp_all add: runes_def trim_space_def IsSpace_def)
  moreover have "ascii (runes ''22'') = Some ''22''" "ascii (runes ''02'') = Some ''02''" "ascii (runes ''00'') = Some ''00''"
    by (simp_all add: ascii_runes)
  moreover have "Atoi ''22'' = Some 22" "Atoi ''02'' = Some 2" "Atoi ''00'' = Some 0"
    by code_simp+
  ultimately show "hhmmToMinutes (runes ''22:00'') = Some 1320" "hhmmToMinutes (runes ''02:00'') = Some 120"
    by (simp_all add: hhmmToMinutes_def parseHHMM_def atoi_def)
qed

lemma Normalize_night: "Normalize only_utc (\<lambda>r. r) (Some (nightly night_window)) = Inr (Some (nightly monday_night))"
proof -
  have "clean (\<lambda>r. r) (runes '' Weekly'') = runes ''weekly''" "clean (\<lambda>r. r) (runes ''Mon'') = runes ''mon''"
    "clean (\<lambda>r. r) (runes ''mon '') = runes ''mon''" "clean (\<lambda>r. r) (runes ''mon'') = runes ''mon''"
    "clean (\<lambda>r. r) [] = []" "trim_space (runes ''UTC'') = runes ''UTC''"
    by (simp_all add: clean_def ToLower_def trim_space_def IsSpace_def runes_def)
  then show ?thesis
    by (simp add: Normalize_def nightly_def night_window_def monday_night_def only_utc_def Let_def NormalizeWindow_def
        night_times norm_day_def parseWeekdayName_def check_recurrence_def schedule_words)
qed

theorem Normalize_type_witness:
  "list_all window_ok (s_Windows (nightly monday_night)) \<and>
    Normalize only_utc (\<lambda>r. r) (Some (nightly monday_night)) = Inr (Some (nightly monday_night))"
  using Normalize_type [OF lower_ok_id Normalize_night] by simp

lemma nightly_facts:
  "s_Windows (nightly w) \<noteq> []"
  "only_utc (trim_space (s_Timezone (nightly w))) = Some (fixed_zone 0)"
  by (simp_all add: nightly_def only_utc_def trim_space_def IsSpace_def runes_def)

lemma trim_clean_mon: "clean (\<lambda>r. r) (runes ''mon'') = runes ''mon''"
  by (simp add: clean_def ToLower_def trim_space_def IsSpace_def runes_def)

text \<open>1 January 1970 was a Thursday, the fifth a Monday.\<close>

lemma dates_1970: "month_of 0 = 1" "month_of (- 1) = 12" "month_of 4 = 1" "wday_of 0 = 4" "wday_of (- 1) = 3" "wday_of 4 = 1"
  by code_simp+

lemma recurs_night: "recurs lower monday_night n \<longleftrightarrow> wday_of n = 1"
  using wday_of_range [of n]
  by (auto simp: recurs_def monday_night_def night_window_def schedule_words weekdayName_def split: if_splits)

lemma in_window_night:
  "in_window lower monday_night n k \<longleftrightarrow> wday_of n = 1 \<and> n * 1440 + 1320 \<le> k \<and> k \<le> n * 1440 + 1560"
proof -
  have "w_Start monday_night = runes ''22:00''" "w_End monday_night = runes ''02:00''"
    by (simp_all add: monday_night_def night_window_def)
  then show ?thesis by (auto simp: in_window_def recurs_night night_times)
qed

lemma Allows_night:
  "Allows only_utc lower (Some (nightly monday_night)) (instant s) =
    Inr (\<exists>n. wday_of n = 1 \<and> n * 1440 + 1320 \<le> s div 60 \<and> s div 60 \<le> n * 1440 + 1560)"
  using Allows_iff [of "nightly monday_night" only_utc "fixed_zone 0" lower "instant s",
      OF nightly_facts [of monday_night] midnights_fixed]
  by (simp add: in_window_night nightly_def wall_minute_fixed instant_def)

lemma Allows_thursday: "Allows only_utc lower (Some (nightly monday_night)) (instant 0) = Inr False"
proof -
  have "\<not> (wday_of n = 1 \<and> n * 1440 + 1320 \<le> 0 \<and> 0 \<le> n * 1440 + 1560)" for n
    using dates_1970(5) by (cases "n = - 1") auto
  then show ?thesis unfolding Allows_night by simp
qed

lemma Allows_monday: "Allows only_utc lower (Some (nightly monday_night)) (instant 426600) = Inr True"
  unfolding Allows_night using dates_1970(6) by (simp add: exI [of _ 4])


theorem DueOncePerOpening_gap_witness:
  "DueOncePerOpening only_utc (\<lambda>r. r) (Some (nightly monday_night)) (instant 426600) (instant 0) = Inr True"
proof -
  have "add_minutes (TruncateMinute (UTC (instant 0))) 0 = instant 0" "\<not> After (instant 0) (instant 426600)"
    by (simp_all add: TruncateMinute_def UTC_def In_def instant_def After_def Before_def)
  then show ?thesis
    using DueOncePerOpening_gap [of "nightly monday_night" only_utc "fixed_zone 0" "\<lambda>r. r" "instant 426600" "instant 0",
        OF nightly_facts [of monday_night]] Allows_thursday Allows_monday
    by (metis le0)
qed

lemma window_ok_night: "list_all window_ok (s_Windows (nightly monday_night))"
  by (simp add: nightly_def window_ok_def monday_night_def night_window_def night_times weekday_names_def schedule_words)


text \<open>
  Where a zone's clocks go forward at midnight the day has no midnight, and the instant computed for it still
  belongs to the day before: the whole day is then matched as if it were the day before. So it was in Brazil on
  Sunday, 4 November 2018.
\<close>

definition gap_zone :: location where
  "gap_zone s = (if s < 1541300400 then (- 10800, min_int64, 1541300400) else (- 7200, 1541300400, max_int64))"

definition all_day :: "string \<Rightarrow> Window" where
  "all_day d = night_window\<lparr>w_Recurrence := runes ''weekly'', w_Days := [runes d], w_Start := runes ''00:00'', w_End := runes ''23:59''\<rparr>"

lemma missing_midnight:
  "Weekday (In (instant 1541340000) gap_zone) = 0" "Hour (In (instant 1541340000) gap_zone) = 12"
  "dateMatchesWindow (\<lambda>r. r) (all_day ''sun'') (In (instant 1541340000) gap_zone) = False"
  "dateMatchesWindow (\<lambda>r. r) (all_day ''sat'') (In (instant 1541340000) gap_zone) = True"
  by code_simp+

end
