(* ===== verification/Manifest_Conf.thy ===== *)
theory Manifest_Conf
  imports Schedule Disabled_Conf
begin

text \<open>
  The description of a job (\<^verbatim>\<open>workspace/job_conf.go\<close>): reading \<^verbatim>\<open>job.conf\<close> into a manifest and writing a manifest
  as \<^verbatim>\<open>job.conf\<close>, with the schedule blocks of hooks (\<^verbatim>\<open>schedule/conf.go\<close>) and the checks on its health probes
  (\<^verbatim>\<open>workspace/health_check.go\<close>).

  Maps are association lists sorted by key, the order in which the code prints them; a nil map and an empty one
  are both the empty list, since no code of these files tells them apart. All diagnostics are syntax errors.
  Three things the standard library computes on texts are fields of an argument: the lower case of code points
  above ASCII, the integer a float literal is truncated to, and the text a float is printed as.
\<close>

record go_text =
  gt_lower :: "rune \<Rightarrow> rune"
  gt_trunc :: "rune list \<Rightarrow> int"
  gt_float :: "rune list \<Rightarrow> rune list"

section \<open>Schedule blocks\<close>

definition empty_window :: Window where
  "empty_window = \<lparr>w_Recurrence = [], w_Days = [], w_MonthlyBy = [], w_Week = [], w_Weekday = [], w_Monthdays = [],
     w_Months = [], w_Start = [], w_End = []\<rparr>"

definition parse_monthday :: "go_text \<Rightarrow> Value \<Rightarrow> conf_error + Monthday" where
  "parse_monthday g v =
     (case v of
        NumberLit lit (Some n) \<Rightarrow> Inr \<lparr>md_Last = False, md_Day = n\<rparr>
      | NumberLit lit None \<Rightarrow> Inr \<lparr>md_Last = False, md_Day = gt_trunc g lit\<rparr>
      | StringLit s \<Rightarrow>
          if s = runes ''last'' then Inr \<lparr>md_Last = True, md_Day = 0\<rparr>
          else (case atoi s of None \<Rightarrow> Inl SyntaxError | Some n \<Rightarrow> Inr \<lparr>md_Last = False, md_Day = n\<rparr>)
      | IdentLit name \<Rightarrow> if name = runes ''last'' then Inr \<lparr>md_Last = True, md_Day = 0\<rparr> else Inl SyntaxError
      | _ \<Rightarrow> Inl SyntaxError)"

definition window_call :: "go_text \<Rightarrow> Window \<Rightarrow> Call \<Rightarrow> conf_error + Window" where
  "window_call g w c =
     (if call_Name c = runes ''recurrence'' then rbind (SingleStringArg c) (\<lambda>s. Inr (w\<lparr>w_Recurrence := s\<rparr>))
      else if call_Name c = runes ''days'' then rbind (AsStrings c) (\<lambda>days. Inr (w\<lparr>w_Days := days\<rparr>))
      else if call_Name c = runes ''monthly_by'' then rbind (SingleStringArg c) (\<lambda>s. Inr (w\<lparr>w_MonthlyBy := s\<rparr>))
      else if call_Name c = runes ''week'' then rbind (SingleStringArg c) (\<lambda>s. Inr (w\<lparr>w_Week := s\<rparr>))
      else if call_Name c = runes ''weekday'' then rbind (SingleStringArg c) (\<lambda>s. Inr (w\<lparr>w_Weekday := s\<rparr>))
      else if call_Name c = runes ''monthdays'' then
        rbind (rmap (parse_monthday g) (call_Args c)) (\<lambda>mds. Inr (w\<lparr>w_Monthdays := w_Monthdays w @ mds\<rparr>))
      else if call_Name c = runes ''months'' then
        rbind (rmap AsInt (call_Args c)) (\<lambda>ns. Inr (w\<lparr>w_Months := w_Months w @ ns\<rparr>))
      else if call_Name c = runes ''start'' then rbind (SingleStringArg c) (\<lambda>s. Inr (w\<lparr>w_Start := s\<rparr>))
      else if call_Name c = runes ''end'' then rbind (SingleStringArg c) (\<lambda>s. Inr (w\<lparr>w_End := s\<rparr>))
      else Inl SyntaxError)"

definition only_calls :: "('a \<Rightarrow> Call \<Rightarrow> conf_error + 'a) \<Rightarrow> 'a \<Rightarrow> Stmt \<Rightarrow> conf_error + 'a" where
  "only_calls f x s = (case s of CallStmt c \<Rightarrow> f x c | Block n i b \<Rightarrow> Inl SyntaxError)"

definition parseWindowBlock :: "go_text \<Rightarrow> Stmt list \<Rightarrow> conf_error + Window" where
  "parseWindowBlock g body = rfold (only_calls (window_call g)) empty_window body"

definition schedule_stmt :: "go_text \<Rightarrow> Schedule \<Rightarrow> Stmt \<Rightarrow> conf_error + Schedule" where
  "schedule_stmt g sched s =
     (case s of
        CallStmt c \<Rightarrow>
          if call_Name c = runes ''timezone'' then rbind (SingleStringArg c) (\<lambda>str. Inr (sched\<lparr>s_Timezone := str\<rparr>))
          else Inl SyntaxError
      | Block name ident body \<Rightarrow>
          if name \<noteq> runes ''window'' then Inl SyntaxError
          else rbind (parseWindowBlock g body) (\<lambda>w. Inr (sched\<lparr>s_Windows := s_Windows sched @ [w]\<rparr>)))"

definition ParseBlock :: "go_text \<Rightarrow> Stmt list \<Rightarrow> conf_error + Schedule" where
  "ParseBlock g body = rfold (schedule_stmt g) \<lparr>s_Timezone = [], s_Windows = []\<rparr> body"

definition opt_string :: "string \<Rightarrow> rune list \<Rightarrow> Stmt list" where
  "opt_string name s = (if s \<noteq> [] then [string_call name [s]] else [])"

definition opt_strings :: "string \<Rightarrow> rune list list \<Rightarrow> Stmt list" where
  "opt_strings name ss = (if ss \<noteq> [] then [string_call name ss] else [])"

definition opt_int :: "string \<Rightarrow> int \<Rightarrow> Stmt list" where
  "opt_int name n = (if n \<noteq> 0 then [int_call name n] else [])"

definition monthday_value :: "Monthday \<Rightarrow> Value" where
  "monthday_value md = (if md_Last md then Str (runes ''last'') else Int_lit (md_Day md))"

definition emit_window :: "Window \<Rightarrow> Stmt" where
  "emit_window w = Block (runes ''window'') []
     (opt_string ''recurrence'' (w_Recurrence w) @ opt_strings ''days'' (w_Days w) @
      opt_string ''monthly_by'' (w_MonthlyBy w) @ opt_string ''week'' (w_Week w) @ opt_string ''weekday'' (w_Weekday w) @
      (if w_Monthdays w \<noteq> [] then [CallStmt (Call (runes ''monthdays'') (map monthday_value (w_Monthdays w)) True)] else []) @
      (if w_Months w \<noteq> [] then [CallStmt (Call (runes ''months'') (map Int_lit (w_Months w)) True)] else []) @
      opt_string ''start'' (w_Start w) @ opt_string ''end'' (w_End w))"

definition EmitBlock :: "Schedule \<Rightarrow> Stmt" where
  "EmitBlock sched = Block (runes ''schedule'') [] (opt_string ''timezone'' (s_Timezone sched) @ map emit_window (s_Windows sched))"

section \<open>The manifest\<close>

datatype config_entry = ConfigText "rune list" | ConfigNumber int | ConfigDecimal "rune list" | ConfigFlag bool

record Demands =
  d_Job :: "rune list"
  d_Hook :: "rune list"
  d_Config :: "(rune list \<times> config_entry) list"

record Hook =
  h_Name :: "rune list"
  h_ExecutedOn :: "rune list list"
  h_Description :: "rune list"
  h_Schedule :: "Schedule option"
  h_Demands :: Demands

record CertSubject =
  cs_CommonName :: "rune list"
  cs_Organization :: "rune list"
  cs_OrganizationalUnit :: "rune list"
  cs_Country :: "rune list"
  cs_Province :: "rune list"
  cs_Locality :: "rune list"

record ManifestCert =
  c_External :: bool
  c_PKCS8 :: bool
  c_One :: bool
  c_Subject :: CertSubject

record PortBinding =
  pb_Fixed :: "int option"
  pb_Protocol :: "rune list"
  pb_Exposure :: "rune list"

record HealthCheckWait =
  hw_Attempts :: int
  hw_IntervalSeconds :: int

record HealthCheckProbe =
  hp_Type :: "rune list"
  hp_Port :: "rune list"
  hp_Command :: "rune list"
  hp_Path :: "rune list"
  hp_ExpectStatus :: int
  hp_Scheme :: "rune list"

record HealthCheckKind =
  hk_Checks :: "HealthCheckProbe list"
  hk_Wait :: "HealthCheckWait option"

record ManifestHealthCheck =
  hc_Liveness :: "HealthCheckKind option"
  hc_Readiness :: "HealthCheckKind option"
  hc_Checks :: "HealthCheckProbe list"
  hc_TimeoutSeconds :: int
  hc_Wait :: "HealthCheckWait option"

record Resources =
  r_MemoryMin :: "rune list"
  r_MemoryMax :: "rune list"
  r_CPUMin :: "rune list"
  r_CPUMax :: "rune list"
  r_CPUShares :: int
  r_Ports :: "(rune list \<times> PortBinding) list"

record Manifest =
  m_Version :: "rune list"
  m_Description :: "rune list"
  m_Selectors :: "rune list list"
  m_DeploymentPriority :: int
  m_Resources :: Resources
  m_Hooks :: "(rune list \<times> Hook) list"
  m_Certs :: "(rune list \<times> ManifestCert) list"
  m_HealthCheck :: "ManifestHealthCheck option"
  m_MaxConcurrentRestarts :: int
  m_MaxConcurrentStarts :: int
  m_MaxConcurrentStops :: int
  m_MinAllocationsCount :: int
  m_RestartPolicy :: "rune list"
  m_RestartGlobs :: "rune list list"
  m_ReloadGlobs :: "rune list list"
  m_BackwardCompatibilityFrom :: "rune list list"
  m_AllowRollback :: bool

definition no_subject :: CertSubject where
  "no_subject = \<lparr>cs_CommonName = [], cs_Organization = [], cs_OrganizationalUnit = [], cs_Country = [], cs_Province = [],
     cs_Locality = []\<rparr>"

definition zero_cert :: ManifestCert where
  "zero_cert = \<lparr>c_External = False, c_PKCS8 = False, c_One = False, c_Subject = no_subject\<rparr>"

definition zero_wait :: HealthCheckWait where
  "zero_wait = \<lparr>hw_Attempts = 0, hw_IntervalSeconds = 0\<rparr>"

definition zero_probe :: "rune list \<Rightarrow> HealthCheckProbe" where
  "zero_probe t = \<lparr>hp_Type = t, hp_Port = [], hp_Command = [], hp_Path = [], hp_ExpectStatus = 0, hp_Scheme = []\<rparr>"

definition zero_kind :: HealthCheckKind where
  "zero_kind = \<lparr>hk_Checks = [], hk_Wait = None\<rparr>"

definition zero_health :: ManifestHealthCheck where
  "zero_health = \<lparr>hc_Liveness = None, hc_Readiness = None, hc_Checks = [], hc_TimeoutSeconds = 0, hc_Wait = None\<rparr>"

definition zero_demands :: Demands where
  "zero_demands = \<lparr>d_Job = [], d_Hook = [], d_Config = []\<rparr>"

definition zero_hook :: "rune list \<Rightarrow> Hook" where
  "zero_hook name = \<lparr>h_Name = name, h_ExecutedOn = [], h_Description = [], h_Schedule = None, h_Demands = zero_demands\<rparr>"

definition zero_resources :: Resources where
  "zero_resources = \<lparr>r_MemoryMin = [], r_MemoryMax = [], r_CPUMin = [], r_CPUMax = [], r_CPUShares = 0, r_Ports = []\<rparr>"

definition zero_manifest :: Manifest where
  "zero_manifest =
     \<lparr>m_Version = [], m_Description = [], m_Selectors = [], m_DeploymentPriority = 0, m_Resources = zero_resources,
      m_Hooks = [], m_Certs = [], m_HealthCheck = None, m_MaxConcurrentRestarts = 0, m_MaxConcurrentStarts = 0,
      m_MaxConcurrentStops = 0, m_MinAllocationsCount = 0, m_RestartPolicy = [], m_RestartGlobs = [], m_ReloadGlobs = [],
      m_BackwardCompatibilityFrom = [], m_AllowRollback = False\<rparr>"

section \<open>Reading\<close>

definition applyManifestCall :: "Manifest \<Rightarrow> Call \<Rightarrow> conf_error + Manifest" where
  "applyManifestCall m c =
     (if call_Name c = runes ''version'' then rbind (SingleStringArg c) (\<lambda>s. Inr (m\<lparr>m_Version := s\<rparr>))
      else if call_Name c = runes ''description'' then rbind (SingleStringArg c) (\<lambda>s. Inr (m\<lparr>m_Description := s\<rparr>))
      else if call_Name c = runes ''selectors'' then rbind (AsStrings c) (\<lambda>sels. Inr (m\<lparr>m_Selectors := sels\<rparr>))
      else if call_Name c = runes ''deployment_priority'' then
        rbind (SingleIntArg c) (\<lambda>n. Inr (m\<lparr>m_DeploymentPriority := n\<rparr>))
      else if call_Name c = runes ''max_concurrent_restarts'' then
        rbind (SingleIntArg c) (\<lambda>n. Inr (m\<lparr>m_MaxConcurrentRestarts := n\<rparr>))
      else if call_Name c = runes ''max_concurrent_starts'' then
        rbind (SingleIntArg c) (\<lambda>n. Inr (m\<lparr>m_MaxConcurrentStarts := n\<rparr>))
      else if call_Name c = runes ''max_concurrent_stops'' then
        rbind (SingleIntArg c) (\<lambda>n. Inr (m\<lparr>m_MaxConcurrentStops := n\<rparr>))
      else if call_Name c = runes ''min_allocations_count'' then
        rbind (SingleIntArg c) (\<lambda>n. Inr (m\<lparr>m_MinAllocationsCount := n\<rparr>))
      else if call_Name c = runes ''restart_policy'' then rbind (SingleStringArg c) (\<lambda>s. Inr (m\<lparr>m_RestartPolicy := s\<rparr>))
      else if call_Name c = runes ''restart_globs'' then rbind (AsStrings c) (\<lambda>globs. Inr (m\<lparr>m_RestartGlobs := globs\<rparr>))
      else if call_Name c = runes ''reload_globs'' then rbind (AsStrings c) (\<lambda>globs. Inr (m\<lparr>m_ReloadGlobs := globs\<rparr>))
      else if call_Name c = runes ''backward_compatibility_from'' then
        rbind (AsStrings c) (\<lambda>specs. Inr (m\<lparr>m_BackwardCompatibilityFrom := specs\<rparr>))
      else if call_Name c = runes ''allow_rollback'' then rbind (SingleBoolArg c) (\<lambda>v. Inr (m\<lparr>m_AllowRollback := v\<rparr>))
      else Inl SyntaxError)"

definition min_max_call :: "rune list \<times> rune list \<Rightarrow> Call \<Rightarrow> conf_error + rune list \<times> rune list" where
  "min_max_call p c =
     rbind (SingleStringArg c) (\<lambda>s.
       if call_Name c = runes ''min'' then Inr (s, snd p)
       else if call_Name c = runes ''max'' then Inr (fst p, s)
       else Inl SyntaxError)"

definition minMaxFromBlock :: "Stmt list \<Rightarrow> conf_error + rune list \<times> rune list" where
  "minMaxFromBlock body = rfold (only_calls min_max_call) ([], []) body"

text \<open>\<^verbatim>\<open>ValidatePortKey\<close>, \<^verbatim>\<open>NormalizePortProtocol\<close> and \<^verbatim>\<open>NormalizePortExposure\<close> on code points.\<close>

definition port_key_ok :: "rune list \<Rightarrow> bool" where
  "port_key_ok name0 =
     (let name = trim_space name0; lc = (\<lambda>r. 97 \<le> r \<and> r \<le> 122)
      in name \<noteq> [] \<and> lc (hd name) \<and> list_all (\<lambda>r. lc r \<or> 48 \<le> r \<and> r \<le> 57 \<or> r = 95) (tl name))"

definition port_protocols :: "rune list list" where
  "port_protocols = [runes ''http'', runes ''https'', runes ''tcp'', runes ''udp'']"

definition port_exposures :: "rune list list" where
  "port_exposures = [runes ''cluster'', runes ''public'']"

definition port_protocol :: "go_text \<Rightarrow> rune list \<Rightarrow> conf_error + rune list" where
  "port_protocol g raw =
     (let v = clean (gt_lower g) raw
      in if v = [] then Inr (runes ''tcp'')
         else if v \<in> set port_protocols then Inr v
         else Inl SyntaxError)"

definition port_exposure :: "go_text \<Rightarrow> rune list \<Rightarrow> conf_error + rune list" where
  "port_exposure g raw =
     (let v = clean (gt_lower g) raw
      in if v = [] then Inr (runes ''cluster'')
         else if v \<in> set port_exposures then Inr v
         else Inl SyntaxError)"

definition default_binding :: PortBinding where
  "default_binding = \<lparr>pb_Fixed = None, pb_Protocol = runes ''tcp'', pb_Exposure = runes ''cluster''\<rparr>"

definition port_call :: "go_text \<Rightarrow> PortBinding \<Rightarrow> Call \<Rightarrow> conf_error + PortBinding" where
  "port_call g b c =
     (if call_Name c = runes ''protocol'' then
        rbind (SingleStringArg c) (\<lambda>s. rbind (port_protocol g s) (\<lambda>proto. Inr (b\<lparr>pb_Protocol := proto\<rparr>)))
      else if call_Name c = runes ''exposure'' then
        rbind (SingleStringArg c) (\<lambda>s. rbind (port_exposure g s) (\<lambda>exp. Inr (b\<lparr>pb_Exposure := exp\<rparr>)))
      else if call_Name c = runes ''port'' then rbind (SingleIntArg c) (\<lambda>n. Inr (b\<lparr>pb_Fixed := Some n\<rparr>))
      else Inl SyntaxError)"

definition applyManifestPortBlock ::
  "go_text \<Rightarrow> rune list \<Rightarrow> Stmt list \<Rightarrow> (rune list \<times> PortBinding) list \<Rightarrow> conf_error + (rune list \<times> PortBinding) list" where
  "applyManifestPortBlock g name body ports =
     (if \<not> port_key_ok name then Inl SyntaxError
      else rbind (rfold (only_calls (port_call g)) default_binding body) (\<lambda>binding. Inr (put_tag name binding ports)))"

definition ports_stmt :: "go_text \<Rightarrow> (rune list \<times> PortBinding) list \<Rightarrow> Stmt \<Rightarrow> conf_error + (rune list \<times> PortBinding) list" where
  "ports_stmt g ports s =
     (case s of
        CallStmt c \<Rightarrow> Inl SyntaxError
      | Block name ident body \<Rightarrow> if ident \<noteq> [] then Inl SyntaxError else applyManifestPortBlock g name body ports)"

definition applyManifestPortsBlock :: "go_text \<Rightarrow> Resources \<Rightarrow> rune list \<Rightarrow> Stmt list \<Rightarrow> conf_error + Resources" where
  "applyManifestPortsBlock g r ident body =
     (if ident \<noteq> [] then Inl SyntaxError
      else rbind (rfold (ports_stmt g) (r_Ports r) body) (\<lambda>ports. Inr (r\<lparr>r_Ports := ports\<rparr>)))"

definition resources_stmt :: "go_text \<Rightarrow> Resources \<Rightarrow> Stmt \<Rightarrow> conf_error + Resources" where
  "resources_stmt g r s =
     (case s of
        CallStmt c \<Rightarrow>
          if call_Name c \<noteq> runes ''cpu_shares'' then Inl SyntaxError
          else rbind (SingleIntArg c) (\<lambda>n. Inr (r\<lparr>r_CPUShares := n\<rparr>))
      | Block name ident body \<Rightarrow>
          if ident \<noteq> [] then Inl SyntaxError
          else if name = runes ''memory'' then
            rbind (minMaxFromBlock body) (\<lambda>p. Inr (r\<lparr>r_MemoryMin := fst p, r_MemoryMax := snd p\<rparr>))
          else if name = runes ''cpu'' then
            rbind (minMaxFromBlock body) (\<lambda>p. Inr (r\<lparr>r_CPUMin := fst p, r_CPUMax := snd p\<rparr>))
          else if name = runes ''ports'' then applyManifestPortsBlock g r ident body
          else Inl SyntaxError)"

definition applyManifestResourcesBlock :: "go_text \<Rightarrow> Manifest \<Rightarrow> rune list \<Rightarrow> Stmt list \<Rightarrow> conf_error + Manifest" where
  "applyManifestResourcesBlock g m ident body =
     (if ident \<noteq> [] then Inl SyntaxError
      else rbind (rfold (resources_stmt g) (m_Resources m) body) (\<lambda>r. Inr (m\<lparr>m_Resources := r\<rparr>)))"

subsection \<open>Health checks\<close>

definition wait_call :: "HealthCheckWait \<Rightarrow> Call \<Rightarrow> conf_error + HealthCheckWait" where
  "wait_call w c =
     (if call_Name c = runes ''attempts'' then rbind (SingleIntArg c) (\<lambda>n. Inr (w\<lparr>hw_Attempts := n\<rparr>))
      else if call_Name c = runes ''interval_seconds'' then rbind (SingleIntArg c) (\<lambda>n. Inr (w\<lparr>hw_IntervalSeconds := n\<rparr>))
      else Inl SyntaxError)"

definition parseHealthCheckWaitBlock :: "rune list \<Rightarrow> Stmt list \<Rightarrow> conf_error + HealthCheckWait" where
  "parseHealthCheckWaitBlock ident body =
     (if ident \<noteq> [] then Inl SyntaxError else rfold (only_calls wait_call) zero_wait body)"

definition probe_call :: "HealthCheckProbe \<Rightarrow> Call \<Rightarrow> conf_error + HealthCheckProbe" where
  "probe_call p c =
     (if call_Name c = runes ''port'' then rbind (SingleStringArg c) (\<lambda>s. Inr (p\<lparr>hp_Port := s\<rparr>))
      else if call_Name c = runes ''path'' then rbind (SingleStringArg c) (\<lambda>s. Inr (p\<lparr>hp_Path := s\<rparr>))
      else if call_Name c = runes ''command'' then rbind (SingleStringArg c) (\<lambda>s. Inr (p\<lparr>hp_Command := s\<rparr>))
      else if call_Name c = runes ''expect_status'' then rbind (SingleIntArg c) (\<lambda>n. Inr (p\<lparr>hp_ExpectStatus := n\<rparr>))
      else if call_Name c = runes ''scheme'' then rbind (SingleStringArg c) (\<lambda>s. Inr (p\<lparr>hp_Scheme := s\<rparr>))
      else Inl SyntaxError)"

definition parseHealthCheckProbeBlock :: "rune list \<Rightarrow> rune list \<Rightarrow> Stmt list \<Rightarrow> conf_error + HealthCheckProbe" where
  "parseHealthCheckProbeBlock name ident body =
     (if ident \<noteq> [] then Inl SyntaxError else rfold (only_calls probe_call) (zero_probe name) body)"

definition probe_types :: "rune list list" where
  "probe_types = [runes ''tcp'', runes ''http'', runes ''ssh'']"

definition kind_stmt :: "HealthCheckKind \<Rightarrow> Stmt \<Rightarrow> conf_error + HealthCheckKind" where
  "kind_stmt k s =
     (case s of
        CallStmt c \<Rightarrow> Inl SyntaxError
      | Block name ident body \<Rightarrow>
          if ident \<noteq> [] then Inl SyntaxError
          else if name = runes ''wait'' then
            rbind (parseHealthCheckWaitBlock ident body) (\<lambda>w. Inr (k\<lparr>hk_Wait := Some w\<rparr>))
          else if name \<in> set probe_types then
            rbind (parseHealthCheckProbeBlock name ident body) (\<lambda>p. Inr (k\<lparr>hk_Checks := hk_Checks k @ [p]\<rparr>))
          else Inl SyntaxError)"

definition parseHealthCheckKindBlock :: "rune list \<Rightarrow> Stmt list \<Rightarrow> conf_error + HealthCheckKind" where
  "parseHealthCheckKindBlock ident body =
     (if ident \<noteq> [] then Inl SyntaxError else rfold kind_stmt zero_kind body)"

definition health_stmt :: "ManifestHealthCheck \<Rightarrow> Stmt \<Rightarrow> conf_error + ManifestHealthCheck" where
  "health_stmt hc s =
     (case s of
        CallStmt c \<Rightarrow>
          if call_Name c \<noteq> runes ''timeout_seconds'' then Inl SyntaxError
          else rbind (SingleIntArg c) (\<lambda>n. Inr (hc\<lparr>hc_TimeoutSeconds := n\<rparr>))
      | Block name ident body \<Rightarrow>
          if ident \<noteq> [] then Inl SyntaxError
          else if name = runes ''wait'' then
            rbind (parseHealthCheckWaitBlock ident body) (\<lambda>w. Inr (hc\<lparr>hc_Wait := Some w\<rparr>))
          else if name = runes ''liveness'' then
            rbind (parseHealthCheckKindBlock ident body) (\<lambda>kind.
              if hc_Liveness hc \<noteq> None then Inl SyntaxError else Inr (hc\<lparr>hc_Liveness := Some kind\<rparr>))
          else if name = runes ''readiness'' then
            rbind (parseHealthCheckKindBlock ident body) (\<lambda>kind.
              if hc_Readiness hc \<noteq> None then Inl SyntaxError else Inr (hc\<lparr>hc_Readiness := Some kind\<rparr>))
          else Inl SyntaxError)"

definition applyManifestHealthCheckBlock :: "Manifest \<Rightarrow> rune list \<Rightarrow> Stmt list \<Rightarrow> conf_error + Manifest" where
  "applyManifestHealthCheckBlock m ident body =
     (if ident \<noteq> [] then Inl SyntaxError
      else rbind (rfold health_stmt zero_health body) (\<lambda>hc. Inr (m\<lparr>m_HealthCheck := Some hc\<rparr>)))"

subsection \<open>Certificates\<close>

definition subject_call :: "CertSubject \<Rightarrow> Call \<Rightarrow> conf_error + CertSubject" where
  "subject_call x c =
     (if call_Name c = runes ''common_name'' then rbind (SingleStringArg c) (\<lambda>s. Inr (x\<lparr>cs_CommonName := s\<rparr>))
      else if call_Name c = runes ''organization'' then rbind (SingleStringArg c) (\<lambda>s. Inr (x\<lparr>cs_Organization := s\<rparr>))
      else if call_Name c = runes ''organizational_unit'' then
        rbind (SingleStringArg c) (\<lambda>s. Inr (x\<lparr>cs_OrganizationalUnit := s\<rparr>))
      else if call_Name c = runes ''country'' then rbind (SingleStringArg c) (\<lambda>s. Inr (x\<lparr>cs_Country := s\<rparr>))
      else if call_Name c = runes ''province'' then rbind (SingleStringArg c) (\<lambda>s. Inr (x\<lparr>cs_Province := s\<rparr>))
      else if call_Name c = runes ''locality'' then rbind (SingleStringArg c) (\<lambda>s. Inr (x\<lparr>cs_Locality := s\<rparr>))
      else Inl SyntaxError)"

definition parseCertSubjectBlock :: "rune list \<Rightarrow> Stmt list \<Rightarrow> conf_error + CertSubject" where
  "parseCertSubjectBlock ident body =
     (if ident \<noteq> [] then Inl SyntaxError else rfold (only_calls subject_call) no_subject body)"

text \<open>An entry under construction, with whether the block has set something only generated certificates have.\<close>

definition cert_stmt :: "ManifestCert \<times> bool \<Rightarrow> Stmt \<Rightarrow> conf_error + ManifestCert \<times> bool" where
  "cert_stmt st s =
     (case s of
        CallStmt c \<Rightarrow>
          if call_Name c = runes ''external'' then
            rbind (SingleBoolArg c) (\<lambda>v. Inr ((fst st)\<lparr>c_External := v\<rparr>, snd st))
          else if call_Name c = runes ''pkcs8'' then rbind (SingleBoolArg c) (\<lambda>v. Inr ((fst st)\<lparr>c_PKCS8 := v\<rparr>, True))
          else if call_Name c = runes ''one'' then rbind (SingleBoolArg c) (\<lambda>v. Inr ((fst st)\<lparr>c_One := v\<rparr>, True))
          else Inl SyntaxError
      | Block name ident body \<Rightarrow>
          if name \<noteq> runes ''subject'' then Inl SyntaxError
          else rbind (parseCertSubjectBlock ident body) (\<lambda>x. Inr ((fst st)\<lparr>c_Subject := x\<rparr>, True)))"

definition cert_of :: "rune list \<Rightarrow> (rune list \<times> ManifestCert) list \<Rightarrow> ManifestCert" where
  "cert_of name certs = (case map_of certs name of None \<Rightarrow> zero_cert | Some entry \<Rightarrow> entry)"

definition certs_stmt :: "(rune list \<times> ManifestCert) list \<Rightarrow> Stmt \<Rightarrow> conf_error + (rune list \<times> ManifestCert) list" where
  "certs_stmt certs s =
     (case s of
        CallStmt c \<Rightarrow> Inl SyntaxError
      | Block name ident body \<Rightarrow>
          if ident \<noteq> [] then Inl SyntaxError
          else rbind (rfold cert_stmt (cert_of name certs, False) body) (\<lambda>st.
            if c_External (fst st) \<and> snd st then Inl SyntaxError else Inr (put_tag name (fst st) certs)))"

definition applyManifestCertsBlock :: "Manifest \<Rightarrow> rune list \<Rightarrow> Stmt list \<Rightarrow> conf_error + Manifest" where
  "applyManifestCertsBlock m ident body =
     (if ident \<noteq> [] then Inl SyntaxError
      else rbind (rfold certs_stmt (m_Certs m) body) (\<lambda>certs. Inr (m\<lparr>m_Certs := certs\<rparr>)))"

subsection \<open>Hooks\<close>

definition config_call ::
  "(rune list \<times> config_entry) list \<Rightarrow> Call \<Rightarrow> conf_error + (rune list \<times> config_entry) list" where
  "config_call cfg c =
     (if length (call_Args c) \<noteq> 1 then Inl SyntaxError
      else
        rbind (case call_Args c ! 0 of
            StringLit s \<Rightarrow> Inr (ConfigText s)
          | NumberLit lit None \<Rightarrow> Inr (ConfigDecimal lit)
          | NumberLit lit (Some n) \<Rightarrow> Inr (ConfigNumber n)
          | BoolLit b \<Rightarrow> Inr (ConfigFlag b)
          | v \<Rightarrow> rbind (AsString v) (\<lambda>s. Inr (ConfigText s)))
          (\<lambda>v. Inr (put_tag (call_Name c) v cfg)))"

definition demands_stmt :: "Demands \<Rightarrow> Stmt \<Rightarrow> conf_error + Demands" where
  "demands_stmt d s =
     (case s of
        CallStmt c \<Rightarrow>
          if call_Name c = runes ''job'' then rbind (SingleStringArg c) (\<lambda>str. Inr (d\<lparr>d_Job := str\<rparr>))
          else if call_Name c = runes ''hook'' then rbind (SingleStringArg c) (\<lambda>str. Inr (d\<lparr>d_Hook := str\<rparr>))
          else Inl SyntaxError
      | Block name ident body \<Rightarrow>
          if name \<noteq> runes ''config'' then Inl SyntaxError
          else if ident \<noteq> [] then Inl SyntaxError
          else rbind (rfold (only_calls config_call) (d_Config d) body) (\<lambda>cfg. Inr (d\<lparr>d_Config := cfg\<rparr>)))"

definition applyManifestDemandsBlock :: "Hook \<Rightarrow> Stmt list \<Rightarrow> conf_error + Hook" where
  "applyManifestDemandsBlock h body = rbind (rfold demands_stmt (h_Demands h) body) (\<lambda>d. Inr (h\<lparr>h_Demands := d\<rparr>))"

definition hook_stmt :: "go_text \<Rightarrow> Hook \<Rightarrow> Stmt \<Rightarrow> conf_error + Hook" where
  "hook_stmt g h s =
     (case s of
        CallStmt c \<Rightarrow>
          if call_Name c = runes ''executed_on'' then rbind (AsStrings c) (\<lambda>ons. Inr (h\<lparr>h_ExecutedOn := ons\<rparr>))
          else if call_Name c = runes ''description'' then rbind (SingleStringArg c) (\<lambda>str. Inr (h\<lparr>h_Description := str\<rparr>))
          else Inl SyntaxError
      | Block name ident body \<Rightarrow>
          if name = runes ''schedule'' then rbind (ParseBlock g body) (\<lambda>sched. Inr (h\<lparr>h_Schedule := Some sched\<rparr>))
          else if name = runes ''demands'' then
            (if ident \<noteq> [] then Inl SyntaxError else applyManifestDemandsBlock h body)
          else Inl SyntaxError)"

definition applyManifestHook :: "go_text \<Rightarrow> Manifest \<Rightarrow> rune list \<Rightarrow> Stmt list \<Rightarrow> conf_error + Manifest" where
  "applyManifestHook g m ident body =
     (if ident = [] then Inl SyntaxError
      else rbind (rfold (hook_stmt g) (zero_hook ident) body) (\<lambda>h. Inr (m\<lparr>m_Hooks := put_tag ident h (m_Hooks m)\<rparr>)))"

subsection \<open>The file\<close>

definition manifest_stmt :: "go_text \<Rightarrow> Manifest \<Rightarrow> Stmt \<Rightarrow> conf_error + Manifest" where
  "manifest_stmt g m s =
     (case s of
        CallStmt c \<Rightarrow>
          if call_Name c = runes ''resources'' \<or> call_Name c = runes ''health_check'' \<or> call_Name c = runes ''certs''
          then Inl SyntaxError
          else applyManifestCall m c
      | Block name ident body \<Rightarrow>
          if name = runes ''hook'' then applyManifestHook g m ident body
          else if name = runes ''resources'' then applyManifestResourcesBlock g m ident body
          else if name = runes ''health_check'' then applyManifestHealthCheckBlock m ident body
          else if name = runes ''certs'' then applyManifestCertsBlock m ident body
          else Inl SyntaxError)"

definition lowerManifestFile :: "go_text \<Rightarrow> File \<Rightarrow> conf_error + Manifest" where
  "lowerManifestFile g f =
     (if Blocks (runes ''job'') f \<noteq> [] then Inl SyntaxError else rfold (manifest_stmt g) zero_manifest (f_Stmts f))"

definition ParseJobConf :: "go_text \<Rightarrow> unicode \<Rightarrow> rune list \<Rightarrow> conf_error + Manifest" where
  "ParseJobConf g u src = rbind (Parse u src) (lowerManifestFile g)"

section \<open>Writing\<close>

definition bool_call :: "string \<Rightarrow> bool \<Rightarrow> Stmt" where
  "bool_call name v = CallStmt (Call (runes name) [BoolLit v] False)"

definition emitMinMaxBlock :: "string \<Rightarrow> rune list \<Rightarrow> rune list \<Rightarrow> Stmt" where
  "emitMinMaxBlock name mn mx = Block (runes name) [] (opt_string ''min'' mn @ opt_string ''max'' mx)"

definition emitPortBlock :: "rune list \<Rightarrow> PortBinding \<Rightarrow> Stmt" where
  "emitPortBlock name b = Block name []
     (if pb_Fixed b \<noteq> None \<and> pb_Protocol b = runes ''tcp'' \<and> pb_Exposure b = runes ''cluster''
      then [int_call ''port'' (the (pb_Fixed b))]
      else
        (if pb_Protocol b \<noteq> [] \<and> pb_Protocol b \<noteq> runes ''tcp'' then [string_call ''protocol'' [pb_Protocol b]] else []) @
        (if pb_Exposure b \<noteq> [] \<and> pb_Exposure b \<noteq> runes ''cluster'' then [string_call ''exposure'' [pb_Exposure b]] else []) @
        (case pb_Fixed b of None \<Rightarrow> [] | Some n \<Rightarrow> [int_call ''port'' n]))"

definition resources_body :: "Resources \<Rightarrow> Stmt list" where
  "resources_body r =
     (if r_MemoryMin r \<noteq> [] \<or> r_MemoryMax r \<noteq> [] then [emitMinMaxBlock ''memory'' (r_MemoryMin r) (r_MemoryMax r)] else []) @
     (if r_CPUMin r \<noteq> [] \<or> r_CPUMax r \<noteq> [] then [emitMinMaxBlock ''cpu'' (r_CPUMin r) (r_CPUMax r)] else []) @
     opt_int ''cpu_shares'' (r_CPUShares r) @
     (if r_Ports r \<noteq> []
      then [Block (runes ''ports'') [] (map (\<lambda>p. emitPortBlock (fst p) (snd p)) (sort_key fst (r_Ports r)))] else [])"

definition emitResourcesBlock :: "Resources \<Rightarrow> Stmt list" where
  "emitResourcesBlock r = (if resources_body r = [] then [] else [Block (runes ''resources'') [] (resources_body r)])"

definition emitHealthCheckWaitBlock :: "HealthCheckWait \<Rightarrow> Stmt" where
  "emitHealthCheckWaitBlock w = Block (runes ''wait'') []
     (opt_int ''attempts'' (hw_Attempts w) @ opt_int ''interval_seconds'' (hw_IntervalSeconds w))"

definition emitHealthCheckProbeBlock :: "HealthCheckProbe \<Rightarrow> Stmt" where
  "emitHealthCheckProbeBlock p = Block (hp_Type p) []
     (opt_string ''port'' (hp_Port p) @ opt_string ''path'' (hp_Path p) @ opt_string ''command'' (hp_Command p) @
      opt_int ''expect_status'' (hp_ExpectStatus p) @ opt_string ''scheme'' (hp_Scheme p))"

definition opt_wait :: "HealthCheckWait option \<Rightarrow> Stmt list" where
  "opt_wait w = (case w of None \<Rightarrow> [] | Some w \<Rightarrow> [emitHealthCheckWaitBlock w])"

definition emitHealthCheckKindBlock :: "string \<Rightarrow> HealthCheckKind \<Rightarrow> Stmt" where
  "emitHealthCheckKindBlock name k = Block (runes name) [] (opt_wait (hk_Wait k) @ map emitHealthCheckProbeBlock (hk_Checks k))"

definition opt_kind :: "string \<Rightarrow> HealthCheckKind option \<Rightarrow> Stmt list" where
  "opt_kind name k = (case k of None \<Rightarrow> [] | Some k \<Rightarrow> [emitHealthCheckKindBlock name k])"

definition emitHealthCheckBlock :: "ManifestHealthCheck \<Rightarrow> Stmt" where
  "emitHealthCheckBlock hc = Block (runes ''health_check'') []
     (opt_int ''timeout_seconds'' (hc_TimeoutSeconds hc) @ opt_wait (hc_Wait hc) @
      opt_kind ''liveness'' (hc_Liveness hc) @ opt_kind ''readiness'' (hc_Readiness hc))"

definition subject_body :: "CertSubject \<Rightarrow> Stmt list" where
  "subject_body x =
     opt_string ''common_name'' (cs_CommonName x) @ opt_string ''organization'' (cs_Organization x) @
     opt_string ''organizational_unit'' (cs_OrganizationalUnit x) @ opt_string ''country'' (cs_Country x) @
     opt_string ''province'' (cs_Province x) @ opt_string ''locality'' (cs_Locality x)"

definition emitCertSubjectBlock :: "CertSubject \<Rightarrow> Stmt list" where
  "emitCertSubjectBlock x = (if subject_body x = [] then [] else [Block (runes ''subject'') [] (subject_body x)])"

definition emit_cert :: "rune list \<times> ManifestCert \<Rightarrow> Stmt" where
  "emit_cert p = Block (fst p) []
     (if c_External (snd p) then [bool_call ''external'' True]
      else [bool_call ''pkcs8'' (c_PKCS8 (snd p)), bool_call ''one'' (c_One (snd p))] @ emitCertSubjectBlock (c_Subject (snd p)))"

definition emitCertsBlock :: "(rune list \<times> ManifestCert) list \<Rightarrow> Stmt list" where
  "emitCertsBlock certs = (if certs = [] then [] else [Block (runes ''certs'') [] (map emit_cert (sort_key fst certs))])"

definition sprint :: "go_text \<Rightarrow> config_entry \<Rightarrow> rune list" where
  "sprint g v =
     (case v of
        ConfigText s \<Rightarrow> s
      | ConfigNumber n \<Rightarrow> runes (Itoa n)
      | ConfigDecimal lit \<Rightarrow> gt_float g lit
      | ConfigFlag b \<Rightarrow> runes (if b then ''true'' else ''false''))"

definition emitDemandsBlock :: "go_text \<Rightarrow> Demands \<Rightarrow> Stmt" where
  "emitDemandsBlock g d = Block (runes ''demands'') []
     (opt_string ''job'' (d_Job d) @ opt_string ''hook'' (d_Hook d) @
      (if d_Config d \<noteq> []
       then [Block (runes ''config'') []
         (map (\<lambda>p. CallStmt (Call (fst p) [StringLit (sprint g (snd p))] False)) (sort_key fst (d_Config d)))] else []))"

definition emit_hook :: "go_text \<Rightarrow> rune list \<times> Hook \<Rightarrow> Stmt" where
  "emit_hook g p = (let h = snd p in Block (runes ''hook'') (fst p)
     (opt_strings ''executed_on'' (h_ExecutedOn h) @ opt_string ''description'' (h_Description h) @
      (case h_Schedule h of None \<Rightarrow> [] | Some s \<Rightarrow> [EmitBlock s]) @
      (if d_Job (h_Demands h) \<noteq> [] \<or> d_Hook (h_Demands h) \<noteq> [] \<or> d_Config (h_Demands h) \<noteq> []
       then [emitDemandsBlock g (h_Demands h)] else [])))"

definition manifest_file :: "go_text \<Rightarrow> Manifest \<Rightarrow> File" where
  "manifest_file g m = \<lparr>f_Version = 0, f_Stmts =
     opt_string ''version'' (m_Version m) @ opt_string ''description'' (m_Description m) @
     opt_strings ''selectors'' (m_Selectors m) @ opt_int ''deployment_priority'' (m_DeploymentPriority m) @
     opt_int ''max_concurrent_restarts'' (m_MaxConcurrentRestarts m) @
     opt_int ''max_concurrent_starts'' (m_MaxConcurrentStarts m) @ opt_int ''max_concurrent_stops'' (m_MaxConcurrentStops m) @
     opt_int ''min_allocations_count'' (m_MinAllocationsCount m) @ opt_string ''restart_policy'' (m_RestartPolicy m) @
     opt_strings ''restart_globs'' (m_RestartGlobs m) @ opt_strings ''reload_globs'' (m_ReloadGlobs m) @
     opt_strings ''backward_compatibility_from'' (m_BackwardCompatibilityFrom m) @
     (if m_AllowRollback m then [bool_call ''allow_rollback'' True] else []) @
     emitResourcesBlock (m_Resources m) @
     (case m_HealthCheck m of None \<Rightarrow> [] | Some hc \<Rightarrow> [emitHealthCheckBlock hc]) @
     emitCertsBlock (m_Certs m) @ map (emit_hook g) (sort_key fst (m_Hooks m))\<rparr>"

definition EmitJobConf :: "go_text \<Rightarrow> Manifest \<Rightarrow> rune list" where
  "EmitJobConf g m = Emit [] (manifest_file g m)"

section \<open>Health checks of a manifest\<close>

definition HasProbes :: "HealthCheckKind option \<Rightarrow> bool" where
  "HasProbes k \<longleftrightarrow> (case k of None \<Rightarrow> False | Some k \<Rightarrow> hk_Checks k \<noteq> [])"

definition HasLivenessProbes :: "ManifestHealthCheck option \<Rightarrow> bool" where
  "HasLivenessProbes hc \<longleftrightarrow> (case hc of None \<Rightarrow> False | Some hc \<Rightarrow> HasProbes (hc_Liveness hc))"

definition HasReadinessProbes :: "ManifestHealthCheck option \<Rightarrow> bool" where
  "HasReadinessProbes hc \<longleftrightarrow> (case hc of None \<Rightarrow> False | Some hc \<Rightarrow> HasProbes (hc_Readiness hc))"

definition HasAnyProbes :: "ManifestHealthCheck option \<Rightarrow> bool" where
  "HasAnyProbes hc \<longleftrightarrow> HasLivenessProbes hc \<or> HasReadinessProbes hc"

definition LivenessChecks :: "ManifestHealthCheck option \<Rightarrow> HealthCheckProbe list" where
  "LivenessChecks hc = (if \<not> HasLivenessProbes hc then [] else hk_Checks (the (hc_Liveness (the hc))))"

definition ReadinessChecks :: "ManifestHealthCheck option \<Rightarrow> HealthCheckProbe list" where
  "ReadinessChecks hc = (if \<not> HasReadinessProbes hc then [] else hk_Checks (the (hc_Readiness (the hc))))"

definition WaitFor :: "ManifestHealthCheck option \<Rightarrow> rune list \<Rightarrow> HealthCheckWait option" where
  "WaitFor hc kind =
     (case hc of
        None \<Rightarrow> None
      | Some hc \<Rightarrow>
          if kind = runes ''liveness'' \<and> hc_Liveness hc \<noteq> None \<and> hk_Wait (the (hc_Liveness hc)) \<noteq> None
          then hk_Wait (the (hc_Liveness hc))
          else if kind = runes ''readiness'' \<and> hc_Readiness hc \<noteq> None \<and> hk_Wait (the (hc_Readiness hc)) \<noteq> None
          then hk_Wait (the (hc_Readiness hc))
          else hc_Wait hc)"

definition health_Normalize :: "ManifestHealthCheck option \<Rightarrow> ManifestHealthCheck option" where
  "health_Normalize hc0 =
     (case hc0 of
        None \<Rightarrow> None
      | Some hc \<Rightarrow>
          let hc' =
            (if hc_Checks hc \<noteq> [] then
               let k = (case hc_Readiness hc of None \<Rightarrow> zero_kind | Some k \<Rightarrow> k)
               in hc\<lparr>hc_Readiness := Some (k\<lparr>hk_Checks := hk_Checks k @ hc_Checks hc\<rparr>), hc_Checks := []\<rparr>
             else hc)
          in Some (if hc_Wait hc' = None then hc'\<lparr>hc_Wait := Some \<lparr>hw_Attempts = 60, hw_IntervalSeconds = 2\<rparr>\<rparr> else hc'))"

definition probe_problem :: "go_text \<Rightarrow> rune list set \<Rightarrow> HealthCheckProbe \<Rightarrow> bool" where
  "probe_problem g declared p =
     (let probeType = clean (gt_lower g) (hp_Type p)
      in if probeType \<notin> set probe_types then True
         else if probeType = runes ''ssh'' then trim_space (hp_Command p) = []
         else
           (let portName = trim_space (hp_Port p)
            in if portName = [] then True
               else if portName \<notin> declared then True
               else probeType = runes ''http'' \<and> hp_Path p \<noteq> [] \<and> hd (hp_Path p) \<noteq> 47))"

definition validateProbeList :: "go_text \<Rightarrow> HealthCheckProbe list \<Rightarrow> rune list set \<Rightarrow> kive_error + unit" where
  "validateProbeList g probes declared = (if list_ex (probe_problem g declared) probes then Inl ErrInvalidManifest else Inr ())"

definition ValidateHealthCheck :: "go_text \<Rightarrow> Manifest \<Rightarrow> kive_error + unit" where
  "ValidateHealthCheck g m =
     (if \<not> HasAnyProbes (m_HealthCheck m) then Inr ()
      else
        (let declared = fst ` set (r_Ports (m_Resources m))
         in rbind (validateProbeList g (LivenessChecks (m_HealthCheck m)) declared) (\<lambda>_.
            validateProbeList g (ReadinessChecks (m_HealthCheck m)) declared)))"

section \<open>Settings with defaults\<close>

definition MinMemory :: "Manifest \<Rightarrow> rune list" where
  "MinMemory m = (if r_MemoryMin (m_Resources m) = [] then runes ''0 mb'' else r_MemoryMin (m_Resources m))"

definition MaxMemory :: "Manifest \<Rightarrow> rune list" where
  "MaxMemory m = (if r_MemoryMax (m_Resources m) = [] then runes ''0 mb'' else r_MemoryMax (m_Resources m))"

definition MinCPU :: "Manifest \<Rightarrow> rune list" where
  "MinCPU m = (if r_CPUMin (m_Resources m) = [] then runes ''0 mhz'' else r_CPUMin (m_Resources m))"

definition MaxCPU :: "Manifest \<Rightarrow> rune list" where
  "MaxCPU m = (if r_CPUMax (m_Resources m) = [] then runes ''0 mhz'' else r_CPUMax (m_Resources m))"

definition AllowsRollback :: "Manifest \<Rightarrow> bool" where
  "AllowsRollback m = m_AllowRollback m"

definition manifest_MaxConcurrentStarts :: "Manifest \<Rightarrow> int" where
  "manifest_MaxConcurrentStarts m = (if m_MaxConcurrentStarts m < 0 then 0 else m_MaxConcurrentStarts m)"

definition manifest_MaxConcurrentStops :: "Manifest \<Rightarrow> int" where
  "manifest_MaxConcurrentStops m = (if m_MaxConcurrentStops m < 0 then 0 else m_MaxConcurrentStops m)"

definition manifest_MaxConcurrentRestarts :: "Manifest \<Rightarrow> int" where
  "manifest_MaxConcurrentRestarts m = (if m_MaxConcurrentRestarts m \<le> 0 then 1 else m_MaxConcurrentRestarts m)"

section \<open>What reading guarantees\<close>

text \<open>A map as a sorted association list, its keys and entries with a property.\<close>

definition map_ok :: "(rune list \<Rightarrow> 'v \<Rightarrow> bool) \<Rightarrow> (rune list \<times> 'v) list \<Rightarrow> bool" where
  "map_ok P xs \<longleftrightarrow> sorted (map fst xs) \<and> distinct (map fst xs) \<and> list_all (\<lambda>p. P (fst p) (snd p)) xs"

definition binding_ok :: "PortBinding \<Rightarrow> bool" where
  "binding_ok b \<longleftrightarrow> pb_Protocol b \<in> set port_protocols \<and> pb_Exposure b \<in> set port_exposures"

definition schedule_read_ok :: "Schedule \<Rightarrow> bool" where
  "schedule_read_ok s \<longleftrightarrow> list_all (\<lambda>w. list_all (\<lambda>md. md_Last md \<longrightarrow> md_Day md = 0) (w_Monthdays w)) (s_Windows s)"

definition hook_ok :: "rune list \<Rightarrow> Hook \<Rightarrow> bool" where
  "hook_ok name h \<longleftrightarrow>
     name \<noteq> [] \<and> h_Name h = name \<and> (case h_Schedule h of None \<Rightarrow> True | Some s \<Rightarrow> schedule_read_ok s) \<and>
     map_ok (\<lambda>_ _. True) (d_Config (h_Demands h))"

definition kind_ok :: "HealthCheckKind \<Rightarrow> bool" where
  "kind_ok k \<longleftrightarrow> list_all (\<lambda>p. hp_Type p \<in> set probe_types) (hk_Checks k)"

definition health_ok :: "ManifestHealthCheck \<Rightarrow> bool" where
  "health_ok hc \<longleftrightarrow> hc_Checks hc = [] \<and> pred_option kind_ok (hc_Liveness hc) \<and> pred_option kind_ok (hc_Readiness hc)"

definition manifest_ok :: "Manifest \<Rightarrow> bool" where
  "manifest_ok m \<longleftrightarrow>
     map_ok (\<lambda>name b. port_key_ok name \<and> binding_ok b) (r_Ports (m_Resources m)) \<and>
     map_ok (\<lambda>_ _. True) (m_Certs m) \<and> map_ok hook_ok (m_Hooks m) \<and> pred_option health_ok (m_HealthCheck m)"

lemma map_ok_put_tag: "map_ok P xs \<Longrightarrow> P k v \<Longrightarrow> map_ok P (put_tag k v xs)"
  using put_tag_keys [of xs k v] by (auto simp: map_ok_def list_all_iff)

lemma map_ok_Nil [simp]: "map_ok P []"
  by (simp add: map_ok_def)

lemma port_protocol_range: "port_protocol g s = Inr p \<Longrightarrow> p \<in> set port_protocols"
  by (auto simp: port_protocol_def Let_def split: if_splits) (simp add: port_protocols_def)

lemma port_exposure_range: "port_exposure g s = Inr p \<Longrightarrow> p \<in> set port_exposures"
  by (auto simp: port_exposure_def Let_def split: if_splits) (simp add: port_exposures_def)

lemma port_call_ok: "port_call g b c = Inr b' \<Longrightarrow> binding_ok b \<Longrightarrow> binding_ok b'"
  by (auto simp: port_call_def binding_ok_def result_simps split: if_splits
      dest: port_protocol_range port_exposure_range)

lemma only_calls_invariant:
  assumes "rfold (only_calls f) x body = Inr y" and "P x" and "\<And>x c x'. f x c = Inr x' \<Longrightarrow> P x \<Longrightarrow> P x'"
  shows "P y"
  by (rule rfold_invariant [where P = P, OF assms(1,2)]) (auto simp: only_calls_def assms(3) split: Stmt.splits)

lemma ports_stmt_ok:
  assumes "ports_stmt g ports s = Inr ports'" and "map_ok (\<lambda>name b. port_key_ok name \<and> binding_ok b) ports"
  shows "map_ok (\<lambda>name b. port_key_ok name \<and> binding_ok b) ports'"
proof -
  from assms(1) obtain name body b where "port_key_ok name" and ports': "ports' = put_tag name b ports"
    and b: "rfold (only_calls (port_call g)) default_binding body = Inr b"
    by (auto simp: ports_stmt_def applyManifestPortBlock_def result_simps split: Stmt.splits if_splits)
  moreover have "binding_ok b"
    by (rule only_calls_invariant [OF b]) (simp add: binding_ok_def default_binding_def port_protocols_def port_exposures_def, rule port_call_ok)
  ultimately show ?thesis using assms(2) by (simp add: map_ok_put_tag)
qed

lemma resources_stmt_ok:
  assumes "resources_stmt g r s = Inr r'" and "map_ok (\<lambda>name b. port_key_ok name \<and> binding_ok b) (r_Ports r)"
  shows "map_ok (\<lambda>name b. port_key_ok name \<and> binding_ok b) (r_Ports r')"
proof -
  have "map_ok (\<lambda>name b. port_key_ok name \<and> binding_ok b) ports" if "rfold (ports_stmt g) (r_Ports r) body = Inr ports" for body ports
    using that assms(2) by (rule rfold_invariant) (rule ports_stmt_ok)
  with assms show ?thesis
    by (auto simp: resources_stmt_def applyManifestPortsBlock_def result_simps split: Stmt.splits if_splits)
qed

lemma kind_stmt_ok:
  assumes "kind_stmt k s = Inr k'" and "kind_ok k"
  shows "kind_ok k'"
proof -
  have "hp_Type p = name" if "rfold (only_calls probe_call) (zero_probe name) body = Inr p" for name body p
    by (rule only_calls_invariant [OF that])
      (auto simp: zero_probe_def probe_call_def result_simps split: if_splits)
  with assms show ?thesis
    by (auto simp: kind_stmt_def kind_ok_def parseHealthCheckProbeBlock_def result_simps split: Stmt.splits if_splits)
qed

lemma health_stmt_ok:
  assumes "health_stmt hc s = Inr hc'" and "health_ok hc"
  shows "health_ok hc'"
proof -
  have "kind_ok k" if "parseHealthCheckKindBlock ident body = Inr k" for ident body k
  proof -
    from that have "rfold kind_stmt zero_kind body = Inr k"
      by (simp add: parseHealthCheckKindBlock_def split: if_splits)
    then show ?thesis
      by (rule rfold_invariant) (simp add: kind_ok_def zero_kind_def, rule kind_stmt_ok)
  qed
  with assms show ?thesis
    by (auto simp: health_stmt_def health_ok_def result_simps split: Stmt.splits if_splits)
qed

lemma certs_stmt_ok: "certs_stmt certs s = Inr certs' \<Longrightarrow> map_ok (\<lambda>_ _. True) certs \<Longrightarrow> map_ok (\<lambda>_ _. True) certs'"
  by (auto simp: certs_stmt_def result_simps map_ok_put_tag split: Stmt.splits if_splits)

lemma demands_stmt_ok:
  assumes "demands_stmt d s = Inr d'" and "map_ok (\<lambda>_ _. True) (d_Config d)"
  shows "map_ok (\<lambda>_ _. True) (d_Config d')"
proof -
  have "map_ok (\<lambda>_ _. True) cfg" if "rfold (only_calls config_call) (d_Config d) body = Inr cfg" for body cfg
    using that assms(2) by (rule only_calls_invariant)
      (auto simp: config_call_def result_simps map_ok_put_tag split: if_splits)
  with assms show ?thesis
    by (auto simp: demands_stmt_def result_simps split: Stmt.splits if_splits)
qed

lemma parse_monthday_ok: "parse_monthday g v = Inr md \<Longrightarrow> md_Last md \<longrightarrow> md_Day md = 0"
  by (auto simp: parse_monthday_def split: Value.splits option.splits if_splits)

lemma rmap_list_all: "rmap f xs = Inr ys \<Longrightarrow> (\<And>x y. f x = Inr y \<Longrightarrow> P y) \<Longrightarrow> list_all P ys"
  by (induction xs arbitrary: ys) (auto simp: result_simps)

lemma ParseBlock_ok:
  assumes "ParseBlock g body = Inr sched"
  shows "schedule_read_ok sched"
proof -
  have window: "list_all (\<lambda>md. md_Last md \<longrightarrow> md_Day md = 0) (w_Monthdays w)"
    if "parseWindowBlock g b = Inr w" for b w
    using that unfolding parseWindowBlock_def
    by (rule only_calls_invariant)
      (auto simp: empty_window_def window_call_def result_simps split: if_splits dest: rmap_list_all [OF _ parse_monthday_ok])
  show ?thesis
    using assms unfolding ParseBlock_def
    by (rule rfold_invariant)
      (auto simp: schedule_read_ok_def schedule_stmt_def result_simps window split: Stmt.splits if_splits)
qed

lemma hook_stmt_ok:
  assumes "hook_stmt g h s = Inr h'" and "hook_ok name h"
  shows "hook_ok name h'"
proof -
  have "map_ok (\<lambda>_ _. True) (d_Config d)" if "rfold demands_stmt (h_Demands h) body = Inr d" for body d
    using that by (rule rfold_invariant) (use assms(2) demands_stmt_ok in \<open>auto simp: hook_ok_def\<close>)
  with assms ParseBlock_ok show ?thesis
    by (auto simp: hook_stmt_def hook_ok_def applyManifestDemandsBlock_def result_simps split: Stmt.splits if_splits)
qed

lemma applyManifestCall_blocks:
  assumes "applyManifestCall m c = Inr m'"
  shows "m_Resources m' = m_Resources m" "m_Certs m' = m_Certs m" "m_Hooks m' = m_Hooks m" "m_HealthCheck m' = m_HealthCheck m"
  using assms unfolding applyManifestCall_def by (auto simp: result_simps split: if_splits)

lemma manifest_stmt_ok:
  assumes "manifest_stmt g m s = Inr m'" and "manifest_ok m"
  shows "manifest_ok m'"
proof (cases s)
  case (CallStmt c)
  then have "applyManifestCall m c = Inr m'" using assms(1) by (simp add: manifest_stmt_def split: if_splits)
  then show ?thesis using assms(2) applyManifestCall_blocks [of m c m'] by (simp add: manifest_ok_def)
next
  case (Block name ident body)
  have "hook_ok ident h" if "ident \<noteq> []" "rfold (hook_stmt g) (zero_hook ident) body = Inr h" for h
    using that(2) by (rule rfold_invariant)
      (use that(1) hook_stmt_ok in \<open>auto simp: zero_hook_def hook_ok_def zero_demands_def\<close>)
  moreover have "map_ok (\<lambda>name b. port_key_ok name \<and> binding_ok b) (r_Ports r)"
    if "rfold (resources_stmt g) (m_Resources m) body = Inr r" for r
    using that by (rule rfold_invariant) (use assms(2) resources_stmt_ok in \<open>auto simp: manifest_ok_def\<close>)
  moreover have "health_ok hc" if "rfold health_stmt zero_health body = Inr hc" for hc
    using that by (rule rfold_invariant) (use health_stmt_ok in \<open>auto simp: zero_health_def health_ok_def\<close>)
  moreover have "map_ok (\<lambda>_ _. True) certs" if "rfold certs_stmt (m_Certs m) body = Inr certs" for certs
    using that by (rule rfold_invariant) (use assms(2) certs_stmt_ok in \<open>auto simp: manifest_ok_def\<close>)
  ultimately show ?thesis
    using assms Block
    by (auto simp: manifest_stmt_def manifest_ok_def applyManifestHook_def applyManifestResourcesBlock_def map_ok_put_tag
        applyManifestHealthCheckBlock_def applyManifestCertsBlock_def result_simps split: if_splits)
qed

lemma lowerManifestFile_ok: "lowerManifestFile g f = Inr m \<Longrightarrow> manifest_ok m"
proof -
  assume "lowerManifestFile g f = Inr m"
  then have "rfold (manifest_stmt g) zero_manifest (f_Stmts f) = Inr m"
    by (simp add: lowerManifestFile_def split: if_splits)
  then show ?thesis
    by (rule rfold_invariant) (simp add: manifest_ok_def zero_manifest_def zero_resources_def, rule manifest_stmt_ok)
qed

section \<open>What was written can be read\<close>

subsection \<open>Optional semicolons do not matter\<close>

definition ignores_semicolons :: "('a \<Rightarrow> Stmt \<Rightarrow> conf_error + 'a) \<Rightarrow> bool" where
  "ignores_semicolons f \<longleftrightarrow> (\<forall>x s. f x (plain s) = f x s)"

lemma ignores_semicolonsI:
  assumes "\<And>x c. f x (CallStmt (Call (call_Name c) (call_Args c) False)) = f x (CallStmt c)"
    and "\<And>x name ident body. f x (Block name ident (map plain body)) = f x (Block name ident body)"
  shows "ignores_semicolons f"
  unfolding ignores_semicolons_def
proof (intro allI)
  fix x s
  show "f x (plain s) = f x s" by (cases s) (simp_all add: assms)
qed

lemma rfold_plain: "ignores_semicolons f \<Longrightarrow> rfold f x (map plain ss) = rfold f x ss"
  by (induction ss arbitrary: x) (simp_all add: ignores_semicolons_def)

lemma args_plain [simp]:
  "SingleStringArg (Call n (call_Args c) b) = SingleStringArg c"
  "SingleIntArg (Call n (call_Args c) b) = SingleIntArg c"
  "SingleBoolArg (Call n (call_Args c) b) = SingleBoolArg c"
  "AsStrings (Call n (call_Args c) b) = AsStrings c"
  by (simp_all add: SingleStringArg_def SingleIntArg_def SingleBoolArg_def AsStrings_def)

lemma only_calls_plain:
  "(\<And>x c. f x (Call (call_Name c) (call_Args c) False) = f x c) \<Longrightarrow> ignores_semicolons (only_calls f)"
  by (rule ignores_semicolonsI) (simp_all add: only_calls_def split: Stmt.splits)

lemma calls_plain:
  "ignores_semicolons (only_calls (window_call g))" "ignores_semicolons (only_calls min_max_call)"
  "ignores_semicolons (only_calls (port_call g))" "ignores_semicolons (only_calls wait_call)"
  "ignores_semicolons (only_calls probe_call)" "ignores_semicolons (only_calls subject_call)"
  "ignores_semicolons (only_calls config_call)"
  by (rule only_calls_plain,
      simp add: window_call_def min_max_call_def port_call_def wait_call_def probe_call_def subject_call_def config_call_def
        cong: if_cong)+

lemma schedule_stmt_plain: "ignores_semicolons (schedule_stmt g)"
  by (rule ignores_semicolonsI) (simp_all add: schedule_stmt_def parseWindowBlock_def rfold_plain calls_plain)

lemma ports_stmt_plain: "ignores_semicolons (ports_stmt g)"
  by (rule ignores_semicolonsI) (simp_all add: ports_stmt_def applyManifestPortBlock_def rfold_plain calls_plain)

lemma resources_stmt_plain: "ignores_semicolons (resources_stmt g)"
  by (rule ignores_semicolonsI) (simp_all add: resources_stmt_def minMaxFromBlock_def applyManifestPortsBlock_def rfold_plain
      calls_plain ports_stmt_plain)

lemma kind_stmt_plain: "ignores_semicolons kind_stmt"
  by (rule ignores_semicolonsI) (simp_all add: kind_stmt_def parseHealthCheckWaitBlock_def parseHealthCheckProbeBlock_def rfold_plain
      calls_plain)

lemma health_stmt_plain: "ignores_semicolons health_stmt"
  by (rule ignores_semicolonsI) (simp_all add: health_stmt_def parseHealthCheckWaitBlock_def parseHealthCheckKindBlock_def rfold_plain
      calls_plain kind_stmt_plain)

lemma cert_stmt_plain: "ignores_semicolons cert_stmt"
  by (rule ignores_semicolonsI) (simp_all add: cert_stmt_def parseCertSubjectBlock_def rfold_plain calls_plain)

lemma certs_stmt_plain: "ignores_semicolons certs_stmt"
  by (rule ignores_semicolonsI) (simp_all add: certs_stmt_def rfold_plain cert_stmt_plain)

lemma demands_stmt_plain: "ignores_semicolons demands_stmt"
  by (rule ignores_semicolonsI) (simp_all add: demands_stmt_def rfold_plain calls_plain)

lemma hook_stmt_plain: "ignores_semicolons (hook_stmt g)"
  by (rule ignores_semicolonsI) (simp_all add: hook_stmt_def ParseBlock_def applyManifestDemandsBlock_def rfold_plain
      schedule_stmt_plain demands_stmt_plain)

lemma applyManifestCall_plain: "applyManifestCall m (Call (call_Name c) (call_Args c) False) = applyManifestCall m c"
  by (simp add: applyManifestCall_def)

lemma manifest_stmt_plain: "ignores_semicolons (manifest_stmt g)"
  by (rule ignores_semicolonsI) (simp_all add: manifest_stmt_def applyManifestHook_def applyManifestResourcesBlock_def
      applyManifestHealthCheckBlock_def applyManifestCertsBlock_def rfold_plain hook_stmt_plain resources_stmt_plain
      health_stmt_plain certs_stmt_plain applyManifestCall_plain)

lemma Blocks_plain: "Blocks name (plain_file f) = [] \<longleftrightarrow> Blocks name f = []"
proof -
  have "(case plain s of Block n i b \<Rightarrow> n = name | _ \<Rightarrow> False) = (case s of Block n i b \<Rightarrow> n = name | _ \<Rightarrow> False)" for s
    by (cases s) simp_all
  then show ?thesis by (simp add: Blocks_def plain_file_def filter_map comp_def filter_empty_conv)
qed

lemma lowerManifestFile_plain: "lowerManifestFile g (plain_file f) = lowerManifestFile g f"
proof -
  have "f_Stmts (plain_file f) = map plain (f_Stmts f)" by (simp add: plain_file_def)
  then show ?thesis by (simp add: lowerManifestFile_def Blocks_plain rfold_plain [OF manifest_stmt_plain])
qed

subsection \<open>The blocks, from the inside out\<close>

text \<open>The integers a written literal of which is read back, see \<^verbatim>\<open>AsInt\<close>.\<close>

definition int_readable :: "int \<Rightarrow> bool" where
  "int_readable n \<longleftrightarrow> - 1 \<le> n \<and> n \<le> max_int64"

lemma written_int [simp]:
  "int_readable n \<Longrightarrow> SingleIntArg (Call name [Int_lit n] b) = Inr n" "int_readable n \<Longrightarrow> AsInt (Int_lit n) = Inr n"
  by (simp_all add: SingleIntArg_def AsInt_def Int_lit_def int_readable_def)

lemma written_bool [simp]: "SingleBoolArg (Call name [BoolLit v] b) = Inr v"
  by (simp add: SingleBoolArg_def AsBool_def)

lemmas written = opt_string_def opt_strings_def opt_int_def string_call_def int_call_def bool_call_def only_calls_def
  string_call_setting

lemma rfold_entries:
  fixes xs :: "(rune list \<times> 'w) list" and acc :: "(rune list \<times> 'v) list"
  assumes "\<And>acc p. p \<in> set xs \<Longrightarrow> fst p \<notin> fst ` set acc \<Longrightarrow>
      f (st acc) (emit p) = Inr (st (put_tag (fst p) (h (snd p)) acc))"
    and "sorted (map fst acc @ map fst xs)" and "distinct (map fst acc @ map fst xs)"
  shows "rfold f (st acc) (map emit xs) = Inr (st (acc @ map (\<lambda>p. (fst p, h (snd p))) xs))"
  using assms
proof (induction xs arbitrary: acc)
  case (Cons p xs)
  let ?q = "(fst p, h (snd p))"
  have "put_tag (fst ?q) (snd ?q) acc = acc @ [?q]"
    by (rule put_tag_last [where rest = "map (\<lambda>p. (fst p, h (snd p))) xs"]) (use Cons.prems(2,3) in \<open>simp_all add: comp_def\<close>)
  moreover have "f (st acc) (emit p) = Inr (st (put_tag (fst p) (h (snd p)) acc))"
    by (rule Cons.prems(1)) (use Cons.prems(3) in auto)
  moreover have "rfold f (st (acc @ [?q])) (map emit xs) = Inr (st ((acc @ [?q]) @ map (\<lambda>p. (fst p, h (snd p))) xs))"
    by (rule Cons.IH) (use Cons.prems in auto)
  ultimately show ?case by simp
qed simp

lemma window_steps:
  "w_Recurrence w = [] \<Longrightarrow> rfold (only_calls (window_call g)) w (opt_string ''recurrence'' s) = Inr (w\<lparr>w_Recurrence := s\<rparr>)"
  "w_Days w = [] \<Longrightarrow> rfold (only_calls (window_call g)) w (opt_strings ''days'' ss) = Inr (w\<lparr>w_Days := ss\<rparr>)"
  "w_MonthlyBy w = [] \<Longrightarrow> rfold (only_calls (window_call g)) w (opt_string ''monthly_by'' s) = Inr (w\<lparr>w_MonthlyBy := s\<rparr>)"
  "w_Week w = [] \<Longrightarrow> rfold (only_calls (window_call g)) w (opt_string ''week'' s) = Inr (w\<lparr>w_Week := s\<rparr>)"
  "w_Weekday w = [] \<Longrightarrow> rfold (only_calls (window_call g)) w (opt_string ''weekday'' s) = Inr (w\<lparr>w_Weekday := s\<rparr>)"
  "w_Start w = [] \<Longrightarrow> rfold (only_calls (window_call g)) w (opt_string ''start'' s) = Inr (w\<lparr>w_Start := s\<rparr>)"
  "w_End w = [] \<Longrightarrow> rfold (only_calls (window_call g)) w (opt_string ''end'' s) = Inr (w\<lparr>w_End := s\<rparr>)"
  by (cases w; simp add: written window_call_def)+

lemma monthday_read: "md_Last md \<longrightarrow> md_Day md = 0 \<Longrightarrow> parse_monthday g (monthday_value md) = Inr md"
  by (cases md) (simp add: monthday_value_def parse_monthday_def Str_def Int_lit_def)

lemma window_lists:
  "w_Monthdays w = [] \<Longrightarrow> list_all (\<lambda>md. md_Last md \<longrightarrow> md_Day md = 0) mds \<Longrightarrow>
    rfold (only_calls (window_call g)) w (if mds \<noteq> [] then [CallStmt (Call (runes ''monthdays'') (map monthday_value mds) b)] else []) =
      Inr (w\<lparr>w_Monthdays := mds\<rparr>)"
  "w_Months w = [] \<Longrightarrow> list_all int_readable ns \<Longrightarrow>
    rfold (only_calls (window_call g)) w (if ns \<noteq> [] then [CallStmt (Call (runes ''months'') (map Int_lit ns) b)] else []) =
      Inr (w\<lparr>w_Months := ns\<rparr>)"
proof -
  have mds: "rmap (parse_monthday g) (map monthday_value mds) = Inr mds" if "list_all (\<lambda>md. md_Last md \<longrightarrow> md_Day md = 0) mds"
    using that by (induction mds) (simp_all add: monthday_read)
  have ns: "rmap AsInt (map Int_lit ns) = Inr ns" if "list_all int_readable ns"
    using that by (induction ns) simp_all
  show "w_Monthdays w = [] \<Longrightarrow> list_all (\<lambda>md. md_Last md \<longrightarrow> md_Day md = 0) mds \<Longrightarrow>
    rfold (only_calls (window_call g)) w (if mds \<noteq> [] then [CallStmt (Call (runes ''monthdays'') (map monthday_value mds) b)] else []) =
      Inr (w\<lparr>w_Monthdays := mds\<rparr>)"
    using mds by (cases w) (simp add: only_calls_def window_call_def)
  show "w_Months w = [] \<Longrightarrow> list_all int_readable ns \<Longrightarrow>
    rfold (only_calls (window_call g)) w (if ns \<noteq> [] then [CallStmt (Call (runes ''months'') (map Int_lit ns) b)] else []) =
      Inr (w\<lparr>w_Months := ns\<rparr>)"
    using ns by (cases w) (simp add: only_calls_def window_call_def)
qed

lemma emit_window_read:
  assumes "list_all int_readable (w_Months w)" and "list_all (\<lambda>md. md_Last md \<longrightarrow> md_Day md = 0) (w_Monthdays w)"
  shows "schedule_stmt g sched (emit_window w) = Inr (sched\<lparr>s_Windows := s_Windows sched @ [w]\<rparr>)"
  by (simp add: schedule_stmt_def emit_window_def parseWindowBlock_def rfold_append window_steps window_lists assms
      empty_window_def)

definition schedule_ints :: "Schedule \<Rightarrow> int list" where
  "schedule_ints s = concat (map w_Months (s_Windows s))"

lemma EmitBlock_read:
  assumes "schedule_read_ok s" and "list_all int_readable (schedule_ints s)"
  shows "rfold (schedule_stmt g) \<lparr>s_Timezone = [], s_Windows = []\<rparr>
    (opt_string ''timezone'' (s_Timezone s) @ map emit_window (s_Windows s)) = Inr s"
proof -
  have "rfold (schedule_stmt g) \<lparr>s_Timezone = tz, s_Windows = acc\<rparr> (map emit_window ws) = Inr \<lparr>s_Timezone = tz, s_Windows = acc @ ws\<rparr>"
    if "list_all (\<lambda>w. list_all int_readable (w_Months w)) ws"
      "list_all (\<lambda>w. list_all (\<lambda>md. md_Last md \<longrightarrow> md_Day md = 0) (w_Monthdays w)) ws" for tz acc ws
    using that by (induction ws arbitrary: acc) (simp_all add: emit_window_read)
  moreover have "list_all (\<lambda>w. list_all int_readable (w_Months w)) (s_Windows s)"
    using assms(2) by (auto simp: schedule_ints_def list_all_iff)
  moreover have "rfold (schedule_stmt g) \<lparr>s_Timezone = [], s_Windows = []\<rparr> (opt_string ''timezone'' (s_Timezone s)) =
      Inr \<lparr>s_Timezone = s_Timezone s, s_Windows = []\<rparr>"
    by (simp add: written schedule_stmt_def)
  ultimately show ?thesis using assms(1) by (simp add: rfold_append schedule_read_ok_def)
qed

lemma min_max_read:
  "rfold (only_calls min_max_call) ([], []) (opt_string ''min'' mn @ opt_string ''max'' mx) = Inr (mn, mx)"
  by (simp add: written min_max_call_def)

lemma clean_fixed:
  "p \<in> set port_protocols \<Longrightarrow> clean lower p = p" "p \<in> set port_exposures \<Longrightarrow> clean lower p = p"
  by (auto simp: port_protocols_def port_exposures_def clean_def ToLower_def trim_space_def IsSpace_def runes_def)

lemma port_words_nonempty: "p \<in> set port_protocols \<Longrightarrow> p \<noteq> []" "e \<in> set port_exposures \<Longrightarrow> e \<noteq> []"
  by (auto simp: port_protocols_def port_exposures_def runes_def)

lemma port_words_read:
  "p \<in> set port_protocols \<Longrightarrow> port_protocol g p = Inr p" "e \<in> set port_exposures \<Longrightarrow> port_exposure g e = Inr e"
  by (simp_all add: port_protocol_def port_exposure_def Let_def clean_fixed port_words_nonempty)

definition port_ints :: "PortBinding \<Rightarrow> int list" where
  "port_ints b = (case pb_Fixed b of None \<Rightarrow> [] | Some n \<Rightarrow> [n])"

lemma emitPortBlock_read:
  assumes "port_key_ok name" and "binding_ok b" and "list_all int_readable (port_ints b)"
  shows "ports_stmt g ports (emitPortBlock name b) = Inr (put_tag name b ports)"
proof -
  obtain f p e where b: "b = \<lparr>pb_Fixed = f, pb_Protocol = p, pb_Exposure = e\<rparr>" by (cases b)
  have words: "p \<in> set port_protocols" "e \<in> set port_exposures" using assms(2) by (simp_all add: b binding_ok_def)
  note pe = port_words_nonempty(1) [OF words(1)] port_words_nonempty(2) [OF words(2)] port_words_read(1) [OF words(1)] port_words_read(2) [OF words(2)]
  have "rfold (only_calls (port_call g)) default_binding (block_body (emitPortBlock name b)) = Inr b"
    using assms(3) pe
    by (cases f) (simp_all add: emitPortBlock_def block_body_def written port_call_def default_binding_def b port_ints_def)
  then show ?thesis
    using assms(1) by (simp add: ports_stmt_def applyManifestPortBlock_def emitPortBlock_def block_body_def)
qed

definition resources_ints :: "Resources \<Rightarrow> int list" where
  "resources_ints r = r_CPUShares r # concat (map (port_ints \<circ> snd) (r_Ports r))"

lemma emitResourcesBlock_read:
  assumes "map_ok (\<lambda>name b. port_key_ok name \<and> binding_ok b) (r_Ports r)" and "list_all int_readable (resources_ints r)"
  shows "rfold (resources_stmt g) zero_resources (resources_body r) = Inr r"
proof -
  define mem where "mem = (if r_MemoryMin r \<noteq> [] \<or> r_MemoryMax r \<noteq> [] then [emitMinMaxBlock ''memory'' (r_MemoryMin r) (r_MemoryMax r)] else [])"
  define cpu where "cpu = (if r_CPUMin r \<noteq> [] \<or> r_CPUMax r \<noteq> [] then [emitMinMaxBlock ''cpu'' (r_CPUMin r) (r_CPUMax r)] else [])"
  define ports where "ports = (if r_Ports r \<noteq> []
      then [Block (runes ''ports'') [] (map (\<lambda>p. emitPortBlock (fst p) (snd p)) (sort_key fst (r_Ports r)))] else [])"
  have mem: "rfold (resources_stmt g) zero_resources mem =
      Inr (zero_resources\<lparr>r_MemoryMin := r_MemoryMin r, r_MemoryMax := r_MemoryMax r\<rparr>)" (is "_ = Inr ?r1")
    by (simp add: mem_def resources_stmt_def emitMinMaxBlock_def minMaxFromBlock_def min_max_read) (simp add: zero_resources_def)
  have cpu: "rfold (resources_stmt g) ?r1 cpu = Inr (?r1\<lparr>r_CPUMin := r_CPUMin r, r_CPUMax := r_CPUMax r\<rparr>)" (is "_ = Inr ?r2")
    by (simp add: cpu_def resources_stmt_def emitMinMaxBlock_def minMaxFromBlock_def min_max_read) (simp add: zero_resources_def)
  have shares: "rfold (resources_stmt g) ?r2 (opt_int ''cpu_shares'' (r_CPUShares r)) = Inr (?r2\<lparr>r_CPUShares := r_CPUShares r\<rparr>)" (is "_ = Inr ?r3")
    using assms(2) by (simp add: opt_int_def int_call_def resources_stmt_def resources_ints_def) (simp add: zero_resources_def)
  have sorted: "sorted (map fst (r_Ports r))" "distinct (map fst (r_Ports r))" "sort_key fst (r_Ports r) = r_Ports r"
    using assms(1) by (simp_all add: map_ok_def sort_key_id_if_sorted)
  have "rfold (ports_stmt g) [] (map (\<lambda>p. emitPortBlock (fst p) (snd p)) (r_Ports r)) = Inr ([] @ map (\<lambda>p. (fst p, snd p)) (r_Ports r))"
    using sorted assms
    by (intro rfold_entries [where st = "\<lambda>x. x" and h = "\<lambda>b. b"] emitPortBlock_read)
      (auto simp: map_ok_def list_all_iff resources_ints_def)
  then have ports: "rfold (resources_stmt g) ?r3 ports = Inr r"
    by (simp add: ports_def resources_stmt_def applyManifestPortsBlock_def sorted(3) zero_resources_def)
  have "resources_body r = mem @ cpu @ opt_int ''cpu_shares'' (r_CPUShares r) @ ports"
    by (simp add: resources_body_def mem_def cpu_def ports_def)
  then show ?thesis
    by (simp only: rfold_append mem cpu shares ports rbind_Inr)
qed

definition wait_ints :: "HealthCheckWait option \<Rightarrow> int list" where
  "wait_ints w = (case w of None \<Rightarrow> [] | Some w \<Rightarrow> [hw_Attempts w, hw_IntervalSeconds w])"

definition kind_ints :: "HealthCheckKind option \<Rightarrow> int list" where
  "kind_ints k = (case k of None \<Rightarrow> [] | Some k \<Rightarrow> wait_ints (hk_Wait k) @ map hp_ExpectStatus (hk_Checks k))"

definition health_ints :: "ManifestHealthCheck option \<Rightarrow> int list" where
  "health_ints hc =
     (case hc of None \<Rightarrow> []
      | Some hc \<Rightarrow> hc_TimeoutSeconds hc # wait_ints (hc_Wait hc) @ kind_ints (hc_Liveness hc) @ kind_ints (hc_Readiness hc))"

lemma wait_read:
  assumes "list_all int_readable (wait_ints (Some w))"
  shows "parseHealthCheckWaitBlock [] (opt_int ''attempts'' (hw_Attempts w) @ opt_int ''interval_seconds'' (hw_IntervalSeconds w)) = Inr w"
  using assms by (cases w) (simp add: parseHealthCheckWaitBlock_def written wait_call_def zero_wait_def wait_ints_def)

lemma probe_read:
  assumes "int_readable (hp_ExpectStatus p)" and "hp_Type p \<in> set probe_types"
  shows "kind_stmt k (emitHealthCheckProbeBlock p) = Inr (k\<lparr>hk_Checks := hk_Checks k @ [p]\<rparr>)"
proof -
  have "rfold (only_calls probe_call) (zero_probe (hp_Type p))
      (opt_string ''port'' (hp_Port p) @ opt_string ''path'' (hp_Path p) @ opt_string ''command'' (hp_Command p) @
       opt_int ''expect_status'' (hp_ExpectStatus p) @ opt_string ''scheme'' (hp_Scheme p)) = Inr p"
    using assms(1) by (cases p) (simp add: written probe_call_def zero_probe_def)
  moreover have "hp_Type p \<noteq> runes ''wait''" using assms(2) by (auto simp: probe_types_def)
  ultimately show ?thesis
    using assms(2) by (simp add: kind_stmt_def emitHealthCheckProbeBlock_def parseHealthCheckProbeBlock_def)
qed

lemma kind_read:
  assumes "kind_ok k" and "list_all int_readable (kind_ints (Some k))"
  shows "parseHealthCheckKindBlock [] (opt_wait (hk_Wait k) @ map emitHealthCheckProbeBlock (hk_Checks k)) = Inr k"
proof -
  have "rfold kind_stmt (k'\<lparr>hk_Checks := acc\<rparr>) (map emitHealthCheckProbeBlock ps) = Inr (k'\<lparr>hk_Checks := acc @ ps\<rparr>)"
    if "list_all (\<lambda>p. int_readable (hp_ExpectStatus p) \<and> hp_Type p \<in> set probe_types) ps" for k' :: HealthCheckKind and acc ps
    using that by (induction ps arbitrary: acc) (simp_all add: probe_read)
  moreover have "list_all (\<lambda>p. int_readable (hp_ExpectStatus p) \<and> hp_Type p \<in> set probe_types) (hk_Checks k)"
    using assms by (auto simp: kind_ok_def kind_ints_def list_all_iff)
  moreover have "rfold kind_stmt zero_kind (opt_wait (hk_Wait k)) = Inr (k\<lparr>hk_Checks := []\<rparr>)"
    using assms(2) wait_read
    by (cases k; cases "hk_Wait k")
      (simp_all add: opt_wait_def kind_ints_def kind_stmt_def emitHealthCheckWaitBlock_def zero_kind_def)
  ultimately have "rfold kind_stmt zero_kind (opt_wait (hk_Wait k) @ map emitHealthCheckProbeBlock (hk_Checks k)) =
      Inr (k\<lparr>hk_Checks := [] @ hk_Checks k\<rparr>)"
    by (simp only: rfold_append rbind_Inr)
  then show ?thesis by (simp add: parseHealthCheckKindBlock_def)
qed

lemma health_read:
  assumes "health_ok hc" and "list_all int_readable (health_ints (Some hc))"
  shows "manifest_stmt g m (emitHealthCheckBlock hc) = Inr (m\<lparr>m_HealthCheck := Some hc\<rparr>)"
proof -
  obtain l r t w where hc: "hc = \<lparr>hc_Liveness = l, hc_Readiness = r, hc_Checks = [], hc_TimeoutSeconds = t, hc_Wait = w\<rparr>"
    using assms(1) by (cases hc) (simp add: health_ok_def)
  have ints: "int_readable t" "list_all int_readable (wait_ints w)" "list_all int_readable (kind_ints l)" "list_all int_readable (kind_ints r)"
    using assms(2) by (simp_all add: health_ints_def hc)
  have "rfold health_stmt zero_health (opt_int ''timeout_seconds'' t) = Inr (zero_health\<lparr>hc_TimeoutSeconds := t\<rparr>)"
    using ints(1) by (simp add: opt_int_def int_call_def health_stmt_def) (simp add: zero_health_def)
  moreover have "rfold health_stmt (zero_health\<lparr>hc_TimeoutSeconds := t\<rparr>) (opt_wait w) = Inr (zero_health\<lparr>hc_TimeoutSeconds := t, hc_Wait := w\<rparr>)"
    using ints(2) wait_read by (cases w) (simp_all add: opt_wait_def health_stmt_def emitHealthCheckWaitBlock_def zero_health_def)
  moreover have "rfold health_stmt (zero_health\<lparr>hc_TimeoutSeconds := t, hc_Wait := w\<rparr>) (opt_kind ''liveness'' l) =
      Inr (zero_health\<lparr>hc_TimeoutSeconds := t, hc_Wait := w, hc_Liveness := l\<rparr>)"
    using ints(3) kind_read assms(1)
    by (cases l) (simp_all add: opt_kind_def health_stmt_def emitHealthCheckKindBlock_def zero_health_def health_ok_def hc)
  moreover have "rfold health_stmt (zero_health\<lparr>hc_TimeoutSeconds := t, hc_Wait := w, hc_Liveness := l\<rparr>) (opt_kind ''readiness'' r) = Inr hc"
    using ints(4) kind_read assms(1)
    by (cases r) (simp_all add: opt_kind_def health_stmt_def emitHealthCheckKindBlock_def zero_health_def health_ok_def hc)
  ultimately have "rfold health_stmt zero_health
      (opt_int ''timeout_seconds'' t @ opt_wait w @ opt_kind ''liveness'' l @ opt_kind ''readiness'' r) = Inr hc"
    by (simp only: rfold_append rbind_Inr)
  then show ?thesis
    by (simp add: manifest_stmt_def emitHealthCheckBlock_def applyManifestHealthCheckBlock_def hc)
qed

subsection \<open>The whole file\<close>

text \<open>
  What is lost on the way: an external certificate is written without the settings of generated ones, and the
  values of a demand's configuration are written as strings, whatever they were.
\<close>

definition norm_cert :: "ManifestCert \<Rightarrow> ManifestCert" where
  "norm_cert c = (if c_External c then zero_cert\<lparr>c_External := True\<rparr> else c)"

definition norm_demands :: "go_text \<Rightarrow> Demands \<Rightarrow> Demands" where
  "norm_demands g d = d\<lparr>d_Config := map (\<lambda>p. (fst p, ConfigText (sprint g (snd p)))) (d_Config d)\<rparr>"

definition norm_hook :: "go_text \<Rightarrow> Hook \<Rightarrow> Hook" where
  "norm_hook g h = h\<lparr>h_Demands := norm_demands g (h_Demands h)\<rparr>"

definition norm_manifest :: "go_text \<Rightarrow> Manifest \<Rightarrow> Manifest" where
  "norm_manifest g m =
     m\<lparr>m_Certs := map (\<lambda>p. (fst p, norm_cert (snd p))) (m_Certs m),
       m_Hooks := map (\<lambda>p. (fst p, norm_hook g (snd p))) (m_Hooks m)\<rparr>"

lemma subject_read: "rfold (only_calls subject_call) no_subject (subject_body x) = Inr x"
  by (cases x) (simp add: written subject_call_def no_subject_def subject_body_def)

lemma subject_body_Nil: "subject_body x = [] \<longleftrightarrow> x = no_subject"
  by (cases x) (auto simp: subject_body_def opt_string_def no_subject_def split: if_splits)

lemma emit_cert_read:
  assumes "fst p \<notin> fst ` set acc"
  shows "certs_stmt acc (emit_cert p) = Inr (put_tag (fst p) (norm_cert (snd p)) acc)"
proof -
  have "map_of acc (fst p) = None" using assms by (simp add: map_of_eq_None_iff)
  moreover have "rfold cert_stmt (zero_cert, False) (block_body (emit_cert p)) = Inr (norm_cert (snd p), \<not> c_External (snd p))"
    using subject_read [of "c_Subject (snd p)"]
    by (cases "snd p")
      (simp add: emit_cert_def block_body_def cert_stmt_def bool_call_def emitCertSubjectBlock_def parseCertSubjectBlock_def
        norm_cert_def zero_cert_def subject_body_Nil)
  ultimately show ?thesis
    by (simp add: certs_stmt_def cert_of_def emit_cert_def block_body_def norm_cert_def zero_cert_def)
qed

lemma config_read:
  assumes "map_ok (\<lambda>_ _. True) cfg"
  shows "rfold (only_calls config_call) [] (map (\<lambda>p. CallStmt (Call (fst p) [StringLit (sprint g (snd p))] False)) (sort_key fst cfg)) =
    Inr (map (\<lambda>p. (fst p, ConfigText (sprint g (snd p)))) cfg)"
proof -
  have s: "sorted (map fst cfg)" "distinct (map fst cfg)" "sort_key fst cfg = cfg"
    using assms by (simp_all add: map_ok_def sort_key_id_if_sorted)
  show ?thesis
    using rfold_entries [where st = "\<lambda>x. x" and acc = "[]" and xs = cfg and h = "\<lambda>v. ConfigText (sprint g v)"
        and f = "only_calls config_call" and emit = "\<lambda>p. CallStmt (Call (fst p) [StringLit (sprint g (snd p))] False)"] s
    by (simp add: only_calls_def config_call_def)
qed

lemma demands_read:
  assumes "map_ok (\<lambda>_ _. True) (d_Config d)"
  shows "rfold demands_stmt zero_demands (block_body (emitDemandsBlock g d)) = Inr (norm_demands g d)"
  using config_read [OF assms, of g]
  by (cases d) (simp add: emitDemandsBlock_def block_body_def opt_string_def string_call_def demands_stmt_def
      string_call_setting zero_demands_def norm_demands_def)

definition hook_ints :: "Hook \<Rightarrow> int list" where
  "hook_ints h = (case h_Schedule h of None \<Rightarrow> [] | Some s \<Rightarrow> schedule_ints s)"

lemma emit_hook_read:
  assumes "hook_ok (fst p) (snd p)" and "list_all int_readable (hook_ints (snd p))"
  shows "manifest_stmt g m (emit_hook g p) = Inr (m\<lparr>m_Hooks := put_tag (fst p) (norm_hook g (snd p)) (m_Hooks m)\<rparr>)"
proof -
  obtain name ons desc sched d where h: "snd p = \<lparr>h_Name = name, h_ExecutedOn = ons, h_Description = desc, h_Schedule = sched, h_Demands = d\<rparr>"
    by (cases "snd p")
  have name: "fst p = name" "name \<noteq> []" and cfg: "map_ok (\<lambda>_ _. True) (d_Config d)"
    using assms(1) by (simp_all add: hook_ok_def h)
  let ?h = "\<lambda>sched d. \<lparr>h_Name = name, h_ExecutedOn = ons, h_Description = desc, h_Schedule = sched, h_Demands = d\<rparr>"
  have calls: "rfold (hook_stmt g) (zero_hook name) (opt_strings ''executed_on'' ons @ opt_string ''description'' desc) = Inr (?h None zero_demands)"
    by (simp add: written hook_stmt_def zero_hook_def)
  have schedule: "rfold (hook_stmt g) (?h None zero_demands) (case sched of None \<Rightarrow> [] | Some s \<Rightarrow> [EmitBlock s]) = Inr (?h sched zero_demands)"
    using assms EmitBlock_read by (cases sched) (simp_all add: hook_ok_def hook_ints_def h hook_stmt_def EmitBlock_def ParseBlock_def)
  have demands: "rfold (hook_stmt g) (?h sched zero_demands)
      (if d_Job d \<noteq> [] \<or> d_Hook d \<noteq> [] \<or> d_Config d \<noteq> [] then [emitDemandsBlock g d] else []) = Inr (?h sched (norm_demands g d))"
  proof (cases "d_Job d \<noteq> [] \<or> d_Hook d \<noteq> [] \<or> d_Config d \<noteq> []")
    case True
    then show ?thesis
      using demands_read [OF cfg, of g]
      by (simp add: hook_stmt_def applyManifestDemandsBlock_def emitDemandsBlock_def block_body_def)
  next
    case False
    then show ?thesis by (cases d) (simp add: norm_demands_def zero_demands_def)
  qed
  have "rfold (hook_stmt g) (zero_hook name) (block_body (emit_hook g p)) = Inr (norm_hook g (snd p))"
    using calls schedule demands
    by (simp only: emit_hook_def Let_def block_body_def Stmt.case h Hook.simps append_assoc [symmetric])
      (simp add: rfold_append norm_hook_def del: append_assoc)
  then show ?thesis
    using name by (simp add: manifest_stmt_def applyManifestHook_def emit_hook_def block_body_def Let_def)
qed

lemma manifest_strings:
  "m_Version m = [] \<Longrightarrow> rfold (manifest_stmt g) m (opt_string ''version'' s) = Inr (m\<lparr>m_Version := s\<rparr>)"
  "m_Description m = [] \<Longrightarrow> rfold (manifest_stmt g) m (opt_string ''description'' s) = Inr (m\<lparr>m_Description := s\<rparr>)"
  "m_RestartPolicy m = [] \<Longrightarrow> rfold (manifest_stmt g) m (opt_string ''restart_policy'' s) = Inr (m\<lparr>m_RestartPolicy := s\<rparr>)"
  "m_Selectors m = [] \<Longrightarrow> rfold (manifest_stmt g) m (opt_strings ''selectors'' ss) = Inr (m\<lparr>m_Selectors := ss\<rparr>)"
  "m_RestartGlobs m = [] \<Longrightarrow> rfold (manifest_stmt g) m (opt_strings ''restart_globs'' ss) = Inr (m\<lparr>m_RestartGlobs := ss\<rparr>)"
  "m_ReloadGlobs m = [] \<Longrightarrow> rfold (manifest_stmt g) m (opt_strings ''reload_globs'' ss) = Inr (m\<lparr>m_ReloadGlobs := ss\<rparr>)"
  "m_BackwardCompatibilityFrom m = [] \<Longrightarrow>
    rfold (manifest_stmt g) m (opt_strings ''backward_compatibility_from'' ss) = Inr (m\<lparr>m_BackwardCompatibilityFrom := ss\<rparr>)"
  by (cases m; simp add: opt_string_def opt_strings_def string_call_def manifest_stmt_def applyManifestCall_def string_call_setting)+

lemma manifest_numbers:
  "int_readable n \<Longrightarrow> m_DeploymentPriority m = 0 \<Longrightarrow>
    rfold (manifest_stmt g) m (opt_int ''deployment_priority'' n) = Inr (m\<lparr>m_DeploymentPriority := n\<rparr>)"
  "int_readable n \<Longrightarrow> m_MaxConcurrentRestarts m = 0 \<Longrightarrow>
    rfold (manifest_stmt g) m (opt_int ''max_concurrent_restarts'' n) = Inr (m\<lparr>m_MaxConcurrentRestarts := n\<rparr>)"
  "int_readable n \<Longrightarrow> m_MaxConcurrentStarts m = 0 \<Longrightarrow>
    rfold (manifest_stmt g) m (opt_int ''max_concurrent_starts'' n) = Inr (m\<lparr>m_MaxConcurrentStarts := n\<rparr>)"
  "int_readable n \<Longrightarrow> m_MaxConcurrentStops m = 0 \<Longrightarrow>
    rfold (manifest_stmt g) m (opt_int ''max_concurrent_stops'' n) = Inr (m\<lparr>m_MaxConcurrentStops := n\<rparr>)"
  "int_readable n \<Longrightarrow> m_MinAllocationsCount m = 0 \<Longrightarrow>
    rfold (manifest_stmt g) m (opt_int ''min_allocations_count'' n) = Inr (m\<lparr>m_MinAllocationsCount := n\<rparr>)"
  "\<not> m_AllowRollback m \<Longrightarrow>
    rfold (manifest_stmt g) m (if b then [bool_call ''allow_rollback'' True] else []) = Inr (m\<lparr>m_AllowRollback := b\<rparr>)"
  by (cases m; simp add: opt_int_def int_call_def bool_call_def manifest_stmt_def applyManifestCall_def)+

definition manifest_ints :: "Manifest \<Rightarrow> int list" where
  "manifest_ints m =
     [m_DeploymentPriority m, m_MaxConcurrentRestarts m, m_MaxConcurrentStarts m, m_MaxConcurrentStops m,
      m_MinAllocationsCount m] @ resources_ints (m_Resources m) @ health_ints (m_HealthCheck m) @
     concat (map (hook_ints \<circ> snd) (m_Hooks m))"

lemma manifest_blocks:
  assumes "manifest_ok m" and "list_all int_readable (manifest_ints m)"
  shows "m_Resources x = zero_resources \<Longrightarrow>
      rfold (manifest_stmt g) x (emitResourcesBlock (m_Resources m)) = Inr (x\<lparr>m_Resources := m_Resources m\<rparr>)"
    and "m_HealthCheck x = None \<Longrightarrow>
      rfold (manifest_stmt g) x (case m_HealthCheck m of None \<Rightarrow> [] | Some hc \<Rightarrow> [emitHealthCheckBlock hc]) =
        Inr (x\<lparr>m_HealthCheck := m_HealthCheck m\<rparr>)"
    and "m_Certs x = [] \<Longrightarrow> rfold (manifest_stmt g) x (emitCertsBlock (m_Certs m)) =
      Inr (x\<lparr>m_Certs := map (\<lambda>p. (fst p, norm_cert (snd p))) (m_Certs m)\<rparr>)"
    and "m_Hooks x = [] \<Longrightarrow> rfold (manifest_stmt g) x (map (emit_hook g) (sort_key fst (m_Hooks m))) =
      Inr (x\<lparr>m_Hooks := map (\<lambda>p. (fst p, norm_hook g (snd p))) (m_Hooks m)\<rparr>)"
proof -
  have parts: "map_ok (\<lambda>name b. port_key_ok name \<and> binding_ok b) (r_Ports (m_Resources m))" "map_ok (\<lambda>_ _. True) (m_Certs m)"
    "map_ok hook_ok (m_Hooks m)" "pred_option health_ok (m_HealthCheck m)"
    using assms(1) by (simp_all add: manifest_ok_def)
  have ints: "list_all int_readable (resources_ints (m_Resources m))" "list_all int_readable (health_ints (m_HealthCheck m))"
    "\<forall>p\<in>set (m_Hooks m). list_all int_readable (hook_ints (snd p))"
    using assms(2) by (auto simp: manifest_ints_def list_all_iff)
  have resources: "rfold (resources_stmt g) zero_resources (resources_body (m_Resources m)) = Inr (m_Resources m)"
    using parts(1) ints(1) by (rule emitResourcesBlock_read)
  show "rfold (manifest_stmt g) x (emitResourcesBlock (m_Resources m)) = Inr (x\<lparr>m_Resources := m_Resources m\<rparr>)"
    if "m_Resources x = zero_resources"
    using that resources
    by (cases x; cases "resources_body (m_Resources m) = []")
      (simp_all add: emitResourcesBlock_def manifest_stmt_def applyManifestResourcesBlock_def)
  show "rfold (manifest_stmt g) x (case m_HealthCheck m of None \<Rightarrow> [] | Some hc \<Rightarrow> [emitHealthCheckBlock hc]) =
        Inr (x\<lparr>m_HealthCheck := m_HealthCheck m\<rparr>)" if "m_HealthCheck x = None"
    using that parts(4) ints(2) health_read by (cases x; cases "m_HealthCheck m") simp_all
  have certs: "sorted (map fst (m_Certs m))" "distinct (map fst (m_Certs m))" "sort_key fst (m_Certs m) = m_Certs m"
    using parts(2) by (simp_all add: map_ok_def sort_key_id_if_sorted)
  have "rfold certs_stmt [] (map emit_cert (m_Certs m)) = Inr ([] @ map (\<lambda>p. (fst p, norm_cert (snd p))) (m_Certs m))"
    by (rule rfold_entries [where st = "\<lambda>x. x"]) (use certs emit_cert_read in auto)
  then show "rfold (manifest_stmt g) x (emitCertsBlock (m_Certs m)) =
      Inr (x\<lparr>m_Certs := map (\<lambda>p. (fst p, norm_cert (snd p))) (m_Certs m)\<rparr>)" if "m_Certs x = []"
    using that by (cases x) (simp add: emitCertsBlock_def manifest_stmt_def applyManifestCertsBlock_def certs(3))
  have hooks: "sorted (map fst (m_Hooks m))" "distinct (map fst (m_Hooks m))" "sort_key fst (m_Hooks m) = m_Hooks m"
    using parts(3) by (simp_all add: map_ok_def sort_key_id_if_sorted)
  show "rfold (manifest_stmt g) x (map (emit_hook g) (sort_key fst (m_Hooks m))) =
      Inr (x\<lparr>m_Hooks := map (\<lambda>p. (fst p, norm_hook g (snd p))) (m_Hooks m)\<rparr>)" if "m_Hooks x = []"
  proof -
    have "rfold (manifest_stmt g) (x\<lparr>m_Hooks := []\<rparr>) (map (emit_hook g) (m_Hooks m)) =
        Inr (x\<lparr>m_Hooks := [] @ map (\<lambda>p. (fst p, norm_hook g (snd p))) (m_Hooks m)\<rparr>)"
      by (rule rfold_entries [where st = "\<lambda>hs. x\<lparr>m_Hooks := hs\<rparr>"])
        (use hooks parts(3) ints(3) emit_hook_read in \<open>auto simp: map_ok_def list_all_iff\<close>)
    moreover have "x\<lparr>m_Hooks := []\<rparr> = x" using that by (cases x) simp
    ultimately show ?thesis by (simp add: hooks(3))
  qed
qed

lemma manifest_read:
  assumes "manifest_ok m" and "list_all int_readable (manifest_ints m)"
  shows "lowerManifestFile g (manifest_file g m) = Inr (norm_manifest g m)"
proof -
  have "Blocks (runes ''job'') (manifest_file g m) = []"
    by (auto simp: Blocks_def manifest_file_def opt_string_def opt_strings_def opt_int_def string_call_def int_call_def
        bool_call_def emitResourcesBlock_def emitHealthCheckBlock_def emitCertsBlock_def emit_hook_def Let_def
        filter_empty_conv split: option.splits)
  moreover have "list_all int_readable [m_DeploymentPriority m, m_MaxConcurrentRestarts m, m_MaxConcurrentStarts m,
      m_MaxConcurrentStops m, m_MinAllocationsCount m]"
    using assms(2) by (simp add: manifest_ints_def)
  ultimately show ?thesis
    by (simp add: lowerManifestFile_def manifest_file_def rfold_append manifest_strings manifest_numbers
        manifest_blocks [OF assms] zero_manifest_def) (cases m, simp add: norm_manifest_def)
qed

text \<open>Writing a manifest or its normal form gives the same text.\<close>

lemma sort_key_entries:
  fixes xs :: "(rune list \<times> 'v) list"
  shows "sort_key fst (map (\<lambda>p. (fst p, h (snd p))) xs) = map (\<lambda>p. (fst p, h (snd p))) (sort_key fst xs)"
proof -
  have "insort_key fst (fst p, h (snd p)) (map (\<lambda>p. (fst p, h (snd p))) ys) = map (\<lambda>p. (fst p, h (snd p))) (insort_key fst p ys)"
    for p and ys :: "(rune list \<times> 'v) list"
    by (induction ys) simp_all
  then show ?thesis by (induction xs) simp_all
qed

lemma norm_cert_idem: "norm_cert (norm_cert c) = norm_cert c"
  by (simp add: norm_cert_def zero_cert_def)

lemma emit_norm:
  "emit_cert (k, norm_cert c) = emit_cert (k, c)" "emitDemandsBlock g (norm_demands g d) = emitDemandsBlock g d"
  "emit_hook g (k, norm_hook g h) = emit_hook g (k, h)"
proof -
  show "emit_cert (k, norm_cert c) = emit_cert (k, c)"
    by (simp add: norm_cert_def zero_cert_def emit_cert_def)
  show demands: "emitDemandsBlock g (norm_demands g d) = emitDemandsBlock g d" for d
    using sort_key_entries [of "\<lambda>v. ConfigText (sprint g v)"]
    by (simp add: emitDemandsBlock_def norm_demands_def comp_def sprint_def [of g "ConfigText _"])
  show "emit_hook g (k, norm_hook g h) = emit_hook g (k, h)"
    by (simp add: emit_hook_def norm_hook_def demands Let_def) (simp add: norm_demands_def)
qed

lemma manifest_file_norm: "manifest_file g (norm_manifest g m) = manifest_file g m"
proof -
  have "map emit_cert (map (\<lambda>p. (fst p, norm_cert (snd p))) cs) = map emit_cert cs" for cs
    by (simp add: comp_def emit_norm)
  moreover have "map (emit_hook g) (map (\<lambda>p. (fst p, norm_hook g (snd p))) hs) = map (emit_hook g) hs" for hs
    by (simp add: comp_def emit_norm)
  ultimately show ?thesis
    unfolding manifest_file_def norm_manifest_def emitCertsBlock_def
    by (simp add: sort_key_entries del: map_map)
qed

section \<open>The properties of job files\<close>

text \<open>
  C40. A manifest read from a job file is well formed: its maps have every key once, ports have valid names, a known
  protocol and a known exposure, hooks carry the name they are filed under, probes have a known type and are all under
  liveness or readiness, and the schedule entries for the last day of a month carry no day number.
\<close>

theorem ParseJobConf_type: "ParseJobConf g u src = Inr m \<Longrightarrow> manifest_ok m"
  by (auto simp: ParseJobConf_def result_simps intro: lowerManifestFile_ok)


section \<open>Examples\<close>

definition plain_text :: go_text where
  "plain_text = \<lparr>gt_lower = (\<lambda>r. r), gt_trunc = (\<lambda>_. 0), gt_float = (\<lambda>s. s)\<rparr>"

definition sample_job_file :: File where
  "sample_job_file = \<lparr>f_Version = 0, f_Stmts =
     [string_call ''version'' [runes ''1.0''], int_call ''deployment_priority'' 5,
      Block (runes ''resources'') [] [Block (runes ''ports'') []
        [Block (runes ''web_http'') [] [string_call ''protocol'' [runes ''http'']]]],
      Block (runes ''certs'') [] [Block (runes ''tls'') [] [bool_call ''external'' True]],
      Block (runes ''hook'') (runes ''ready'')
        [Block (runes ''demands'') [] [string_call ''job'' [runes ''db''], Block (runes ''config'') [] [int_call ''minor'' 2]]]]\<rparr>"

definition sample_manifest :: Manifest where
  "sample_manifest = zero_manifest\<lparr>m_Version := runes ''1.0'', m_DeploymentPriority := 5,
     m_Resources := zero_resources\<lparr>r_Ports := [(runes ''web_http'', default_binding\<lparr>pb_Protocol := runes ''http''\<rparr>)]\<rparr>,
     m_Certs := [(runes ''tls'', zero_cert\<lparr>c_External := True\<rparr>)],
     m_Hooks := [(runes ''ready'', (zero_hook (runes ''ready''))\<lparr>h_Demands :=
       \<lparr>d_Job = runes ''db'', d_Hook = [], d_Config = [(runes ''minor'', ConfigNumber 2)]\<rparr>\<rparr>)]\<rparr>"

lemma sample_literals:
  "value_ok ascii_only (Int_lit 5)" "value_ok ascii_only (Int_lit 2)" "value_depth (Int_lit 5) = 0" "value_depth (Int_lit 2) = 0"
  "emitValue (Int_lit 5) = [53]" "emitValue (Int_lit 2) = [50]"
proof -
  show "value_ok ascii_only (Int_lit 5)" "value_ok ascii_only (Int_lit 2)"
    by (rule Itoa_literal, simp add: in_int64_def min_int64_def max_int64_def)+
qed (simp_all add: Int_lit_def Itoa_def show_nat.simps runes_def digit_char_def)

lemma sample_job_limits:
  "within_limits ascii_only sample_job_file" "byte_len (Emit [] sample_job_file) \<le> MaxSourceBytes"
  by (simp_all add: within_limits_def sample_job_file_def bool_call_def sample_literals is_block_def sample_eval)

lemma sample_job_read: "lowerManifestFile plain_text sample_job_file = Inr sample_manifest"
proof -
  have ok: "port_key_ok (runes ''web_http'')" by (simp add: port_key_ok_def trim_space_def IsSpace_def runes_def Let_def)
  have http: "port_protocol plain_text (runes ''http'') = Inr (runes ''http'')"
    by (rule port_words_read) (simp add: port_protocols_def)
  have ints: "int_readable 5" "int_readable 2" by (simp_all add: int_readable_def max_int64_def)
  show ?thesis
    by (simp add: lowerManifestFile_def sample_job_file_def Blocks_def manifest_stmt_def string_call_def int_call_def
        bool_call_def applyManifestCall_def string_call_setting ints applyManifestResourcesBlock_def resources_stmt_def
        applyManifestPortsBlock_def ports_stmt_def applyManifestPortBlock_def ok only_calls_def port_call_def http
        applyManifestCertsBlock_def certs_stmt_def cert_stmt_def cert_of_def applyManifestHook_def hook_stmt_def
        applyManifestDemandsBlock_def demands_stmt_def config_call_def put_tag_def)
      (simp add: sample_manifest_def zero_manifest_def zero_resources_def zero_cert_def zero_hook_def zero_demands_def Int_lit_def)
qed

lemma sample_job_parse: "ParseJobConf plain_text ascii_only (Emit [] sample_job_file) = Inr sample_manifest"
proof -
  have "plain_file sample_job_file = sample_job_file" "in_int64 (f_Version sample_job_file)"
    by (simp_all add: plain_file_def sample_job_file_def string_call_def int_call_def bool_call_def in_int64_def
        min_int64_def max_int64_def)
  then have "Parse ascii_only (Emit [] sample_job_file) = Inr sample_job_file"
    using Parse_Emit [of ascii_only sample_job_file "[]"] sample_job_limits by simp
  then show ?thesis using sample_job_read by (simp add: ParseJobConf_def)
qed

theorem ParseJobConf_type_witness: "manifest_ok sample_manifest"
  using ParseJobConf_type [OF sample_job_parse] by simp

lemma sample_job_written:
  "manifest_file plain_text sample_manifest = \<lparr>f_Version = 0, f_Stmts =
     [string_call ''version'' [runes ''1.0''], int_call ''deployment_priority'' 5,
      Block (runes ''resources'') [] [Block (runes ''ports'') []
        [Block (runes ''web_http'') [] [string_call ''protocol'' [runes ''http'']]]],
      Block (runes ''certs'') [] [Block (runes ''tls'') [] [bool_call ''external'' True]],
      Block (runes ''hook'') (runes ''ready'')
        [Block (runes ''demands'') [] [string_call ''job'' [runes ''db''], Block (runes ''config'') [] [string_call ''minor'' [runes ''2'']]]]]\<rparr>"
  by (simp add: manifest_file_def sample_manifest_def zero_manifest_def zero_resources_def zero_cert_def zero_hook_def
      zero_demands_def opt_string_def opt_strings_def opt_int_def emitResourcesBlock_def resources_body_def emitPortBlock_def
      default_binding_def emitCertsBlock_def emit_cert_def emit_hook_def emitDemandsBlock_def sprint_def Let_def)
    (simp add: string_call_def Itoa_def show_nat.simps digit_char_def runes_def)


text \<open>
  Whether an external certificate has other settings is only checked within one block: two blocks of the same name are
  merged into an entry that one block with the same statements would not be accepted for.
\<close>

lemma external_cert_merged:
  "rfold certs_stmt [] [Block name [] [bool_call ''pkcs8'' True], Block name [] [bool_call ''external'' True]] =
    Inr [(name, zero_cert\<lparr>c_PKCS8 := True, c_External := True\<rparr>)]"
  "rfold certs_stmt [] [Block name [] [bool_call ''pkcs8'' True, bool_call ''external'' True]] = Inl SyntaxError"
  by (simp_all add: certs_stmt_def cert_stmt_def bool_call_def cert_of_def put_tag_def zero_cert_def)

section \<open>Health checks\<close>

text \<open>
  After normalisation every kind of check has a wait, no probe is outside a kind, no probe was lost, and normalising
  again changes nothing.
\<close>

lemma health_Normalize_wait:
  "WaitFor (health_Normalize (Some hc)) kind \<noteq> None"
  "health_Normalize (health_Normalize h) = health_Normalize h"
  "set (LivenessChecks (health_Normalize (Some hc))) \<union> set (ReadinessChecks (health_Normalize (Some hc))) =
    set (LivenessChecks (Some hc)) \<union> set (ReadinessChecks (Some hc)) \<union> set (hc_Checks hc)"
proof -
  show "WaitFor (health_Normalize (Some hc)) kind \<noteq> None"
    by (auto simp: WaitFor_def health_Normalize_def Let_def)
  show "health_Normalize (health_Normalize h) = health_Normalize h"
    by (cases h) (auto simp: health_Normalize_def Let_def)
  show "set (LivenessChecks (health_Normalize (Some hc))) \<union> set (ReadinessChecks (health_Normalize (Some hc))) =
    set (LivenessChecks (Some hc)) \<union> set (ReadinessChecks (Some hc)) \<union> set (hc_Checks hc)"
    by (auto simp: health_Normalize_def Let_def LivenessChecks_def ReadinessChecks_def HasLivenessProbes_def
        HasReadinessProbes_def HasProbes_def zero_kind_def split: option.splits)
qed

text \<open>A manifest passes the check exactly when every probe of either kind is usable.\<close>

lemma ValidateHealthCheck_iff:
  "ValidateHealthCheck g m = Inr () \<longleftrightarrow>
    (\<forall>p \<in> set (LivenessChecks (m_HealthCheck m)) \<union> set (ReadinessChecks (m_HealthCheck m)).
       \<not> probe_problem g (fst ` set (r_Ports (m_Resources m))) p)"
  by (auto simp: ValidateHealthCheck_def validateProbeList_def Let_def HasAnyProbes_def LivenessChecks_def ReadinessChecks_def
      list_ex_iff)

end
