(* ===== verification/Spec2Isabelle.thy ===== *)
theory Spec2Isabelle
  imports Ports Sequence Deploy_Run Semaphore Kv Disabled_Conf Placement Gc Manifest_Conf
begin

text \<open>
  Verification of Kive, an agentless workload orchestrator written in Go.

  A \<^emph>\<open>bucket\<close> is a directory with a workspace (\<^verbatim>\<open>workers.conf\<close>, \<^verbatim>\<open>disabled.conf\<close> and one \<^verbatim>\<open>job.conf\<close> per job) and a
  SQLite catalog. \<^verbatim>\<open>build\<close> reads the workspace, gives every job its place on workers, its ports and its position
  in the deployment order, and writes the result to the catalog. \<^verbatim>\<open>deploy\<close> compares the pending with the
  applied state of every allocation and rolls the changes out over SSH, batch by batch, with hooks, health
  gates and a history of runs. Hooks talk to a local server with a key-value store and semaphores. \<^verbatim>\<open>gc\<close> deletes
  what the catalog has marked removed. The development follows this flow; paths below are relative to \<^verbatim>\<open>src/\<close>.

  \<^bold>\<open>Foundations.\<close>
  \<^item> \<open>Kive_Prelude\<close>: the error sentinels of \<^verbatim>\<open>bucket/errors.go\<close>, results \<open>error + 'a\<close>, loops that stop at the first
    error (\<open>rfold\<close>), reachable states of a step relation, and the locale \<open>invariant_system\<close>.
  \<^item> \<open>Go_Strings\<close>: what the code uses of \<^verbatim>\<open>strings\<close>, \<^verbatim>\<open>strconv\<close> and \<^verbatim>\<open>unicode\<close>.
  \<^item> \<open>Calendar\<close>: the Gregorian calendar, instants and locations of \<^verbatim>\<open>time\<close>.

  \<^bold>\<open>The configuration language and the files written in it.\<close>
  \<^item> \<open>Conf\<close>: lexer, recursive-descent parser with its limits, printer and accessors (\<^verbatim>\<open>conf/\<close>). The parser
    terminates with a file or a proper error for every source.
  \<^item> \<open>Conf_Roundtrip\<close>: accepted files respect the limits; printing and parsing return the same file. Its locale
    \<open>conf_document\<close> carries this over to every record type that is read from and written as a document.
  \<^item> \<open>Workers_Conf\<close>, \<open>Disabled_Conf\<close>: \<^verbatim>\<open>workspace/workers_conf.go\<close>, \<^verbatim>\<open>workspace/workers_file.go\<close>,
    \<^verbatim>\<open>workspace/disabled_conf.go\<close>; both interpret \<open>conf_document\<close>.
  \<^item> \<open>Manifest_Conf\<close>: \<^verbatim>\<open>workspace/job_conf.go\<close>, \<^verbatim>\<open>workspace/types.go\<close>, \<^verbatim>\<open>workspace/health_check.go\<close>,
    \<^verbatim>\<open>workspace/manifest.go\<close> and \<^verbatim>\<open>schedule/conf.go\<close>: what a manifest that was read satisfies, and how far writing
    and reading it again is the identity.

  \<^bold>\<open>Rules without state.\<close>
  \<^item> \<open>Versions\<close>: versions, specifiers and constraints (\<^verbatim>\<open>workspace/version*.go\<close>); a linear order, with the locale
    \<open>three_way\<close> for comparison functions.
  \<^item> \<open>Batches\<close>: \<^verbatim>\<open>utils/batch.go\<close>, \<^verbatim>\<open>utils/sets.go\<close>, \<^verbatim>\<open>hooks/batch.go\<close>, \<^verbatim>\<open>deploy/filters.go\<close>; the locale \<open>batching\<close> is
    interpreted for the splitter and for the iterator.
  \<^item> \<open>Rollout_Order\<close> (\<^verbatim>\<open>rollout/order.go\<close>), \<open>Path_Match\<close> (\<^verbatim>\<open>utils/pathmatch/glob.go\<close>) and \<open>Rollout_Policy\<close>
    (\<^verbatim>\<open>data/file_manifest.go\<close>, \<^verbatim>\<open>workspace/restart_policy.go\<close>, \<^verbatim>\<open>deploy/rollout_policy.go\<close>): in which order allocations are
    visited, and whether a change of files restarts, reloads or only syncs them.
  \<^item> \<open>Schedule\<close>: recurring allow windows (\<^verbatim>\<open>schedule/schedule.go\<close>): validation, evaluation, the once-per-opening
    rule and the search for the next opening.

  \<^bold>\<open>The catalog and the build.\<close>
  \<^item> \<open>Catalog\<close>: the tables as a record of lists of rows, with one definition per query and update of \<^verbatim>\<open>data/*.go\<close>;
    key constraints as an invariant of every reachable catalog; the locale \<open>keyed_update\<close> for the updates of one
    allocation (\<open>promote\<close>, \<open>health_fail\<close>, \<open>start_pending\<close>, \<open>live_clear\<close>).
  \<^item> \<open>Ports\<close>: port range, allocator and \<^verbatim>\<open>job_ports\<close> (\<^verbatim>\<open>bucket/port_range.go\<close>, \<^verbatim>\<open>workspace/ports.go\<close>, \<^verbatim>\<open>data/job_ports.go\<close>,
    \<^verbatim>\<open>build/build_ports.go\<close>).
  \<^item> \<open>Sequence\<close>: hook demands, cycle check, dependency levels, deployment order (\<^verbatim>\<open>build/validate_demands.go\<close>,
    \<^verbatim>\<open>build/build_deployment_sequence.go\<close>, \<^verbatim>\<open>build/build_deployment_order.go\<close>).
  \<^item> \<open>Placement\<close>: public identities, allocation of jobs to workers, and the checks before a deploy
    (\<^verbatim>\<open>build/build_allocations.go\<close>, \<^verbatim>\<open>build/allocation_versions.go\<close>, \<^verbatim>\<open>build/validate*.go\<close>, \<^verbatim>\<open>data/public_id.go\<close>).

  \<^bold>\<open>The deploy.\<close>
  \<^item> \<open>Deploy\<close>: the rollout of one job (\<^verbatim>\<open>deploy/job_deploy.go\<close>, \<^verbatim>\<open>deploy/rollout.go\<close>, \<^verbatim>\<open>deploy/allocations.go\<close>,
    \<^verbatim>\<open>deploy/hashes.go\<close>, \<^verbatim>\<open>deploy/batch_hooks.go\<close>, \<^verbatim>\<open>deploy/parallel.go\<close> and others) as an action on a \<open>world\<close>: catalog,
    generation and the trace of effects on workers. \<open>effect_relation\<close> and \<open>rollout_relation\<close> prove once for every
    action that it respects a relation on worlds; \<open>frame\<close> and \<open>same_cat\<close> are the instances.
  \<^item> \<open>Deploy_Run\<close>: the whole run (\<^verbatim>\<open>deploy/execute.go\<close>, \<^verbatim>\<open>deploy/history.go\<close>, \<^verbatim>\<open>deploy/prepare.go\<close>, \<^verbatim>\<open>deploy/plan_hash.go\<close>
    and others), with reconciliation of removed and disabled allocations (\<open>stop_relation\<close>), history, commit and
    rollback; instances \<open>stop_frame\<close>, \<open>plan_effect\<close>, \<open>quiet\<close>, \<open>gone_rows\<close>.

  \<^bold>\<open>Services and upkeep.\<close>
  \<^item> \<open>Semaphore\<close>: \<^verbatim>\<open>hooks/runtime_semaphore*.go\<close>, every operation under the mutex as one step.
  \<^item> \<open>Kv\<close>: \<^verbatim>\<open>kv/\<close>: the store refines a partial map (locale \<open>value_store\<close>), its versioned rows, secrets and readers.
  \<^item> \<open>Revisions\<close>: \<^verbatim>\<open>sourcerevision/\<close>, \<^verbatim>\<open>data/promotion_state.go\<close>, \<^verbatim>\<open>data/deploy_history.go\<close> and their pruning.
  \<^item> \<open>Gc\<close>: \<^verbatim>\<open>gc/\<close>, which composes catalog, store and history.

  \<open>invariant_system\<close> is interpreted for the step relations of the catalog, the store, the port allocator and
  the semaphores (\<open>catalog_machine\<close>, \<open>kv_machine\<close>, \<open>port_machine\<close>, \<open>sem_machine\<close>).

  \<^bold>\<open>Conventions.\<close> A table is a list of rows and a statement a function on it; an \<^verbatim>\<open>UPDATE\<close> maps over the rows,
  a \<^verbatim>\<open>DELETE\<close> filters them, an upsert searches the key. A local SQL statement does not fail for reasons of its
  own, a commit may; a failed transaction leaves the tables as before. Functions that the code runs in
  parallel on several workers are run one after the other: their effects on the catalog are on disjoint rows,
  and the trace is one of the possible orders. Errors are compared by sentinel and their texts are dropped.
  Go integers are unbounded except where their width decides a result: literals of the configuration language
  and their conversion to \<^verbatim>\<open>int\<close>, the acquire timeout and the expiry of a value.

  \<^bold>\<open>Arguments.\<close> What is not in the repository is an argument of the definitions: SHA-256, the Unicode tables
  and lower case above ASCII, the time-zone database, the text of a float, the cipher of secrets, clock
  readings, and the environments \<open>deploy_env\<close>, \<open>io_env\<close> and \<open>gc_env\<close>, which decide for every remote or file
  action whether it fails, in the deploy depending on all that happened before. The theorems hold for every
  choice of these, or name what they need of it as a hypothesis.

  \<^bold>\<open>Bounds.\<close> The parser carries \<open>2 * length tokens + 2\<close> as fuel, and \<open>Parse_terminates\<close> shows that it is never
  used up: a nested call consumes a token after at most two calls. The cycle check carries one more than the
  number of jobs as nesting depth, which suffices because each level marks a new job. The recursive query of
  the sequence step is a partial function, and \<open>BuildDeploymentSequence_levels\<close> shows that it returns. The
  backward search for a weekday gets 32 steps, one more than the longest month has days. The limits of eight
  days of minutes and of 400 days are those of the code.

  \<^bold>\<open>Not modelled.\<close> Processes, SSH, rsync and HTTP; X.509 certificates and signatures; expansion of templates;
  generated monitoring files; command-line parsing and printing of tables; opening and migrating the database;
  the legacy JSON files; comparisons of memory and CPU on floats. Where the deploy calls such code, the
  call is an event of the trace that may fail.

  \<^bold>\<open>Main results.\<close>
  \<^item> Deploy: a generation that was kept means that every selected job is settled; a rollout without error leaves
    no allocation pending; a failing one keeps earlier batches, marks the failing one and spares later ones; for
    every pattern of failures only hash rows of the job change; reconciliation touches removed allocations only;
    the history row tells the truth.
  \<^item> Build: placement is exactly what selectors, labels and \<^verbatim>\<open>disabled.conf\<close> say, and stable; port numbers are
    unique; the cycle check is correct and a demanded job comes first.
  \<^item> Configuration: termination, limits and round trips of the language, of workers and of manifests.
  \<^item> Schedules: an instant is allowed exactly inside an interval of a window, and the search for the next
    opening finds the first one in a zone with one offset.
  \<^item> Services: the store refines a map and survives persisting; semaphores never exceed their capacity, although
    a cancelled acquire can leave a permit behind; pruning and collection delete only what is unreferenced.
\<close>

end
